(* ===== verification/Prelude.thy ===== *)
theory Prelude
  imports Main "HOL-Library.Char_ord" "HOL-Library.List_Lexorder" "HOL-Library.Word"
begin

section \<open>Shared vocabulary of the development\<close>

text \<open>
  Types, collections and generic lemmas that every component uses:
  \<^item> \<open>error\<close> and \<open>result\<close>: the code's \<open>error::Error\<close> (a message, empty for success,
    \<open>include/miniocpp/error.h\<close>) and \<open>tl::expected<T, error::Error>\<close>;
  \<^item> decimal printing (\<open>std::to_string\<close>), \<open>std::string::find\<close> and \<open>rfind\<close>,
    \<open>std::getline\<close> splitting;
  \<^item> \<open>std::map\<close> as a strictly sorted association list behind the locale
    \<open>ordered_map\<close>, \<open>std::set\<close> as a strictly sorted list.
  A \<open>std::string\<close> is a list of bytes, that is, of HOL's \<open>char\<close>; its order is the
  bytewise lexicographic one, as for \<open>std::string::compare\<close>.
\<close>

named_theorems str_simps \<open>equations of the string helpers\<close>
named_theorems wf_intros \<open>well-formedness is kept by the operations\<close>
named_theorems err_simps \<open>unfolding of chained validations\<close>

type_synonym error = string
type_synonym 'a result = "string + 'a"
type_synonym u8 = "8 word"
type_synonym u32 = "32 word"
type_synonym u64 = "64 word"

subsection \<open>Errors\<close>

text \<open>\<open>error::Error\<close> is a message; \<open>explicit operator bool\<close> is "the message is not
  empty", so a default-constructed \<open>Error\<close> is success.\<close>

definition SUCCESS :: error where
  "SUCCESS = []"

definition is_err :: "error \<Rightarrow> bool" where
  "is_err e \<longleftrightarrow> e \<noteq> []"

text \<open>\<open>if (error::Error err = A) return err; B\<close>\<close>

definition err_then :: "error \<Rightarrow> error \<Rightarrow> error" where
  "err_then a b = (if is_err a then a else b)"

lemma is_err_SUCCESS [simp]: "\<not> is_err SUCCESS"
  by (simp add: is_err_def SUCCESS_def)

lemma not_is_err_iff: "\<not> is_err e \<longleftrightarrow> e = SUCCESS"
  by (simp add: is_err_def SUCCESS_def)

lemma is_err_Cons [simp]: "is_err (c # cs)"
  by (simp add: is_err_def)

lemma is_err_append [simp]: "is_err (a @ b) \<longleftrightarrow> is_err a \<or> is_err b"
  by (simp add: is_err_def)

lemma SUCCESS_neq_Cons [simp]: "(c # cs) \<noteq> SUCCESS" "SUCCESS \<noteq> (c # cs)"
  by (simp_all add: SUCCESS_def)

lemma append_eq_SUCCESS [simp]: "a @ b = SUCCESS \<longleftrightarrow> a = SUCCESS \<and> b = SUCCESS"
  by (simp add: SUCCESS_def)

lemma err_then_SUCCESS [err_simps]:
  "err_then a b = SUCCESS \<longleftrightarrow> a = SUCCESS \<and> b = SUCCESS"
  by (auto simp: err_then_def is_err_def SUCCESS_def)

lemma err_then_left [simp]: "err_then SUCCESS b = b"
  by (simp add: err_then_def)

subsection \<open>Decimal printing\<close>

definition digit_char :: "nat \<Rightarrow> char" where
  "digit_char d = char_of (48 + d)"

fun to_string :: "nat \<Rightarrow> string" where
  "to_string n = (if n < 10 then [digit_char n] else to_string (n div 10) @ [digit_char (n mod 10)])"

declare to_string.simps [simp del]

definition is_digit :: "char \<Rightarrow> bool" where
  "is_digit c \<longleftrightarrow> 48 \<le> (of_char c :: nat) \<and> (of_char c :: nat) \<le> 57"

definition digit_val :: "char \<Rightarrow> nat" where
  "digit_val c = of_char c - 48"

text \<open>The value of a run of digits, most significant first.\<close>

definition digits_val :: "nat \<Rightarrow> string \<Rightarrow> nat" where
  "digits_val = foldl (\<lambda>n c. 10 * n + digit_val c)"

lemma of_char_digit_char: "d < 10 \<Longrightarrow> (of_char (digit_char d) :: nat) = 48 + d"
  by (simp add: digit_char_def)

lemma is_digit_digit_char [simp]: "d < 10 \<Longrightarrow> is_digit (digit_char d)"
  by (simp add: is_digit_def of_char_digit_char)

lemma digit_val_digit_char [simp]: "d < 10 \<Longrightarrow> digit_val (digit_char d) = d"
  by (simp add: digit_val_def of_char_digit_char)

lemma to_string_nonempty [simp]: "to_string n \<noteq> []"
  by (subst to_string.simps) simp

lemma to_string_digits: "c \<in> set (to_string n) \<Longrightarrow> is_digit c"
proof (induction n rule: to_string.induct)
  case (1 n)
  then show ?case
    by (cases "n < 10") (auto simp: to_string.simps [of n])
qed

lemma to_string_val: "digits_val 0 (to_string n) = n"
proof (induction n rule: to_string.induct)
  case (1 n)
  show ?case
  proof (cases "n < 10")
    case True
    then show ?thesis by (simp add: to_string.simps [of n] digits_val_def)
  next
    case False
    with 1 have "digits_val 0 (to_string (n div 10)) = n div 10" by simp
    with False show ?thesis by (simp add: to_string.simps [of n] digits_val_def)
  qed
qed

lemma to_string_inj [simp]: "to_string a = to_string b \<longleftrightarrow> a = b"
  by (metis to_string_val)

subsection \<open>Searching in strings\<close>

fun is_prefix :: "string \<Rightarrow> string \<Rightarrow> bool" where
  "is_prefix [] s = True"
| "is_prefix (p # ps) [] = False"
| "is_prefix (p # ps) (c # cs) = (p = c \<and> is_prefix ps cs)"

lemma is_prefix_iff: "is_prefix p s \<longleftrightarrow> (\<exists>r. s = p @ r)"
  by (induction p s rule: is_prefix.induct) auto

text \<open>\<open>s.find(p)\<close>: the position of the first occurrence, \<open>None\<close> for \<open>npos\<close>.\<close>

fun str_find :: "string \<Rightarrow> string \<Rightarrow> nat option" where
  "str_find [] p = (if p = [] then Some 0 else None)"
| "str_find (c # s) p = (if is_prefix p (c # s) then Some 0 else map_option Suc (str_find s p))"

text \<open>\<open>s.rfind(p)\<close>: the position of the last occurrence.\<close>

fun str_rfind :: "string \<Rightarrow> string \<Rightarrow> nat option" where
  "str_rfind [] p = (if p = [] then Some 0 else None)"
| "str_rfind (c # s) p =
     (case str_rfind s p of
        Some i \<Rightarrow> Some (Suc i)
      | None \<Rightarrow> if is_prefix p (c # s) then Some 0 else None)"

lemma str_find_Some:
  "str_find s p = Some i \<Longrightarrow> i \<le> length s \<and> (\<exists>r. drop i s = p @ r)"
  by (induction s arbitrary: i) (auto simp: is_prefix_iff split: if_splits)

lemma str_find_None: "str_find s p = None \<Longrightarrow> s \<noteq> a @ p @ b"
proof (induction s arbitrary: a)
  case Nil
  then show ?case by (auto split: if_splits)
next
  case (Cons c s)
  then show ?case by (cases a) (auto simp: is_prefix_iff split: if_splits)
qed

lemma str_find_char: "str_find s [c] = (if c \<in> set s then Some (length (takeWhile (\<lambda>x. x \<noteq> c) s)) else None)"
  by (induction s) auto

lemma str_rfind_Some:
  "str_rfind s p = Some i \<Longrightarrow> i \<le> length s \<and> (\<exists>r. drop i s = p @ r)"
proof (induction s arbitrary: i)
  case (Cons c s)
  show ?case
  proof (cases "str_rfind s p")
    case None
    with Cons.prems show ?thesis by (auto simp: is_prefix_iff split: if_splits)
  next
    case (Some j)
    with Cons.prems have "i = Suc j" by simp
    with Cons.IH [OF Some] show ?thesis by simp
  qed
qed (auto split: if_splits)

subsection \<open>std::getline\<close>

text \<open>
  \<open>while (std::getline(ss, token, d)) ...\<close> yields the pieces between delimiters; an empty
  piece after the last delimiter is not produced, because the extraction then fails.
\<close>

fun getline_tokens :: "char \<Rightarrow> string \<Rightarrow> string \<Rightarrow> string list" where
  "getline_tokens d cur [] = (if cur = [] then [] else [rev cur])"
| "getline_tokens d cur (c # s) =
     (if c = d then rev cur # getline_tokens d [] s else getline_tokens d (c # cur) s)"

definition tokens :: "char \<Rightarrow> string \<Rightarrow> string list" where
  "tokens d s = getline_tokens d [] s"

text \<open>
  The value the variable holds when such a loop ends: the last piece, or empty when the
  string ends in a delimiter (the failing call has erased the variable before extracting).
\<close>

definition getline_final :: "char \<Rightarrow> string \<Rightarrow> string" where
  "getline_final d s = rev (takeWhile (\<lambda>c. c \<noteq> d) (rev s))"

lemma getline_tokens_no_delim:
  "t \<in> set (getline_tokens d cur s) \<Longrightarrow> d \<notin> set cur \<Longrightarrow> d \<notin> set t"
  by (induction d cur s rule: getline_tokens.induct) (auto split: if_splits)

lemma tokens_no_delim: "t \<in> set (tokens d s) \<Longrightarrow> d \<notin> set t"
  unfolding tokens_def by (erule getline_tokens_no_delim) simp

lemma getline_tokens_cur:
  "d \<notin> set s \<Longrightarrow> getline_tokens d cur s = (if cur = [] \<and> s = [] then [] else [rev cur @ s])"
  by (induction s arbitrary: cur) auto

text \<open>Pieces joined by the delimiter are split again into the same pieces.\<close>

lemma getline_tokens_walk:
  "d \<notin> set p \<Longrightarrow> getline_tokens d cur (p @ s) = getline_tokens d (rev p @ cur) s"
  by (induction p arbitrary: cur) auto

lemma getline_tokens_joined:
  "cur \<noteq> [] \<Longrightarrow> (\<forall>p \<in> set ps. p \<noteq> [] \<and> d \<notin> set p) \<Longrightarrow>
     getline_tokens d cur (concat (map (\<lambda>p. d # p) ps)) = rev cur # ps"
proof (induction ps arbitrary: cur)
  case (Cons p ps)
  then show ?case by (simp add: getline_tokens_walk)
qed simp

lemma tokens_joined:
  assumes "\<forall>q \<in> set (p # ps). q \<noteq> [] \<and> d \<notin> set q"
  shows "tokens d (p @ concat (map (\<lambda>q. d # q) ps)) = p # ps"
  using assms getline_tokens_joined [of "rev p" ps d] by (simp add: tokens_def getline_tokens_walk)

lemma getline_final_no_delim: "d \<notin> set (getline_final d s)"
  unfolding getline_final_def by (auto dest: set_takeWhileD)

lemma getline_final_snoc: "d \<notin> set t \<Longrightarrow> getline_final d (s @ d # t) = t"
  unfolding getline_final_def by (simp add: takeWhile_append)

lemma getline_final_id: "d \<notin> set t \<Longrightarrow> getline_final d t = t"
proof -
  assume "d \<notin> set t"
  then have "takeWhile (\<lambda>c. c \<noteq> d) (rev t) = rev t"
    by (intro takeWhile_eq_all_conv [THEN iffD2]) auto
  then show ?thesis unfolding getline_final_def by (simp only: rev_rev_ident)
qed

subsection \<open>std::map and std::set\<close>

text \<open>
  A \<open>std::map\<close> is a strictly sorted association list. \<open>smap_upd k f m\<close> is
  \<open>m[k] = f(m[k])\<close>, where the old value is absent for a new key. A \<open>std::set\<close> is a
  strictly sorted list, its \<open>insert\<close> the library's \<open>insort_insert\<close>.
\<close>

fun smap_upd :: "'k::linorder \<Rightarrow> ('v option \<Rightarrow> 'v) \<Rightarrow> ('k \<times> 'v) list \<Rightarrow> ('k \<times> 'v) list" where
  "smap_upd k f [] = [(k, f None)]"
| "smap_upd k f ((k', v) # m) =
     (if k < k' then (k, f None) # (k', v) # m
      else if k = k' then (k', f (Some v)) # m
      else (k', v) # smap_upd k f m)"

definition smap_put :: "'k::linorder \<Rightarrow> 'v \<Rightarrow> ('k \<times> 'v) list \<Rightarrow> ('k \<times> 'v) list" where
  "smap_put k v m = smap_upd k (\<lambda>_. v) m"

definition smap_erase :: "'k \<Rightarrow> ('k \<times> 'v) list \<Rightarrow> ('k \<times> 'v) list" where
  "smap_erase k m = filter (\<lambda>p. fst p \<noteq> k) m"

definition smap_wf :: "('k::linorder \<times> 'v) list \<Rightarrow> bool" where
  "smap_wf m \<longleftrightarrow> sorted_wrt (<) (map fst m)"

definition sset_wf :: "'a::linorder list \<Rightarrow> bool" where
  "sset_wf xs \<longleftrightarrow> sorted_wrt (<) xs"

text \<open>What the code relies on when it uses an ordered map, whatever the representation.\<close>

locale ordered_map =
  fixes upd :: "'k::linorder \<Rightarrow> ('v option \<Rightarrow> 'v) \<Rightarrow> 'm \<Rightarrow> 'm"
    and erase :: "'k \<Rightarrow> 'm \<Rightarrow> 'm"
    and lookup :: "'m \<Rightarrow> 'k \<Rightarrow> 'v option"
    and items :: "'m \<Rightarrow> ('k \<times> 'v) list"
    and wf :: "'m \<Rightarrow> bool"
  assumes lookup_upd: "wf m \<Longrightarrow> lookup (upd k f m) = (lookup m)(k \<mapsto> f (lookup m k))"
    and lookup_erase: "wf m \<Longrightarrow> lookup (erase k m) = (lookup m)(k := None)"
    and lookup_items: "wf m \<Longrightarrow> lookup m = map_of (items m)"
    and items_sorted: "wf m \<Longrightarrow> sorted_wrt (<) (map fst (items m))"
    and wf_upd: "wf m \<Longrightarrow> wf (upd k f m)"
    and wf_erase: "wf m \<Longrightarrow> wf (erase k m)"
begin

lemma wf_fold_upd: "wf m \<Longrightarrow> wf (foldl (\<lambda>m (k, f). upd k f m) m kfs)"
  by (induction kfs arbitrary: m) (auto simp: wf_upd)

lemma dom_upd: "wf m \<Longrightarrow> dom (lookup (upd k f m)) = insert k (dom (lookup m))"
  by (simp add: lookup_upd)

lemma items_distinct: "wf m \<Longrightarrow> distinct (map fst (items m))"
  using items_sorted strict_sorted_iff by blast

lemma items_dom: "wf m \<Longrightarrow> fst ` set (items m) = dom (lookup m)"
  by (simp add: lookup_items dom_map_of_conv_image_fst)

lemma items_iff: "wf m \<Longrightarrow> (k, v) \<in> set (items m) \<longleftrightarrow> lookup m k = Some v"
  by (simp add: lookup_items items_distinct)

lemma upd_upd: "wf m \<Longrightarrow> lookup (upd k f (upd k g m)) = lookup (upd k (f \<circ> Some \<circ> g) m)"
  by (simp add: lookup_upd wf_upd)

lemma erase_upd: "wf m \<Longrightarrow> lookup (erase k (upd k f m)) = lookup (erase k m)"
  by (simp add: lookup_upd lookup_erase wf_upd)

end

lemma smap_upd_fst: "fst ` set (smap_upd k f m) = insert k (fst ` set m)"
  by (induction k f m rule: smap_upd.induct) auto

lemma smap_wf_Nil [simp, wf_intros]: "smap_wf []"
  by (simp add: smap_wf_def)

lemma smap_wf_Cons: "smap_wf ((k, v) # m) \<longleftrightarrow> (\<forall>k' \<in> fst ` set m. k < k') \<and> smap_wf m"
  by (simp add: smap_wf_def)

lemma smap_wf_upd [wf_intros]: "smap_wf m \<Longrightarrow> smap_wf (smap_upd k f m)"
  by (induction k f m rule: smap_upd.induct)
    (auto simp: smap_wf_Cons smap_upd_fst intro: less_trans)

lemma smap_wf_erase [wf_intros]: "smap_wf m \<Longrightarrow> smap_wf (smap_erase k m)"
  by (induction m) (auto simp: smap_wf_def smap_erase_def)

lemma smap_lookup_None: "(\<forall>k' \<in> fst ` set m. (k::'k::linorder) < k') \<Longrightarrow> map_of m k = None"
  unfolding map_of_eq_None_iff by (metis less_irrefl)

lemma smap_lookup_upd:
  "smap_wf m \<Longrightarrow> map_of (smap_upd k f m) = (map_of m)(k \<mapsto> f (map_of m k))"
proof (induction k f m rule: smap_upd.induct)
  case (2 k f k' v m)
  have "k < k' \<Longrightarrow> map_of m k = None"
    using 2 by (intro smap_lookup_None) (auto simp: smap_wf_Cons)
  with 2 show ?case by (auto simp: smap_wf_Cons fun_eq_iff)
qed (simp add: fun_eq_iff)

lemma smap_lookup_erase: "map_of (smap_erase k m) = (map_of m)(k := None)"
  by (induction m) (auto simp: smap_erase_def fun_eq_iff)

interpretation smap: ordered_map smap_upd smap_erase map_of "\<lambda>m. m" smap_wf
  by unfold_locales
    (simp_all add: smap_lookup_upd smap_lookup_erase smap_wf_upd smap_wf_erase, simp add: smap_wf_def)

lemma smap_lookup_put:
  "smap_wf m \<Longrightarrow> map_of (smap_put k v m) = (map_of m)(k \<mapsto> v)"
  by (simp add: smap_put_def smap.lookup_upd)

lemma smap_wf_put [wf_intros]: "smap_wf m \<Longrightarrow> smap_wf (smap_put k v m)"
  by (simp add: smap_put_def smap_wf_upd)

lemma sset_wf_Nil [simp, wf_intros]: "sset_wf []"
  by (simp add: sset_wf_def)

lemma sset_wf_insert [wf_intros]: "sset_wf xs \<Longrightarrow> sset_wf (insort_insert x xs)"
  unfolding sset_wf_def strict_sorted_iff
  by (simp add: sorted_insort_insert distinct_insort_insert)

lemma sset_wf_fold_insert [wf_intros]:
  "sset_wf xs \<Longrightarrow> sset_wf (foldl (\<lambda>s x. insort_insert x s) xs ys)"
  by (induction ys arbitrary: xs) (simp_all add: sset_wf_insert)

lemma set_fold_insert [simp]:
  "set (foldl (\<lambda>s x. insort_insert x s) xs ys) = set xs \<union> set ys"
  by (induction ys arbitrary: xs) (auto simp: set_insort_insert)

lemma insort_insert_nonempty [simp]: "insort_insert x xs \<noteq> []"
  using set_insort_insert [of x xs] by (metis empty_iff insert_iff list.set(1))

lemma sset_eqI: "sset_wf xs \<Longrightarrow> sset_wf ys \<Longrightarrow> set xs = set ys \<Longrightarrow> xs = ys"
  unfolding sset_wf_def strict_sorted_iff by (simp add: sorted_distinct_set_unique)

subsection \<open>Codecs\<close>

text \<open>An encoder with a decoder that undoes it: what the code relies on where one side of
  the wire writes and the other reads.\<close>

locale codec =
  fixes enc :: "'a \<Rightarrow> 'b" and dec :: "'b \<Rightarrow> 'c" and val :: "'a \<Rightarrow> 'c" and ok :: "'a \<Rightarrow> bool"
  assumes dec_enc: "ok x \<Longrightarrow> dec (enc x) = val x"
    and val_inj: "ok x \<Longrightarrow> ok y \<Longrightarrow> val x = val y \<Longrightarrow> x = y"
begin

lemma enc_inj: "ok x \<Longrightarrow> ok y \<Longrightarrow> enc x = enc y \<longleftrightarrow> x = y"
  using dec_enc val_inj by metis

lemma map_enc_inj: "list_all ok xs \<Longrightarrow> list_all ok ys \<Longrightarrow> map enc xs = map enc ys \<longleftrightarrow> xs = ys"
proof (induction xs arbitrary: ys)
  case (Cons x xs)
  then show ?case by (cases ys) (auto simp: enc_inj)
qed auto

end

interpretation decimal: codec to_string "digits_val 0" "\<lambda>n. n" "\<lambda>_. True"
  by unfold_locales (auto simp: to_string_val)

end
