(* ===== verification/Regex.thy ===== *)
theory Regex
  imports Prelude
begin

section \<open>std::regex: backtracking matching\<close>

text \<open>
  The repository validates bucket names, regions and host names with \<open>std::regex\<close>
  (ECMAScript grammar). The standard library's matcher tries alternatives from left to
  right and repetitions greedily, and takes the first way that succeeds. A matcher that
  lists, in that order, every rest of the input a regex can leave behind models this:
  its head is the match the library reports, and it is non-empty exactly when the library
  finds a match. Only the operators the repository's patterns use are modelled; a class is
  the list of its ranges. \<open>$\<close> is the end of the input.
\<close>

datatype rx =
    Eps
  | Cls "(char \<times> char) list"
  | AnyCh
  | Seq rx rx
  | Alt rx rx
  | Star rx
  | UpTo nat rx
  | NotAhead rx
  | AtEnd

text \<open>\<open>tolower\<close> and \<open>toupper\<close> in the C locale change ASCII letters only.\<close>

definition to_lower_char :: "char \<Rightarrow> char" where
  "to_lower_char c =
     (let n = of_char c :: nat in if 65 \<le> n \<and> n \<le> 90 then char_of (n + 32) else c)"

definition to_upper_char :: "char \<Rightarrow> char" where
  "to_upper_char c =
     (let n = of_char c :: nat in if 97 \<le> n \<and> n \<le> 122 then char_of (n - 32) else c)"

definition in_range :: "char \<Rightarrow> char \<times> char \<Rightarrow> bool" where
  "in_range c r \<longleftrightarrow> fst r \<le> c \<and> c \<le> snd r"

text \<open>With \<open>icase\<close> a range holds a character if it holds its lower or its upper form.\<close>

definition cls_has :: "bool \<Rightarrow> (char \<times> char) list \<Rightarrow> char \<Rightarrow> bool" where
  "cls_has icase rs c =
     (if icase then list_ex (in_range (to_lower_char c)) rs \<or> list_ex (in_range (to_upper_char c)) rs
      else list_ex (in_range c) rs)"

text \<open>Greedy repetition over a matcher \<open>f\<close>; the fuel bounds the iterations. An iteration
  of a \<open>*\<close> that consumes nothing is not taken.\<close>

primrec star_iter :: "nat \<Rightarrow> (string \<Rightarrow> string list) \<Rightarrow> string \<Rightarrow> string list" where
  "star_iter 0 f s = [s]"
| "star_iter (Suc n) f s =
     concat (map (\<lambda>t. if length t < length s then star_iter n f t else []) (f s)) @ [s]"

primrec upto_iter :: "nat \<Rightarrow> (string \<Rightarrow> string list) \<Rightarrow> string \<Rightarrow> string list" where
  "upto_iter 0 f s = [s]"
| "upto_iter (Suc n) f s = concat (map (upto_iter n f) (f s)) @ [s]"

primrec rx_m :: "bool \<Rightarrow> rx \<Rightarrow> string \<Rightarrow> string list" where
  "rx_m ic Eps s = [s]"
| "rx_m ic (Cls rs) s =
     (case s of [] \<Rightarrow> [] | c # t \<Rightarrow> if cls_has ic rs c then [t] else [])"
| "rx_m ic AnyCh s =
     (case s of [] \<Rightarrow> [] | c # t \<Rightarrow> if c = CHR 0x0A \<or> c = CHR 0x0D then [] else [t])"
| "rx_m ic (Seq a b) s = concat (map (rx_m ic b) (rx_m ic a s))"
| "rx_m ic (Alt a b) s = rx_m ic a s @ rx_m ic b s"
| "rx_m ic (Star a) s = star_iter (length s) (rx_m ic a) s"
| "rx_m ic (UpTo n a) s = upto_iter n (rx_m ic a) s"
| "rx_m ic (NotAhead a) s = (if rx_m ic a s = [] then [s] else [])"
| "rx_m ic AtEnd s = (if s = [] then [s] else [])"

text \<open>\<open>std::regex_match\<close>: the whole input; \<open>std::regex_search\<close> with a pattern that starts
  with \<open>^\<close>: a prefix. The length of the reported match is that of the first way.\<close>

definition rx_full :: "bool \<Rightarrow> rx \<Rightarrow> string \<Rightarrow> bool" where
  "rx_full ic r s \<longleftrightarrow> [] \<in> set (rx_m ic r s)"

definition rx_prefix :: "bool \<Rightarrow> rx \<Rightarrow> string \<Rightarrow> bool" where
  "rx_prefix ic r s \<longleftrightarrow> rx_m ic r s \<noteq> []"

definition rx_match_len :: "bool \<Rightarrow> rx \<Rightarrow> string \<Rightarrow> nat" where
  "rx_match_len ic r s = (case rx_m ic r s of [] \<Rightarrow> 0 | t # _ \<Rightarrow> length s - length t)"

text \<open>\<open>std::regex_search\<close> with an unanchored pattern tries every start position.\<close>

fun rx_search :: "bool \<Rightarrow> rx \<Rightarrow> string \<Rightarrow> bool" where
  "rx_search ic r [] = (rx_m ic r [] \<noteq> [])"
| "rx_search ic r (c # s) = (rx_m ic r (c # s) \<noteq> [] \<or> rx_search ic r s)"

text \<open>Abbreviations for building patterns.\<close>

fun lit :: "string \<Rightarrow> rx" where
  "lit [] = Eps"
| "lit (c # cs) = Seq (Cls [(c, c)]) (lit cs)"

definition Plus :: "rx \<Rightarrow> rx" where
  "Plus r = Seq r (Star r)"

primrec Exactly :: "nat \<Rightarrow> rx \<Rightarrow> rx" where
  "Exactly 0 r = Eps"
| "Exactly (Suc n) r = Seq r (Exactly n r)"

text \<open>\<open>r{m,n}\<close>\<close>

definition Between :: "nat \<Rightarrow> nat \<Rightarrow> rx \<Rightarrow> rx" where
  "Between m n r = Seq (Exactly m r) (UpTo (n - m) r)"

subsection \<open>The declarative reading\<close>

text \<open>\<open>derives ic r s t\<close>: \<open>r\<close> can consume \<open>s\<close> up to the rest \<open>t\<close>. The rules do not mention
  the order in which the matcher tries things, or its fuel; a lookahead is a rule with a
  negative side condition, so it is stated over the matcher's own verdict.\<close>

inductive derives :: "bool \<Rightarrow> rx \<Rightarrow> string \<Rightarrow> string \<Rightarrow> bool" for ic :: bool where
  d_eps: "derives ic Eps s s"
| d_cls: "cls_has ic rs c \<Longrightarrow> derives ic (Cls rs) (c # s) s"
| d_any: "c \<noteq> CHR 0x0A \<Longrightarrow> c \<noteq> CHR 0x0D \<Longrightarrow> derives ic AnyCh (c # s) s"
| d_seq: "derives ic a s t \<Longrightarrow> derives ic b t u \<Longrightarrow> derives ic (Seq a b) s u"
| d_alt1: "derives ic a s t \<Longrightarrow> derives ic (Alt a b) s t"
| d_alt2: "derives ic b s t \<Longrightarrow> derives ic (Alt a b) s t"
| d_star0: "derives ic (Star a) s s"
| d_star: "derives ic a s t \<Longrightarrow> derives ic (Star a) t u \<Longrightarrow> derives ic (Star a) s u"
| d_upto0: "derives ic (UpTo n a) s s"
| d_upto: "derives ic a s t \<Longrightarrow> derives ic (UpTo n a) t u \<Longrightarrow> derives ic (UpTo (Suc n) a) s u"
| d_not: "rx_m ic a s = [] \<Longrightarrow> derives ic (NotAhead a) s s"
| d_end: "derives ic AtEnd [] []"

inductive_simps derives_simps [simp]:
  "derives ic Eps s t"
  "derives ic (Cls rs) s t"
  "derives ic AnyCh s t"
  "derives ic (Seq a b) s t"
  "derives ic (Alt a b) s t"
  "derives ic (NotAhead a) s t"
  "derives ic AtEnd s t"

inductive_cases derives_UpToE: "derives ic (UpTo n a) s t"

lemma derives_length: "derives ic r s t \<Longrightarrow> length t \<le> length s"
  by (induction rule: derives.induct) auto

lemma derives_suffix: "derives ic r s t \<Longrightarrow> \<exists>w. s = w @ t"
  by (induction rule: derives.induct) auto

text \<open>A repetition can be taken to make progress in every iteration.\<close>

inductive star_progress :: "bool \<Rightarrow> rx \<Rightarrow> string \<Rightarrow> string \<Rightarrow> bool" for ic a where
  sp0: "star_progress ic a s s"
| sp1: "derives ic a s t \<Longrightarrow> length t < length s \<Longrightarrow> star_progress ic a t u
        \<Longrightarrow> star_progress ic a s u"

lemma star_progress_derives: "star_progress ic a s t \<Longrightarrow> derives ic (Star a) s t"
  by (induction rule: star_progress.induct) (auto intro: derives.intros)

lemma same_length_suffix: "derives ic a s t \<Longrightarrow> \<not> length t < length s \<Longrightarrow> t = s"
  using derives_suffix derives_length by fastforce

lemma derives_star_progress: "derives ic (Star a) s t \<Longrightarrow> star_progress ic a s t"
proof (induction "Star a" s t rule: derives.induct)
  case (d_star s t u)
  then show ?case
    by (cases "length t < length s") (auto intro: star_progress.intros dest: same_length_suffix)
qed (auto intro: star_progress.intros)

lemma star_progress_len: "star_progress ic a s t \<Longrightarrow> length t \<le> length s"
  by (induction rule: star_progress.induct) auto

lemma star_iter_sound:
  assumes "\<And>s t. t \<in> set (f s) \<Longrightarrow> derives ic a s t"
  shows "t \<in> set (star_iter n f s) \<Longrightarrow> star_progress ic a s t"
proof (induction n arbitrary: s)
  case (Suc n)
  then show ?case
    by (auto split: if_splits intro: star_progress.intros dest!: assms)
qed (simp add: sp0)

lemma star_iter_complete:
  assumes "\<And>s t. derives ic a s t \<Longrightarrow> t \<in> set (f s)"
  shows "star_progress ic a s t \<Longrightarrow> length s \<le> n \<Longrightarrow> t \<in> set (star_iter n f s)"
proof (induction arbitrary: n rule: star_progress.induct)
  case (sp0 s)
  then show ?case by (cases n) auto
next
  case (sp1 s t u)
  then obtain m where m: "n = Suc m" by (cases n) auto
  with sp1 have "u \<in> set (star_iter m f t)" by auto
  with sp1.hyps m show ?case by (auto intro!: bexI [of _ t] assms)
qed

lemma upto_iter_iff:
  assumes "\<And>s t. t \<in> set (f s) \<longleftrightarrow> derives ic a s t"
  shows "t \<in> set (upto_iter n f s) \<longleftrightarrow> derives ic (UpTo n a) s t"
proof (induction n arbitrary: s)
  case 0
  then show ?case by (auto intro: derives.intros elim: derives_UpToE)
next
  case (Suc n)
  show ?case
    by (auto simp: Suc assms intro: derives.intros elim: derives_UpToE)
qed

text \<open>The matcher is sound and complete for the declarative reading.\<close>

lemma rx_m_iff: "t \<in> set (rx_m ic r s) \<longleftrightarrow> derives ic r s t"
proof (induction r arbitrary: s t)
  case (Star a)
  have "t \<in> set (star_iter (length s) (rx_m ic a) s) \<longleftrightarrow> star_progress ic a s t"
    using star_iter_sound [of "rx_m ic a" ic a] star_iter_complete [of ic a "rx_m ic a"] Star
    by blast
  then show ?case
    using star_progress_derives derives_star_progress by auto
next
  case (UpTo n a)
  then show ?case by (simp add: upto_iter_iff)
qed (auto split: list.splits if_splits)

lemma rx_full_iff: "rx_full ic r s \<longleftrightarrow> derives ic r s []"
  by (simp add: rx_full_def rx_m_iff)

lemma rx_prefix_iff: "rx_prefix ic r s \<longleftrightarrow> (\<exists>t. derives ic r s t)"
  by (metis rx_prefix_def rx_m_iff all_not_in_conv set_empty)

subsection \<open>Repetition of a class\<close>

lemma derives_lit [simp]: "derives False (lit w) s t \<longleftrightarrow> s = w @ t"
proof (induction w arbitrary: s)
  case (Cons c w)
  then show ?case by (cases s) (auto simp: cls_has_def in_range_def)
qed auto

lemma derives_Exactly_cls:
  "derives ic (Exactly n (Cls rs)) s t \<longleftrightarrow>
     n \<le> length s \<and> t = drop n s \<and> (\<forall>c \<in> set (take n s). cls_has ic rs c)"
proof (induction n arbitrary: s)
  case (Suc n)
  show ?case by (cases s) (auto simp: Suc)
qed auto

lemma derives_UpTo_cls:
  "derives ic (UpTo n (Cls rs)) s t \<longleftrightarrow>
     (\<exists>k \<le> n. k \<le> length s \<and> t = drop k s \<and> (\<forall>c \<in> set (take k s). cls_has ic rs c))"
  (is "?L n s \<longleftrightarrow> ?R n s")
proof (induction n arbitrary: s)
  case 0
  then show ?case by (auto intro: derives.intros elim: derives_UpToE)
next
  case (Suc n)
  have step: "?L (Suc n) s \<longleftrightarrow> t = s \<or> (\<exists>c s'. s = c # s' \<and> cls_has ic rs c \<and> ?L n s')"
    (is "_ \<longleftrightarrow> ?S")
  proof
    assume "?L (Suc n) s"
    then show ?S by (cases rule: derives_UpToE) auto
  qed (auto intro: derives.intros)
  have "?R (Suc n) s \<longleftrightarrow> t = s \<or> (\<exists>c s'. s = c # s' \<and> cls_has ic rs c \<and> ?R n s')"
  proof
    assume "?R (Suc n) s"
    then obtain k where k: "k \<le> Suc n" "k \<le> length s" "t = drop k s"
      "\<forall>c \<in> set (take k s). cls_has ic rs c" by blast
    then show "t = s \<or> (\<exists>c s'. s = c # s' \<and> cls_has ic rs c \<and> ?R n s')"
      by (cases k; cases s) auto
  next
    assume "t = s \<or> (\<exists>c s'. s = c # s' \<and> cls_has ic rs c \<and> ?R n s')"
    then show "?R (Suc n) s"
    proof
      assume "t = s"
      then show ?thesis by (intro exI [of _ 0]) simp
    next
      assume "\<exists>c s'. s = c # s' \<and> cls_has ic rs c \<and> ?R n s'"
      then obtain c s' k where "s = c # s'" "cls_has ic rs c" "k \<le> n" "k \<le> length s'"
        "t = drop k s'" "\<forall>c \<in> set (take k s'). cls_has ic rs c" by blast
      then show ?thesis by (intro exI [of _ "Suc k"]) auto
    qed
  qed
  with step Suc show ?case by auto
qed

text \<open>\<open>[x][y]{1,n}[x]\<close> accepts the words of 3 to \<open>n + 2\<close> characters with the right ends and
  the right middle.\<close>

lemma derives_bracketed:
  "derives ic (Seq (Cls xs) (Seq (Between 1 n (Cls ys)) (Cls zs))) s [] \<longleftrightarrow>
     3 \<le> length s \<and> length s \<le> max 1 n + 2 \<and> cls_has ic xs (hd s) \<and> cls_has ic zs (last s)
     \<and> (\<forall>c \<in> set (butlast (tl s)). cls_has ic ys c)"
  (is "?L \<longleftrightarrow> ?R")
proof
  assume ?L
  then obtain c d s1 s2 t k where s: "s = c # d # s1" "cls_has ic xs c" "cls_has ic ys d"
    and k: "k \<le> n - 1" "k \<le> length s1" "s2 = drop k s1" "\<forall>x \<in> set (take k s1). cls_has ic ys x"
    and t: "s2 = [t]" "cls_has ic zs t"
    by (auto simp: Between_def derives_Exactly_cls derives_UpTo_cls neq_Nil_conv Suc_le_length_iff)
  have s1: "s1 = take k s1 @ [t]"
    using k t by (metis append_take_drop_id)
  then have "length s1 = Suc k" using k(2) by (metis length_append_singleton length_take min.absorb2)
  moreover from s1 have "butlast (d # s1) = d # take k s1" "last s1 = t" "s1 \<noteq> []"
    by (metis butlast.simps(2) butlast_snoc append_is_Nil_conv not_Cons_self2, metis last_snoc,
        metis append_is_Nil_conv not_Cons_self2)
  ultimately show ?R using s k(1,4) t(2) by auto
next
  assume R: ?R
  then obtain c d w where s: "s = c # d # w" "w \<noteq> []"
    by (metis One_nat_def Suc_1 Suc_le_length_iff list.size(3) not_less_eq_eq numeral_3_eq_3 zero_le)
  define k where "k = length w - 1"
  have drop_k: "drop k w = [last w]" and take_k: "take k w = butlast w"
    using s(2) unfolding k_def
    by (metis Suc_diff_1 append_butlast_last_id append_eq_conv_conj length_butlast length_greater_0_conv)
      (metis butlast_conv_take)
  have "k \<le> n - 1" using R s by (auto simp: k_def)
  then have "derives ic (UpTo (n - 1) (Cls ys)) w [last w]"
    unfolding derives_UpTo_cls using R s drop_k take_k
    by (intro exI [of _ k]) (auto simp: k_def)
  then show ?L using R s
    by (auto simp: Between_def derives_Exactly_cls intro!: exI [of _ "[last w]"])
qed

end
