(* ===== verification/Utils.thy ===== *)
theory Utils
  imports Regex
begin

section \<open>String utilities (src/utils.cc)\<close>

text \<open>
  The string helpers of \<open>minio::utils\<close>: trimming, case folding, prefix tests, joining,
  percent-encoding and its inverse, path encoding, hex digests, the big-endian integer
  reader, and the validation of bucket names. \<open>EncodePath\<close> on the empty path and \<open>Int\<close>
  on fewer than four bytes read outside the string; both return \<open>None\<close> there.
\<close>

unbundle bit_operations_syntax

definition byte :: "char \<Rightarrow> nat" where
  "byte c = of_char c"

lemma byte_less [simp]: "byte c < 256"
  using of_char_mod_256 [of c] unfolding byte_def by (metis mod_less_divisor zero_less_numeral)

lemma byte_div16 [simp]: "byte c div 16 < 16"
  by (rule less_mult_imp_div_less) (use byte_less [of c] in simp)

lemma byte_inj [simp]: "byte c = byte d \<longleftrightarrow> c = d"
  by (simp add: byte_def)

lemma char_of_byte [simp]: "char_of (byte c) = c"
  by (simp add: byte_def)

lemma byte_char_of: "n < 256 \<Longrightarrow> byte (char_of n) = n"
  by (simp add: byte_def)

subsection \<open>Trimming, prefixes, case\<close>

definition ToLower :: "string \<Rightarrow> string" where
  "ToLower s = map to_lower_char s"

text \<open>\<open>StringToBool\<close> terminates the process on any other string: \<open>None\<close>.\<close>

definition StringToBool :: "string \<Rightarrow> bool option" where
  "StringToBool str =
     (let s = ToLower str in
      if s = ''false'' then Some False else if s = ''true'' then Some True else None)"

definition BoolToString :: "bool \<Rightarrow> string" where
  "BoolToString b = (if b then ''true'' else ''false'')"

definition Trim :: "string \<Rightarrow> char \<Rightarrow> string" where
  "Trim str ch =
     (let rest = dropWhile (\<lambda>c. c = ch) str in rev (dropWhile (\<lambda>c. c = ch) (rev rest)))"

definition CheckNonEmptyString :: "string \<Rightarrow> bool" where
  "CheckNonEmptyString str \<longleftrightarrow> str \<noteq> [] \<and> Trim str (CHR '' '') = str"

definition StartsWith :: "string \<Rightarrow> string \<Rightarrow> bool" where
  "StartsWith str pre \<longleftrightarrow> length pre \<le> length str \<and> take (length pre) str = pre"

definition EndsWith :: "string \<Rightarrow> string \<Rightarrow> bool" where
  "EndsWith str suf \<longleftrightarrow> length suf \<le> length str \<and> drop (length str - length suf) str = suf"

definition ContainsChar :: "string \<Rightarrow> char \<Rightarrow> bool" where
  "ContainsChar str ch \<longleftrightarrow> str_find str [ch] \<noteq> None"

definition Contains :: "string \<Rightarrow> string \<Rightarrow> bool" where
  "Contains str sub \<longleftrightarrow> str_find str sub \<noteq> None"

fun Join_loop :: "string \<Rightarrow> string list \<Rightarrow> string \<Rightarrow> string" where
  "Join_loop result [] delimiter = result"
| "Join_loop result (v # vs) delimiter =
     Join_loop ((if result \<noteq> [] then result @ delimiter else result) @ v) vs delimiter"

definition Join :: "string list \<Rightarrow> string \<Rightarrow> string" where
  "Join values delimiter = Join_loop [] values delimiter"

lemma StringToBool_BoolToString: "StringToBool (BoolToString b) = Some b"
  by (cases b) (simp_all add: BoolToString_def StringToBool_def ToLower_def to_lower_char_def)

lemma dropWhile_id_iff: "dropWhile P xs = xs \<longleftrightarrow> xs = [] \<or> \<not> P (hd xs)"
proof (cases xs)
  case (Cons x ys)
  have "length (dropWhile P ys) \<le> length ys" by (rule length_dropWhile_le)
  with Cons show ?thesis
    by (metis dropWhile.simps(2) impossible_Cons list.distinct(1) list.sel(1))
qed simp

lemma dropWhile_rev_length: "length (rev (dropWhile P (rev xs))) \<le> length xs"
  by (metis length_dropWhile_le length_rev)

lemma Trim_id_iff: "Trim s ch = s \<longleftrightarrow> s = [] \<or> (hd s \<noteq> ch \<and> last s \<noteq> ch)"
proof -
  let ?d = "dropWhile (\<lambda>c. c = ch)"
  have "Trim s ch = s \<longleftrightarrow> ?d s = s \<and> ?d (rev s) = rev s"
  proof
    assume t: "Trim s ch = s"
    have "length (Trim s ch) \<le> length (?d s)"
      unfolding Trim_def Let_def by (rule dropWhile_rev_length)
    with t have "length (?d s) = length s"
      using length_dropWhile_le [of "\<lambda>c. c = ch" s] by simp
    then have "?d s = s"
      by (metis append_eq_conv_conj length_append add_cancel_left_left list.size(3)
          length_0_conv append_self_conv2 takeWhile_dropWhile_id)
    with t show "?d s = s \<and> ?d (rev s) = rev s"
      by (metis Trim_def rev_rev_ident)
  qed (simp add: Trim_def)
  then show ?thesis
    by (auto simp: dropWhile_id_iff hd_rev)
qed

lemma CheckNonEmptyString_iff [str_simps]:
  "CheckNonEmptyString s \<longleftrightarrow> s \<noteq> [] \<and> hd s \<noteq> CHR '' '' \<and> last s \<noteq> CHR '' ''"
  by (auto simp: CheckNonEmptyString_def Trim_id_iff)

lemma Trim_empty_iff [str_simps]: "Trim s ch = [] \<longleftrightarrow> set s \<subseteq> {ch}"
proof -
  have "rev (dropWhile P (rev (dropWhile P s))) = [] \<longleftrightarrow> (\<forall>x \<in> set s. P x)" for P :: "char \<Rightarrow> bool"
  proof (cases "dropWhile P s = []")
    case True
    then show ?thesis by (auto simp: dropWhile_eq_Nil_conv dest: set_dropWhileD)
  next
    case False
    then have "hd (dropWhile P s) \<in> set (dropWhile P s)" "\<not> P (hd (dropWhile P s))"
      using hd_dropWhile hd_in_set by blast+
    then have "\<not> (\<forall>x \<in> set (dropWhile P s). P x)" "\<not> (\<forall>x \<in> set s. P x)"
      using set_dropWhileD by metis+
    then show ?thesis by (simp only: rev_is_Nil_conv dropWhile_eq_Nil_conv set_rev)
  qed
  then show ?thesis by (auto simp: Trim_def)
qed

lemma StartsWith_iff [str_simps]: "StartsWith s p \<longleftrightarrow> (\<exists>r. s = p @ r)"
  unfolding StartsWith_def
  by (metis append_eq_conv_conj append_take_drop_id length_append le_add1)

lemma EndsWith_iff [str_simps]: "EndsWith s p \<longleftrightarrow> (\<exists>r. s = r @ p)"
proof
  assume "EndsWith s p"
  then show "\<exists>r. s = r @ p" unfolding EndsWith_def by (metis append_take_drop_id)
next
  assume "\<exists>r. s = r @ p"
  then show "EndsWith s p" by (auto simp: EndsWith_def)
qed

lemma ContainsChar_iff [str_simps]: "ContainsChar s c \<longleftrightarrow> c \<in> set s"
  by (simp add: ContainsChar_def str_find_char)

lemma Contains_iff [str_simps]: "Contains s p \<longleftrightarrow> (\<exists>a b. s = a @ p @ b)"
proof
  assume "Contains s p"
  then obtain i where "str_find s p = Some i" by (auto simp: Contains_def)
  then obtain r where "drop i s = p @ r" using str_find_Some by blast
  then show "\<exists>a b. s = a @ p @ b" by (metis append_take_drop_id)
next
  assume "\<exists>a b. s = a @ p @ b"
  then show "Contains s p" unfolding Contains_def using str_find_None by blast
qed

lemma ToLower_append [simp]: "ToLower (a @ b) = ToLower a @ ToLower b"
  by (simp add: ToLower_def)

lemma byte_to_lower: "byte (to_lower_char c) = (if 65 \<le> byte c \<and> byte c \<le> 90 then byte c + 32 else byte c)"
  unfolding to_lower_char_def Let_def byte_def by (cases "65 \<le> (of_char c :: nat) \<and> (of_char c :: nat) \<le> 90") auto

lemma to_lower_idem [simp]: "to_lower_char (to_lower_char c) = to_lower_char c"
  by (rule byte_inj [THEN iffD1]) (auto simp: byte_to_lower)

lemma ToLower_idem [simp]: "ToLower (ToLower s) = ToLower s"
  by (simp add: ToLower_def)

text \<open>Joining non-empty values puts one delimiter between neighbours.\<close>

lemma Join_loop_nonempty:
  "r \<noteq> [] \<Longrightarrow> Join_loop r vs d = r @ concat (map (\<lambda>v. d @ v) vs)"
  by (induction vs arbitrary: r) auto

lemma Join_eq: "v \<noteq> [] \<Longrightarrow> Join (v # vs) d = v @ concat (map (\<lambda>v. d @ v) vs)"
  by (simp add: Join_def Join_loop_nonempty)

text \<open>Leading empty values leave no delimiter behind.\<close>

lemma Join_Nil_Cons: "Join ([] # vs) d = Join vs d"
  by (simp add: Join_def)

subsection \<open>Percent-encoding\<close>

definition is_unreserved :: "char \<Rightarrow> bool" where
  "is_unreserved c \<longleftrightarrow>
     (65 \<le> byte c \<and> byte c \<le> 90) \<or> (97 \<le> byte c \<and> byte c \<le> 122)
     \<or> (48 \<le> byte c \<and> byte c \<le> 57) \<or> c = CHR ''-'' \<or> c = CHR ''_'' \<or> c = CHR ''.'' \<or> c = CHR ''~''"

definition kHex :: "nat \<Rightarrow> char" where
  "kHex n = ''0123456789ABCDEF'' ! n"

fun UriEncode :: "string \<Rightarrow> string" where
  "UriEncode [] = []"
| "UriEncode (c # cs) =
     (if is_unreserved c then c # UriEncode cs
      else CHR ''%'' # kHex (byte c div 16) # kHex (byte c mod 16) # UriEncode cs)"

definition isxdigit :: "char \<Rightarrow> bool" where
  "isxdigit c \<longleftrightarrow>
     (48 \<le> byte c \<and> byte c \<le> 57) \<or> (65 \<le> byte c \<and> byte c \<le> 70) \<or> (97 \<le> byte c \<and> byte c \<le> 102)"

definition hex_value :: "char \<Rightarrow> nat" where
  "hex_value c =
     (if 48 \<le> byte c \<and> byte c \<le> 57 then byte c - 48
      else if 97 \<le> byte c \<and> byte c \<le> 102 then byte c - 97 + 10
      else byte c - 65 + 10)"

fun UriDecode :: "string \<Rightarrow> string" where
  "UriDecode [] = []"
| "UriDecode [a] = [a]"
| "UriDecode [a, b] = a # UriDecode [b]"
| "UriDecode (c # h # l # rest) =
     (if c = CHR ''%'' \<and> isxdigit h \<and> isxdigit l
      then char_of (16 * hex_value h + hex_value l) # UriDecode rest
      else c # UriDecode (h # l # rest))"

lemma kHex_cases:
  assumes "n < 16"
  shows "isxdigit (kHex n) \<and> hex_value (kHex n) = n \<and> is_unreserved (kHex n)"
proof -
  have "list_all (\<lambda>n. isxdigit (kHex n) \<and> hex_value (kHex n) = n \<and> is_unreserved (kHex n)) [0..<16]"
    by code_simp
  then show ?thesis using assms by (simp add: list_all_iff)
qed

lemma isxdigit_kHex [simp]: "isxdigit (kHex (byte c div 16))" "isxdigit (kHex (byte c mod 16))"
  using kHex_cases [of "byte c div 16"] kHex_cases [of "byte c mod 16"] by simp_all

lemma hex_value_kHex [simp]:
  "hex_value (kHex (byte c div 16)) = byte c div 16" "hex_value (kHex (byte c mod 16)) = byte c mod 16"
  using kHex_cases [of "byte c div 16"] kHex_cases [of "byte c mod 16"] by simp_all

lemma is_unreserved_not_percent: "is_unreserved c \<Longrightarrow> c \<noteq> CHR ''%''"
  by (auto simp: is_unreserved_def byte_def)

lemma UriDecode_Cons_plain: "c \<noteq> CHR ''%'' \<Longrightarrow> UriDecode (c # s) = c # UriDecode s"
  by (cases s rule: UriDecode.cases) auto

lemma UriDecode_UriEncode: "UriDecode (UriEncode s) = s"
proof (induction s)
  case (Cons c s)
  show ?case
  proof (cases "is_unreserved c")
    case True
    with Cons show ?thesis by (simp add: UriDecode_Cons_plain is_unreserved_not_percent)
  next
    case False
    have "16 * (byte c div 16) + byte c mod 16 = byte c" by simp
    with False Cons show ?thesis by simp
  qed
qed simp

lemma UriEncode_append: "UriEncode (a @ b) = UriEncode a @ UriEncode b"
  by (induction a) auto

lemma UriEncode_chars: "c \<in> set (UriEncode s) \<Longrightarrow> is_unreserved c \<or> c = CHR ''%''"
proof (induction s)
  case (Cons x s)
  have "is_unreserved (kHex (byte x div 16))" "is_unreserved (kHex (byte x mod 16))"
    using kHex_cases [of "byte x div 16"] kHex_cases [of "byte x mod 16"] by simp_all
  with Cons show ?case by (auto split: if_splits)
qed simp

lemma UriEncode_eq_Nil [simp]: "UriEncode s = [] \<longleftrightarrow> s = []"
  by (cases s) auto

lemma UriEncode_no_sep: "CHR ''/'' \<notin> set (UriEncode s)" "CHR ''&'' \<notin> set (UriEncode s)"
  "CHR ''='' \<notin> set (UriEncode s)" "CHR ''?'' \<notin> set (UriEncode s)"
  by (auto dest!: UriEncode_chars simp: is_unreserved_def byte_def)

interpretation uri: codec UriEncode UriDecode "\<lambda>s. s" "\<lambda>_. True"
  by unfold_locales (simp_all add: UriDecode_UriEncode)

subsection \<open>Paths\<close>

text \<open>\<open>EncodePath\<close> splits at \<open>/\<close>, drops empty pieces, encodes and joins the rest, and
  keeps a leading and a trailing slash.\<close>

fun encode_tokens :: "string \<Rightarrow> string list \<Rightarrow> string" where
  "encode_tokens out [] = out"
| "encode_tokens out (t # ts) =
     (if t \<noteq> [] then encode_tokens ((if out \<noteq> [] then out @ ''/'' else out) @ UriEncode t) ts
      else encode_tokens out ts)"

definition EncodePath :: "string \<Rightarrow> string option" where
  "EncodePath path =
     (if path = [] then None
      else
        let out = encode_tokens [] (tokens (CHR ''/'') path);
            out = (if hd path = CHR ''/'' then ''/'' @ out else out);
            out = (if last path = CHR ''/'' \<and> out \<noteq> ''/'' then out @ ''/'' else out)
        in Some out)"

text \<open>The specification: runs of slashes become one slash, every other byte is encoded.\<close>

fun squeeze_slashes :: "string \<Rightarrow> string" where
  "squeeze_slashes [] = []"
| "squeeze_slashes [c] = [c]"
| "squeeze_slashes (c # d # s) =
     (if c = CHR ''/'' \<and> d = CHR ''/'' then squeeze_slashes (d # s)
      else c # squeeze_slashes (d # s))"

fun encode_segments :: "string \<Rightarrow> string" where
  "encode_segments [] = []"
| "encode_segments (c # s) =
     (if c = CHR ''/'' then CHR ''/'' # encode_segments s else UriEncode [c] @ encode_segments s)"

definition lead_slash :: "string \<Rightarrow> string" where
  "lead_slash s = (if s \<noteq> [] \<and> hd s = CHR ''/'' then ''/'' else [])"

text \<open>What the loop and the final slash add behind \<open>out\<close>, when the current piece is \<open>cur\<close>.\<close>

definition path_tail :: "string \<Rightarrow> string \<Rightarrow> string \<Rightarrow> string" where
  "path_tail out cur s =
     (let r = encode_tokens out (getline_tokens (CHR ''/'') (rev cur) s)
      in if s \<noteq> [] \<and> last s = CHR ''/'' \<and> r \<noteq> [] then r @ ''/'' else r)"

lemma squeeze_slash_slash: "squeeze_slashes (CHR ''/'' # s) =
   CHR ''/'' # squeeze_slashes (dropWhile (\<lambda>c. c = CHR ''/'') s)"
  by (induction s) auto

lemma squeeze_nonslash: "c \<noteq> CHR ''/'' \<Longrightarrow> squeeze_slashes (c # s) = c # squeeze_slashes s"
  by (cases s) auto

lemma encode_segments_nonslash: "CHR ''/'' \<notin> set s \<Longrightarrow> encode_segments (s @ t) = UriEncode s @ encode_segments t"
  by (induction s) (auto simp: UriEncode_append)

lemma path_tail_skip:
  "out \<noteq> [] \<Longrightarrow> s \<noteq> [] \<Longrightarrow> path_tail out [] (CHR ''/'' # s) = path_tail out [] s"
  by (simp add: path_tail_def)

lemma encode_tokens_out: "out \<noteq> [] \<Longrightarrow> encode_tokens out ts \<noteq> []"
  by (induction ts arbitrary: out) auto

lemma path_tail_slash:
  "out \<noteq> [] \<Longrightarrow> path_tail out [] (CHR ''/'' # s) =
     (let u = dropWhile (\<lambda>c. c = CHR ''/'') s
      in if u = [] then out @ ''/'' else path_tail out [] u)"
proof (induction s)
  case Nil
  then show ?case by (simp add: path_tail_def)
next
  case (Cons c s)
  then show ?case
    by (cases "c = CHR ''/''") (simp_all add: path_tail_skip)
qed

lemma path_tail_last_piece:
  assumes "CHR ''/'' \<notin> set p" "p \<noteq> []"
  shows "path_tail out [] p = (if out \<noteq> [] then out @ ''/'' else out) @ UriEncode p"
proof -
  have "last p \<noteq> CHR ''/''" using assms last_in_set by fastforce
  with assms show ?thesis using getline_tokens_walk [OF assms(1), of "[]" "[]"]
    by (simp add: path_tail_def Let_def)
qed

lemma path_tail_piece:
  assumes "CHR ''/'' \<notin> set p" "p \<noteq> []"
  shows "path_tail out [] (p @ CHR ''/'' # r) =
    path_tail ((if out \<noteq> [] then out @ ''/'' else out) @ UriEncode p) [] (CHR ''/'' # r)"
  using assms by (simp add: path_tail_def Let_def getline_tokens_walk)

lemma path_tail_eq:
  "s \<noteq> [] \<Longrightarrow> hd s \<noteq> CHR ''/'' \<Longrightarrow> path_tail out [] s =
     (if out \<noteq> [] then out @ ''/'' else out) @ encode_segments (squeeze_slashes s)"
proof (induction s arbitrary: out rule: length_induct)
  case (1 s)
  define p where "p = takeWhile (\<lambda>c. c \<noteq> CHR ''/'') s"
  define r where "r = dropWhile (\<lambda>c. c \<noteq> CHR ''/'') s"
  have s: "s = p @ r" by (simp add: p_def r_def)
  have p: "CHR ''/'' \<notin> set p" "p \<noteq> []"
    using "1.prems" by (auto simp: p_def dest: set_takeWhileD) (cases s; auto)
  have sq: "squeeze_slashes (p @ t) = p @ squeeze_slashes t" for t
    using p(1) by (induction p) (auto simp: squeeze_nonslash)
  define out' where "out' = (if out \<noteq> [] then out @ ''/'' else out) @ UriEncode p"
  have out': "out' \<noteq> []" using p by (simp add: out'_def)
  show ?case
  proof (cases r)
    case Nil
    with s sq [of "[]"] show ?thesis
      using path_tail_last_piece [OF p, of out] encode_segments_nonslash [OF p(1), of "[]"]
      by simp
  next
    case (Cons c r')
    then have c: "c = CHR ''/''" unfolding r_def
      by (metis (mono_tags, lifting) hd_dropWhile list.distinct(1) list.sel(1))
    define u where "u = dropWhile (\<lambda>c. c = CHR ''/'') r'"
    have "path_tail out [] s = path_tail out' [] (CHR ''/'' # r')"
      using path_tail_piece [OF p, of out r'] by (simp add: s Cons c out'_def)
    also have "\<dots> = (if u = [] then out' @ ''/'' else path_tail out' [] u)"
      using path_tail_slash [OF out', of r'] by (simp add: u_def Let_def)
    also have "\<dots> = out' @ ''/'' @ encode_segments (squeeze_slashes u)"
    proof (cases "u = []")
      case False
      then have "hd u \<noteq> CHR ''/''" unfolding u_def using hd_dropWhile by blast
      moreover have "length u < length s"
        using length_dropWhile_le [of "\<lambda>c. c = CHR ''/''" r'] by (simp add: s Cons u_def)
      ultimately have "path_tail out' [] u = out' @ ''/'' @ encode_segments (squeeze_slashes u)"
        using "1.IH" False out' by simp
      with False show ?thesis by simp
    qed simp
    also have "\<dots> = (if out \<noteq> [] then out @ ''/'' else out) @ encode_segments (squeeze_slashes s)"
      by (simp add: s Cons c sq squeeze_slash_slash u_def encode_segments_nonslash [OF p(1)] out'_def)
    finally show ?thesis .
  qed
qed

lemma encode_tokens_skip: "encode_tokens [] (getline_tokens (CHR ''/'') [] s) =
  encode_tokens [] (getline_tokens (CHR ''/'') [] (dropWhile (\<lambda>c. c = CHR ''/'') s))"
  by (induction s) auto

lemma encode_tokens_pieces:
  "hd s \<noteq> CHR ''/'' \<Longrightarrow> s \<noteq> [] \<Longrightarrow> encode_tokens [] (getline_tokens (CHR ''/'') [] s) \<noteq> []"
  using path_tail_eq [of s "[]"]
  by (cases s) (auto simp: path_tail_def squeeze_nonslash Let_def split: if_splits)

lemma last_dropWhile: "dropWhile P s \<noteq> [] \<Longrightarrow> last (dropWhile P s) = last s"
  by (induction s) auto

lemma EncodePath_spec:
  assumes "path \<noteq> []"
  shows "EncodePath path = Some (encode_segments (squeeze_slashes path))"
proof -
  define u where "u = dropWhile (\<lambda>c. c = CHR ''/'') path"
  let ?out = "encode_tokens [] (tokens (CHR ''/'') path)"
  have out: "?out = encode_tokens [] (getline_tokens (CHR ''/'') [] u)"
    unfolding tokens_def u_def by (rule encode_tokens_skip)
  show ?thesis
  proof (cases "u = []")
    case True
    then have "\<forall>c \<in> set path. c = CHR ''/''" by (simp add: u_def dropWhile_eq_Nil_conv)
    with assms have "hd path = CHR ''/''" "last path = CHR ''/''" by auto
    moreover have "squeeze_slashes path = ''/''"
    proof -
      obtain c s where path: "path = c # s" using assms by (cases path) auto
      with \<open>\<forall>c \<in> set path. c = CHR ''/''\<close> have c: "c = CHR ''/''"
        and dw: "dropWhile (\<lambda>c. c = CHR ''/'') s = []"
        by (simp_all add: dropWhile_eq_Nil_conv)
      show ?thesis unfolding path c squeeze_slash_slash dw by simp
    qed
    moreover have "?out = []" using out True by simp
    ultimately show ?thesis using assms by (simp add: EncodePath_def)
  next
    case False
    then have u: "hd u \<noteq> CHR ''/''" unfolding u_def using hd_dropWhile by blast
    have ne: "?out \<noteq> []" unfolding out using encode_tokens_pieces [OF u False] .
    have "path_tail [] [] u = encode_segments (squeeze_slashes u)"
      using path_tail_eq [OF False u, of "[]"] by simp
    then have tail: "(if last path = CHR ''/'' then ?out @ ''/'' else ?out)
        = encode_segments (squeeze_slashes u)"
      using False ne last_dropWhile [of "\<lambda>c. c = CHR ''/''" path]
      by (simp add: path_tail_def out u_def Let_def split: if_splits)
    have sq: "squeeze_slashes path = lead_slash path @ squeeze_slashes u"
    proof (cases "hd path = CHR ''/''")
      case True
      with assms have "path = CHR ''/'' # tl path" by (metis list.collapse)
      then have "squeeze_slashes path = CHR ''/'' # squeeze_slashes (dropWhile (\<lambda>c. c = CHR ''/'') (tl path))"
        using squeeze_slash_slash by metis
      moreover have "u = dropWhile (\<lambda>c. c = CHR ''/'') (tl path)"
        unfolding u_def using \<open>path = CHR ''/'' # tl path\<close>
        by (metis (mono_tags, lifting) dropWhile.simps(2))
      ultimately show ?thesis using assms True by (simp add: lead_slash_def)
    next
      case nohd: False
      then have "u = path" unfolding u_def by (simp add: dropWhile_id_iff)
      with nohd show ?thesis by (simp add: lead_slash_def)
    qed
    have "hd (encode_segments (squeeze_slashes u)) \<noteq> CHR ''/''"
    proof -
      obtain c u' where "u = c # u'" "c \<noteq> CHR ''/''" using False u by (cases u) auto
      moreover have "hd (UriEncode [c] @ v) \<noteq> CHR ''/''" for v
        using UriEncode_no_sep(1) [of "[c]"] by (auto split: if_splits)
      ultimately show ?thesis by (simp add: squeeze_nonslash)
    qed
    with tail ne have "hd ?out \<noteq> CHR ''/''" by (metis hd_append2)
    with ne have "?out \<noteq> ''/''" by force
    with ne have "EncodePath path =
        Some (lead_slash path @ (if last path = CHR ''/'' then ?out @ ''/'' else ?out))"
      unfolding EncodePath_def lead_slash_def Let_def using assms by simp
    then show ?thesis by (simp add: tail sq lead_slash_def)
  qed
qed

subsection \<open>Digests as hex, big-endian integers\<close>

text \<open>\<open>std::to_chars(out, out + 2, b, 16)\<close> writes one or two lower-case digits; the code
  shifts a single digit right and puts a zero before it.\<close>

definition hex_lower :: "nat \<Rightarrow> char" where
  "hex_lower n = ''0123456789abcdef'' ! n"

definition to_chars16 :: "nat \<Rightarrow> string" where
  "to_chars16 n = (if n < 16 then [hex_lower n] else [hex_lower (n div 16), hex_lower (n mod 16)])"

definition hex_byte :: "char \<Rightarrow> string" where
  "hex_byte b = (let t = to_chars16 (byte b) in if length t = 1 then CHR ''0'' # t else t)"

definition hex_encode :: "string \<Rightarrow> string" where
  "hex_encode digest = concat (map hex_byte digest)"

text \<open>The digest itself is OpenSSL's; the hex loop is the code's.\<close>

definition Sha256Hash :: "(string \<Rightarrow> string) \<Rightarrow> string \<Rightarrow> string" where
  "Sha256Hash sha256 str = hex_encode (sha256 str)"

text \<open>\<open>Printable\<close> escapes everything outside the printable ASCII range as \<open>\xNN\<close>.\<close>

definition printable_char :: "char \<Rightarrow> string" where
  "printable_char ch =
     (if byte ch < 33 \<or> 126 < byte ch then CHR 0x5C # CHR ''x'' # hex_byte ch else [ch])"

definition Printable :: "string \<Rightarrow> string" where
  "Printable s = concat (map printable_char s)"

definition byte32 :: "char \<Rightarrow> u32" where
  "byte32 c = word_of_nat (byte c)"

definition Int_be :: "string \<Rightarrow> u32 option" where
  "Int_be data =
     (case data of
        a # b # c # d # _ \<Rightarrow>
          Some (push_bit 24 (byte32 a) OR push_bit 16 (byte32 b) OR push_bit 8 (byte32 c) OR byte32 d)
      | _ \<Rightarrow> None)"

text \<open>The four bytes a sender writes for a 32-bit integer.\<close>

definition be32 :: "nat \<Rightarrow> string" where
  "be32 n = map char_of [n div 2 ^ 24 mod 256, n div 2 ^ 16 mod 256, n div 2 ^ 8 mod 256, n mod 256]"

lemma hex_byte_eq: "hex_byte b = [hex_lower (byte b div 16), hex_lower (byte b mod 16)]"
  by (simp add: hex_byte_def to_chars16_def hex_lower_def Let_def)

lemma hex_encode_length [simp]: "length (hex_encode d) = 2 * length d"
  by (induction d) (simp_all add: hex_encode_def hex_byte_eq)

lemma hex_lower_value:
  assumes "n < 16"
  shows "hex_value (hex_lower n) = n"
proof -
  have "list_all (\<lambda>n. hex_value (hex_lower n) = n) [0..<16]" by code_simp
  then show ?thesis using assms by (simp add: list_all_iff)
qed

lemma hex_byte_inj: "hex_byte a = hex_byte b \<longleftrightarrow> a = b"
proof
  assume "hex_byte a = hex_byte b"
  then have "hex_value (hex_lower (byte a div 16)) = hex_value (hex_lower (byte b div 16))"
    "hex_value (hex_lower (byte a mod 16)) = hex_value (hex_lower (byte b mod 16))"
    by (simp_all add: hex_byte_eq)
  then have "byte a div 16 = byte b div 16" "byte a mod 16 = byte b mod 16"
    by (simp_all add: hex_lower_value)
  then have "byte a = byte b" by (metis div_mult_mod_eq)
  then show "a = b" by simp
qed simp

lemma hex_encode_inj: "hex_encode a = hex_encode b \<longleftrightarrow> a = b"
proof
  assume "hex_encode a = hex_encode b"
  then show "a = b"
  proof (induction a arbitrary: b)
    case Nil
    then show ?case by (cases b) (simp_all add: hex_encode_def hex_byte_eq)
  next
    case (Cons x a)
    then obtain y b' where b: "b = y # b'" by (cases b) (simp_all add: hex_encode_def hex_byte_eq)
    with Cons.prems have "hex_byte x = hex_byte y" "hex_encode a = hex_encode b'"
      by (simp_all add: hex_encode_def hex_byte_eq)
    with Cons.IH b show ?case by (simp add: hex_byte_inj)
  qed
qed simp

end
