(* ===== verification/BucketName.thy ===== *)
theory BucketName
  imports Utils
begin

section \<open>Validation of bucket names (src/utils.cc)\<close>

text \<open>
  \<open>CheckBucketName\<close> with its three regular expressions, and the readable
  characterisation of what it accepts. The name reaches the regex matcher through
  \<open>data()\<close>, as a C string, so the matcher sees it only up to the first NUL byte, while the
  length and the successive-character checks see all of it.
\<close>

definition c_str :: "string \<Rightarrow> string" where
  "c_str s = takeWhile (\<lambda>c. c \<noteq> CHR 0x00) s"

abbreviation "rng_az \<equiv> (CHR ''a'', CHR ''z'')"
abbreviation "rng_09 \<equiv> (CHR ''0'', CHR ''9'')"

definition BUCKET_NAME_REGEX :: rx where
  "BUCKET_NAME_REGEX =
     Seq (Seq (Cls [rng_az, rng_09])
       (Seq (Between 1 61 (Cls [rng_az, rng_09, (CHR ''.'', CHR ''.''), (CHR ''-'', CHR ''-'')]))
         (Cls [rng_az, rng_09]))) AtEnd"

definition OLD_BUCKET_NAME_REGEX :: rx where
  "OLD_BUCKET_NAME_REGEX =
     Seq (Seq (Cls [rng_az, rng_09])
       (Seq (Between 1 61 (Cls [rng_az, rng_09, (CHR ''_'', CHR ''_''), (CHR ''.'', CHR ''.''),
            (CHR ''-'', CHR ''-''), (CHR '':'', CHR '':'')]))
         (Cls [rng_az, rng_09]))) AtEnd"

definition IPV4_OCTET :: rx where
  "IPV4_OCTET =
     Alt (Seq (lit ''25'') (Cls [(CHR ''0'', CHR ''5'')]))
    (Alt (Seq (lit ''2'') (Seq (Cls [(CHR ''0'', CHR ''4'')]) (Cls [rng_09])))
    (Alt (Seq (lit ''1'') (Seq (Cls [rng_09]) (Cls [rng_09])))
    (Alt (Seq (Cls [(CHR ''1'', CHR ''9'')]) (Cls [rng_09]))
         (Cls [rng_09]))))"

definition IPV4_REGEX :: rx where
  "IPV4_REGEX = Seq (Exactly 3 (Seq IPV4_OCTET (lit ''.''))) (Seq IPV4_OCTET AtEnd)"

definition CheckBucketName :: "string \<Rightarrow> bool \<Rightarrow> error" where
  "CheckBucketName bucket_name strict =
     (if Trim bucket_name (CHR '' '') = [] then ''bucket name cannot be empty''
      else if length bucket_name < 3 then ''bucket name cannot be less than 3 characters''
      else if length bucket_name > 63 then ''Bucket name cannot be greater than 63 characters''
      else if rx_full False IPV4_REGEX (c_str bucket_name) then ''bucket name cannot be an IP address''
      else if Contains bucket_name ''..'' \<or> Contains bucket_name ''.-'' \<or> Contains bucket_name ''-.''
      then ''Bucket name contains invalid successive characters '' @ [CHR 0x27] @ ''..'' @ [CHR 0x27]
             @ '', '' @ [CHR 0x27] @ ''.-'' @ [CHR 0x27] @ '' or '' @ [CHR 0x27] @ ''-.'' @ [CHR 0x27]
      else if strict then
        (if \<not> rx_full False BUCKET_NAME_REGEX (c_str bucket_name)
         then ''bucket name does not follow S3 standards strictly'' else SUCCESS)
      else
        (if \<not> rx_full True OLD_BUCKET_NAME_REGEX (c_str bucket_name)
         then ''bucket name does not follow S3 standards'' else SUCCESS))"

subsection \<open>What is accepted\<close>

definition is_lower :: "char \<Rightarrow> bool" where
  "is_lower c \<longleftrightarrow> 97 \<le> byte c \<and> byte c \<le> 122"

definition is_upper :: "char \<Rightarrow> bool" where
  "is_upper c \<longleftrightarrow> 65 \<le> byte c \<and> byte c \<le> 90"

definition is_num :: "char \<Rightarrow> bool" where
  "is_num c \<longleftrightarrow> 48 \<le> byte c \<and> byte c \<le> 57"

text \<open>A dotted quad of decimal numbers up to 255, without leading zeros.\<close>

definition dotted_quad :: "string \<Rightarrow> bool" where
  "dotted_quad s \<longleftrightarrow> (\<exists>a \<le> 255. \<exists>b \<le> 255. \<exists>c \<le> 255. \<exists>d \<le> 255.
     s = to_string a @ ''.'' @ to_string b @ ''.'' @ to_string c @ ''.'' @ to_string d)"

definition end_ok :: "bool \<Rightarrow> char \<Rightarrow> bool" where
  "end_ok strict c \<longleftrightarrow> is_lower c \<or> is_num c \<or> (\<not> strict \<and> is_upper c)"

definition mid_ok :: "bool \<Rightarrow> char \<Rightarrow> bool" where
  "mid_ok strict c \<longleftrightarrow> end_ok strict c \<or> c = CHR ''.'' \<or> c = CHR ''-''
     \<or> (\<not> strict \<and> (c = CHR ''_'' \<or> c = CHR '':''))"

definition bucket_name_ok :: "bool \<Rightarrow> string \<Rightarrow> bool" where
  "bucket_name_ok strict s \<longleftrightarrow>
     3 \<le> length s \<and> length s \<le> 63 \<and> end_ok strict (hd s) \<and> end_ok strict (last s)
     \<and> list_all (mid_ok strict) (butlast (tl s))
     \<and> \<not> Contains s ''..'' \<and> \<not> Contains s ''.-'' \<and> \<not> Contains s ''-.'' \<and> \<not> dotted_quad s"

lemma char_le_byte: "(c :: char) \<le> d \<longleftrightarrow> byte c \<le> byte d"
  by (simp add: less_eq_char_def byte_def)

lemma char_nums:
  "c = CHR ''.'' \<longleftrightarrow> byte c = 46" "c = CHR ''-'' \<longleftrightarrow> byte c = 45"
  "c = CHR ''_'' \<longleftrightarrow> byte c = 95" "c = CHR '':'' \<longleftrightarrow> byte c = 58"
  using byte_inj [of c "CHR ''.''"] byte_inj [of c "CHR ''-''"]
    byte_inj [of c "CHR ''_''"] byte_inj [of c "CHR '':''"]
  by (simp_all add: byte_def)

lemma byte_lits: "byte (CHR ''a'') = 97" "byte (CHR ''z'') = 122" "byte (CHR ''0'') = 48"
  "byte (CHR ''9'') = 57" "byte (CHR ''.'') = 46" "byte (CHR ''-'') = 45" "byte (CHR ''_'') = 95"
  "byte (CHR '':'') = 58"
  by (simp_all add: byte_def)

lemma byte_upper: "byte (to_upper_char c) = (if is_lower c then byte c - 32 else byte c)"
  by (cases "is_lower c") (auto simp: to_upper_char_def is_lower_def byte_def Let_def)

lemma byte_lower: "byte (to_lower_char c) = (if is_upper c then byte c + 32 else byte c)"
  by (simp add: byte_to_lower is_upper_def)

lemmas char_class_defs = cls_has_def in_range_def char_le_byte end_ok_def mid_ok_def
  list_ex_iff list.set insert_iff empty_iff bex_simps fst_conv snd_conv byte_lower byte_upper byte_lits char_nums
  is_lower_def is_num_def is_upper_def

lemma end_cls_strict: "cls_has False [rng_az, rng_09] c \<longleftrightarrow> end_ok True c"
  unfolding char_class_defs by auto

lemma mid_cls_strict:
  "cls_has False [rng_az, rng_09, (CHR ''.'', CHR ''.''), (CHR ''-'', CHR ''-'')] c \<longleftrightarrow> mid_ok True c"
  unfolding char_class_defs by auto

lemma end_cls_old: "cls_has True [rng_az, rng_09] c \<longleftrightarrow> end_ok False c"
  unfolding char_class_defs by auto

lemma mid_cls_old:
  "cls_has True [rng_az, rng_09, (CHR ''_'', CHR ''_''), (CHR ''.'', CHR ''.''), (CHR ''-'', CHR ''-''),
     (CHR '':'', CHR '':'')] c \<longleftrightarrow> mid_ok False c"
proof -
  consider (up) "is_upper c" | (low) "is_lower c" | (none) "\<not> is_upper c" "\<not> is_lower c" by blast
  then show ?thesis
  proof cases
    case up
    then have "97 \<le> byte (to_lower_char c)" "byte (to_lower_char c) \<le> 122"
      by (simp_all add: byte_lower) (simp_all add: is_upper_def)
    then show ?thesis using up
      by (simp add: cls_has_def in_range_def char_le_byte byte_lits mid_ok_def end_ok_def)
  next
    case low
    then have "to_lower_char c = c"
      by (intro byte_inj [THEN iffD1]) (simp add: byte_lower is_upper_def is_lower_def)
    with low show ?thesis
      by (simp add: cls_has_def in_range_def char_le_byte byte_lits mid_ok_def end_ok_def is_lower_def)
  next
    case none
    then have "to_lower_char c = c" "to_upper_char c = c"
      by (auto intro!: byte_inj [THEN iffD1] simp: byte_lower byte_upper)
    with none show ?thesis
      by (auto simp: cls_has_def in_range_def char_le_byte byte_lits mid_ok_def end_ok_def is_lower_def
          is_num_def char_nums)
  qed
qed

lemma strict_regex: "rx_full False BUCKET_NAME_REGEX s \<longleftrightarrow>
   3 \<le> length s \<and> length s \<le> 63 \<and> end_ok True (hd s) \<and> end_ok True (last s)
   \<and> list_all (mid_ok True) (butlast (tl s))"
proof -
  have "rx_full False BUCKET_NAME_REGEX s \<longleftrightarrow>
      derives False (Seq (Cls [rng_az, rng_09])
       (Seq (Between 1 61 (Cls [rng_az, rng_09, (CHR ''.'', CHR ''.''), (CHR ''-'', CHR ''-'')]))
         (Cls [rng_az, rng_09]))) s []"
    unfolding rx_full_iff BUCKET_NAME_REGEX_def
    by (subst derives_simps(4)) simp
  then show ?thesis
    unfolding derives_bracketed end_cls_strict mid_cls_strict by (simp add: list_all_iff)
qed

lemma old_regex: "rx_full True OLD_BUCKET_NAME_REGEX s \<longleftrightarrow>
   3 \<le> length s \<and> length s \<le> 63 \<and> end_ok False (hd s) \<and> end_ok False (last s)
   \<and> list_all (mid_ok False) (butlast (tl s))"
proof -
  have "rx_full True OLD_BUCKET_NAME_REGEX s \<longleftrightarrow>
      derives True (Seq (Cls [rng_az, rng_09])
       (Seq (Between 1 61 (Cls [rng_az, rng_09, (CHR ''_'', CHR ''_''), (CHR ''.'', CHR ''.''),
            (CHR ''-'', CHR ''-''), (CHR '':'', CHR '':'')]))
         (Cls [rng_az, rng_09]))) s []"
    unfolding rx_full_iff OLD_BUCKET_NAME_REGEX_def
    by (subst derives_simps(4)) simp
  then show ?thesis
    unfolding derives_bracketed end_cls_old mid_cls_old by (simp add: list_all_iff)
qed

subsection \<open>The IPv4 pattern\<close>

lemma byte_digit_char [simp]: "d < 10 \<Longrightarrow> byte (digit_char d) = 48 + d"
  by (simp add: byte_def of_char_digit_char)

lemma digit_cls: "l \<le> u \<Longrightarrow> u < 10 \<Longrightarrow> cls_has False [(digit_char l, digit_char u)] c \<longleftrightarrow>
    (\<exists>d. l \<le> d \<and> d \<le> u \<and> c = digit_char d)"
proof -
  assume lu: "l \<le> u" "u < 10"
  have "cls_has False [(digit_char l, digit_char u)] c \<longleftrightarrow> 48 + l \<le> byte c \<and> byte c \<le> 48 + u"
    using lu by (simp add: cls_has_def in_range_def char_le_byte)
  also have "\<dots> \<longleftrightarrow> (\<exists>d. l \<le> d \<and> d \<le> u \<and> byte c = 48 + d)"
    using lu by (auto intro!: exI [of _ "byte c - 48"])
  also have "\<dots> \<longleftrightarrow> (\<exists>d. l \<le> d \<and> d \<le> u \<and> c = digit_char d)"
    using lu byte_inj [of c] byte_digit_char by (metis le_less_trans)
  finally show ?thesis .
qed

lemma digit_chars: "CHR ''0'' = digit_char 0" "CHR ''1'' = digit_char 1" "CHR ''2'' = digit_char 2"
  "CHR ''4'' = digit_char 4" "CHR ''5'' = digit_char 5" "CHR ''9'' = digit_char 9"
  by (rule byte_inj [THEN iffD1], simp add: byte_def digit_char_def)+

lemma to_string_1: "n < 10 \<Longrightarrow> to_string n = [digit_char n]"
  by (subst to_string.simps) simp

lemma to_string_2: "10 \<le> n \<Longrightarrow> n < 100 \<Longrightarrow> to_string n = [digit_char (n div 10), digit_char (n mod 10)]"
  by (subst to_string.simps) (simp add: to_string_1)

lemma to_string_3: "100 \<le> n \<Longrightarrow> n < 1000 \<Longrightarrow>
    to_string n = [digit_char (n div 100), digit_char (n div 10 mod 10), digit_char (n mod 10)]"
  by (subst to_string.simps) (simp add: to_string_2 div_mult2_eq [symmetric])

lemma to_string_snoc: "1 \<le> m \<Longrightarrow> z \<le> 9 \<Longrightarrow> to_string (10 * m + z) = to_string m @ [digit_char z]"
  by (subst to_string.simps) simp

lemma to_string_digits3:
  assumes "1 \<le> x" "x \<le> 9" "y \<le> 9" "z \<le> 9"
  shows "to_string (100 * x + 10 * y + z) = [digit_char x, digit_char y, digit_char z]"
proof -
  have "to_string (10 * (10 * x + y) + z) = to_string (10 * x + y) @ [digit_char z]"
    by (rule to_string_snoc) (use assms in simp_all)
  also have "to_string (10 * x + y) = to_string x @ [digit_char y]"
    by (rule to_string_snoc) (use assms in simp_all)
  finally show ?thesis using assms by (simp add: to_string_1)
qed

lemma derives_octet: "derives False IPV4_OCTET s t \<longleftrightarrow> (\<exists>n \<le> 255. s = to_string n @ t)"
proof
  assume "derives False IPV4_OCTET s t"
  then consider
      (a) d where "d \<le> 5" "s = [digit_char 2, digit_char 5, digit_char d] @ t"
    | (b) d e where "d \<le> 4" "e \<le> 9" "s = [digit_char 2, digit_char d, digit_char e] @ t"
    | (c) d e where "d \<le> 9" "e \<le> 9" "s = [digit_char 1, digit_char d, digit_char e] @ t"
    | (d) d e where "1 \<le> d" "d \<le> 9" "e \<le> 9" "s = [digit_char d, digit_char e] @ t"
    | (e) e where "e \<le> 9" "s = [digit_char e] @ t"
    unfolding IPV4_OCTET_def digit_chars
    by (simp only: derives_simps derives_lit) (auto simp: digit_cls)
  then show "\<exists>n \<le> 255. s = to_string n @ t"
  proof cases
    case a
    then have "to_string (100 * 2 + 10 * 5 + d) = [digit_char 2, digit_char 5, digit_char d]"
      by (intro to_string_digits3) simp_all
    then show ?thesis unfolding a by (intro exI [of _ "100 * 2 + 10 * 5 + d"] conjI) (use a in simp_all)
  next
    case b
    then have "to_string (100 * 2 + 10 * d + e) = [digit_char 2, digit_char d, digit_char e]"
      by (intro to_string_digits3) simp_all
    then show ?thesis unfolding b by (intro exI [of _ "100 * 2 + 10 * d + e"] conjI) (use b in simp_all)
  next
    case c
    then have "to_string (100 * 1 + 10 * d + e) = [digit_char 1, digit_char d, digit_char e]"
      by (intro to_string_digits3) simp_all
    then show ?thesis unfolding c by (intro exI [of _ "100 * 1 + 10 * d + e"] conjI) (use c in simp_all)
  next
    case d
    then have "to_string (10 * d + e) = [digit_char d, digit_char e]"
      by (simp add: to_string_snoc to_string_1)
    then show ?thesis unfolding d by (intro exI [of _ "10 * d + e"] conjI) (use d in simp_all)
  next
    case e then show ?thesis by (intro exI [of _ e]) (auto simp: to_string_1)
  qed
next
  assume "\<exists>n \<le> 255. s = to_string n @ t"
  then obtain n where n: "n \<le> 255" "s = to_string n @ t" by blast
  consider "n < 10" | "10 \<le> n" "n < 100" | "100 \<le> n" by linarith
  then show "derives False IPV4_OCTET s t"
  proof cases
    case 1
    then have "n \<le> 9" by simp
    with n 1 show ?thesis unfolding IPV4_OCTET_def digit_chars
      by (simp only: derives_simps derives_lit) (auto simp: digit_cls to_string_1)
  next
    case 2
    then have "1 \<le> n div 10" "n div 10 \<le> 9" "n mod 10 \<le> 9" by linarith+
    with n 2 show ?thesis unfolding IPV4_OCTET_def digit_chars
      by (simp only: derives_simps derives_lit) (auto simp: digit_cls to_string_2)
  next
    case 3
    define a b c where "a = n div 100" and "b = n div 10 mod 10" and "c = n mod 10"
    have "n = 10 * (n div 10) + c" "n div 10 = 10 * a + b"
      unfolding a_def b_def c_def using div_mult2_eq [of n 10 10] by simp_all
    then have abc: "n = 100 * a + 10 * b + c" by simp
    have dig: "b \<le> 9" "c \<le> 9" by (simp_all add: b_def c_def)
    with abc n(1) 3 consider "a = 1" | "a = 2" "b \<le> 4" | "a = 2" "b = 5" "c \<le> 5" by linarith
    moreover from this have "s = [digit_char a, digit_char b, digit_char c] @ t"
      using to_string_digits3 [of a b c] n(2) abc dig by cases simp_all
    ultimately show ?thesis using dig unfolding IPV4_OCTET_def digit_chars
      by cases (simp only: derives_simps derives_lit, auto simp: digit_cls)+
  qed
qed

lemma derives_octet_dot:
  "derives False (Seq IPV4_OCTET (lit ''.'')) s t \<longleftrightarrow> (\<exists>n \<le> 255. s = to_string n @ ''.'' @ t)"
  unfolding derives_simps derives_octet derives_lit by blast

lemma derives_Exactly3: "derives ic (Exactly 3 r) s w \<longleftrightarrow>
    (\<exists>u v. derives ic r s u \<and> derives ic r u v \<and> derives ic r v w)"
  by (auto simp: numeral_3_eq_3)

lemma ipv4_regex: "rx_full False IPV4_REGEX s \<longleftrightarrow> dotted_quad s"
proof -
  let ?D = "\<lambda>x y. \<exists>n \<le> 255. x = to_string n @ ''.'' @ y"
  have "rx_full False IPV4_REGEX s \<longleftrightarrow>
     (\<exists>w. (\<exists>u v. ?D s u \<and> ?D u v \<and> ?D v w) \<and> (\<exists>d \<le> 255. w = to_string d))" (is "_ \<longleftrightarrow> ?R")
    unfolding rx_full_iff IPV4_REGEX_def
    by (subst derives_simps(4), unfold derives_Exactly3 derives_octet_dot)
      (simp add: derives_octet del: derives_lit)
  also have "?R \<longleftrightarrow> dotted_quad s"
  proof
    assume ?R
    then obtain u v w a b c d where "a \<le> 255" "s = to_string a @ ''.'' @ u" "b \<le> 255"
      "u = to_string b @ ''.'' @ v" "c \<le> 255" "v = to_string c @ ''.'' @ w" "d \<le> 255" "w = to_string d"
      by (elim exE conjE)
    then show "dotted_quad s" unfolding dotted_quad_def by blast
  next
    assume "dotted_quad s"
    then obtain a b c d where le: "a \<le> 255" "b \<le> 255" "c \<le> 255" "d \<le> 255"
      and s: "s = to_string a @ ''.'' @ to_string b @ ''.'' @ to_string c @ ''.'' @ to_string d"
      unfolding dotted_quad_def by (elim exE conjE)
    define w where "w = to_string d"
    define v where "v = to_string c @ ''.'' @ w"
    define u where "u = to_string b @ ''.'' @ v"
    have "s = to_string a @ ''.'' @ u" unfolding s u_def v_def w_def ..
    then have "?D s u" "?D u v" "?D v w" using le u_def v_def by blast+
    moreover have "\<exists>d \<le> 255. w = to_string d" using le w_def by blast
    ultimately show ?R by blast
  qed
  finally show ?thesis .
qed

lemma c_str_id: "CHR 0x00 \<notin> set s \<Longrightarrow> c_str s = s"
  unfolding c_str_def by (intro takeWhile_eq_all_conv [THEN iffD2]) auto

lemma end_ok_not_blank: "end_ok strict c \<Longrightarrow> c \<noteq> CHR '' ''"
  by (auto simp: end_ok_def is_lower_def is_num_def is_upper_def byte_def)

lemma CheckBucketName_iff:
  assumes "CHR 0x00 \<notin> set s"
  shows "CheckBucketName s strict = SUCCESS \<longleftrightarrow> bucket_name_ok strict s"
proof -
  have "Trim s (CHR '' '') \<noteq> []" if "bucket_name_ok strict s"
  proof -
    from that have "s \<noteq> []" "hd s \<noteq> CHR '' ''"
      by (auto simp: bucket_name_ok_def dest: end_ok_not_blank)
    then show ?thesis by (simp add: Trim_empty_iff) (metis hd_in_set singletonD subsetD)
  qed
  then show ?thesis
    unfolding CheckBucketName_def c_str_id [OF assms] ipv4_regex strict_regex old_regex
    by (cases strict) (auto simp: bucket_name_ok_def)
qed

end
