(* ===== verification/Multimap.thy ===== *)
theory Multimap
  imports Utils
begin

section \<open>Headers and query parameters (utils::Multimap, src/utils.cc)\<close>

text \<open>
  \<open>Multimap\<close> keeps two ordered maps (\<open>map_\<close> and \<open>keys_\<close> in the code): \<open>map_m\<close> from keys to sets of values and \<open>keys_m\<close> from
  lower-cased keys to the set of spellings in \<open>map_m\<close>. The invariant \<open>mm_wf\<close> says how they
  agree; \<open>mm_vals\<close> is the abstract value, a case-insensitive map to sets of values, and
  the lemmas show that every operation implements its counterpart on it.
\<close>

record multimap =
  map_m :: "(string \<times> string list) list"
  keys_m :: "(string \<times> string list) list"

definition mm_empty :: multimap where
  "mm_empty = \<lparr>map_m = [], keys_m = []\<rparr>"

text \<open>\<open>m[k].insert(v)\<close> on a map of sets; \<open>m[k]\<close> of an absent key is the empty set.\<close>

definition old_vals :: "string list option \<Rightarrow> string list" where
  "old_vals old = (case old of None \<Rightarrow> [] | Some vs \<Rightarrow> vs)"

lemma old_vals_simps [simp]: "old_vals None = []" "old_vals (Some vs) = vs"
  by (simp_all add: old_vals_def)

definition ins_val :: "string \<Rightarrow> string list option \<Rightarrow> string list" where
  "ins_val v old = insort_insert v (old_vals old)"

definition ins_vals :: "string list \<Rightarrow> string list option \<Rightarrow> string list" where
  "ins_vals ws old = foldl (\<lambda>s v. insort_insert v s) (old_vals old) ws"

definition Add :: "string \<Rightarrow> string \<Rightarrow> multimap \<Rightarrow> multimap" where
  "Add key val m =
     \<lparr>map_m = smap_upd key (ins_val val) (map_m m),
      keys_m = smap_upd (ToLower key) (ins_val key) (keys_m m)\<rparr>"

fun AddAll_loop :: "(string \<times> string list) list \<Rightarrow> multimap \<Rightarrow> multimap" where
  "AddAll_loop [] m = m"
| "AddAll_loop ((key, vals) # rest) m =
     AddAll_loop rest
       \<lparr>map_m = smap_upd key (ins_vals vals) (map_m m),
        keys_m = smap_upd (ToLower key) (ins_val key) (keys_m m)\<rparr>"

definition AddAll :: "multimap \<Rightarrow> multimap \<Rightarrow> multimap" where
  "AddAll headers m = AddAll_loop (map_m headers) m"

definition mm_bool :: "multimap \<Rightarrow> bool" where
  "mm_bool m \<longleftrightarrow> map_m m \<noteq> []"

definition ToHttpHeaders :: "multimap \<Rightarrow> string list" where
  "ToHttpHeaders m =
     concat (map (\<lambda>(key, vals). map (\<lambda>v. key @ '': '' @ v) vals) (map_m m))"

definition mm_Contains :: "string \<Rightarrow> multimap \<Rightarrow> bool" where
  "mm_Contains key m \<longleftrightarrow> map_of (keys_m m) (ToLower key) \<noteq> None"

definition Get :: "string \<Rightarrow> multimap \<Rightarrow> string list" where
  "Get key m =
     (case map_of (keys_m m) (ToLower key) of
        None \<Rightarrow> []
      | Some ks \<Rightarrow> concat (map (\<lambda>k. old_vals (map_of (map_m m) k)) ks))"

definition GetFront :: "string \<Rightarrow> multimap \<Rightarrow> string" where
  "GetFront key m = (case Get key m of [] \<Rightarrow> [] | v # _ \<Rightarrow> v)"

definition Keys :: "multimap \<Rightarrow> string list" where
  "Keys m = map fst (keys_m m)"

text \<open>\<open>removeExtraSpaces\<close>: the loop over the characters with its \<open>inSpace\<close> flag.\<close>

fun remove_extra_loop :: "string \<Rightarrow> bool \<Rightarrow> string \<Rightarrow> string" where
  "remove_extra_loop res in_space [] = res"
| "remove_extra_loop res in_space (c # s) =
     (if c \<noteq> CHR '' '' then
        remove_extra_loop ((if in_space \<and> res \<noteq> [] then res @ '' '' else res) @ [c]) False s
      else remove_extra_loop res True s)"

definition removeExtraSpaces :: "string \<Rightarrow> string" where
  "removeExtraSpaces s = remove_extra_loop [] False s"

definition canon_value :: "string list \<Rightarrow> string" where
  "canon_value vals = Join (map removeExtraSpaces vals) '',''"

text \<open>\<open>GetCanonicalHeaders\<close>: signed header names and canonical header lines, in the order
  of \<open>map_m\<close>; \<open>Authorization\<close> and \<open>User-Agent\<close> are skipped.\<close>

fun canon_headers_loop :: "string \<Rightarrow> string \<Rightarrow> (string \<times> string list) list \<Rightarrow> string \<times> string" where
  "canon_headers_loop sh ch [] = (sh, ch)"
| "canon_headers_loop sh ch ((k, vals) # rest) =
     (let key = ToLower k in
      if key = ''authorization'' \<or> key = ''user-agent'' then canon_headers_loop sh ch rest
      else
        let sh' = (if sh \<noteq> [] then sh @ '';'' else sh);
            ch' = (if sh \<noteq> [] then ch @ [CHR 0x0A] else ch)
        in canon_headers_loop (sh' @ key) (ch' @ key @ '':'' @ canon_value vals) rest)"

definition GetCanonicalHeaders :: "multimap \<Rightarrow> string \<times> string" where
  "GetCanonicalHeaders m = canon_headers_loop [] [] (map_m m)"

definition mm_pairs :: "multimap \<Rightarrow> (string \<times> string) list" where
  "mm_pairs m = concat (map (\<lambda>(key, vals). map (\<lambda>v. (key, v)) vals) (map_m m))"

fun canon_query_loop :: "string \<Rightarrow> (string \<times> string) list \<Rightarrow> string" where
  "canon_query_loop qs [] = qs"
| "canon_query_loop qs ((key, v) # rest) =
     canon_query_loop ((if qs \<noteq> [] then qs @ ''&'' else qs) @ UriEncode key @ ''='' @ UriEncode v) rest"

definition GetCanonicalQueryString :: "multimap \<Rightarrow> string" where
  "GetCanonicalQueryString m = canon_query_loop [] (mm_pairs m)"

definition ToQueryString :: "multimap \<Rightarrow> string" where
  "ToQueryString m = GetCanonicalQueryString m"

subsection \<open>Invariant and abstract value\<close>

definition mm_wf :: "multimap \<Rightarrow> bool" where
  "mm_wf m \<longleftrightarrow> smap_wf (map_m m) \<and> smap_wf (keys_m m)
     \<and> (\<forall>k vs. map_of (map_m m) k = Some vs \<longrightarrow> sset_wf vs \<and> vs \<noteq> [])
     \<and> (\<forall>lk ks. map_of (keys_m m) lk = Some ks \<longrightarrow>
          sset_wf ks \<and> ks \<noteq> [] \<and> set ks = {k. ToLower k = lk \<and> k \<in> dom (map_of (map_m m))})
     \<and> (\<forall>k \<in> dom (map_of (map_m m)). ToLower k \<in> dom (map_of (keys_m m)))"

text \<open>The values stored under some spelling of the key.\<close>

definition mm_vals :: "multimap \<Rightarrow> string \<Rightarrow> string set" where
  "mm_vals m key = (\<Union>k \<in> {k. ToLower k = ToLower key}. set (old_vals (map_of (map_m m) k)))"

lemma mm_wf_empty [simp, wf_intros]: "mm_wf mm_empty"
  by (simp add: mm_wf_def mm_empty_def)

lemma ins_val_props [simp]:
  "set (ins_val v old) = insert v (set (old_vals old))" "ins_val v old \<noteq> []"
  by (simp_all add: ins_val_def set_insort_insert)

lemma old_vals_wf: "(\<And>vs. old = Some vs \<Longrightarrow> sset_wf vs) \<Longrightarrow> sset_wf (old_vals old)"
  by (cases old) auto

lemma ins_val_wf: "(\<And>vs. old = Some vs \<Longrightarrow> sset_wf vs) \<Longrightarrow> sset_wf (ins_val v old)"
  unfolding ins_val_def by (intro sset_wf_insert old_vals_wf)

lemma ins_vals_set [simp]: "set (ins_vals ws old) = set ws \<union> set (old_vals old)"
  by (auto simp: ins_vals_def)

lemma ins_vals_wf: "(\<And>vs. old = Some vs \<Longrightarrow> sset_wf vs) \<Longrightarrow> sset_wf (ins_vals ws old)"
  unfolding ins_vals_def by (intro sset_wf_fold_insert old_vals_wf)

lemma ins_vals_nonempty: "ws \<noteq> [] \<Longrightarrow> ins_vals ws old \<noteq> []"
  using ins_vals_set [of ws old] by (metis Un_empty list.set(1) set_empty)

lemma mm_keys_set:
  assumes "mm_wf m"
  shows "set (old_vals (map_of (keys_m m) lk)) = {k. ToLower k = lk \<and> k \<in> dom (map_of (map_m m))}"
proof (cases "map_of (keys_m m) lk")
  case None
  have False if "ToLower k = lk" "k \<in> dom (map_of (map_m m))" for k
    using assms that None unfolding mm_wf_def by (metis domIff)
  with None show ?thesis by auto
next
  case (Some ks)
  with assms show ?thesis unfolding mm_wf_def by simp
qed

text \<open>One key of either operation: \<open>f\<close> adds values, the key's spelling is recorded.\<close>

lemma mm_upd_wf:
  assumes wf: "mm_wf m"
    and f: "\<And>old. (\<And>vs. old = Some vs \<Longrightarrow> sset_wf vs) \<Longrightarrow> sset_wf (f old) \<and> f old \<noteq> []"
  shows "mm_wf \<lparr>map_m = smap_upd key f (map_m m), keys_m = smap_upd (ToLower key) (ins_val key) (keys_m m)\<rparr>"
proof -
  define M K where M_def: "M = smap_upd key f (map_m m)"
    and K_def: "K = smap_upd (ToLower key) (ins_val key) (keys_m m)"
  from wf have wfs: "smap_wf (map_m m)" "smap_wf (keys_m m)" by (auto simp: mm_wf_def)
  have vals: "map_of M = (map_of (map_m m))(key \<mapsto> f (map_of (map_m m) key))"
    and keys: "map_of K = (map_of (keys_m m))(ToLower key \<mapsto> ins_val key (map_of (keys_m m) (ToLower key)))"
    using wfs unfolding M_def K_def by (simp_all add: smap.lookup_upd)
  have 1: "smap_wf M" "smap_wf K" using wfs unfolding M_def K_def by (simp_all add: wf_intros)
  have 2: "sset_wf vs \<and> vs \<noteq> []" if "map_of M k = Some vs" for k vs
    using that wf f [of "map_of (map_m m) key"] unfolding vals mm_wf_def
    by (cases "k = key") auto
  have 3: "sset_wf ks \<and> ks \<noteq> [] \<and> set ks = {k. ToLower k = lk \<and> k \<in> dom (map_of M)}"
    if "map_of K lk = Some ks" for lk ks
  proof (cases "lk = ToLower key")
    case False
    with that have "map_of (keys_m m) lk = Some ks" by (simp add: keys)
    with wf False show ?thesis unfolding vals mm_wf_def by auto
  next
    case True
    with that have ks: "ks = ins_val key (map_of (keys_m m) lk)" by (simp add: keys)
    have "set (old_vals (map_of (keys_m m) lk)) = {k. ToLower k = lk \<and> k \<in> dom (map_of (map_m m))}"
      by (rule mm_keys_set [OF wf])
    moreover have "sset_wf ks" unfolding ks using wf by (intro ins_val_wf) (auto simp: mm_wf_def)
    ultimately show ?thesis unfolding ks using True by (auto simp: vals)
  qed
  have 4: "\<forall>k \<in> dom (map_of M). ToLower k \<in> dom (map_of K)"
    using wf unfolding vals keys mm_wf_def by auto
  from 1 2 3 4 show ?thesis unfolding mm_wf_def M_def [symmetric] K_def [symmetric] by simp
qed

lemma mm_upd_vals:
  assumes "mm_wf m" and "\<And>old. set (f old) = W \<union> set (old_vals old)"
  shows "mm_vals \<lparr>map_m = smap_upd key f (map_m m), keys_m = smap_upd (ToLower key) g (keys_m m)\<rparr> k
       = (if ToLower k = ToLower key then W else {}) \<union> mm_vals m k"
proof -
  have "map_of (smap_upd key f (map_m m)) = (map_of (map_m m))(key \<mapsto> f (map_of (map_m m) key))"
    using assms(1) by (simp add: mm_wf_def smap.lookup_upd)
  then have "set (old_vals (map_of (smap_upd key f (map_m m)) k')) =
      (if k' = key then W else {}) \<union> set (old_vals (map_of (map_m m) k'))" for k'
    using assms(2) by simp
  then show ?thesis unfolding mm_vals_def by (auto split: if_splits)
qed

lemma mm_wf_Add [wf_intros]: "mm_wf m \<Longrightarrow> mm_wf (Add key v m)"
  unfolding Add_def by (rule mm_upd_wf) (auto intro: ins_val_wf)

lemma mm_vals_Add:
  "mm_wf m \<Longrightarrow> mm_vals (Add key v m) k = (if ToLower k = ToLower key then {v} else {}) \<union> mm_vals m k"
  unfolding Add_def by (rule mm_upd_vals) simp_all

lemma AddAll_loop_wf:
  "mm_wf m \<Longrightarrow> (\<forall>(k, vs) \<in> set kvs. vs \<noteq> []) \<Longrightarrow> mm_wf (AddAll_loop kvs m)"
proof (induction kvs m rule: AddAll_loop.induct)
  case (2 key vals rest m)
  then show ?case
    by (simp, intro "2.IH" mm_upd_wf) (auto intro: ins_vals_wf simp: ins_vals_nonempty)
qed simp

lemma mm_entries:
  assumes "mm_wf h" "(k, vs) \<in> set (map_m h)"
  shows "map_of (map_m h) k = Some vs" "vs \<noteq> []"
proof -
  have "smap_wf (map_m h)" using assms by (simp add: mm_wf_def)
  then show *: "map_of (map_m h) k = Some vs" using assms smap.items_iff by fastforce
  with assms show "vs \<noteq> []" by (auto simp: mm_wf_def)
qed

lemma mm_wf_AddAll [wf_intros]: "mm_wf m \<Longrightarrow> mm_wf h \<Longrightarrow> mm_wf (AddAll h m)"
  unfolding AddAll_def by (rule AddAll_loop_wf) (auto dest: mm_entries)

lemma AddAll_loop_vals:
  "mm_wf m \<Longrightarrow> (\<forall>(k, vs) \<in> set kvs. vs \<noteq> []) \<Longrightarrow>
   mm_vals (AddAll_loop kvs m) key =
     (\<Union>(k, vs) \<in> set kvs. if ToLower k = ToLower key then set vs else {}) \<union> mm_vals m key"
proof (induction kvs m rule: AddAll_loop.induct)
  case (2 k vals rest m)
  let ?m = "\<lparr>map_m = smap_upd k (ins_vals vals) (map_m m), keys_m = smap_upd (ToLower k) (ins_val k) (keys_m m)\<rparr>"
  have "mm_wf ?m" using 2 by (intro mm_upd_wf) (auto intro: ins_vals_wf simp: ins_vals_nonempty)
  with 2 show ?case
    using mm_upd_vals [of m "ins_vals vals" "set vals" k "ins_val k" key] by auto
qed simp

lemma mm_vals_entries:
  assumes "mm_wf h"
  shows "(\<Union>(k, vs) \<in> set (map_m h). if ToLower k = ToLower key then set vs else {}) = mm_vals h key"
proof -
  have "smap_wf (map_m h)" using assms by (simp add: mm_wf_def)
  then have ent: "(k, vs) \<in> set (map_m h) \<longleftrightarrow> map_of (map_m h) k = Some vs" for k vs
    using smap.items_iff by fastforce
  have "x \<in> set (old_vals (map_of (map_m h) k)) \<longleftrightarrow> (\<exists>vs. (k, vs) \<in> set (map_m h) \<and> x \<in> set vs)" for x k
    unfolding ent by (cases "map_of (map_m h) k") auto
  then show ?thesis unfolding mm_vals_def by (fastforce split: if_splits)
qed

lemma mm_vals_AddAll:
  assumes "mm_wf m" "mm_wf h"
  shows "mm_vals (AddAll h m) key = mm_vals h key \<union> mm_vals m key"
proof -
  have "\<forall>(k, vs) \<in> set (map_m h). vs \<noteq> []" using mm_entries(2) [OF assms(2)] by blast
  then show ?thesis unfolding AddAll_def
    by (simp only: AddAll_loop_vals [OF assms(1)] mm_vals_entries [OF assms(2)])
qed

lemma set_Get:
  assumes "mm_wf m"
  shows "set (Get key m) = mm_vals m key"
proof -
  have "set (Get key m) =
      (\<Union>k \<in> set (old_vals (map_of (keys_m m) (ToLower key))). set (old_vals (map_of (map_m m) k)))"
    by (cases "map_of (keys_m m) (ToLower key)") (simp_all add: Get_def)
  also have "\<dots> = mm_vals m key"
  proof -
    have "k \<in> dom (map_of (map_m m))" if "x \<in> set (old_vals (map_of (map_m m) k))" for x k
      using that by (cases "map_of (map_m m) k") auto
    then show ?thesis unfolding mm_keys_set [OF assms] mm_vals_def by blast
  qed
  finally show ?thesis .
qed

lemma mm_Contains_iff:
  assumes "mm_wf m"
  shows "mm_Contains key m \<longleftrightarrow> mm_vals m key \<noteq> {}"
proof -
  have "mm_Contains key m \<longleftrightarrow> set (old_vals (map_of (keys_m m) (ToLower key))) \<noteq> {}"
    using assms by (auto simp: mm_Contains_def mm_wf_def)
  also have "\<dots> \<longleftrightarrow> (\<exists>k vs. ToLower k = ToLower key \<and> map_of (map_m m) k = Some vs)"
    unfolding mm_keys_set [OF assms] by auto
  also have "\<dots> \<longleftrightarrow> mm_vals m key \<noteq> {}"
  proof
    assume "\<exists>k vs. ToLower k = ToLower key \<and> map_of (map_m m) k = Some vs"
    then obtain k vs where k: "ToLower k = ToLower key" "map_of (map_m m) k = Some vs" by blast
    with assms have "vs \<noteq> []" by (auto simp: mm_wf_def)
    with k show "mm_vals m key \<noteq> {}" unfolding mm_vals_def by force
  next
    assume "mm_vals m key \<noteq> {}"
    then obtain k where "ToLower k = ToLower key" "old_vals (map_of (map_m m) k) \<noteq> []"
      unfolding mm_vals_def by auto
    then show "\<exists>k vs. ToLower k = ToLower key \<and> map_of (map_m m) k = Some vs"
      by (cases "map_of (map_m m) k") auto
  qed
  finally show ?thesis .
qed

lemma mm_vals_empty [simp]: "mm_vals mm_empty key = {}"
  by (simp add: mm_vals_def mm_empty_def)

lemma mm_vals_lower: "ToLower k = ToLower k' \<Longrightarrow> mm_vals m k = mm_vals m k'"
  by (simp add: mm_vals_def)

lemma GetFront_mem: "mm_wf m \<Longrightarrow> mm_Contains key m \<Longrightarrow> GetFront key m \<in> mm_vals m key"
  using set_Get [of m key] by (cases "Get key m") (auto simp: GetFront_def mm_Contains_iff)

text \<open>What the rest of the library uses of a header collection.\<close>

locale header_map =
  fixes empty :: 'h and add :: "string \<Rightarrow> string \<Rightarrow> 'h \<Rightarrow> 'h" and add_all :: "'h \<Rightarrow> 'h \<Rightarrow> 'h"
    and vals :: "'h \<Rightarrow> string \<Rightarrow> string set" and wf :: "'h \<Rightarrow> bool"
  assumes wf_empty: "wf empty"
    and wf_add: "wf m \<Longrightarrow> wf (add k v m)"
    and wf_add_all: "wf h \<Longrightarrow> wf m \<Longrightarrow> wf (add_all h m)"
    and vals_empty: "vals empty k = {}"
    and vals_add: "wf m \<Longrightarrow> vals (add k v m) k' = (if ToLower k' = ToLower k then {v} else {}) \<union> vals m k'"
    and vals_add_all: "wf h \<Longrightarrow> wf m \<Longrightarrow> vals (add_all h m) k = vals h k \<union> vals m k"
begin

definition adds :: "(string \<times> string) list \<Rightarrow> 'h \<Rightarrow> 'h" where
  "adds kvs m = foldl (\<lambda>m (k, v). add k v m) m kvs"

lemma wf_adds: "wf m \<Longrightarrow> wf (adds kvs m)"
  unfolding adds_def by (induction kvs arbitrary: m) (auto simp: wf_add)

lemma vals_adds: "wf m \<Longrightarrow>
    vals (adds kvs m) k = {v. \<exists>k'. (k', v) \<in> set kvs \<and> ToLower k = ToLower k'} \<union> vals m k"
  unfolding adds_def
proof (induction kvs arbitrary: m)
  case (Cons kv kvs)
  obtain a b where kv: "kv = (a, b)" by (cases kv)
  have "foldl (\<lambda>m (k, v). add k v m) m (kv # kvs) = foldl (\<lambda>m (k, v). add k v m) (add a b m) kvs"
    by (simp add: kv)
  moreover have "wf (add a b m)" using Cons.prems by (rule wf_add)
  ultimately show ?case using Cons.IH [of "add a b m"] vals_add [OF Cons.prems, of a b k]
    by (auto simp: kv)
qed simp

lemma vals_grow: "wf m \<Longrightarrow> vals m k \<subseteq> vals (add k' v m) k"
  by (auto simp: vals_add)

lemma vals_add_same: "wf m \<Longrightarrow> v \<in> vals (add k v m) k"
  by (simp add: vals_add)

end

interpretation mm: header_map mm_empty Add AddAll mm_vals mm_wf
  by unfold_locales (simp_all add: mm_wf_Add mm_wf_AddAll mm_vals_Add mm_vals_AddAll)

subsection \<open>The canonical query string\<close>

text \<open>What a server reads back: pieces at \<open>&\<close>, key and value at the first \<open>=\<close>, both decoded.\<close>

definition parse_param :: "string \<Rightarrow> string \<times> string" where
  "parse_param t = (UriDecode (takeWhile (\<lambda>c. c \<noteq> CHR ''='') t),
                    UriDecode (drop 1 (dropWhile (\<lambda>c. c \<noteq> CHR ''='') t)))"

definition parse_query :: "string \<Rightarrow> (string \<times> string) list" where
  "parse_query s = map parse_param (tokens (CHR ''&'') s)"

definition enc_param :: "string \<times> string \<Rightarrow> string" where
  "enc_param p = UriEncode (fst p) @ ''='' @ UriEncode (snd p)"

lemma takeWhile_until: "c \<notin> set a \<Longrightarrow> takeWhile (\<lambda>x. x \<noteq> c) (a @ c # b) = a"
  by (induction a) auto

lemma dropWhile_until: "c \<notin> set a \<Longrightarrow> dropWhile (\<lambda>x. x \<noteq> c) (a @ c # b) = c # b"
  by (induction a) auto

lemma parse_param_enc: "parse_param (enc_param p) = p"
  using takeWhile_until [OF UriEncode_no_sep(3), of "fst p" "UriEncode (snd p)"]
    dropWhile_until [OF UriEncode_no_sep(3), of "fst p" "UriEncode (snd p)"]
  by (simp add: parse_param_def enc_param_def UriDecode_UriEncode)

interpretation param: codec enc_param parse_param "\<lambda>p. p" "\<lambda>_. True"
  by unfold_locales (simp_all add: parse_param_enc)

lemma enc_param_props [simp]: "enc_param p \<noteq> []" "CHR ''&'' \<notin> set (enc_param p)"
  using UriEncode_no_sep(2) by (auto simp: enc_param_def)

lemma canon_query_loop_eq:
  "qs \<noteq> [] \<Longrightarrow> canon_query_loop qs ps = qs @ concat (map (\<lambda>p. CHR ''&'' # enc_param p) ps)"
  by (induction qs ps rule: canon_query_loop.induct) (auto simp: enc_param_def)

lemma canon_query_Cons:
  "canon_query_loop [] (p # ps) = enc_param p @ concat (map (\<lambda>p. CHR ''&'' # enc_param p) ps)"
  by (cases p) (simp add: canon_query_loop_eq enc_param_def)

lemma parse_query_params: "parse_query (canon_query_loop [] ps) = ps"
proof (cases ps)
  case Nil
  then show ?thesis by (simp add: parse_query_def tokens_def)
next
  case (Cons p qs)
  have "tokens (CHR ''&'') (enc_param p @ concat (map (\<lambda>q. CHR ''&'' # q) (map enc_param qs)))
      = enc_param p # map enc_param qs"
    by (rule tokens_joined) simp
  then show ?thesis using Cons
    by (simp add: parse_query_def canon_query_Cons parse_param_enc comp_def)
qed

lemma parse_query_canonical: "parse_query (GetCanonicalQueryString m) = mm_pairs m"
  by (simp add: GetCanonicalQueryString_def parse_query_params)

lemma mm_pairs_iff:
  assumes "mm_wf m"
  shows "(k, v) \<in> set (mm_pairs m) \<longleftrightarrow> v \<in> set (old_vals (map_of (map_m m) k))"
proof -
  have "smap_wf (map_m m)" using assms by (simp add: mm_wf_def)
  then have "(k, vs) \<in> set (map_m m) \<longleftrightarrow> map_of (map_m m) k = Some vs" for k vs
    using smap.items_iff by fastforce
  then show ?thesis by (cases "map_of (map_m m) k") (auto simp: mm_pairs_def)
qed

subsection \<open>Canonical headers\<close>

text \<open>Words of a value: its maximal runs of non-blank characters.\<close>

definition blank_words :: "string \<Rightarrow> string list" where
  "blank_words s = filter (\<lambda>w. w \<noteq> []) (tokens (CHR '' '') s)"

definition spaced :: "string list \<Rightarrow> string" where
  "spaced ws = concat (map (\<lambda>w. CHR '' '' # w) ws)"

lemma getline_tokens_first:
  "cur \<noteq> [] \<Longrightarrow> \<exists>w ws. getline_tokens d cur s = w # ws \<and> w \<noteq> []"
  by (induction s arbitrary: cur) auto

lemma remove_extra_loop_all:
  "(\<forall>cur. cur \<noteq> [] \<longrightarrow>
      CHR '' '' # remove_extra_loop (rev cur) False s
        = spaced (filter (\<lambda>w. w \<noteq> []) (getline_tokens (CHR '' '') cur s))
      \<and> (\<forall>r. remove_extra_loop (r @ rev cur) False s = r @ remove_extra_loop (rev cur) False s))
   \<and> (\<forall>r. r \<noteq> [] \<longrightarrow> remove_extra_loop r True s
        = r @ spaced (filter (\<lambda>w. w \<noteq> []) (getline_tokens (CHR '' '') [] s)))"
  (is "(\<forall>cur. cur \<noteq> [] \<longrightarrow> ?A cur s) \<and> (\<forall>r. r \<noteq> [] \<longrightarrow> ?B r s)")
proof (induction s)
  case Nil
  show ?case by (simp add: spaced_def)
next
  case (Cons c s)
  then have A: "cur \<noteq> [] \<Longrightarrow> ?A cur s" and B: "r \<noteq> [] \<Longrightarrow> ?B r s" for cur r by blast+
  have "?A cur (c # s)" if "cur \<noteq> []" for cur
  proof (cases "c = CHR '' ''")
    case True
    with that B show ?thesis by (simp add: spaced_def)
  next
    case False
    then show ?thesis using A [of "c # cur"] by simp
  qed
  moreover have "?B r (c # s)" if "r \<noteq> []" for r
  proof (cases "c = CHR '' ''")
    case True
    with that B show ?thesis by simp
  next
    case False
    have "remove_extra_loop ((r @ '' '') @ [c]) False s = r @ CHR '' '' # remove_extra_loop [c] False s"
      using A [of "[c]"] by (metis append.assoc append_Cons append_Nil list.distinct(1) rev_singleton_conv)
    with that False A [of "[c]"] show ?thesis by simp
  qed
  ultimately show ?case by blast
qed

lemma remove_extra_loop_eq:
  "cur \<noteq> [] \<Longrightarrow> CHR '' '' # remove_extra_loop (rev cur) False s
     = spaced (filter (\<lambda>w. w \<noteq> []) (getline_tokens (CHR '' '') cur s))"
  using remove_extra_loop_all by blast

text \<open>\<open>removeExtraSpaces\<close> keeps the words and puts one blank between neighbours.\<close>

lemma removeExtraSpaces_words: "removeExtraSpaces s = Join (blank_words s) '' ''"
proof -
  have "remove_extra_loop [] b s = drop 1 (spaced (blank_words s))" for b
  proof (induction s arbitrary: b)
    case Nil
    then show ?case by (simp add: blank_words_def tokens_def spaced_def)
  next
    case (Cons c s)
    show ?case
    proof (cases "c = CHR '' ''")
      case True
      with Cons show ?thesis by (simp add: blank_words_def tokens_def)
    next
      case False
      then show ?thesis using remove_extra_loop_eq [of "[c]" s]
        by (simp add: blank_words_def tokens_def) (metis drop0 drop_Suc_Cons)
    qed
  qed
  moreover have "drop 1 (spaced ws) = Join ws '' ''" if "\<forall>w \<in> set ws. w \<noteq> []" for ws
  proof (cases ws)
    case Nil
    then show ?thesis by (simp add: spaced_def Join_def)
  next
    case (Cons w ws')
    with that show ?thesis by (simp add: spaced_def Join_eq)
  qed
  moreover have "\<forall>w \<in> set (blank_words s). w \<noteq> []" by (simp add: blank_words_def)
  ultimately show ?thesis unfolding removeExtraSpaces_def by metis
qed

definition signed_entries :: "multimap \<Rightarrow> (string \<times> string list) list" where
  "signed_entries m =
     filter (\<lambda>e. ToLower (fst e) \<noteq> ''authorization'' \<and> ToLower (fst e) \<noteq> ''user-agent'') (map_m m)"

definition header_name :: "string \<times> string list \<Rightarrow> string" where
  "header_name e = ToLower (fst e)"

definition header_line :: "string \<times> string list \<Rightarrow> string" where
  "header_line e = header_name e @ '':'' @ canon_value (snd e)"

lemma canon_headers_loop_eq:
  "sh \<noteq> [] \<Longrightarrow> canon_headers_loop sh ch es =
     (let kept = filter (\<lambda>e. ToLower (fst e) \<noteq> ''authorization'' \<and> ToLower (fst e) \<noteq> ''user-agent'') es
      in (sh @ concat (map (\<lambda>e. CHR '';'' # header_name e) kept),
          ch @ concat (map (\<lambda>e. CHR 0x0A # header_line e) kept)))"
  by (induction sh ch es rule: canon_headers_loop.induct)
    (auto simp: Let_def header_name_def header_line_def)

lemma canon_headers_skip:
  "fst e \<noteq> [] \<Longrightarrow> canon_headers_loop [] [] (e # es) =
     (if ToLower (fst e) = ''authorization'' \<or> ToLower (fst e) = ''user-agent''
      then canon_headers_loop [] [] es
      else canon_headers_loop (header_name e) (header_line e) es)"
  by (cases e) (simp add: header_name_def header_line_def Let_def)

lemma header_name_ne: "fst e \<noteq> [] \<Longrightarrow> header_name e \<noteq> []"
  by (simp add: header_name_def ToLower_def)

lemma GetCanonicalHeaders_eq:
  assumes "[] \<notin> fst ` set (map_m m)"
  shows "GetCanonicalHeaders m =
    (Join (map header_name (signed_entries m)) '';'', Join (map header_line (signed_entries m)) [CHR 0x0A])"
proof -
  have "canon_headers_loop [] [] es =
      (let kept = filter (\<lambda>e. ToLower (fst e) \<noteq> ''authorization'' \<and> ToLower (fst e) \<noteq> ''user-agent'') es
       in (Join (map header_name kept) '';'', Join (map header_line kept) [CHR 0x0A]))"
    if "[] \<notin> fst ` set es" for es
    using that
  proof (induction es)
    case Nil
    then show ?case by (simp add: Join_def)
  next
    case (Cons e es)
    then have ne: "fst e \<noteq> []" by force
    show ?case
    proof (cases "ToLower (fst e) = ''authorization'' \<or> ToLower (fst e) = ''user-agent''")
      case True
      with Cons ne show ?thesis by (auto simp: canon_headers_skip simp del: canon_headers_loop.simps)
    next
      case False
      have "header_line e \<noteq> []" by (simp add: header_line_def)
      with False ne show ?thesis
        by (simp add: canon_headers_skip canon_headers_loop_eq [OF header_name_ne [OF ne]] Join_eq
            header_name_ne Let_def comp_def del: canon_headers_loop.simps)
    qed
  qed
  with assms show ?thesis by (simp add: GetCanonicalHeaders_def signed_entries_def Let_def)
qed

text \<open>Spellings that are already lower case come out in strictly increasing order.\<close>

lemma signed_names_sorted:
  assumes "mm_wf m" "\<And>k. k \<in> fst ` set (map_m m) \<Longrightarrow> ToLower k = k"
  shows "sorted_wrt (<) (map header_name (signed_entries m))"
proof -
  have "map header_name (signed_entries m) = map fst (signed_entries m)"
    using assms(2) by (auto simp: signed_entries_def header_name_def)
  moreover have "sorted_wrt (<) (map fst (signed_entries m))"
    using assms(1) by (auto simp: mm_wf_def smap_wf_def signed_entries_def sorted_wrt_map
        intro: sorted_wrt_filter)
  ultimately show ?thesis by (simp only:)
qed

end
