(* ===== verification/Crc64.thy ===== *)
theory Crc64
  imports Utils
begin

section \<open>CRC-64/NVME (src/utils.cc)\<close>

text \<open>
  The reflected table-driven checksum of the RDMA upload path: the table, the byte loop,
  the big-endian bytes that are base64-encoded. The reference is the bit-serial division;
  the table-driven loop computes the same register.
\<close>

unbundle bit_operations_syntax

definition kPoly :: u64 where
  "kPoly = 0x9a6c9329ac4bc9b5"

text \<open>One turn of the inner loop that builds a table entry.\<close>

definition crc_bit :: "u64 \<Rightarrow> u64" where
  "crc_bit crc = (if crc AND 1 \<noteq> 0 then drop_bit 1 crc XOR kPoly else drop_bit 1 crc)"

definition Crc64NvmeTable :: "u64 list" where
  "Crc64NvmeTable = map (\<lambda>i. (crc_bit ^^ 8) (word_of_nat i)) [0..<256]"

definition crc_table_step :: "u64 \<Rightarrow> char \<Rightarrow> u64" where
  "crc_table_step crc p =
     (Crc64NvmeTable ! unat ((crc XOR word_of_nat (byte p)) AND 0xff)) XOR drop_bit 8 crc"

definition Crc64Nvme :: "string \<Rightarrow> u64" where
  "Crc64Nvme data = foldl crc_table_step 0xffffffffffffffff data XOR 0xffffffffffffffff"

text \<open>The eight bytes, most significant first; base64 is OpenSSL's.\<close>

definition crc_be_bytes :: "u64 \<Rightarrow> string" where
  "crc_be_bytes crc = map (\<lambda>i. char_of (unat (drop_bit (56 - i * 8) crc AND 0xff))) [0..<8]"

definition Crc64NvmeBase64 :: "(string \<Rightarrow> string) \<Rightarrow> string \<Rightarrow> string" where
  "Crc64NvmeBase64 base64 data = base64 (crc_be_bytes (Crc64Nvme data))"

subsection \<open>The bit-serial reference\<close>

text \<open>Feed the message bit by bit, least significant bit of each byte first.\<close>

definition crc_serial_step :: "u64 \<Rightarrow> bool \<Rightarrow> u64" where
  "crc_serial_step crc b =
     (if bit crc 0 \<noteq> b then drop_bit 1 crc XOR kPoly else drop_bit 1 crc)"

definition byte_bits :: "char \<Rightarrow> bool list" where
  "byte_bits c = map (bit (byte c)) [0..<8]"

definition crc_serial :: "string \<Rightarrow> u64" where
  "crc_serial data =
     foldl crc_serial_step 0xffffffffffffffff (concat (map byte_bits data)) XOR 0xffffffffffffffff"

lemma and_one_iff: "(crc :: u64) AND 1 \<noteq> 0 \<longleftrightarrow> bit crc 0"
  by (simp add: and_one_eq bit_0 odd_iff_mod_2_eq_one)

lemma crc_bit_alt: "crc_bit x = (if bit x 0 then drop_bit 1 x XOR kPoly else drop_bit 1 x)"
  unfolding crc_bit_def and_one_iff ..

text \<open>\<open>crc_bit\<close> is linear.\<close>

lemma crc_bit_xor: "crc_bit (x XOR y) = crc_bit x XOR crc_bit y"
  unfolding crc_bit_alt
  by (auto simp: drop_bit_xor bit_xor_iff intro!: bit_word_eqI)

lemma crc_bit_pow_xor: "(crc_bit ^^ n) (x XOR y) = (crc_bit ^^ n) x XOR (crc_bit ^^ n) y"
  by (induction n arbitrary: x y) (simp_all add: crc_bit_xor)

text \<open>A register whose low \<open>n\<close> bits are clear is only shifted by \<open>n\<close> turns.\<close>

lemma crc_bit_pow_shift:
  "(\<forall>i < n. \<not> bit x i) \<Longrightarrow> (crc_bit ^^ n) x = drop_bit n x"
proof (induction n arbitrary: x)
  case (Suc n)
  then have "crc_bit x = drop_bit 1 x" by (simp add: crc_bit_alt)
  moreover have "\<forall>i < n. \<not> bit (drop_bit 1 x) i" using Suc.prems by (auto simp: bit_drop_bit_eq)
  ultimately show ?case
    using Suc.IH [of "drop_bit 1 x"]
    by (simp add: funpow_Suc_right del: funpow.simps)
qed simp

lemma table_entry: "(crc_bit ^^ 8) (x :: u64) = Crc64NvmeTable ! unat (x AND 0xff) XOR drop_bit 8 x"
proof -
  define lo hi where "lo = take_bit 8 x" and "hi = x AND NOT (mask 8)"
  have andff: "x AND 0xff = lo" by (simp add: lo_def take_bit_eq_mask mask_eq_exp_minus_1)
  have x: "x = lo XOR hi" unfolding lo_def hi_def
    by (intro bit_word_eqI) (auto simp: bit_xor_iff bit_and_iff bit_not_iff bit_mask_iff bit_take_bit_iff)
  have "\<forall>i < 8. \<not> bit hi i"
    unfolding hi_def by (auto simp: bit_and_iff bit_not_iff bit_mask_iff)
  then have hi8: "(crc_bit ^^ 8) hi = drop_bit 8 hi" by (rule crc_bit_pow_shift)
  have drop: "drop_bit 8 hi = drop_bit 8 x"
    unfolding hi_def
    by (intro bit_word_eqI) (auto simp: bit_drop_bit_eq bit_and_iff bit_not_iff bit_mask_iff
        dest: bit_imp_le_length)
  have "unat lo < 256"
    unfolding lo_def unsigned_take_bit_eq using take_bit_nat_less_exp [of 8 "unat x"] by simp
  then have "Crc64NvmeTable ! unat lo = (crc_bit ^^ 8) lo"
    by (simp add: Crc64NvmeTable_def)
  moreover have "(crc_bit ^^ 8) x = (crc_bit ^^ 8) lo XOR (crc_bit ^^ 8) hi"
    using crc_bit_pow_xor [of 8 lo hi] x by simp
  ultimately show ?thesis unfolding andff hi8 drop by simp
qed

text \<open>Eight serial steps on the bits of a byte are eight turns on the register into which
  the byte has been added.\<close>

lemma crc_serial_bits:
  "n + k \<le> 64 \<Longrightarrow> foldl crc_serial_step crc (map (bit b) [n..<n + k])
     = (crc_bit ^^ k) (crc XOR take_bit k (drop_bit n (b :: u64)))"
proof (induction k arbitrary: n crc)
  case (Suc k)
  let ?t = "take_bit (Suc k) (drop_bit n b)"
  have "crc_serial_step crc (bit b n) XOR take_bit k (drop_bit (Suc n) b) = crc_bit (crc XOR ?t)"
  proof -
    have "bit (crc XOR ?t) 0 \<longleftrightarrow> bit crc 0 \<noteq> bit b n"
      using Suc.prems by (simp add: bit_xor_iff bit_take_bit_iff bit_drop_bit_eq)
    moreover have "drop_bit 1 (crc XOR ?t) = drop_bit 1 crc XOR take_bit k (drop_bit (Suc n) b)"
      by (intro bit_word_eqI)
        (auto simp: bit_drop_bit_eq bit_xor_iff bit_take_bit_iff add.commute dest: bit_imp_le_length)
    ultimately show ?thesis
      unfolding crc_bit_alt crc_serial_step_def by (auto simp: xor.assoc xor.commute xor.left_commute)
  qed
  moreover have "map (bit b) [n..<n + Suc k] = bit b n # map (bit b) [Suc n..<Suc n + k]"
    by (simp add: upt_conv_Cons del: upt_Suc)
  ultimately show ?case
    using Suc.IH [of "Suc n" "crc_serial_step crc (bit b n)"] Suc.prems
    by (simp add: funpow_Suc_right del: funpow.simps upt_Suc)
qed simp

lemma byte_less_exp: "byte c < 2 ^ 8"
  using byte_less [of c] by simp

lemma bit_byte: "bit (byte c) i \<Longrightarrow> i < 8"
  using take_bit_nat_eq_self [of "byte c" 8] by (metis bit_take_bit_iff byte_less_exp)

lemma bit_word_of_byte: "bit (word_of_nat (byte c) :: u64) i \<longleftrightarrow> bit (byte c) i"
proof -
  have "unat (word_of_nat (byte c) :: u64) = byte c"
    using less_trans [OF byte_less [of c], of "2 ^ 64"] by (simp add: unat_of_nat del: byte_less)
  moreover have "bit (unat (word_of_nat (byte c) :: u64)) i \<longleftrightarrow> bit (word_of_nat (byte c) :: u64) i"
    by (auto simp: bit_unsigned_iff dest: bit_imp_le_length)
  ultimately show ?thesis by simp
qed

lemma byte_bits_step: "foldl crc_serial_step crc (byte_bits c) = crc_table_step crc c"
proof -
  define b where "b = (word_of_nat (byte c) :: u64)"
  have small: "take_bit 8 b = b" unfolding b_def 
    by (intro bit_word_eqI) (auto simp: bit_take_bit_iff bit_word_of_byte intro: bit_byte)
  have "byte_bits c = map (bit b) [0..<0 + 8]"
    unfolding byte_bits_def b_def bit_word_of_byte by simp
  then have "foldl crc_serial_step crc (byte_bits c) = (crc_bit ^^ 8) (crc XOR b)"
    using crc_serial_bits [of 0 8 crc b] small by simp
  moreover have "drop_bit 8 (crc XOR b) = drop_bit 8 crc"
    using arg_cong [OF small, of "drop_bit 8"] by (simp add: drop_bit_xor drop_bit_take_bit)
  ultimately show ?thesis unfolding crc_table_step_def b_def by (simp add: table_entry)
qed

lemma crc_table_is_serial:
  "foldl crc_serial_step crc (concat (map byte_bits data)) = foldl crc_table_step crc data"
  by (induction data arbitrary: crc) (simp_all add: byte_bits_step)

end
