(* ===== verification/PartInfo.thy ===== *)
theory PartInfo
  imports Prelude
begin

section \<open>Part sizes of multipart uploads (src/utils.cc, utils.h)\<close>

text \<open>
  The limits of \<open>include/miniocpp/utils.h\<close> at the widths the header gives them, and
  \<open>CalcPartInfo\<close> on 64-bit words. \<open>kMinPartSize * 1024\<close> is a product of 32-bit unsigned
  integers, so it wraps before it is widened: \<open>kMaxPartSize\<close> is 1 GiB and
  \<open>kMaxObjectSize\<close> 1 TiB, not the 5 GiB and 5 TiB of the comments and error messages.

  The part size is computed in \<open>double\<close>. \<open>double_div_ceil\<close> is \<open>std::ceil((double)a / b)\<close>
  for naturals below 2^52: the quotient is rounded to 53 significant bits, ties to even,
  as IEEE 754 prescribes, and the ceiling is taken of the rounded value.
\<close>

definition kMaxMultipartCount :: u32 where
  "kMaxMultipartCount = 10000"

definition kMinPartSize :: u32 where
  "kMinPartSize = 5 * 1024 * 1024"

definition kMaxPartSize :: u64 where
  "kMaxPartSize = ucast (kMinPartSize * 1024)"

definition kMaxObjectSize :: u64 where
  "kMaxObjectSize = kMaxPartSize * 1024"

subsection \<open>Division in double precision\<close>

text \<open>\<open>fl_scale n a b\<close>: the least \<open>k\<close> with \<open>2^52 \<le> 2^k * a / b\<close>, looked for up to \<open>n\<close>.\<close>

primrec fl_scale :: "nat \<Rightarrow> nat \<Rightarrow> nat \<Rightarrow> nat" where
  "fl_scale 0 a b = 0"
| "fl_scale (Suc n) a b = (if 2 ^ 52 * b \<le> a then 0 else Suc (fl_scale n (2 * a) b))"

text \<open>Rounding a quotient to the nearest integer, ties to even.\<close>

definition rne_div :: "nat \<Rightarrow> nat \<Rightarrow> nat" where
  "rne_div a b =
     (let q = a div b; r = a mod b in if 2 * r < b \<or> (2 * r = b \<and> even q) then q else q + 1)"

definition double_div_ceil :: "nat \<Rightarrow> nat \<Rightarrow> nat" where
  "double_div_ceil a b =
     (if a = 0 then 0
      else let k = fl_scale 128 a b; m = rne_div (a * 2 ^ k) b in (m + 2 ^ k - 1) div 2 ^ k)"

lemma fl_scale_reaches: "2 ^ 52 * b \<le> a * 2 ^ n \<Longrightarrow> 2 ^ 52 * b \<le> a * 2 ^ fl_scale n a b"
proof (induction n arbitrary: a)
  case (Suc n)
  show ?case
  proof (cases "2 ^ 52 * b \<le> a")
    case False
    have "a * 2 ^ Suc n = (2 * a) * 2 ^ n" by simp
    with Suc.prems have "2 ^ 52 * b \<le> (2 * a) * 2 ^ n" by metis
    then have "2 ^ 52 * b \<le> (2 * a) * 2 ^ fl_scale n (2 * a) b" by (rule Suc.IH)
    also have "\<dots> = a * 2 ^ fl_scale (Suc n) a b" using False by simp
    finally show ?thesis .
  qed simp
qed simp

lemma rne_div_bounds: "N div b \<le> rne_div N b" "rne_div N b \<le> N div b + 1"
  by (auto simp: rne_div_def Let_def)

lemma rne_div_exact: "0 < b \<Longrightarrow> rne_div (q * b) b = q"
  by (simp add: rne_div_def)

lemma ceil_div_multiple:
  assumes "0 < (b :: nat)"
  shows "(q * b + b - 1) div b = q"
proof -
  obtain c where "b = Suc c" using assms by (cases b) auto
  then have "q * b + b - 1 = c + q * b" "c < b" by simp_all
  then show ?thesis by (simp only: div_mult_self1) simp
qed

text \<open>The rounding never crosses an integer, so the ceiling is that of the exact quotient.\<close>

lemma double_div_ceil_eq:
  assumes "a < 2 ^ 52" "0 < b" "b < 2 ^ 64"
  shows "double_div_ceil a b = (a + b - 1) div b"
proof (cases "a = 0")
  case False
  define k where "k = fl_scale 128 a b"
  define q r where "q = a div b" and "r = a mod b"
  have a: "a = q * b + r" "r < b" using assms by (simp_all add: q_def r_def)
  have "2 ^ 52 * b \<le> 2 ^ 52 * 2 ^ 64" using assms(3) by simp
  also have "\<dots> \<le> a * 2 ^ 128" using False by (simp add: Suc_le_eq)
  finally have "2 ^ 52 * b \<le> a * 2 ^ k" unfolding k_def by (rule fl_scale_reaches)
  then have "2 ^ 52 * b < 2 ^ 52 * 2 ^ k"
    using assms(1) by (metis le_less_trans mult_less_mono1 zero_less_numeral zero_less_power)
  then have b_k: "b < 2 ^ k" by simp
  define m where "m = rne_div (a * 2 ^ k) b"
  have goal: "double_div_ceil a b = (m + 2 ^ k - 1) div 2 ^ k"
    using False by (simp add: double_div_ceil_def k_def m_def Let_def)
  show ?thesis
  proof (cases "r = 0")
    case True
    with a have "a * 2 ^ k = (q * 2 ^ k) * b" by simp
    then have "m = q * 2 ^ k" unfolding m_def using assms(2) rne_div_exact by metis
    then have "(m + 2 ^ k - 1) div 2 ^ k = q"
      using ceil_div_multiple [of "2 ^ k" q] by simp
    moreover have "(a + b - 1) div b = q" using a True assms(2) ceil_div_multiple by simp
    ultimately show ?thesis using goal by simp
  next
    case False
    have split: "a * 2 ^ k = q * 2 ^ k * b + r * 2 ^ k" by (simp add: a algebra_simps)
    have "b \<le> r * 2 ^ k" using b_k False by (metis le_trans less_imp_le_nat mult_le_mono1 nat_mult_1
          Suc_le_eq One_nat_def gr0I)
    then have "q * 2 ^ k * b + b \<le> a * 2 ^ k" using split by simp
    then have "(q * 2 ^ k + 1) * b \<le> a * 2 ^ k" by simp
    then have lo: "q * 2 ^ k + 1 \<le> a * 2 ^ k div b" using assms(2)
      by (simp add: less_eq_div_iff_mult_less_eq)
    have "r * 2 ^ k < b * 2 ^ k" using a(2) by simp
    then have "a * 2 ^ k < (q + 1) * 2 ^ k * b" unfolding split by (simp add: algebra_simps)
    then have "a * 2 ^ k div b < (q + 1) * 2 ^ k" using assms(2) by (simp add: div_less_iff_less_mult)
    with lo rne_div_bounds [of "a * 2 ^ k" b] have m: "q * 2 ^ k + 1 \<le> m" "m \<le> (q + 1) * 2 ^ k"
      unfolding m_def by linarith+
    have "(m + 2 ^ k - 1) div 2 ^ k = q + 1"
      using m by (intro div_nat_eqI) (simp_all add: algebra_simps)
    moreover have "(a + b - 1) div b = q + 1"
      using a False assms(2) by (intro div_nat_eqI) (simp_all add: algebra_simps)
    ultimately show ?thesis using goal by simp
  qed
qed (use assms in \<open>simp add: double_div_ceil_def\<close>)

subsection \<open>CalcPartInfo\<close>

text \<open>The arguments and results are the three variables the function reads and writes:
  the object size, the part size and the part count.\<close>

definition auto_part_size :: "u64 \<Rightarrow> u64" where
  "auto_part_size object_size =
     (let psize = double_div_ceil (unat object_size) (unat kMaxMultipartCount)
      in word_of_nat (double_div_ceil psize (unat kMinPartSize)) * ucast kMinPartSize)"

definition CalcPartInfo :: "u64 option \<Rightarrow> u64 \<Rightarrow> u64 option \<Rightarrow> error \<times> u64 \<times> u64 option" where
  "CalcPartInfo object_size part_size part_count =
     (if 0 < part_size \<and> part_size < ucast kMinPartSize then
        (''part size '' @ to_string (unat part_size) @ '' is not supported; minimum allowed 5MiB'',
         part_size, part_count)
      else if 0 < part_size \<and> kMaxPartSize < part_size then
        (''part size '' @ to_string (unat part_size) @ '' is not supported; maximum allowed 5GiB'',
         part_size, part_count)
      else case object_size of
        None \<Rightarrow>
          if part_size = 0 then
            (''valid part size must be provided when object size is unknown'', part_size, part_count)
          else (SUCCESS, part_size, None)
      | Some osize \<Rightarrow>
          if kMaxObjectSize < osize then
            (''object size '' @ to_string (unat osize) @ '' is not supported; maximum allowed 5TiB'',
             part_size, part_count)
          else
            let psz = (if part_size = 0 then auto_part_size osize else part_size);
                psz = (if osize < psz then osize else psz);
                pcount = (if 0 < psz then (osize + psz - 1) div psz else 1)
            in if ucast kMaxMultipartCount < pcount then
                 (''object size '' @ to_string (unat osize) @ '' and part size '' @ to_string (unat psz)
                    @ '' make more than '' @ to_string (unat kMaxMultipartCount) @ ''parts for upload'',
                  psz, Some pcount)
               else (SUCCESS, psz, Some pcount))"

lemma limits:
  "unat kMinPartSize = 5242880" "unat kMaxMultipartCount = 10000"
  "unat kMaxPartSize = 2 ^ 30" "unat kMaxObjectSize = 2 ^ 40"
  "unat (ucast kMinPartSize :: u64) = 5242880" "unat (ucast kMaxMultipartCount :: u64) = 10000"
  by (simp_all add: kMinPartSize_def kMaxMultipartCount_def kMaxPartSize_def kMaxObjectSize_def)

lemma auto_part_size_unat:
  assumes "unat n \<le> 2 ^ 40"
  shows "unat (auto_part_size n) = ((unat n + 9999) div 10000 + 5242879) div 5242880 * 5242880"
proof -
  define p where "p = (unat n + 9999) div 10000"
  have p: "double_div_ceil (unat n) 10000 = p"
    using assms double_div_ceil_eq [of "unat n" 10000] by (simp add: p_def)
  have "p \<le> 2 ^ 27" using assms unfolding p_def by simp
  then have q: "double_div_ceil p 5242880 = (p + 5242879) div 5242880"
    using double_div_ceil_eq [of p 5242880] by simp
  define c where "c = (p + 5242879) div 5242880"
  have "c \<le> 26" using \<open>p \<le> 2 ^ 27\<close> unfolding c_def by simp
  then have "unat (word_of_nat c * (ucast kMinPartSize :: u64)) = c * 5242880"
    by (simp add: unat_word_ariths limits unat_of_nat)
  then show ?thesis
    unfolding auto_part_size_def Let_def limits p q unfolding c_def p_def .
qed

lemma part_count_unat:
  assumes "0 < p" "unat n \<le> 2 ^ 40" "unat p \<le> 2 ^ 40"
  shows "unat ((n + p - 1) div p) = (unat n + unat p - 1) div unat (p :: u64)"
proof -
  have "unat (n + p) = unat n + unat p" using assms by (simp add: unat_plus_if')
  moreover have "0 < unat p" using assms(1) by (simp add: word_less_nat_alt)
  ultimately have "unat (n + p - 1) = unat n + unat p - 1"
    by (subst unat_sub) (simp_all add: word_le_nat_alt)
  then show ?thesis by (simp add: unat_div)
qed

subsection \<open>What the division promises\<close>

lemma ceil_covers:
  assumes "0 < (p :: nat)"
  shows "n \<le> (n + p - 1) div p * p"
proof -
  have "n + p - 1 < ((n + p - 1) div p + 1) * p"
    using assms by (metis Suc_eq_plus1 div_less_iff_less_mult lessI)
  then show ?thesis by simp
qed

lemma ceil_tight:
  assumes "0 < (p :: nat)" "0 < n"
  shows "((n + p - 1) div p - 1) * p < n"
proof -
  define d where "d = (n + p - 1) div p * p"
  have "d \<le> n + p - 1" unfolding d_def by simp
  then have "d - p < n" using assms by linarith
  then show ?thesis by (simp add: diff_mult_distrib d_def)
qed

lemma auto_part_size_covers:
  assumes "unat n \<le> 2 ^ 40"
  shows "unat n \<le> 10000 * unat (auto_part_size n)"
proof -
  let ?p = "(unat n + 9999) div 10000"
  have "unat n \<le> ?p * 10000" using ceil_covers [of 10000 "unat n"] by simp
  moreover have "?p \<le> (?p + 5242879) div 5242880 * 5242880"
    using ceil_covers [of 5242880 "?p"] by simp
  ultimately show ?thesis unfolding auto_part_size_unat [OF assms] by linarith
qed

subsection \<open>CalcPartInfo is sound\<close>

definition part_size_of :: "u64 \<Rightarrow> u64 \<Rightarrow> u64" where
  "part_size_of n ps = min n (if ps = 0 then auto_part_size n else ps)"

definition part_count_of :: "u64 \<Rightarrow> u64 \<Rightarrow> u64" where
  "part_count_of n ps = (let p = part_size_of n ps in if 0 < p then (n + p - 1) div p else 1)"

definition part_size_ok :: "u64 \<Rightarrow> bool" where
  "part_size_ok ps \<longleftrightarrow> ps = 0 \<or> ucast kMinPartSize \<le> ps \<and> ps \<le> kMaxPartSize"

text \<open>Exactly when the function succeeds, and what it then returns.\<close>

lemma CalcPartInfo_Some_iff:
  "CalcPartInfo (Some n) ps pc = (SUCCESS, psz, cnt) \<longleftrightarrow>
     part_size_ok ps \<and> n \<le> kMaxObjectSize \<and> part_count_of n ps \<le> ucast kMaxMultipartCount
       \<and> psz = part_size_of n ps \<and> cnt = Some (part_count_of n ps)"
proof -
  have min: "(if n < q then n else q) = min n q" for q :: u64 by (auto simp: min_def)
  have pos: "0 < ps \<longleftrightarrow> ps \<noteq> 0" by (simp add: word_neq_0_conv)
  show ?thesis
    unfolding CalcPartInfo_def Let_def min pos part_size_ok_def part_count_of_def option.case
      part_size_of_def [symmetric]
    by (cases "ps \<noteq> 0 \<and> ps < ucast kMinPartSize"; cases "ps \<noteq> 0 \<and> kMaxPartSize < ps";
        cases "kMaxObjectSize < n") (auto simp: SUCCESS_def not_less)
qed

lemma CalcPartInfo_parts:
  assumes "CalcPartInfo (Some n) ps pc = (SUCCESS, psz, Some cnt)"
  shows "unat n \<le> 2 ^ 40"
    and "psz = min n (if ps = 0 then auto_part_size n else ps)"
    and "cnt = (if 0 < psz then (n + psz - 1) div psz else 1)"
    and "unat cnt \<le> 10000"
  using assms unfolding CalcPartInfo_Some_iff
  by (simp_all add: limits word_le_nat_alt part_size_of_def part_count_of_def Let_def)

lemma CalcPartInfo_sound:
  assumes "CalcPartInfo (Some n) ps pc = (SUCCESS, psz, Some cnt)"
  shows "1 \<le> unat cnt \<and> unat cnt \<le> 10000 \<and> unat n \<le> unat cnt * unat psz
    \<and> (n = 0 \<or> (unat cnt - 1) * unat psz < unat n)"
proof -
  note P = CalcPartInfo_parts [OF assms]
  have le: "unat psz \<le> unat n" using P(2) by (simp add: min_def word_le_nat_alt)
  note max = P(4)
  show ?thesis
  proof (cases "0 < psz")
    case True
    then have "unat cnt = (unat n + unat psz - 1) div unat psz"
      using P(1,3) le part_count_unat [of psz n] by simp
    moreover have pos: "0 < unat psz" using True by (simp add: word_less_nat_alt)
    moreover have "0 < unat n" using pos le by simp
    ultimately show ?thesis
      using ceil_covers [of "unat psz" "unat n"] ceil_tight [of "unat psz" "unat n"] max
      by (simp add: div_greater_zero_iff Suc_le_eq)
  next
    case False
    then have "psz = 0" using word_neq_0_conv by blast
    moreover have "n = 0"
    proof (rule ccontr)
      assume "n \<noteq> 0"
      then have "(if ps = 0 then auto_part_size n else ps) \<noteq> 0"
        using auto_part_size_covers [OF P(1)] by (auto simp: unat_gt_0 [symmetric])
      then show False using P(2) \<open>psz = 0\<close> \<open>n \<noteq> 0\<close> by (auto simp: min_def split: if_splits)
    qed
    ultimately show ?thesis using P(3) max by simp
  qed
qed

lemma CalcPartInfo_auto:
  assumes "unat n \<le> 2 ^ 40"
  shows "\<exists>psz cnt. CalcPartInfo (Some n) 0 pc = (SUCCESS, psz, Some cnt)
    \<and> (5242880 dvd unat psz \<or> psz = n)"
proof -
  define psz where "psz = min n (auto_part_size n)"
  define cnt where "cnt = (if 0 < psz then (n + psz - 1) div psz else 1)"
  have "unat cnt \<le> 10000"
  proof (cases "0 < psz")
    case True
    have le: "unat psz \<le> unat n" unfolding psz_def by (simp add: min_def word_le_nat_alt)
    have pos: "0 < unat psz" using True by (simp add: word_less_nat_alt)
    have c: "unat cnt = (unat n + unat psz - 1) div unat psz"
      unfolding cnt_def using True assms le part_count_unat [of psz n] by simp
    have "unat n \<le> 10000 * unat psz"
      using auto_part_size_covers [OF assms] by (simp add: psz_def min_def)
    then have "unat n + unat psz - 1 < 10001 * unat psz" using pos by linarith
    then have "unat cnt < 10001" unfolding c using pos by (simp add: div_less_iff_less_mult)
    then show ?thesis by simp
  qed (simp add: cnt_def)
  then have "CalcPartInfo (Some n) 0 pc = (SUCCESS, psz, Some cnt)"
    using assms unfolding CalcPartInfo_Some_iff
    by (simp add: limits word_le_nat_alt part_size_ok_def part_size_of_def part_count_of_def Let_def
        psz_def [symmetric] cnt_def [symmetric])
  moreover have "5242880 dvd unat psz \<or> psz = n"
    unfolding psz_def by (auto simp: min_def auto_part_size_unat [OF assms])
  ultimately show ?thesis by blast
qed

end
