(* ===== verification/UtcTime.thy ===== *)
theory UtcTime
  imports BucketName
begin

section \<open>Dates and times (class UtcTime, src/utils.cc and utils.h)\<close>

text \<open>
  A \<open>UtcTime\<close> holds seconds and microseconds. The code keeps \<open>mktime\<close> values and prints
  them through \<open>localtime\<close>, so what it prints depends on the host's time zone; the model
  takes a zone with a fixed offset \<open>tz\<close> (seconds east of UTC) as an argument. Daylight
  saving rules are not modelled.

  The calendar functions and \<open>strftime\<close>/\<open>strptime\<close> are the C library's, for the
  conversions the code uses (\<open>%d %m %Y %H %M %S\<close>, literals and blanks); the format strings
  are the code's own.
\<close>

record tm =
  tm_sec :: int
  tm_min :: int
  tm_hour :: int
  tm_mday :: int
  tm_mon :: int
  tm_year :: int
  tm_wday :: int

record utc_time =
  secs :: int
  usecs :: int

text \<open>\<open>std::tm t{}\<close>: all fields zero, that is year 1900, month January, day 0.\<close>

definition tm_zero :: tm where
  "tm_zero = \<lparr>tm_sec = 0, tm_min = 0, tm_hour = 0, tm_mday = 0, tm_mon = 0, tm_year = 0,
     tm_wday = 0\<rparr>"

definition utc_default :: utc_time where
  "utc_default = \<lparr>secs = 0, usecs = 0\<rparr>"

subsection \<open>The calendar\<close>

definition is_leap :: "int \<Rightarrow> bool" where
  "is_leap y \<longleftrightarrow> y mod 4 = 0 \<and> (y mod 100 \<noteq> 0 \<or> y mod 400 = 0)"

definition ylen :: "int \<Rightarrow> int" where
  "ylen y = (if is_leap y then 366 else 365)"

definition mlens :: "int \<Rightarrow> int list" where
  "mlens y = [31, if is_leap y then 29 else 28, 31, 30, 31, 30, 31, 31, 30, 31, 30, 31]"

text \<open>Days of the first \<open>n\<close> years from 1970, and the day number of a year's first day.\<close>

primrec year_days :: "nat \<Rightarrow> int" where
  "year_days 0 = 0"
| "year_days (Suc n) = year_days n + ylen (1970 + int n)"

definition days_before_year :: "int \<Rightarrow> int" where
  "days_before_year y = 146097 * ((y - 1970) div 400) + year_days (nat ((y - 1970) mod 400))"

lemma ylen_pos [simp]: "0 < ylen y"
  by (simp add: ylen_def)

function find_year :: "int \<Rightarrow> int \<Rightarrow> int \<times> int" where
  "find_year y d = (if d < ylen y then (y, d) else find_year (y + 1) (d - ylen y))"
  by pat_completeness auto
termination
  by (relation "measure (\<lambda>(y, d). nat d)")
    (auto simp: ylen_def split: if_splits)

declare find_year.simps [simp del]

fun find_month :: "int \<Rightarrow> int list \<Rightarrow> int \<Rightarrow> int \<times> int" where
  "find_month m [] d = (m, d)"
| "find_month m (l # ls) d = (if d < l then (m, d) else find_month (m + 1) ls (d - l))"

definition gmtime :: "int \<Rightarrow> tm" where
  "gmtime s =
     (let d = s div 86400; r = s mod 86400;
          (y, yday) = find_year 1970 (d mod 146097);
          year = y + 400 * (d div 146097);
          (m, mday) = find_month 0 (mlens year) yday
      in \<lparr>tm_sec = r mod 60, tm_min = r div 60 mod 60, tm_hour = r div 3600, tm_mday = mday + 1,
          tm_mon = m, tm_year = year - 1900, tm_wday = (d + 4) mod 7\<rparr>)"

definition timegm :: "tm \<Rightarrow> int" where
  "timegm t =
     (let y = tm_year t + 1900;
          day = days_before_year y + sum_list (take (nat (tm_mon t)) (mlens y)) + tm_mday t - 1
      in day * 86400 + tm_hour t * 3600 + tm_min t * 60 + tm_sec t)"

text \<open>\<open>auxLocaltime\<close>, \<open>std::mktime\<close> and \<open>toUtcSeconds\<close> in the zone \<open>tz\<close>.\<close>

definition auxLocaltime :: "int \<Rightarrow> int \<Rightarrow> tm" where
  "auxLocaltime tz s = gmtime (s + tz)"

definition mktime :: "int \<Rightarrow> tm \<Rightarrow> int" where
  "mktime tz t = timegm t - tz"

definition toUtcSeconds :: "int \<Rightarrow> int \<Rightarrow> int" where
  "toUtcSeconds tz secs_local = mktime tz (gmtime secs_local)"

definition getBrokenDownTime :: "int \<Rightarrow> utc_time \<Rightarrow> tm" where
  "getBrokenDownTime tz t = auxLocaltime tz (secs t)"

text \<open>\<open>Now\<close> and \<open>ToLocalTime\<close> read the system clock: \<open>usec_now\<close> is its microseconds.\<close>

definition Now :: "int \<Rightarrow> int \<Rightarrow> utc_time" where
  "Now tz usec_now = \<lparr>secs = toUtcSeconds tz (usec_now div 1000000), usecs = usec_now mod 1000000\<rparr>"

definition ToLocalTime :: "int \<Rightarrow> int \<Rightarrow> utc_time \<Rightarrow> tm" where
  "ToLocalTime tz usec_now t =
     (let secs_local = usec_now div 1000000;
          s = secs t + (secs_local - toUtcSeconds tz secs_local)
      in auxLocaltime tz s)"

definition utc_add :: "int \<Rightarrow> utc_time \<Rightarrow> utc_time" where
  "utc_add n t = t\<lparr>secs := secs t + n\<rparr>"

subsection \<open>strftime and strptime\<close>

definition two :: "int \<Rightarrow> string" where
  "two n = [digit_char (nat n div 10), digit_char (nat n mod 10)]"

definition int_to_string :: "int \<Rightarrow> string" where
  "int_to_string n = (if n < 0 then CHR ''-'' # to_string (nat (- n)) else to_string (nat n))"

definition ftime :: "char \<Rightarrow> tm \<Rightarrow> string" where
  "ftime c t =
     (if c = CHR ''d'' then two (tm_mday t)
      else if c = CHR ''m'' then two (tm_mon t + 1)
      else if c = CHR ''Y'' then int_to_string (tm_year t + 1900)
      else if c = CHR ''H'' then two (tm_hour t)
      else if c = CHR ''M'' then two (tm_min t)
      else two (tm_sec t))"

fun FormatTime :: "string \<Rightarrow> tm \<Rightarrow> string" where
  "FormatTime [] t = []"
| "FormatTime (f # fs) t =
     (if f = CHR ''%'' then (case fs of [] \<Rightarrow> [] | c # gs \<Rightarrow> ftime c t @ FormatTime gs t)
      else f # FormatTime fs t)"

definition is_space :: "char \<Rightarrow> bool" where
  "is_space c \<longleftrightarrow> c = CHR '' '' \<or> 9 \<le> byte c \<and> byte c \<le> 13"

text \<open>A decimal field of at most \<open>n\<close> digits, not extended beyond \<open>hi\<close>, then checked
  against its range.\<close>

fun scan_digits :: "nat \<Rightarrow> nat \<Rightarrow> nat \<Rightarrow> string \<Rightarrow> nat \<times> string" where
  "scan_digits n hi v [] = (v, [])"
| "scan_digits n hi v (c # s) =
     (if 0 < n \<and> v * 10 \<le> hi \<and> is_digit c then scan_digits (n - 1) hi (v * 10 + digit_val c) s
      else (v, c # s))"

definition get_number :: "nat \<Rightarrow> nat \<Rightarrow> nat \<Rightarrow> string \<Rightarrow> (nat \<times> string) option" where
  "get_number lo hi n s =
     (let s = dropWhile is_space s in
      if s = [] \<or> \<not> is_digit (hd s) then None
      else let (v, r) = scan_digits n hi 0 s in if lo \<le> v \<and> v \<le> hi then Some (v, r) else None)"

definition ptime :: "char \<Rightarrow> tm \<Rightarrow> string \<Rightarrow> (tm \<times> string) option" where
  "ptime c t s =
     (if c = CHR ''d'' then map_option (\<lambda>(v, r). (t\<lparr>tm_mday := int v\<rparr>, r)) (get_number 1 31 2 s)
      else if c = CHR ''m'' then map_option (\<lambda>(v, r). (t\<lparr>tm_mon := int v - 1\<rparr>, r)) (get_number 1 12 2 s)
      else if c = CHR ''Y'' then map_option (\<lambda>(v, r). (t\<lparr>tm_year := int v - 1900\<rparr>, r)) (get_number 0 9999 4 s)
      else if c = CHR ''H'' then map_option (\<lambda>(v, r). (t\<lparr>tm_hour := int v\<rparr>, r)) (get_number 0 23 2 s)
      else if c = CHR ''M'' then map_option (\<lambda>(v, r). (t\<lparr>tm_min := int v\<rparr>, r)) (get_number 0 59 2 s)
      else map_option (\<lambda>(v, r). (t\<lparr>tm_sec := int v\<rparr>, r)) (get_number 0 61 2 s))"

text \<open>\<open>strptime\<close>: the fields read so far, and the rest of the input unless it failed.\<close>

fun strptime :: "string \<Rightarrow> string \<Rightarrow> tm \<Rightarrow> tm \<times> string option" where
  "strptime s [] t = (t, Some s)"
| "strptime s (f # fs) t =
     (if f = CHR ''%'' then
        (case fs of [] \<Rightarrow> (t, None)
         | c # gs \<Rightarrow> (case ptime c t s of None \<Rightarrow> (t, None) | Some (t', r) \<Rightarrow> strptime r gs t'))
      else if is_space f then strptime (dropWhile is_space s) fs t
      else (case s of [] \<Rightarrow> (t, None) | c # r \<Rightarrow> if c = f then strptime r fs t else (t, None)))"

subsection \<open>Printing and parsing\<close>

definition WEEK_DAYS :: "string list" where
  "WEEK_DAYS = [''Sun'', ''Mon'', ''Tue'', ''Wed'', ''Thu'', ''Fri'', ''Sat'']"

definition MONTHS :: "string list" where
  "MONTHS = [''Jan'', ''Feb'', ''Mar'', ''Apr'', ''May'', ''Jun'', ''Jul'', ''Aug'', ''Sep'',
     ''Oct'', ''Nov'', ''Dec'']"

definition ToSignerDate :: "int \<Rightarrow> utc_time \<Rightarrow> string" where
  "ToSignerDate tz t = FormatTime ''%Y%m%d'' (getBrokenDownTime tz t)"

definition ToAmzDate :: "int \<Rightarrow> utc_time \<Rightarrow> string" where
  "ToAmzDate tz t = FormatTime ''%Y%m%dT%H%M%SZ'' (getBrokenDownTime tz t)"

definition ToHttpHeaderValue :: "int \<Rightarrow> utc_time \<Rightarrow> string" where
  "ToHttpHeaderValue tz t =
     (let m = getBrokenDownTime tz t
      in WEEK_DAYS ! nat (tm_wday m) @ '', '' @ FormatTime ''%d '' m @ MONTHS ! nat (tm_mon m)
           @ FormatTime '' %Y %H:%M:%S GMT'' m)"

text \<open>\<open>std::find\<close> in a table of names.\<close>

fun find_pos :: "string list \<Rightarrow> string \<Rightarrow> nat option" where
  "find_pos [] x = None"
| "find_pos (y # ys) x = (if y = x then Some 0 else map_option Suc (find_pos ys x))"

definition substr :: "string \<Rightarrow> nat \<Rightarrow> nat \<Rightarrow> string" where
  "substr s i n = take n (drop i s)"

definition FromHttpHeaderValue :: "int \<Rightarrow> string \<Rightarrow> utc_time" where
  "FromHttpHeaderValue tz s =
     (if length s \<noteq> 29 then utc_default
      else case find_pos WEEK_DAYS (substr s 0 3) of
        None \<Rightarrow> utc_default
      | Some week_day \<Rightarrow>
          if s ! 3 \<noteq> CHR '','' then utc_default
          else if s ! 4 \<noteq> CHR '' '' then utc_default
          else
            let day = fst (strptime (substr s 5 2) ''%d'' tm_zero)
            in if s ! 7 \<noteq> CHR '' '' then utc_default
               else case find_pos MONTHS (substr s 8 3) of
                 None \<Rightarrow> utc_default
               | Some month \<Rightarrow>
                   let ltm = fst (strptime (drop 11 s) '' %Y %H:%M:%S GMT'' tm_zero);
                       ltm = ltm\<lparr>tm_mday := tm_mday day, tm_mon := int month\<rparr>;
                       t = auxLocaltime tz (mktime tz ltm)
                   in if int week_day \<noteq> tm_wday t then utc_default
                      else \<lparr>secs = mktime tz t, usecs = 0\<rparr>)"

text \<open>\<open>snprintf("%03ld")\<close>, cut to three characters.\<close>

definition pad3 :: "int \<Rightarrow> string" where
  "pad3 u =
     (let d = to_string (nat \<bar>u\<bar>); sign = (if u < 0 then ''-'' else [])
      in sign @ replicate (3 - length sign - length d) (CHR ''0'') @ d)"

definition ToISO8601UTC :: "int \<Rightarrow> utc_time \<Rightarrow> string" where
  "ToISO8601UTC tz t =
     FormatTime ''%Y-%m-%dT%H:%M:%S.'' (getBrokenDownTime tz t) @ take 3 (pad3 (usecs t)) @ ''Z''"

text \<open>\<open>sscanf(rv, ".%lu", &ul)\<close> and the conversion of \<open>ul\<close> to \<open>long\<close>: a missing number
  leaves 0, one beyond 64 bits is \<open>ULONG_MAX\<close>, a sign is allowed.\<close>

definition scan_fraction :: "string \<Rightarrow> int" where
  "scan_fraction rv =
     (if rv = [] \<or> hd rv \<noteq> CHR ''.'' then 0
      else
        let s = dropWhile is_space (tl rv);
            neg = (s \<noteq> [] \<and> hd s = CHR ''-'');
            s = (if s \<noteq> [] \<and> (hd s = CHR ''-'' \<or> hd s = CHR ''+'') then tl s else s);
            v = digits_val 0 (takeWhile is_digit s);
            ul = (if 2 ^ 64 \<le> v then 2 ^ 64 - 1 else if neg then (2 ^ 64 - v) mod 2 ^ 64 else v)
        in if 2 ^ 63 \<le> ul then int ul - 2 ^ 64 else int ul)"

text \<open>\<open>None\<close> is undefined behaviour: \<open>sscanf\<close> on the null pointer of a failed \<open>strptime\<close>.\<close>

definition FromISO8601UTC :: "int \<Rightarrow> string \<Rightarrow> utc_time option" where
  "FromISO8601UTC tz value =
     (let (t, rv) = strptime (c_str value) ''%Y-%m-%dT%H:%M:%S'' tm_zero
      in case rv of
           None \<Rightarrow> None
         | Some r \<Rightarrow> Some \<lparr>secs = mktime tz t, usecs = scan_fraction r\<rparr>)"

subsection \<open>Comparison\<close>

text \<open>\<open>explicit operator bool\<close>: both fields must be nonzero.\<close>

definition utc_bool :: "utc_time \<Rightarrow> bool" where
  "utc_bool t \<longleftrightarrow> secs t \<noteq> 0 \<and> usecs t \<noteq> 0"

definition utc_Compare :: "utc_time \<Rightarrow> utc_time \<Rightarrow> int" where
  "utc_Compare a b =
     (if secs a \<noteq> secs b then (if secs a < secs b then -1 else 1)
      else if usecs a \<noteq> usecs b then (if usecs a < usecs b then -1 else 1)
      else 0)"

definition utc_less :: "utc_time \<Rightarrow> utc_time \<Rightarrow> bool" where
  "utc_less a b \<longleftrightarrow> utc_Compare a b < 0"

definition utc_Equal :: "utc_time \<Rightarrow> utc_time \<Rightarrow> bool" where
  "utc_Equal a b \<longleftrightarrow> utc_Compare a b = 0"

subsection \<open>The calendar is a bijection\<close>

lemma ylen_period: "ylen (y + 400 * k) = ylen y"
proof -
  have "(y + 4 * (100 * k)) mod 4 = y mod 4" "(y + 100 * (4 * k)) mod 100 = y mod 100"
    by (rule mod_mult_self2)+
  then have "(y + 400 * k) mod 4 = y mod 4" "(y + 400 * k) mod 100 = y mod 100"
    "(y + 400 * k) mod 400 = y mod 400" by simp_all
  then show ?thesis by (simp add: ylen_def is_leap_def)
qed

lemma mlens_sum: "sum_list (mlens y) = ylen y"
  by (simp add: mlens_def ylen_def)

lemma mlens_pos: "l \<in> set (mlens y) \<Longrightarrow> 0 < l"
  by (auto simp: mlens_def split: if_splits)

text \<open>The Gregorian count of leap years up to a year.\<close>

definition leaps :: "int \<Rightarrow> int" where
  "leaps y = y div 4 - y div 100 + y div 400"

lemma div_step: "0 < k \<Longrightarrow> (y :: int) div k - (y - 1) div k = (if y mod k = 0 then 1 else 0)"
proof -
  assume k: "0 < k"
  define q r where "q = y div k" and "r = y mod k"
  have y: "y = k * q + r" "0 \<le> r" "r < k" using k by (simp_all add: q_def r_def)
  show ?thesis
  proof (cases "r = 0")
    case True
    then have "(y - 1) div k = q - 1"
      using k y by (intro int_div_pos_eq [of _ _ _ "k - 1"]) (simp_all add: algebra_simps)
    with True show ?thesis by (simp add: q_def r_def)
  next
    case False
    then have "(y - 1) div k = q"
      using k y by (intro int_div_pos_eq [of _ _ _ "r - 1"]) simp_all
    with False show ?thesis by (simp add: q_def r_def)
  qed
qed

lemma leap_count:
  "a - a' = (if p then 1 else 0) \<Longrightarrow> b - b' = (if q then 1 else 0) \<Longrightarrow> c - c' = (if r then 1 else 0)
     \<Longrightarrow> (r \<Longrightarrow> q) \<Longrightarrow> (q \<Longrightarrow> p) \<Longrightarrow>
     (if p \<and> (\<not> q \<or> r) then 366 else 365) = 365 + (a - b + c) - (a' - b' + c' :: int)"
  by (cases p; cases q; cases r) simp_all

lemma ylen_leaps: "ylen y = 365 + leaps y - leaps (y - 1)"
proof -
  have "y mod 400 mod 100 = y mod 100" "y mod 100 mod 4 = y mod 4"
    by (simp_all add: mod_mod_cancel)
  then have "y mod 400 = 0 \<Longrightarrow> y mod 100 = 0" "y mod 100 = 0 \<Longrightarrow> y mod 4 = 0" by auto
  then show ?thesis
    unfolding ylen_def is_leap_def leaps_def by (intro leap_count div_step) simp_all
qed

lemma year_days_leaps: "year_days n = 365 * int n + leaps (1969 + int n) - leaps 1969"
proof (induction n)
  case (Suc n)
  have "1970 + int n - 1 = 1969 + int n" "1969 + int (Suc n) = 1970 + int n" by simp_all
  with Suc ylen_leaps [of "1970 + int n"] show ?case by simp
qed simp

lemma year_days_400: "year_days 400 = 146097"
  by (simp add: year_days_leaps leaps_def)

lemma year_days_mono: "m \<le> n \<Longrightarrow> year_days m \<le> year_days n"
  by (rule lift_Suc_mono_le [of year_days]) (simp_all add: less_imp_le)

lemma find_year_correct:
  "0 \<le> d \<Longrightarrow> 1970 \<le> y \<Longrightarrow> find_year y d = (y', d') \<Longrightarrow>
     y \<le> y' \<and> 0 \<le> d' \<and> d' < ylen y'
       \<and> year_days (nat (y' - 1970)) + d' = year_days (nat (y - 1970)) + d"
proof (induction y d rule: find_year.induct)
  case (1 y d)
  show ?case
  proof (cases "d < ylen y")
    case True
    with 1 show ?thesis by (simp add: find_year.simps [of y d])
  next
    case False
    have "nat (y + 1 - 1970) = Suc (nat (y - 1970))" using 1 by linarith
    then have "year_days (nat (y + 1 - 1970)) = year_days (nat (y - 1970)) + ylen y"
      using 1 by simp
    with 1 False show ?thesis by (simp add: find_year.simps [of y d])
  qed
qed

lemma find_month_correct:
  "0 \<le> d \<Longrightarrow> d < sum_list ls \<Longrightarrow> find_month m ls d = (m', d') \<Longrightarrow>
     m \<le> m' \<and> nat (m' - m) < length ls \<and> 0 \<le> d' \<and> d' < ls ! nat (m' - m)
       \<and> sum_list (take (nat (m' - m)) ls) + d' = d"
proof (induction m ls d rule: find_month.induct)
  case (2 m l ls d)
  show ?case
  proof (cases "d < l")
    case False
    with 2 have IH: "m + 1 \<le> m'" "nat (m' - (m + 1)) < length ls" "0 \<le> d'"
      "d' < ls ! nat (m' - (m + 1))" "sum_list (take (nat (m' - (m + 1))) ls) + d' = d - l" by auto
    have "nat (m' - m) = Suc (nat (m' - (m + 1)))" using IH(1) by linarith
    with IH show ?thesis by simp
  qed (use 2 in auto)
qed simp

lemma mlens_length [simp]: "length (mlens y) = 12"
  by (simp add: mlens_def)

lemma mlens_31: "m < 12 \<Longrightarrow> mlens y ! m \<le> 31"
proof -
  assume "m < 12"
  then have "mlens y ! m \<in> set (mlens y)" by simp
  then show ?thesis by (auto simp: mlens_def split: if_splits)
qed

text \<open>The fields of a broken-down time are in range, and \<open>timegm\<close> undoes \<open>gmtime\<close>.\<close>

lemma gmtime_ranges:
  fixes s :: int
  defines "t \<equiv> gmtime s"
  shows "0 \<le> tm_sec t" "tm_sec t < 60" "0 \<le> tm_min t" "tm_min t < 60" "0 \<le> tm_hour t" "tm_hour t < 24"
    "1 \<le> tm_mday t" "tm_mday t \<le> 31" "0 \<le> tm_mon t" "tm_mon t < 12" "0 \<le> tm_wday t" "tm_wday t < 7"
    "timegm t = s" "tm_wday t = (s div 86400 + 4) mod 7"
proof -
  define d r where "d = s div 86400" and "r = s mod 86400"
  obtain y yday where Y: "find_year 1970 (d mod 146097) = (y, yday)" by fastforce
  define year where "year = y + 400 * (d div 146097)"
  obtain m mday where M: "find_month 0 (mlens year) yday = (m, mday)" by fastforce
  have t: "t = \<lparr>tm_sec = r mod 60, tm_min = r div 60 mod 60, tm_hour = r div 3600, tm_mday = mday + 1,
          tm_mon = m, tm_year = year - 1900, tm_wday = (d + 4) mod 7\<rparr>"
    unfolding t_def gmtime_def using Y M by (simp add: Let_def d_def r_def year_def)
  have y: "1970 \<le> y" "0 \<le> yday" "yday < ylen y" "year_days (nat (y - 1970)) + yday = d mod 146097"
    using find_year_correct [OF _ _ Y] by simp_all
  have y2370: "y < 2370"
  proof (rule ccontr)
    assume "\<not> y < 2370"
    then have "year_days 400 \<le> year_days (nat (y - 1970))" by (intro year_days_mono) simp
    then have "146097 \<le> d mod 146097" using y year_days_400 by linarith
    then show False using pos_mod_bound [of 146097 d] by linarith
  qed
  have yl: "ylen year = ylen y" unfolding year_def by (rule ylen_period)
  have m: "0 \<le> m" "nat m < 12" "0 \<le> mday" "mday < mlens year ! nat m"
    "sum_list (take (nat m) (mlens year)) + mday = yday"
    using find_month_correct [OF _ _ M] y yl by (simp_all add: mlens_sum)
  have r: "0 \<le> r" "r < 86400" by (simp_all add: r_def)
  show "0 \<le> tm_sec t" "tm_sec t < 60" "0 \<le> tm_min t" "tm_min t < 60" "0 \<le> tm_hour t"
    "tm_hour t < 24" "0 \<le> tm_wday t" "tm_wday t < 7"
    "tm_wday t = (s div 86400 + 4) mod 7"
    using r by (simp_all add: t d_def)
  show "1 \<le> tm_mday t" "tm_mday t \<le> 31" "0 \<le> tm_mon t" "tm_mon t < 12"
    using m mlens_31 [of "nat m" year] by (simp_all add: t)
  have shift: "year - 1970 = (y - 1970) + 400 * (d div 146097)" by (simp add: year_def)
  have era: "0 \<le> z \<Longrightarrow> z < 400 \<Longrightarrow> (z + 400 * k) div 400 = k \<and> (z + 400 * k) mod 400 = z"
    for z k :: int by simp
  have "(year - 1970) div 400 = d div 146097" "(year - 1970) mod 400 = y - 1970"
    unfolding shift using era [of "y - 1970" "d div 146097"] y(1) y2370 by simp_all
  then have "days_before_year year = 146097 * (d div 146097) + year_days (nat (y - 1970))"
    by (simp add: days_before_year_def)
  then have "days_before_year year + sum_list (take (nat m) (mlens year)) + mday = d"
    using m(5) y(4) by (simp add: minus_mod_eq_mult_div [symmetric] algebra_simps)
  then have "timegm t = d * 86400 + r div 3600 * 3600 + r div 60 mod 60 * 60 + r mod 60"
    by (simp add: timegm_def t Let_def algebra_simps)
  also have "\<dots> = d * 86400 + r"
  proof -
    have "r div 3600 = r div 60 div 60" by (simp add: zdiv_zmult2_eq [symmetric])
    then show ?thesis
      using div_mult_mod_eq [of r 60] div_mult_mod_eq [of "r div 60" 60] by linarith
  qed
  also have "\<dots> = s" by (simp add: d_def r_def)
  finally show "timegm t = s" .
qed

lemma mktime_localtime [simp]: "mktime tz (auxLocaltime tz s) = s"
  by (simp add: mktime_def auxLocaltime_def gmtime_ranges)

text \<open>\<open>Now\<close> stores a value that \<open>localtime\<close> prints as UTC, and \<open>ToLocalTime\<close> adds
  the offset back.\<close>

lemma Now_is_utc: "getBrokenDownTime tz (Now tz u) = gmtime (u div 1000000)"
  by (simp add: getBrokenDownTime_def Now_def toUtcSeconds_def auxLocaltime_def mktime_def gmtime_ranges)

lemma ToLocalTime_Now: "ToLocalTime tz u' (Now tz u) = gmtime (u div 1000000 + tz)"
  by (simp add: ToLocalTime_def Let_def Now_def toUtcSeconds_def auxLocaltime_def mktime_def gmtime_ranges)

subsection \<open>Round trips\<close>

lemma nat_split: "n div 10 * 10 + n mod 10 = (n :: nat)"
  by (rule div_mult_mod_eq)

lemma not_space_digit: "d < 10 \<Longrightarrow> \<not> is_space (digit_char d)"
proof
  assume d: "d < 10" "is_space (digit_char d)"
  have "byte (CHR '' '') = 32" by (simp add: byte_def)
  with d have "48 + d = 32 \<or> 48 + d \<le> 13" unfolding is_space_def by (metis byte_digit_char)
  then show False by simp
qed

text \<open>A zero-padded two-digit field, and a four-digit year, are read back.\<close>

lemma get_two:
  assumes "0 \<le> n" "lo \<le> nat n" "nat n \<le> hi" "hi < 100"
  shows "get_number lo hi 2 (two n @ r) = Some (nat n, r)"
proof -
  let ?a = "nat n div 10" and ?b = "nat n mod 10"
  have eq: "?a * 10 + ?b = nat n" by (rule nat_split)
  have "?a < 10" "?b < 10" "?a * 10 \<le> hi" using assms eq by linarith+
  with eq show ?thesis
    using assms not_space_digit [of ?a]
    by (cases r) (simp_all add: get_number_def two_def Let_def)
qed

lemma four_digits:
  assumes "1000 \<le> n" "n < 10000"
  shows "to_string n =
    [digit_char (n div 1000), digit_char (n div 100 mod 10), digit_char (n div 10 mod 10), digit_char (n mod 10)]"
proof -
  have "n div 10 div 100 = n div 1000" "n div 10 div 10 = n div 100" by (simp_all add: div_mult2_eq [symmetric])
  then show ?thesis
    using assms to_string_3 [of "n div 10"] by (subst to_string.simps) simp
qed

lemma get_year:
  assumes "1000 \<le> n" "n \<le> 9999"
  shows "get_number 0 9999 4 (int_to_string n @ r) = Some (nat n, r)"
proof -
  define m where "m = nat n"
  have m: "1000 \<le> m" "m < 10000" "int_to_string n = to_string m"
    using assms by (auto simp: m_def int_to_string_def)
  define a b c d where "a = m div 1000" and "b = m div 100 mod 10" and "c = m div 10 mod 10" and "d = m mod 10"
  have lt: "a < 10" "b < 10" "c < 10" "d < 10" using m by (simp_all add: a_def b_def c_def d_def)
  have "m div 100 div 10 = m div 1000" "m div 10 div 10 = m div 100"
    by (simp_all add: div_mult2_eq [symmetric])
  then have ab: "a * 10 + b = m div 100" and abc: "m div 100 * 10 + c = m div 10"
    using nat_split [of "m div 100"] nat_split [of "m div 10"] by (simp_all add: a_def b_def c_def)
  have sum: "((a * 10 + b) * 10 + c) * 10 + d = m" unfolding ab abc d_def by (rule nat_split)
  have "to_string m = [digit_char a, digit_char b, digit_char c, digit_char d]"
    unfolding a_def b_def c_def d_def by (rule four_digits) (use m in auto)
  then show ?thesis
    using lt sum m not_space_digit [of a]
    by (cases r) (simp_all add: get_number_def Let_def m_def [symmetric])
qed

definition tm_ok :: "tm \<Rightarrow> bool" where
  "tm_ok t \<longleftrightarrow> 0 \<le> tm_sec t \<and> tm_sec t < 60 \<and> 0 \<le> tm_min t \<and> tm_min t < 60
     \<and> 0 \<le> tm_hour t \<and> tm_hour t < 24 \<and> 1 \<le> tm_mday t \<and> tm_mday t \<le> 31
     \<and> 0 \<le> tm_mon t \<and> tm_mon t < 12 \<and> 0 \<le> tm_wday t \<and> tm_wday t < 7
     \<and> 1000 \<le> tm_year t + 1900 \<and> tm_year t + 1900 \<le> 9999"

definition year_ok :: "int \<Rightarrow> utc_time \<Rightarrow> bool" where
  "year_ok tz t \<longleftrightarrow> (let y = tm_year (getBrokenDownTime tz t) + 1900 in 1000 \<le> y \<and> y \<le> 9999)"

lemma broken_down_ok: "year_ok tz t \<Longrightarrow> tm_ok (getBrokenDownTime tz t)"
  using gmtime_ranges
  by (simp add: year_ok_def tm_ok_def getBrokenDownTime_def auxLocaltime_def Let_def)

lemma ptime_ftime:
  assumes "tm_ok t"
  shows "ptime (CHR ''d'') u (ftime (CHR ''d'') t @ r) = Some (u\<lparr>tm_mday := tm_mday t\<rparr>, r)"
    and "ptime (CHR ''m'') u (ftime (CHR ''m'') t @ r) = Some (u\<lparr>tm_mon := tm_mon t\<rparr>, r)"
    and "ptime (CHR ''Y'') u (ftime (CHR ''Y'') t @ r) = Some (u\<lparr>tm_year := tm_year t\<rparr>, r)"
    and "ptime (CHR ''H'') u (ftime (CHR ''H'') t @ r) = Some (u\<lparr>tm_hour := tm_hour t\<rparr>, r)"
    and "ptime (CHR ''M'') u (ftime (CHR ''M'') t @ r) = Some (u\<lparr>tm_min := tm_min t\<rparr>, r)"
    and "ptime (CHR ''S'') u (ftime (CHR ''S'') t @ r) = Some (u\<lparr>tm_sec := tm_sec t\<rparr>, r)"
proof -
  have "get_number 1 12 2 (two (tm_mon t + 1) @ r) = Some (nat (tm_mon t + 1), r)"
    by (rule get_two) (use assms in \<open>simp_all add: tm_ok_def nat_le_iff Suc_le_eq\<close>)
  then show "ptime (CHR ''m'') u (ftime (CHR ''m'') t @ r) = Some (u\<lparr>tm_mon := tm_mon t\<rparr>, r)"
    using assms by (simp add: tm_ok_def ptime_def ftime_def)
  have "get_number 1 31 2 (two (tm_mday t) @ r) = Some (nat (tm_mday t), r)"
    by (rule get_two) (use assms in \<open>simp_all add: tm_ok_def nat_le_iff Suc_le_eq\<close>)
  then show "ptime (CHR ''d'') u (ftime (CHR ''d'') t @ r) = Some (u\<lparr>tm_mday := tm_mday t\<rparr>, r)"
    using assms by (simp add: tm_ok_def ptime_def ftime_def)
qed (use assms in \<open>simp_all add: tm_ok_def ptime_def ftime_def get_two get_year nat_le_iff\<close>)

lemma ptime_blank: "ptime c u (dropWhile is_space s) = ptime c u s"
  by (simp add: ptime_def get_number_def)

lemma strptime_pct:
  "ptime c u (w @ r) = Some (u', r) \<Longrightarrow> strptime (w @ r) (CHR ''%'' # c # fs) u = strptime r fs u'"
  by simp

lemma strptime_iso:
  assumes "tm_ok t"
  shows "strptime (FormatTime ''%Y-%m-%dT%H:%M:%S.'' t @ r) ''%Y-%m-%dT%H:%M:%S'' tm_zero
    = (t\<lparr>tm_wday := 0\<rparr>, Some (CHR ''.'' # r))"
  using assms by (simp add: ptime_ftime is_space_def byte_def tm_zero_def)

text \<open>The fraction that \<open>ToISO8601UTC\<close> prints, and what \<open>FromISO8601UTC\<close> reads.\<close>

lemma digits_val_snoc: "digits_val v (s @ [c]) = 10 * digits_val v s + digit_val c"
  by (simp add: digits_val_def)

lemma digits_val_bound: "(\<forall>c \<in> set s. is_digit c) \<Longrightarrow> digits_val 0 s < 10 ^ length s"
proof (induction s rule: rev_induct)
  case (snoc c s)
  then have "digits_val 0 s + 1 \<le> 10 ^ length s" "digit_val c \<le> 9"
    by (auto simp: Suc_le_eq is_digit_def digit_val_def)
  then show ?case by (simp add: digits_val_snoc)
qed (simp add: digits_val_def)

lemma digits_val_zeros: "digits_val 0 (replicate n (CHR ''0'') @ s) = digits_val 0 s"
  by (induction n) (simp_all add: digits_val_def digit_val_def)

lemma digit_not_blank: "is_digit c \<Longrightarrow> \<not> is_space c \<and> c \<noteq> CHR ''-'' \<and> c \<noteq> CHR ''+''"
proof -
  assume "is_digit c"
  then have c: "48 \<le> byte c" by (simp add: is_digit_def byte_def)
  have "byte (CHR '' '') = 32" "byte (CHR ''-'') = 45" "byte (CHR ''+'') = 43" by (simp_all add: byte_def)
  then show ?thesis unfolding is_space_def using c by auto
qed

lemma scan_fraction_digits:
  assumes "\<forall>c \<in> set s. is_digit c" "s \<noteq> []" "length s \<le> 3"
  shows "scan_fraction (CHR ''.'' # s @ ''Z'') = int (digits_val 0 s)"
proof -
  have "\<not> is_digit (CHR ''Z'')" by (simp add: is_digit_def)
  then have tk: "takeWhile is_digit (s @ ''Z'') = s"
    using assms(1) by (simp add: takeWhile_append)
  have hd: "is_digit (hd s)" using assms by simp
  have dw: "dropWhile is_space (s @ ''Z'') = s @ ''Z''"
    using assms(2) digit_not_blank [OF hd] by (cases s) auto
  have "digits_val 0 s < 10 ^ length s" by (rule digits_val_bound [OF assms(1)])
  also have "\<dots> \<le> 10 ^ 3" using assms(3) by (intro power_increasing) simp_all
  finally have "digits_val 0 s < 1000" by simp
  then show ?thesis
    using assms(2) digit_not_blank [OF hd]
    by (simp add: scan_fraction_def Let_def dw tk)
qed

lemma to_string_length: "n < 10 ^ k \<Longrightarrow> 0 < k \<Longrightarrow> length (to_string n) \<le> k"
proof (induction k arbitrary: n)
  case (Suc k)
  show ?case
  proof (cases "n < 10")
    case False
    with Suc.prems have "0 < k" by (cases k) auto
    with Suc False show ?thesis by (subst to_string.simps) (simp add: div_less_iff_less_mult mult.commute)
  qed (subst to_string.simps, simp)
qed simp

lemma pad3_props:
  assumes "0 \<le> u"
  shows "\<forall>c \<in> set (take 3 (pad3 u)). is_digit c" "take 3 (pad3 u) \<noteq> []"
    and "u < 1000 \<Longrightarrow> digits_val 0 (take 3 (pad3 u)) = nat u"
proof -
  have eq: "pad3 u = replicate (3 - length (to_string (nat u))) (CHR ''0'') @ to_string (nat u)"
    using assms by (simp add: pad3_def Let_def)
  have "is_digit (CHR ''0'')" by (simp add: is_digit_def)
  then have "\<forall>c \<in> set (pad3 u). is_digit c" unfolding eq using to_string_digits by auto
  then show "\<forall>c \<in> set (take 3 (pad3 u)). is_digit c" by (meson in_set_takeD)
  show "take 3 (pad3 u) \<noteq> []" unfolding eq by simp
  assume "u < 1000"
  then have "length (to_string (nat u)) \<le> 3" using assms by (intro to_string_length) auto
  then have "take 3 (pad3 u) = pad3 u" unfolding eq by simp
  then show "digits_val 0 (take 3 (pad3 u)) = nat u" unfolding eq by (simp add: digits_val_zeros to_string_val)
qed

lemma digit_not_nul: "is_digit c \<Longrightarrow> c \<noteq> CHR 0x00"
  by (auto simp: is_digit_def)

lemma digit_char_not_nul: "d < 10 \<Longrightarrow> digit_char d \<noteq> CHR 0x00"
  using digit_not_nul [OF is_digit_digit_char] .

lemma two_digits: "0 \<le> n \<Longrightarrow> n < 100 \<Longrightarrow> c \<in> set (two n) \<Longrightarrow> is_digit c"
proof -
  assume n: "0 \<le> n" "n < 100" "c \<in> set (two n)"
  then have "nat n div 10 < 10" "nat n mod 10 < 10" by linarith+
  with n show "is_digit c" by (auto simp: two_def)
qed

lemma ftime_no_nul: "tm_ok t \<Longrightarrow> CHR 0x00 \<notin> set (ftime c t)"
proof -
  assume ok: "tm_ok t"
  have "CHR 0x00 \<notin> set (two n)" if "0 \<le> n" "n < 100" for n
    using two_digits [OF that] digit_not_nul by blast
  moreover have "CHR 0x00 \<notin> set (int_to_string n)" if "0 \<le> n" for n
    using that to_string_digits digit_not_nul by (auto simp: int_to_string_def)
  ultimately show ?thesis using ok by (simp add: ftime_def tm_ok_def)
qed

text \<open>\<open>FromISO8601UTC\<close> reads what \<open>ToISO8601UTC\<close> printed, except that the fraction is read
  as a number of microseconds although the first three digits of the count were printed.\<close>

lemma FromISO_ToISO:
  assumes "year_ok tz t" "0 \<le> usecs t"
  shows "FromISO8601UTC tz (ToISO8601UTC tz t) =
    Some \<lparr>secs = secs t, usecs = int (digits_val 0 (take 3 (pad3 (usecs t))))\<rparr>"
proof -
  define m where "m = getBrokenDownTime tz t"
  define f where "f = take 3 (pad3 (usecs t))"
  have ok: "tm_ok m" unfolding m_def by (rule broken_down_ok [OF assms(1)])
  have f: "\<forall>c \<in> set f. is_digit c" "f \<noteq> []" "length f \<le> 3"
    using pad3_props(1,2) [OF assms(2)] by (simp_all add: f_def)
  have "CHR 0x00 \<notin> set (ToISO8601UTC tz t)"
    using f(1) digit_not_nul
    by (auto simp: ToISO8601UTC_def m_def [symmetric] f_def [symmetric] ftime_no_nul [OF ok])
  then have "c_str (ToISO8601UTC tz t) = FormatTime ''%Y-%m-%dT%H:%M:%S.'' m @ f @ ''Z''"
    by (subst c_str_id) (simp_all add: ToISO8601UTC_def m_def f_def)
  moreover have "mktime tz (m\<lparr>tm_wday := 0\<rparr>) = secs t"
    using mktime_localtime [of tz "secs t"]
    by (simp add: m_def getBrokenDownTime_def mktime_def timegm_def)
  ultimately show ?thesis
    unfolding FromISO8601UTC_def strptime_iso [OF ok]
    by (simp only: strptime_iso [OF ok] Let_def prod.case option.case
        scan_fraction_digits [OF f, unfolded f_def] f_def)
qed

lemma year_digits: "tm_ok m \<Longrightarrow> length (int_to_string (tm_year m + 1900)) = 4"
proof -
  assume "tm_ok m"
  then have "1000 \<le> nat (tm_year m + 1900)" "nat (tm_year m + 1900) < 10000" "0 \<le> tm_year m + 1900"
    unfolding tm_ok_def by linarith+
  then show ?thesis using four_digits [of "nat (tm_year m + 1900)"] by (simp add: int_to_string_def)
qed

lemma names_found:
  "n < 7 \<Longrightarrow> length (WEEK_DAYS ! n) = 3 \<and> find_pos WEEK_DAYS (WEEK_DAYS ! n) = Some n"
  "n < 12 \<Longrightarrow> length (MONTHS ! n) = 3 \<and> find_pos MONTHS (MONTHS ! n) = Some n"
  unfolding WEEK_DAYS_def MONTHS_def
  by (auto simp: less_Suc_eq numeral_eq_Suc)

lemma FromHttp_ToHttp:
  assumes "year_ok tz t"
  shows "FromHttpHeaderValue tz (ToHttpHeaderValue tz t) = \<lparr>secs = secs t, usecs = 0\<rparr>"
proof -
  define m where "m = getBrokenDownTime tz t"
  have ok: "tm_ok m" unfolding m_def by (rule broken_down_ok [OF assms])
  define wd mo where "wd = nat (tm_wday m)" and "mo = nat (tm_mon m)"
  have lt: "wd < 7" "mo < 12" "int wd = tm_wday m" "int mo = tm_mon m"
    using ok by (simp_all add: wd_def mo_def tm_ok_def nat_less_iff)
  obtain a b c where W: "WEEK_DAYS ! wd = [a, b, c]"
    using names_found(1) [OF lt(1)] by (auto simp: numeral_eq_Suc length_Suc_conv)
  obtain d e f where M: "MONTHS ! mo = [d, e, f]"
    using names_found(2) [OF lt(2)] by (auto simp: numeral_eq_Suc length_Suc_conv)
  obtain x y where D: "two (tm_mday m) = [x, y]" by (simp add: two_def)
  define tail where "tail = FormatTime '' %Y %H:%M:%S GMT'' m"
  have tail: "length tail = 18"
    using ok year_digits [OF ok] by (simp add: tail_def ftime_def tm_ok_def two_def)
  have S: "ToHttpHeaderValue tz t = [a, b, c, CHR '','', CHR '' '', x, y, CHR '' '', d, e, f] @ tail"
    by (simp add: ToHttpHeaderValue_def Let_def m_def [symmetric] wd_def [symmetric] mo_def [symmetric]
        W M tail_def ftime_def D)
  have day: "tm_mday (fst (strptime [x, y] ''%d'' tm_zero)) = tm_mday m"
    using ptime_ftime(1) [OF ok, of tm_zero "[]"] by (simp add: ftime_def D)
  have rest: "fst (strptime tail '' %Y %H:%M:%S GMT'' tm_zero)
      = m\<lparr>tm_wday := 0, tm_mon := 0, tm_mday := 0\<rparr>"
    using ok by (simp add: tail_def ptime_blank ptime_ftime is_space_def byte_def tm_zero_def)
  have eq: "m\<lparr>tm_wday := 0, tm_mon := 0, tm_mday := 0\<rparr>\<lparr>tm_mday := tm_mday m, tm_mon := int mo\<rparr>
      = m\<lparr>tm_wday := 0\<rparr>" by (simp add: lt)
  have mk: "mktime tz (m\<lparr>tm_wday := 0\<rparr>) = secs t"
    using mktime_localtime [of tz "secs t"]
    by (simp add: m_def getBrokenDownTime_def mktime_def timegm_def)
  have local: "auxLocaltime tz (secs t) = m" by (simp add: m_def getBrokenDownTime_def)
  have mk0: "mktime tz m = secs t" using local mktime_localtime by metis
  then show ?thesis
    unfolding FromHttpHeaderValue_def S
    using names_found(1) [OF lt(1)] names_found(2) [OF lt(2)] tail
    by (simp add: substr_def W M day rest eq mk mk0 local lt Let_def del: strptime.simps)
qed

text \<open>The long form of a signer date begins with the short form.\<close>

lemma amz_signer_date:
  "ToAmzDate tz t = ToSignerDate tz t @ CHR ''T'' # FormatTime ''%H%M%SZ'' (getBrokenDownTime tz t)"
  by (simp add: ToAmzDate_def ToSignerDate_def)

lemma ToSignerDate_length: "year_ok tz t \<Longrightarrow> length (ToSignerDate tz t) = 8"
proof -
  assume y: "year_ok tz t"
  have ok: "tm_ok (getBrokenDownTime tz t)" by (rule broken_down_ok [OF y])
  then show ?thesis using year_digits [OF ok]
    by (simp add: ToSignerDate_def ftime_def two_def)
qed

subsection \<open>The order\<close>

lemma utc_less_iff:
  "utc_less a b \<longleftrightarrow> secs a < secs b \<or> secs a = secs b \<and> usecs a < usecs b"
  by (auto simp: utc_less_def utc_Compare_def)

lemma utc_Equal_iff: "utc_Equal a b \<longleftrightarrow> a = b"
  by (auto simp: utc_Equal_def utc_Compare_def)

lemma utc_less_trans: "utc_less a b \<Longrightarrow> utc_less b c \<Longrightarrow> utc_less a c"
  by (auto simp: utc_less_iff)

lemma utc_less_total: "utc_less a b \<or> utc_Equal a b \<or> utc_less b a"
  by (cases a; cases b) (auto simp: utc_less_iff utc_Equal_iff)

end
