(* ===== verification/Http.thy ===== *)
theory Http
  imports UtcTime Multimap
begin

section \<open>HTTP requests, responses and URLs (src/http.cc, include/miniocpp/http.h)\<close>

text \<open>
  \<open>url\<close> is the struct \<open>http::Url\<close> with \<open>String\<close>, \<open>HostHeaderValue\<close> and \<open>Parse\<close>;
  \<open>http_request\<close> and \<open>http_response\<close> are the fields of \<open>http::Request\<close> and
  \<open>http::Response\<close> that decide what is sent and what the caller sees. The HTTP library
  (httplib) is the argument \<open>send\<close> of \<open>http_execute\<close>; \<open>inet_pton\<close> for IPv6 is the
  argument \<open>inet6\<close> of \<open>Url_Parse\<close>. Timeouts, TLS settings, progress reports and logging
  change no value modelled here.
\<close>

datatype http_method = kGet | kHead | kPost | kPut | kDelete

definition MethodToString :: "http_method \<Rightarrow> string" where
  "MethodToString m = (case m of kGet \<Rightarrow> ''GET'' | kHead \<Rightarrow> ''HEAD'' | kPost \<Rightarrow> ''POST''
     | kPut \<Rightarrow> ''PUT'' | kDelete \<Rightarrow> ''DELETE'')"

record url =
  https :: bool
  host :: string
  port :: u32
  path :: string
  query_string :: string

definition url_empty :: url where
  "url_empty = \<lparr>https = False, host = [], port = 0, path = [], query_string = []\<rparr>"

definition url_bool :: "url \<Rightarrow> bool" where
  "url_bool u \<longleftrightarrow> host u \<noteq> []"

definition Url_String :: "url \<Rightarrow> string" where
  "Url_String u =
     (if host u = [] then []
      else (if https u then ''https://'' else ''http://'') @ host u
        @ (if port u \<noteq> 0 then '':'' @ to_string (unat (port u)) else [])
        @ (if path u \<noteq> [] then (if hd (path u) \<noteq> CHR ''/'' then ''/'' else []) @ path u else [])
        @ (if query_string u \<noteq> [] then ''?'' @ query_string u else []))"

definition HostHeaderValue :: "url \<Rightarrow> string" where
  "HostHeaderValue u =
     (if port u = 0 then host u else host u @ '':'' @ to_string (unat (port u)))"

subsection \<open>std::stoi\<close>

datatype stoi_result = Stoi int | Invalid_argument | Out_of_range

definition stoi :: "string \<Rightarrow> stoi_result" where
  "stoi str =
     (let s = dropWhile is_space str;
          neg = (s \<noteq> [] \<and> hd s = CHR ''-'');
          s = (if s \<noteq> [] \<and> (hd s = CHR ''-'' \<or> hd s = CHR ''+'') then tl s else s);
          ds = takeWhile is_digit s;
          v = (if neg then - int (digits_val 0 ds) else int (digits_val 0 ds))
      in if ds = [] then Invalid_argument
         else if v < - (2 ^ 31) \<or> 2 ^ 31 \<le> v then Out_of_range else Stoi v)"

subsection \<open>Url::Parse\<close>

text \<open>\<open>value.find(p)\<close> and the two halves around it; the second is \<open>None\<close> when there is no
  occurrence.\<close>

definition split_at :: "string \<Rightarrow> string \<Rightarrow> string \<times> string option" where
  "split_at v p = (case str_find v p of
      None \<Rightarrow> (v, None)
    | Some pos \<Rightarrow> (take pos v, Some (drop (pos + length p) v)))"

definition split_host_path :: "string \<Rightarrow> string \<times> string \<times> string" where
  "split_host_path v =
     (case split_at v ''/'' of
        (h, Some rest) \<Rightarrow>
          (case split_at rest ''?'' of
             (p, Some qs) \<Rightarrow> (h, p, qs)
           | (p, None) \<Rightarrow> (h, p, []))
      | (_, None) \<Rightarrow>
          (case split_at v ''?'' of
             (h, Some qs) \<Rightarrow> (h, [], qs)
           | (h, None) \<Rightarrow> (h, [], [])))"

text \<open>Host and port; \<open>None\<close> is the \<open>std::out_of_range\<close> that leaves \<open>Parse\<close>.\<close>

definition parse_host_port :: "(string \<Rightarrow> bool) \<Rightarrow> string \<Rightarrow> (string \<times> u32) option" where
  "parse_host_port inet6 h =
     (if inet6 (c_str h) then Some (''['' @ h @ '']'', 0)
      else if hd h = CHR ''['' \<and> last h = CHR '']'' then Some (h, 0)
      else
        let portstr = getline_final (CHR '':'') h
        in if ContainsChar h (CHR '':'') \<and> portstr \<noteq> [] then
             (case stoi portstr of
                Stoi n \<Rightarrow> Some (case str_rfind h ('':'' @ portstr) of
                    None \<Rightarrow> h | Some i \<Rightarrow> take i h, word_of_int n)
              | Invalid_argument \<Rightarrow> Some (h, 0)
              | Out_of_range \<Rightarrow> None)
           else Some (h, 0))"

definition Url_Parse :: "(string \<Rightarrow> bool) \<Rightarrow> string \<Rightarrow> url option" where
  "Url_Parse inet6 v =
     (let (scheme, v) = (case split_at v ''://'' of
              (s, Some rest) \<Rightarrow> (ToLower s, rest) | (_, None) \<Rightarrow> ([], v))
      in if scheme \<noteq> [] \<and> scheme \<noteq> ''http'' \<and> scheme \<noteq> ''https'' then Some url_empty
         else
           let tls = (scheme = [] \<or> scheme = ''https'');
               (h, p, qs) = split_host_path v
           in if h = [] then Some url_empty
              else case parse_host_port inet6 h of
                None \<Rightarrow> None
              | Some (h, n) \<Rightarrow>
                  let n = (if \<not> tls \<and> n = 80 then 0 else n);
                      n = (if tls \<and> n = 443 then 0 else n)
                  in Some \<lparr>https = tls, host = h, port = n, path = p, query_string = qs\<rparr>)"

subsection \<open>Responses and requests\<close>

record http_response =
  resp_error :: string
  status_code :: int
  resp_headers :: multimap
  resp_body :: string

definition response_empty :: http_response where
  "response_empty = \<lparr>resp_error = [], status_code = 0, resp_headers = mm_empty, resp_body = []\<rparr>"

definition resp_bool :: "http_response \<Rightarrow> bool" where
  "resp_bool r \<longleftrightarrow> resp_error r = [] \<and> 200 \<le> status_code r \<and> status_code r \<le> 299"

definition Response_Error :: "http_response \<Rightarrow> error" where
  "Response_Error r =
     (if resp_error r \<noteq> [] then resp_error r
      else if status_code r \<noteq> 0 \<and> (status_code r < 200 \<or> 299 < status_code r) then
        ''failed with HTTP status code '' @ int_to_string (status_code r)
      else SUCCESS)"

text \<open>\<open>'s\<close> is the state behind the caller's data function (\<open>DataFunction\<close> with its user
  data): it sees the response so far and a chunk, and returns whether to go on.\<close>

type_synonym 's data_function = "'s \<Rightarrow> http_response \<Rightarrow> string \<Rightarrow> bool \<times> 's"

record 's http_request =
  rq_method :: http_method
  rq_url :: url
  rq_headers :: multimap
  rq_body :: string
  rq_datafunc :: "'s data_function option"

text \<open>\<open>explicit operator bool\<close>: the method is one of the five by its type.\<close>

definition rq_bool :: "'s http_request \<Rightarrow> bool" where
  "rq_bool r \<longleftrightarrow> url_bool (rq_url r)"

text \<open>What is handed to httplib, and what httplib answers: the status line (seen by the
  response handler), the body in chunks, and the final result, an error text or headers.\<close>

record http_call =
  c_method :: http_method
  c_endpoint :: string
  c_path :: string
  c_headers :: "(string \<times> string) list"
  c_content_type :: string
  c_body :: string

record http_exchange =
  x_valid :: bool
  x_status :: int
  x_chunks :: "string list"
  x_headers :: "(string \<times> string) list"
  x_failure :: "string option"

definition endpoint_of :: "url \<Rightarrow> string" where
  "endpoint_of u =
     (if https u then ''https://'' else ''http://'') @ host u
       @ (if port u \<noteq> 0 then '':'' @ to_string (unat (port u)) else [])"

definition request_headers :: "multimap \<Rightarrow> (string \<times> string) list" where
  "request_headers m =
     filter (\<lambda>(k, v). ToLower k \<noteq> ''content-type'')
       (filter (\<lambda>(k, v). ToLower k \<noteq> ''content-length'')
          (concat (map (\<lambda>key. map (\<lambda>v. (key, v)) (Get key m)) (Keys m)))
        @ [(''Expect'', [])])"

definition request_path :: "url \<Rightarrow> string" where
  "request_path u =
     (let p = (if path u = [] then ''/'' else if hd (path u) \<noteq> CHR ''/'' then ''/'' @ path u else path u)
      in if query_string u \<noteq> [] then p @ ''?'' @ query_string u else p)"

definition call_of :: "'s http_request \<Rightarrow> http_call" where
  "call_of r =
     \<lparr>c_method = rq_method r, c_endpoint = endpoint_of (rq_url r), c_path = request_path (rq_url r),
      c_headers = request_headers (rq_headers r),
      c_content_type = GetFront ''Content-Type'' (rq_headers r), c_body = rq_body r\<rparr>"

text \<open>The content receiver: to the data function when streaming, else appended to the
  body. The flag says that the data function cancelled.\<close>

fun receive :: "bool \<Rightarrow> 's data_function \<Rightarrow> string list \<Rightarrow> http_response \<Rightarrow> 's
    \<Rightarrow> bool \<times> http_response \<times> 's" where
  "receive stream f [] resp s = (False, resp, s)"
| "receive stream f (c # cs) resp s =
     (if \<not> stream then receive stream f cs (resp\<lparr>resp_body := resp_body resp @ c\<rparr>) s
      else case f s resp c of
        (True, s') \<Rightarrow> receive stream f cs resp s'
      | (False, s') \<Rightarrow> (True, resp, s'))"

definition add_headers :: "(string \<times> string) list \<Rightarrow> multimap \<Rightarrow> multimap" where
  "add_headers kvs m = foldl (\<lambda>m (k, v). Add k v m) m kvs"

definition http_execute ::
  "(http_call \<Rightarrow> http_exchange) \<Rightarrow> 's http_request \<Rightarrow> 's \<Rightarrow> http_response \<times> 's" where
  "http_execute send r s =
     (let x = send (call_of r) in
      if \<not> x_valid x then
        (response_empty\<lparr>resp_error := ''unable to create HTTP client for '' @ endpoint_of (rq_url r)\<rparr>, s)
      else
        let resp = response_empty;
            datafunc = (if rq_method r = kGet \<or> rq_method r = kPost then rq_datafunc r else None);
            resp = (if rq_method r = kGet \<and> datafunc \<noteq> None then resp\<lparr>status_code := x_status x\<rparr> else resp);
            stream = (rq_method r \<noteq> kGet \<or> 200 \<le> x_status x \<and> x_status x \<le> 299);
            (cancelled, resp, s) = (case datafunc of
                None \<Rightarrow> (False, resp, s)
              | Some f \<Rightarrow> receive stream f (x_chunks x) resp s)
        in if cancelled then
             (if status_code resp = 0 then resp\<lparr>status_code := 200\<rparr> else resp, s)
           else case x_failure x of
             Some e \<Rightarrow> (resp\<lparr>resp_error := e\<rparr>, s)
           | None \<Rightarrow>
               let resp = resp\<lparr>status_code := x_status x,
                               resp_headers := add_headers (x_headers x) (resp_headers resp)\<rparr>
               in (if rq_datafunc r = None then resp\<lparr>resp_body := concat (x_chunks x)\<rparr> else resp, s))"

subsection \<open>URLs survive printing and parsing\<close>

lemma split_at_none: "c \<notin> set v \<Longrightarrow> split_at v [c] = (v, None)"
  by (simp add: split_at_def str_find_char)

lemma split_at_char: "c \<notin> set a \<Longrightarrow> split_at (a @ c # b) [c] = (a, Some b)"
  by (simp add: split_at_def str_find_char takeWhile_until)

lemma str_rfind_short: "length s < length p \<Longrightarrow> str_rfind s p = None"
proof (cases "str_rfind s p")
  case (Some i)
  assume "length s < length p"
  moreover have "length p \<le> length s"
    using str_rfind_Some [OF Some] by (metis length_append length_drop le_add1 diff_le_self le_trans)
  ultimately show ?thesis by simp
qed

lemma str_rfind_suffix: "p \<noteq> [] \<Longrightarrow> str_rfind (h @ p) p = Some (length h)"
proof (induction h)
  case Nil
  then obtain c q where p: "p = c # q" by (cases p) auto
  then have "str_rfind q p = None" by (intro str_rfind_short) simp
  then show ?case using p is_prefix_iff [of p p] by simp
qed simp

lemma is_digit_chars: "is_digit c \<Longrightarrow> c \<noteq> CHR '':'' \<and> c \<noteq> CHR ''/'' \<and> c \<noteq> CHR ''?'' \<and> c \<noteq> CHR '']''"
  by (auto simp: is_digit_def)

lemma to_string_not_in: "\<not> is_digit c \<Longrightarrow> c \<notin> set (to_string n)"
  using to_string_digits by blast

lemma not_digits [simp]: "\<not> is_digit (CHR '':'')" "\<not> is_digit (CHR ''/'')" "\<not> is_digit (CHR ''?'')"
    "\<not> is_digit (CHR '']'')" "\<not> is_digit (CHR 0x00)"
  by (simp_all add: is_digit_def)

lemma stoi_to_string: "n < 2 ^ 31 \<Longrightarrow> stoi (to_string n) = Stoi (int n)"
proof -
  assume n: "n < 2 ^ 31"
  have d: "\<forall>c \<in> set (to_string n). is_digit c" using to_string_digits by blast
  then have "is_digit (hd (to_string n))" by simp
  from digit_not_blank [OF this] have "dropWhile is_space (to_string n) = to_string n"
    "hd (to_string n) \<noteq> CHR ''-''" "hd (to_string n) \<noteq> CHR ''+''"
    by (auto simp: dropWhile_id_iff)
  moreover have tw: "takeWhile is_digit (to_string n) = to_string n"
    by (rule takeWhile_eq_all_conv [THEN iffD2, OF d])
  ultimately show ?thesis using n by (simp add: stoi_def Let_def to_string_val tw)
qed

text \<open>What is known of the text form of an IPv6 address: at least two colons, no bracket.\<close>

definition inet6_text :: "(string \<Rightarrow> bool) \<Rightarrow> bool" where
  "inet6_text inet6 \<longleftrightarrow> (\<forall>s. inet6 s \<longrightarrow> 2 \<le> length (filter (\<lambda>c. c = CHR '':'') s) \<and> CHR ''['' \<notin> set s)"

text \<open>A host that a URL can carry: a name or IPv4 address, or a bracketed IPv6 address.\<close>

definition host_ok :: "string \<Rightarrow> bool" where
  "host_ok h \<longleftrightarrow> h \<noteq> [] \<and> CHR ''/'' \<notin> set h \<and> CHR ''?'' \<notin> set h \<and> CHR 0x00 \<notin> set h
     \<and> (CHR '':'' \<notin> set h \<or> hd h = CHR ''['' \<and> last h = CHR '']'')"

definition default_port :: "bool \<Rightarrow> u32" where
  "default_port tls = (if tls then 443 else 80)"

definition url_ok :: "url \<Rightarrow> bool" where
  "url_ok u \<longleftrightarrow> host_ok (host u) \<and> unat (port u) < 2 ^ 31 \<and> port u \<noteq> default_port (https u)
     \<and> CHR ''?'' \<notin> set (path u) \<and> (path u = [] \<longrightarrow> CHR ''/'' \<notin> set (query_string u))"

lemma inet6_host_port:
  assumes "inet6_text inet6" "host_ok h"
  shows "\<not> inet6 h" "\<not> inet6 (h @ CHR '':'' # to_string n)"
proof -
  have two: "2 \<le> length (filter (\<lambda>c. c = CHR '':'') s)" "CHR ''['' \<notin> set s" if "inet6 s" for s
    using assms(1) that by (auto simp: inet6_text_def)
  have none: "filter (\<lambda>c. c = CHR '':'') (to_string n) = []"
    using to_string_not_in [of "CHR '':''" n] by (auto simp: filter_empty_conv)
  have "CHR '':'' \<notin> set h \<or> CHR ''['' \<in> set h"
    using assms(2) unfolding host_ok_def by (metis hd_in_set)
  then have h: "filter (\<lambda>c. c = CHR '':'') h = [] \<or> CHR ''['' \<in> set h" by (auto simp: filter_empty_conv)
  show "\<not> inet6 h" using two [of h] h by auto
  show "\<not> inet6 (h @ CHR '':'' # to_string n)"
    using two [of "h @ CHR '':'' # to_string n"] h none by auto
qed

lemma parse_host_port_print:
  assumes "inet6_text inet6" "host_ok h" "unat n < 2 ^ 31"
  shows "parse_host_port inet6 (h @ (if n \<noteq> 0 then '':'' @ to_string (unat n) else [])) = Some (h, n)"
proof (cases "n = 0")
  case True
  show ?thesis
    using assms(2) inet6_host_port(1) [OF assms(1,2)] True c_str_id [of h]
    by (auto simp: parse_host_port_def Let_def host_ok_def ContainsChar_iff)
next
  case False
  let ?d = "to_string (unat n)"
  have h: "h \<noteq> []" "CHR 0x00 \<notin> set h" using assms(2) by (auto simp: host_ok_def)
  have fin: "getline_final (CHR '':'') (h @ CHR '':'' # ?d) = ?d"
    by (rule getline_final_snoc) (simp add: to_string_not_in)
  have "c_str (h @ CHR '':'' # ?d) = h @ CHR '':'' # ?d"
    using h by (intro c_str_id) (simp add: to_string_not_in)
  moreover have "last (h @ CHR '':'' # ?d) \<noteq> CHR '']''"
    using to_string_not_in [of "CHR '']''" "unat n"] by (simp add: last_in_set)
      (metis last_in_set not_digits(4) to_string_digits to_string_nonempty)
  moreover have "str_rfind (h @ CHR '':'' # ?d) (CHR '':'' # ?d) = Some (length h)"
    using str_rfind_suffix [of "CHR '':'' # ?d" h] by simp
  ultimately show ?thesis
    using False inet6_host_port(2) [OF assms(1,2)] stoi_to_string [OF assms(3)]
    by (simp add: parse_host_port_def Let_def fin ContainsChar_iff)
qed

lemma split_host_path_print:
  assumes "CHR ''/'' \<notin> set hp" "CHR ''?'' \<notin> set hp" "CHR ''?'' \<notin> set p"
    "p = [] \<longrightarrow> CHR ''/'' \<notin> set qs"
  shows "split_host_path (hp @ (if p \<noteq> [] then (if hd p \<noteq> CHR ''/'' then ''/'' else []) @ p else [])
      @ (if qs \<noteq> [] then ''?'' @ qs else []))
    = (hp, (if p \<noteq> [] \<and> hd p = CHR ''/'' then tl p else p), qs)"
proof (cases "p = []")
  case True
  then show ?thesis using assms
    by (auto simp: split_host_path_def split_at_none split_at_char)
next
  case False
  define q where "q = (if hd p = CHR ''/'' then tl p else p)"
  have p: "(if hd p \<noteq> CHR ''/'' then ''/'' else []) @ p = CHR ''/'' # q"
    using False by (cases p) (auto simp: q_def)
  have "CHR ''?'' \<notin> set q" using assms(3) False by (cases p) (auto simp: q_def)
  then show ?thesis
    using assms(1) False p unfolding q_def [symmetric]
    by (auto simp: split_host_path_def split_at_none split_at_char q_def)
qed

text \<open>Parsing gives back the URL that was printed; the slash that starts its path, which
  \<open>String\<close> adds when it is missing, is dropped.\<close>

lemma Url_Parse_String_eq:
  assumes "inet6_text inet6" "url_ok u"
  shows "Url_Parse inet6 (Url_String u) =
    Some (u\<lparr>path := (if path u \<noteq> [] \<and> hd (path u) = CHR ''/'' then tl (path u) else path u)\<rparr>)"
proof -
  define hp where "hp = host u @ (if port u \<noteq> 0 then '':'' @ to_string (unat (port u)) else [])"
  define rest where "rest = hp
     @ (if path u \<noteq> [] then (if hd (path u) \<noteq> CHR ''/'' then ''/'' else []) @ path u else [])
     @ (if query_string u \<noteq> [] then ''?'' @ query_string u else [])"
  have h: "host_ok (host u)" and n: "unat (port u) < 2 ^ 31" using assms(2) by (auto simp: url_ok_def)
  have ne: "host u \<noteq> []" "hp \<noteq> []" using h by (auto simp: host_ok_def hp_def)
  have S: "Url_String u = (if https u then ''https'' else ''http'') @ ''://'' @ rest"
    using ne by (simp add: Url_String_def rest_def hp_def)
  have "split_at (Url_String u) ''://'' = ((if https u then ''https'' else ''http''), Some rest)"
    by (simp add: S split_at_def)
  moreover have "split_host_path rest
      = (hp, (if path u \<noteq> [] \<and> hd (path u) = CHR ''/'' then tl (path u) else path u), query_string u)"
    unfolding rest_def using h assms(2)
    by (intro split_host_path_print) (auto simp: hp_def host_ok_def url_ok_def to_string_not_in)
  moreover have "parse_host_port inet6 hp = Some (host u, port u)"
    unfolding hp_def by (rule parse_host_port_print [OF assms(1) h n])
  ultimately show ?thesis
    using assms(2) ne
    by (simp add: Url_Parse_def ToLower_def to_lower_char_def url_ok_def default_port_def split: if_splits)
qed

subsection \<open>What is sent\<close>

lemma Keys_lower:
  assumes "mm_wf m"
  shows "set (Keys m) = {k. ToLower k = k \<and> mm_vals m k \<noteq> {}}"
proof -
  have mem: "k \<in> set (Keys m) \<longleftrightarrow> map_of (keys_m m) k \<noteq> None" for k
    unfolding Keys_def by (simp add: map_of_eq_None_iff image_iff)
  have low: "ToLower k = k" if "map_of (keys_m m) k \<noteq> None" for k
  proof -
    from that obtain ks where ks: "map_of (keys_m m) k = Some ks" by auto
    with assms have "ks \<noteq> []" "set ks = {k'. ToLower k' = k \<and> k' \<in> dom (map_of (map_m m))}"
      by (auto simp: mm_wf_def)
    then obtain k' where "ToLower k' = k" by (metis (mono_tags, lifting) empty_Collect_eq set_empty)
    then show ?thesis using ToLower_idem by metis
  qed
  have "k \<in> set (Keys m) \<longleftrightarrow> ToLower k = k \<and> mm_vals m k \<noteq> {}" for k
  proof (cases "ToLower k = k")
    case True
    then show ?thesis using mem mm_Contains_iff [OF assms, of k] by (simp add: mm_Contains_def)
  next
    case False
    then show ?thesis using mem low by blast
  qed
  then show ?thesis by blast
qed

text \<open>Every header value set on the request is sent, under its lower-cased name, except
  the body's length and type; \<open>Expect\<close> is sent empty.\<close>

lemma request_headers_iff:
  assumes "mm_wf m"
  shows "(k, v) \<in> set (request_headers m) \<longleftrightarrow>
    (k, v) = (''Expect'', []) \<or>
    (ToLower k = k \<and> v \<in> mm_vals m k \<and> k \<noteq> ''content-length'' \<and> k \<noteq> ''content-type'')"
proof -
  have expect: "ToLower ''Expect'' = ''expect''" by code_simp
  have "(k, v) \<in> set (concat (map (\<lambda>key. map (\<lambda>v. (key, v)) (Get key m)) (Keys m)))
      \<longleftrightarrow> ToLower k = k \<and> v \<in> mm_vals m k"
    by (auto simp: set_Get [OF assms] Keys_lower [OF assms])
  then show ?thesis unfolding request_headers_def using expect by auto
qed

subsection \<open>Streaming the response body\<close>

lemma receive_buffers:
  "receive False f cs resp s = (False, resp\<lparr>resp_body := resp_body resp @ concat cs\<rparr>, s)"
  by (induction cs arbitrary: resp) simp_all

lemma receive_keeps_response: "receive True f cs resp s = (c, resp', s') \<Longrightarrow> resp' = resp"
  by (induction cs arbitrary: s) (auto split: prod.splits bool.splits)

text \<open>A data function whose steps keep an invariant of its state keeps it over a request.\<close>

locale stream_consumer =
  fixes consume :: "'s \<Rightarrow> http_response \<Rightarrow> string \<Rightarrow> bool \<times> 's" and inv :: "'s \<Rightarrow> bool"
  assumes step_inv: "inv s \<Longrightarrow> inv (snd (consume s resp chunk))"
begin

lemma receive_inv: "inv s \<Longrightarrow> inv (snd (snd (receive st consume cs resp s)))"
proof (induction cs arbitrary: resp s)
  case (Cons c cs)
  then show ?case using step_inv [OF Cons.prems, of resp c]
    by (auto split: prod.splits bool.splits)
qed simp

lemma execute_inv:
  "inv s \<Longrightarrow> rq_datafunc r = Some consume \<Longrightarrow> inv (snd (http_execute send r s))"
  using receive_inv [of s] unfolding http_execute_def Let_def
  by (auto split: prod.splits option.splits if_splits) (metis snd_conv)+

end

text \<open>A GET that is answered with an error status never reaches the data function: its
  body is kept for the caller, whatever the chunks.\<close>

lemma http_execute_error_status:
  assumes "x_valid (send (call_of r))" "rq_method r = kGet" "rq_datafunc r = Some f"
    "x_failure (send (call_of r)) = None"
    "x_status (send (call_of r)) < 200 \<or> 299 < x_status (send (call_of r))"
  shows "http_execute send r s =
    (\<lparr>resp_error = [], status_code = x_status (send (call_of r)),
      resp_headers = add_headers (x_headers (send (call_of r))) mm_empty,
      resp_body = concat (x_chunks (send (call_of r)))\<rparr>, s)"
proof -
  have no: "(200 \<le> x_status (send (call_of r)) \<and> x_status (send (call_of r)) \<le> 299) = False"
    using assms(5) by auto
  then have "receive (rq_method r \<noteq> kGet \<or> 200 \<le> x_status (send (call_of r)) \<and> x_status (send (call_of r)) \<le> 299)
      f cs resp s = (False, resp\<lparr>resp_body := resp_body resp @ concat cs\<rparr>, s)" for cs resp
    unfolding no using assms(2) by (simp add: receive_buffers)
  then show ?thesis
    using assms unfolding http_execute_def Let_def by (simp add: response_empty_def)
qed

lemma http_execute_cancelled:
  assumes "x_valid (send (call_of r))" "rq_method r = kGet \<or> rq_method r = kPost" "rq_datafunc r = Some f"
    "200 \<le> x_status (send (call_of r))" "x_status (send (call_of r)) \<le> 299"
    "receive True f (x_chunks (send (call_of r)))
       (if rq_method r = kGet then response_empty\<lparr>status_code := x_status (send (call_of r))\<rparr> else response_empty) s
       = (True, resp, s')"
  shows "resp_bool (fst (http_execute send r s))" "snd (http_execute send r s) = s'"
  using assms receive_keeps_response [OF assms(6)]
  unfolding http_execute_def Let_def
  by (auto simp: resp_bool_def response_empty_def split: if_splits)

end
