(* ===== verification/Signer.thy ===== *)
theory Signer
  imports Http
begin

section \<open>AWS Signature Version 4 (src/signer.cc)\<close>

text \<open>
  One definition per function of \<open>signer.cc\<close>. SHA-256, HMAC and MD5 are OpenSSL's and the time
  zone is the host's: they are the record \<open>crypto\<close> that every function takes. \<open>SignV4\<close>
  and \<open>PresignV4\<close> return the header and parameter maps that the code also updates in
  place.

  The abstract specification is the receiving side: \<open>verify_headers\<close> and
  \<open>verify_query\<close> take a request apart the way a server does, recompute the signature
  from what was sent and compare. The lemmas show that what is signed verifies.
\<close>

record crypto =
  sha256 :: "string \<Rightarrow> string"
  hmac :: "string \<Rightarrow> string \<Rightarrow> string"
  md5_base64 :: "string \<Rightarrow> string"
  base64 :: "string \<Rightarrow> string"
  timezone :: int

definition GetScope :: "crypto \<Rightarrow> utc_time \<Rightarrow> string \<Rightarrow> string \<Rightarrow> string" where
  "GetScope cr t region service_name =
     ToSignerDate (timezone cr) t @ ''/'' @ region @ ''/'' @ service_name @ ''/aws4_request''"

definition canonical_request ::
  "string \<Rightarrow> string \<Rightarrow> string \<Rightarrow> string \<Rightarrow> string \<Rightarrow> string \<Rightarrow> string" where
  "canonical_request http_method uri qs headers signed_headers content_sha256 =
     http_method @ [CHR 0x0A] @ uri @ [CHR 0x0A] @ qs @ [CHR 0x0A] @ headers
       @ [CHR 0x0A, CHR 0x0A] @ signed_headers @ [CHR 0x0A] @ content_sha256"

definition GetCanonicalRequestHash ::
  "crypto \<Rightarrow> string \<Rightarrow> string \<Rightarrow> string \<Rightarrow> string \<Rightarrow> string \<Rightarrow> string \<Rightarrow> string" where
  "GetCanonicalRequestHash cr http_method uri qs headers signed_headers content_sha256 =
     Sha256Hash (sha256 cr) (canonical_request http_method uri qs headers signed_headers content_sha256)"

definition GetStringToSign :: "crypto \<Rightarrow> utc_time \<Rightarrow> string \<Rightarrow> string \<Rightarrow> string" where
  "GetStringToSign cr date scope canonical_request_hash =
     ''AWS4-HMAC-SHA256'' @ [CHR 0x0A] @ ToAmzDate (timezone cr) date @ [CHR 0x0A] @ scope
       @ [CHR 0x0A] @ canonical_request_hash"

definition HmacHash :: "crypto \<Rightarrow> string \<Rightarrow> string \<Rightarrow> string" where
  "HmacHash cr key bytes = hmac cr key bytes"

definition GetSigningKey :: "crypto \<Rightarrow> string \<Rightarrow> utc_time \<Rightarrow> string \<Rightarrow> string \<Rightarrow> string" where
  "GetSigningKey cr secret_key date region service_name =
     (let date_key = HmacHash cr (''AWS4'' @ secret_key) (ToSignerDate (timezone cr) date);
          date_region_key = HmacHash cr date_key region;
          date_region_service_key = HmacHash cr date_region_key service_name
      in HmacHash cr date_region_service_key ''aws4_request'')"

definition GetSignature :: "crypto \<Rightarrow> string \<Rightarrow> string \<Rightarrow> string" where
  "GetSignature cr signing_key string_to_sign = hex_encode (HmacHash cr signing_key string_to_sign)"

definition GetAuthorization :: "string \<Rightarrow> string \<Rightarrow> string \<Rightarrow> string \<Rightarrow> string" where
  "GetAuthorization access_key scope signed_headers signature =
     ''AWS4-HMAC-SHA256 Credential='' @ access_key @ ''/'' @ scope @ '', '' @
     ''SignedHeaders='' @ signed_headers @ '', '' @ ''Signature='' @ signature"

definition SignV4 :: "crypto \<Rightarrow> string \<Rightarrow> http_method \<Rightarrow> string \<Rightarrow> string \<Rightarrow> multimap \<Rightarrow> multimap
    \<Rightarrow> string \<Rightarrow> string \<Rightarrow> string \<Rightarrow> utc_time \<Rightarrow> multimap" where
  "SignV4 cr service_name m uri region headers query_params access_key secret_key content_sha256 date =
     (let scope = GetScope cr date region service_name;
          (signed_headers, canonical_headers) = GetCanonicalHeaders headers;
          canonical_query_string = GetCanonicalQueryString query_params;
          canonical_request_hash = GetCanonicalRequestHash cr (MethodToString m) uri
            canonical_query_string canonical_headers signed_headers content_sha256;
          string_to_sign = GetStringToSign cr date scope canonical_request_hash;
          signing_key = GetSigningKey cr secret_key date region service_name;
          signature = GetSignature cr signing_key string_to_sign;
          authorization = GetAuthorization access_key scope signed_headers signature
      in Add ''Authorization'' authorization headers)"

definition SignV4S3 :: "crypto \<Rightarrow> http_method \<Rightarrow> string \<Rightarrow> string \<Rightarrow> multimap \<Rightarrow> multimap
    \<Rightarrow> string \<Rightarrow> string \<Rightarrow> string \<Rightarrow> utc_time \<Rightarrow> multimap" where
  "SignV4S3 cr = SignV4 cr ''s3''"

definition SignV4STS :: "crypto \<Rightarrow> http_method \<Rightarrow> string \<Rightarrow> string \<Rightarrow> multimap \<Rightarrow> multimap
    \<Rightarrow> string \<Rightarrow> string \<Rightarrow> string \<Rightarrow> utc_time \<Rightarrow> multimap" where
  "SignV4STS cr = SignV4 cr ''sts''"

text \<open>The parameters \<open>PresignV4\<close> adds before it signs.\<close>

definition presign_params :: "crypto \<Rightarrow> string \<Rightarrow> multimap \<Rightarrow> string \<Rightarrow> utc_time \<Rightarrow> u32 \<Rightarrow> multimap" where
  "presign_params cr region query_params access_key date expires =
     Add ''X-Amz-SignedHeaders'' ''host''
       (Add ''X-Amz-Expires'' (to_string (unat expires))
         (Add ''X-Amz-Date'' (ToAmzDate (timezone cr) date)
           (Add ''X-Amz-Credential'' (access_key @ ''/'' @ GetScope cr date region ''s3'')
             (Add ''X-Amz-Algorithm'' ''AWS4-HMAC-SHA256'' query_params))))"

definition PresignV4 :: "crypto \<Rightarrow> http_method \<Rightarrow> string \<Rightarrow> string \<Rightarrow> string \<Rightarrow> multimap
    \<Rightarrow> string \<Rightarrow> string \<Rightarrow> utc_time \<Rightarrow> u32 \<Rightarrow> multimap" where
  "PresignV4 cr m h uri region query_params access_key secret_key date expires =
     (let scope = GetScope cr date region ''s3'';
          canonical_headers = ''host:'' @ h;
          signed_headers = ''host'';
          query_params = presign_params cr region query_params access_key date expires;
          canonical_query_string = GetCanonicalQueryString query_params;
          canonical_request_hash = GetCanonicalRequestHash cr (MethodToString m) uri
            canonical_query_string canonical_headers signed_headers ''UNSIGNED-PAYLOAD'';
          string_to_sign = GetStringToSign cr date scope canonical_request_hash;
          signing_key = GetSigningKey cr secret_key date region ''s3'';
          signature = GetSignature cr signing_key string_to_sign
      in Add ''X-Amz-Signature'' signature query_params)"

definition PostPresignV4 :: "crypto \<Rightarrow> string \<Rightarrow> string \<Rightarrow> utc_time \<Rightarrow> string \<Rightarrow> string" where
  "PostPresignV4 cr string_to_sign secret_key date region =
     GetSignature cr (GetSigningKey cr secret_key date region ''s3'') string_to_sign"

subsection \<open>The receiving side\<close>

text \<open>The signature a server computes from the text of a request: the scope as the client
  names it, the long date as sent.\<close>

definition server_signature :: "crypto \<Rightarrow> string \<Rightarrow> string \<Rightarrow> string \<Rightarrow> string \<Rightarrow> string \<Rightarrow> string \<Rightarrow> string" where
  "server_signature cr secret_key d region service amz_date creq =
     (let key = hmac cr (hmac cr (hmac cr (hmac cr (''AWS4'' @ secret_key) d) region) service) ''aws4_request'';
          scope = d @ ''/'' @ region @ ''/'' @ service @ ''/aws4_request''
      in hex_encode (hmac cr key (''AWS4-HMAC-SHA256'' @ [CHR 0x0A] @ amz_date @ [CHR 0x0A] @ scope
           @ [CHR 0x0A] @ hex_encode (sha256 cr creq))))"

text \<open>The parts of a credential, and of an \<open>Authorization\<close> header.\<close>

definition parse_credential :: "string \<Rightarrow> (string \<times> string \<times> string \<times> string) option" where
  "parse_credential cred = (case tokens (CHR ''/'') cred of
      [access_key, d, region, service, term] \<Rightarrow>
        if term = ''aws4_request'' then Some (access_key, d, region, service) else None
    | _ \<Rightarrow> None)"

definition parse_authorization :: "string \<Rightarrow> (string \<times> string \<times> string) option" where
  "parse_authorization a =
     (if \<not> StartsWith a ''AWS4-HMAC-SHA256 Credential='' then None
      else case split_at (drop 28 a) '', SignedHeaders='' of
        (cred, Some r) \<Rightarrow>
          (case split_at r '', Signature='' of
             (names, Some sig) \<Rightarrow> Some (cred, names, sig)
           | (_, None) \<Rightarrow> None)
      | (_, None) \<Rightarrow> None)"

text \<open>A server builds the canonical request itself: it sorts the names of the signed headers, as Signature
  Version 4 asks for, in whatever order the client lists them.\<close>

definition verify_headers ::
  "crypto \<Rightarrow> (string \<Rightarrow> string) \<Rightarrow> string \<Rightarrow> string \<Rightarrow> string \<Rightarrow> multimap \<Rightarrow> string \<Rightarrow> bool" where
  "verify_headers cr secret_of http_method uri qs headers content_sha256 =
     (case Get ''Authorization'' headers of
        [a] \<Rightarrow>
          (case parse_authorization a of
             None \<Rightarrow> False
           | Some (cred, names, sig) \<Rightarrow>
               (case parse_credential cred of
                  None \<Rightarrow> False
                | Some (access_key, d, region, service) \<Rightarrow>
                    let amz_date = GetFront ''x-amz-date'' headers;
                        sorted_names = sort (tokens (CHR '';'') names);
                        lines = map (\<lambda>n. n @ '':'' @ canon_value (Get n headers)) sorted_names;
                        creq = canonical_request http_method uri qs (Join lines [CHR 0x0A])
                          (Join sorted_names '';'') content_sha256
                    in StartsWith amz_date d
                       \<and> sig = server_signature cr (secret_of access_key) d region service amz_date creq))
      | _ \<Rightarrow> False)"

text \<open>A presigned URL: the query string is decoded, the signature set aside.\<close>

definition query_value :: "string \<Rightarrow> (string \<times> string) list \<Rightarrow> string" where
  "query_value k kvs = (case map_of kvs k of None \<Rightarrow> [] | Some v \<Rightarrow> v)"

definition verify_query ::
  "crypto \<Rightarrow> (string \<Rightarrow> string) \<Rightarrow> string \<Rightarrow> string \<Rightarrow> string \<Rightarrow> string \<Rightarrow> bool" where
  "verify_query cr secret_of http_method uri h qs =
     (let params = parse_query qs;
          unsigned_params = filter (\<lambda>(k, v). k \<noteq> ''X-Amz-Signature'') params
      in case parse_credential (query_value ''X-Amz-Credential'' params) of
           None \<Rightarrow> False
         | Some (access_key, d, region, service) \<Rightarrow>
             let amz_date = query_value ''X-Amz-Date'' params;
                 creq = canonical_request http_method uri (canon_query_loop [] unsigned_params)
                   (''host:'' @ h) (query_value ''X-Amz-SignedHeaders'' params) ''UNSIGNED-PAYLOAD''
             in StartsWith amz_date d \<and>
                query_value ''X-Amz-Signature'' params
                  = server_signature cr (secret_of access_key) d region service amz_date creq)"

subsection \<open>Parsing what was printed\<close>

lemma str_find_first: "c \<notin> set a \<Longrightarrow> str_find (a @ (c # q) @ b) (c # q) = Some (length a)"
proof (induction a)
  case Nil
  show ?case using is_prefix_iff [of q "q @ b"] by simp
qed auto

lemma split_at_str: "c \<notin> set a \<Longrightarrow> split_at (a @ (c # q) @ b) (c # q) = (a, Some b)"
  using str_find_first [of c a q b] by (simp add: split_at_def)

lemma parse_authorization_print:
  assumes "CHR '','' \<notin> set cred" "CHR '','' \<notin> set names"
  shows "parse_authorization (''AWS4-HMAC-SHA256 Credential='' @ cred @ '', '' @ ''SignedHeaders='' @ names
    @ '', '' @ ''Signature='' @ sig) = Some (cred, names, sig)"
  using split_at_str [OF assms(1), of "'' SignedHeaders=''" "names @ '', Signature='' @ sig"]
    split_at_str [OF assms(2), of "'' Signature=''" sig]
  by (simp add: parse_authorization_def StartsWith_iff)

lemma parse_credential_print:
  assumes "\<forall>w \<in> {ak, d, region, service}. w \<noteq> [] \<and> CHR ''/'' \<notin> set w"
  shows "parse_credential (ak @ ''/'' @ d @ ''/'' @ region @ ''/'' @ service @ ''/aws4_request'')
    = Some (ak, d, region, service)"
proof -
  have "tokens (CHR ''/'') (ak @ concat (map (\<lambda>q. CHR ''/'' # q) [d, region, service, ''aws4_request'']))
      = [ak, d, region, service, ''aws4_request'']"
    by (rule tokens_joined) (use assms in auto)
  then show ?thesis by (simp add: parse_credential_def)
qed

lemma signature_is_server_signature:
  "GetSignature cr (GetSigningKey cr sk date region service)
     (GetStringToSign cr date (GetScope cr date region service)
       (GetCanonicalRequestHash cr m uri qs hs sh sha))
   = server_signature cr sk (ToSignerDate (timezone cr) date) region service (ToAmzDate (timezone cr) date)
       (canonical_request m uri qs hs sh sha)"
  by (simp add: GetSignature_def GetSigningKey_def GetStringToSign_def GetScope_def HmacHash_def
      GetCanonicalRequestHash_def Sha256Hash_def server_signature_def Let_def)

lemma signer_date_chars:
  assumes "year_ok (timezone cr) date"
  shows "ToSignerDate (timezone cr) date \<noteq> []" "c \<in> set (ToSignerDate (timezone cr) date) \<Longrightarrow> is_digit c"
proof -
  let ?t = "getBrokenDownTime (timezone cr) date"
  have ok: "tm_ok ?t" by (rule broken_down_ok [OF assms])
  show "ToSignerDate (timezone cr) date \<noteq> []" using ToSignerDate_length [OF assms] by auto
  have "is_digit c" if "c \<in> set (two (tm_mday ?t)) \<or> c \<in> set (two (tm_mon ?t + 1))
      \<or> c \<in> set (int_to_string (tm_year ?t + 1900))" for c
    using that ok two_digits [of "tm_mday ?t" c] two_digits [of "tm_mon ?t + 1" c]
    by (auto simp: tm_ok_def int_to_string_def dest: to_string_digits)
  then show "c \<in> set (ToSignerDate (timezone cr) date) \<Longrightarrow> is_digit c"
    by (auto simp: ToSignerDate_def ftime_def)
qed

subsection \<open>Signed headers verify\<close>

lemma Get_Add_other:
  assumes "mm_wf m" "ToLower n \<noteq> ToLower k"
  shows "Get n (Add k v m) = Get n m"
proof -
  have wf: "smap_wf (map_m m)" "smap_wf (keys_m m)" using assms(1) by (auto simp: mm_wf_def)
  have keys: "map_of (keys_m (Add k v m)) (ToLower n) = map_of (keys_m m) (ToLower n)"
    using wf assms(2) by (simp add: Add_def smap.lookup_upd)
  have vals: "map_of (map_m (Add k v m)) k' = map_of (map_m m) k'" if "k' \<noteq> k" for k'
    using wf that by (simp add: Add_def smap.lookup_upd)
  show ?thesis
  proof (cases "map_of (keys_m m) (ToLower n)")
    case (Some ks)
    with assms(1) have "set ks = {k'. ToLower k' = ToLower n \<and> k' \<in> dom (map_of (map_m m))}"
      by (auto simp: mm_wf_def)
    then have "\<forall>k' \<in> set ks. k' \<noteq> k" using assms(2) by auto
    then have "map (\<lambda>k'. old_vals (map_of (map_m (Add k v m)) k')) ks
        = map (\<lambda>k'. old_vals (map_of (map_m m) k')) ks" using vals by (intro map_cong) auto
    then show ?thesis unfolding Get_def keys Some option.case by (rule arg_cong)
  qed (use keys in \<open>simp add: Get_def\<close>)
qed

lemma Get_Add_new:
  assumes "mm_wf m" "mm_vals m k = {}"
  shows "Get k (Add k v m) = [v]"
proof -
  have wf: "smap_wf (map_m m)" "smap_wf (keys_m m)" using assms(1) by (auto simp: mm_wf_def)
  have "\<not> mm_Contains k m" using mm_Contains_iff [OF assms(1)] assms(2) by simp
  then have none: "map_of (keys_m m) (ToLower k) = None" by (simp add: mm_Contains_def)
  have "map_of (map_m m) k = None"
  proof (rule ccontr)
    assume "map_of (map_m m) k \<noteq> None"
    then have "ToLower k \<in> dom (map_of (keys_m m))" using assms(1) by (auto simp: mm_wf_def)
    then show False using none by auto
  qed
  then show ?thesis using none wf by (simp add: Get_def Add_def smap.lookup_upd ins_val_def
        insort_insert_key_def)
qed

text \<open>Every header is stored under one spelling.\<close>

definition one_spelling :: "multimap \<Rightarrow> bool" where
  "one_spelling m \<longleftrightarrow> distinct (map header_name (map_m m))"

lemma Get_entry:
  assumes "mm_wf m" "one_spelling m" "(k, vs) \<in> set (map_m m)"
  shows "Get (ToLower k) m = vs"
proof -
  have k: "map_of (map_m m) k = Some vs" by (rule mm_entries [OF assms(1,3)])
  then have "ToLower k \<in> dom (map_of (keys_m m))" using assms(1) by (auto simp: mm_wf_def)
  then obtain ks where ks: "map_of (keys_m m) (ToLower k) = Some ks" by auto
  then have set: "set ks = {k'. ToLower k' = ToLower k \<and> k' \<in> dom (map_of (map_m m))}" and sw: "sset_wf ks"
    using assms(1) by (auto simp: mm_wf_def)
  have "k' = k" if k': "ToLower k' = ToLower k" "k' \<in> dom (map_of (map_m m))" for k'
  proof -
    from k' obtain ws where "(k', ws) \<in> set (map_m m)" by (auto dest: map_of_SomeD)
    then show ?thesis using assms(2,3) k'(1)
      unfolding one_spelling_def by (metis eq_key_imp_eq_value fst_conv header_name_def inj_onD distinct_map)
  qed
  then have "set ks = {k}" using set k by auto
  then have "ks = [k]" using sw by (intro sset_eqI) (auto simp: sset_wf_def)
  then show ?thesis using ks k by (simp add: Get_def)
qed

text \<open>What a set of headers has to look like for the signature to be checked: names that
  survive the list of signed headers, one spelling each, none of them \<open>Authorization\<close>.\<close>

definition signable :: "multimap \<Rightarrow> bool" where
  "signable m \<longleftrightarrow> mm_wf m \<and> one_spelling m \<and> mm_vals m ''authorization'' = {}
     \<and> (\<forall>k \<in> fst ` set (map_m m). k \<noteq> [] \<and> CHR '';'' \<notin> set (ToLower k) \<and> CHR '','' \<notin> set (ToLower k))"

lemma Join_chars: "c \<in> set (Join ws d) \<Longrightarrow> c \<in> set d \<or> (\<exists>w \<in> set ws. c \<in> set w)"
proof -
  have "c \<in> set (Join_loop r ws d) \<Longrightarrow> c \<in> set r \<or> c \<in> set d \<or> (\<exists>w \<in> set ws. c \<in> set w)" for r
    by (induction ws arbitrary: r) (fastforce split: if_splits)+
  from this [of "[]"] show "c \<in> set (Join ws d) \<Longrightarrow> ?thesis" by (auto simp: Join_def)
qed

lemma tokens_Join:
  assumes "\<forall>w \<in> set ws. w \<noteq> [] \<and> c \<notin> set w"
  shows "tokens c (Join ws [c]) = ws"
proof (cases ws)
  case (Cons w ws')
  then have "tokens c (w @ concat (map (\<lambda>q. c # q) ws')) = w # ws'"
    by (intro tokens_joined) (use assms in auto)
  then show ?thesis using Cons assms by (simp add: Join_eq)
qed (simp add: tokens_def Join_def)

text \<open>The client signs the names in the order of the keys as they are spelled; a server sorts them.\<close>

definition names_in_order :: "multimap \<Rightarrow> bool" where
  "names_in_order m \<longleftrightarrow> sorted (map header_name (signed_entries m))"

lemma signed_tokens:
  assumes "signable m"
  shows "tokens (CHR '';'') (fst (GetCanonicalHeaders m)) = map header_name (signed_entries m)"
    and "fst (GetCanonicalHeaders m) = Join (map header_name (signed_entries m)) '';''"
    and "CHR '','' \<notin> set (fst (GetCanonicalHeaders m))"
    and "\<forall>w \<in> set (map header_name (signed_entries m)). w \<noteq> [] \<and> CHR '';'' \<notin> set w"
proof -
  have ne: "[] \<notin> fst ` set (map_m m)" using assms by (auto simp: signable_def)
  have names: "\<forall>w \<in> set (map header_name (signed_entries m)). w \<noteq> [] \<and> CHR '';'' \<notin> set w \<and> CHR '','' \<notin> set w"
    using assms by (force simp: signable_def signed_entries_def header_name_def ToLower_def)
  show list: "fst (GetCanonicalHeaders m) = Join (map header_name (signed_entries m)) '';''"
    by (simp add: GetCanonicalHeaders_eq [OF ne])
  show "tokens (CHR '';'') (fst (GetCanonicalHeaders m)) = map header_name (signed_entries m)"
    unfolding list using names by (simp add: tokens_Join)
  show "CHR '','' \<notin> set (fst (GetCanonicalHeaders m))"
    unfolding list using names Join_chars [of "CHR '',''" "map header_name (signed_entries m)" "'';''"] by fastforce
  show "\<forall>w \<in> set (map header_name (signed_entries m)). w \<noteq> [] \<and> CHR '';'' \<notin> set w" using names by blast
qed

lemma signed_lines:
  assumes "signable m"
  shows "Join (map (\<lambda>n. n @ '':'' @ canon_value (Get n (Add ''Authorization'' a m)))
      (map header_name (signed_entries m))) [CHR 0x0A] = snd (GetCanonicalHeaders m)"
proof -
  have ok: "mm_wf m" "one_spelling m" using assms by (auto simp: signable_def)
  have ne: "[] \<notin> fst ` set (map_m m)" using assms by (auto simp: signable_def)
  have "header_name e @ '':'' @ canon_value (Get (header_name e) (Add ''Authorization'' a m)) = header_line e"
    if "e \<in> set (signed_entries m)" for e
  proof -
    obtain k vs where e: "e = (k, vs)" by (cases e)
    have in_m: "(k, vs) \<in> set (map_m m)" "ToLower k \<noteq> ''authorization''"
      using that by (auto simp: signed_entries_def e)
    have "ToLower ''Authorization'' = ''authorization''" by code_simp
    then have "Get (ToLower k) (Add ''Authorization'' a m) = Get (ToLower k) m"
      using in_m(2) by (intro Get_Add_other [OF ok(1)]) simp
    then show ?thesis using Get_entry [OF ok in_m(1)] by (simp add: e header_name_def header_line_def)
  qed
  then show ?thesis by (simp add: GetCanonicalHeaders_eq [OF ne] comp_def cong: map_cong)
qed

definition credential_word :: "string \<Rightarrow> bool" where
  "credential_word w \<longleftrightarrow> w \<noteq> [] \<and> CHR ''/'' \<notin> set w \<and> CHR '','' \<notin> set w"

text \<open>What the server makes of a signed request: it compares the signature of the client with the one of
  its own canonical request.\<close>

definition server_request :: "string \<Rightarrow> string \<Rightarrow> string \<Rightarrow> multimap \<Rightarrow> string list \<Rightarrow> string \<Rightarrow> string" where
  "server_request http_method uri qs headers names sha =
     canonical_request http_method uri qs
       (Join (map (\<lambda>n. n @ '':'' @ canon_value (Get n headers)) (sort names)) [CHR 0x0A]) (Join (sort names) '';'') sha"

lemma SignV4_verified:
  assumes "signable headers" "Get ''x-amz-date'' headers = [ToAmzDate (timezone cr) date]"
    "year_ok (timezone cr) date" "credential_word access_key" "credential_word region"
    "credential_word service" "secret_of access_key = secret_key"
    "hs1 = SignV4 cr service m uri region headers query_params access_key secret_key sha date"
  shows "verify_headers cr secret_of (MethodToString m) uri (GetCanonicalQueryString query_params) hs1 sha
    \<longleftrightarrow> server_signature cr secret_key (ToSignerDate (timezone cr) date) region service (ToAmzDate (timezone cr) date)
        (canonical_request (MethodToString m) uri (GetCanonicalQueryString query_params)
          (snd (GetCanonicalHeaders headers)) (fst (GetCanonicalHeaders headers)) sha)
      = server_signature cr secret_key (ToSignerDate (timezone cr) date) region service (ToAmzDate (timezone cr) date)
        (server_request (MethodToString m) uri (GetCanonicalQueryString query_params) hs1
          (map header_name (signed_entries headers)) sha)"
proof -
  obtain sh ch where H: "GetCanonicalHeaders headers = (sh, ch)" by fastforce
  define d where "d = ToSignerDate (timezone cr) date"
  define sig where "sig = server_signature cr secret_key d region service (ToAmzDate (timezone cr) date)
    (canonical_request (MethodToString m) uri (GetCanonicalQueryString query_params) ch sh sha)"
  define cred where "cred = access_key @ ''/'' @ d @ ''/'' @ region @ ''/'' @ service @ ''/aws4_request''"
  define a where "a = ''AWS4-HMAC-SHA256 Credential='' @ cred @ '', '' @ ''SignedHeaders='' @ sh
    @ '', '' @ ''Signature='' @ sig"
  have S: "hs1 = Add ''Authorization'' a headers"
    unfolding assms(8) SignV4_def H Let_def prod.case signature_is_server_signature
    by (simp add: GetAuthorization_def GetScope_def a_def cred_def sig_def d_def)
  have wf: "mm_wf headers" "mm_vals headers ''authorization'' = {}"
    using assms(1) by (auto simp: signable_def)
  have low: "ToLower ''Authorization'' = ToLower ''authorization''"
    and date_key: "ToLower ''x-amz-date'' \<noteq> ToLower ''Authorization''" by code_simp+
  have "mm_vals headers ''Authorization'' = {}" using wf(2) mm_vals_lower [OF low, of headers] by simp
  then have A: "Get ''Authorization'' (Add ''Authorization'' a headers) = [a]" by (rule Get_Add_new [OF wf(1)])
  have D: "Get ''x-amz-date'' (Add ''Authorization'' a headers) = [ToAmzDate (timezone cr) date]"
    using assms(2) Get_Add_other [OF wf(1) date_key] by simp
  have d: "d \<noteq> []" "CHR ''/'' \<notin> set d" "CHR '','' \<notin> set d"
    using signer_date_chars(1) [OF assms(3)] signer_date_chars(2) [OF assms(3), of "CHR ''/''"]
      signer_date_chars(2) [OF assms(3), of "CHR '',''"] by (auto simp: d_def is_digit_def)
  have "parse_credential cred = Some (access_key, d, region, service)"
    unfolding cred_def by (rule parse_credential_print) (use assms d in \<open>auto simp: credential_word_def\<close>)
  moreover have "parse_authorization a = Some (cred, sh, sig)"
    unfolding a_def
  proof (rule parse_authorization_print)
    show "CHR '','' \<notin> set cred" using assms d by (auto simp: cred_def credential_word_def)
    show "CHR '','' \<notin> set sh" using signed_tokens(3) [OF assms(1)] by (simp add: H)
  qed
  moreover have "StartsWith (ToAmzDate (timezone cr) date) d"
    unfolding StartsWith_iff d_def by (auto simp: amz_signer_date)
  moreover have "tokens (CHR '';'') sh = map header_name (signed_entries headers)"
    using signed_tokens(1) [OF assms(1)] by (simp add: H)
  ultimately show ?thesis
    using assms(7) unfolding S verify_headers_def A server_request_def
    by (simp add: H GetFront_def D Let_def sig_def d_def)
qed

text \<open>Names in order: the server computes what the client did.\<close>

lemma SignV4_accepted:
  assumes "signable headers" "Get ''x-amz-date'' headers = [ToAmzDate (timezone cr) date]"
    "year_ok (timezone cr) date" "credential_word access_key" "credential_word region"
    "credential_word service" "secret_of access_key = secret_key" "names_in_order headers"
  shows "verify_headers cr secret_of (MethodToString m) uri (GetCanonicalQueryString query_params)
    (SignV4 cr service m uri region headers query_params access_key secret_key sha date) sha"
proof -
  obtain a where a: "SignV4 cr service m uri region headers query_params access_key secret_key sha date
      = Add ''Authorization'' a headers"
    by (cases "GetCanonicalHeaders headers") (simp add: SignV4_def Let_def)
  have "sort (map header_name (signed_entries headers)) = map header_name (signed_entries headers)"
    using assms(8) by (simp add: names_in_order_def sorted_sort_id)
  then show ?thesis
    unfolding SignV4_verified [where cr = cr and secret_of = secret_of, OF assms(1-7) refl]
    by (simp only: a server_request_def signed_lines [OF assms(1)] signed_tokens(2) [OF assms(1)])
qed

text \<open>Names out of order: the server signs another text. With hashes that tell texts apart, the signatures
  differ.\<close>

definition collision_free :: "crypto \<Rightarrow> bool" where
  "collision_free cr \<longleftrightarrow> inj (sha256 cr) \<and> (\<forall>k. inj (hmac cr k))"

lemma server_signature_inj:
  assumes "collision_free cr" "server_signature cr sk d region service amz_date x = server_signature cr sk d region service amz_date y"
  shows "x = y"
proof -
  have "inj (hmac cr k)" "inj (sha256 cr)" for k using assms(1) by (simp_all add: collision_free_def)
  with assms(2) show ?thesis
    by (auto simp: server_signature_def Let_def dest!: hex_encode_inj [THEN iffD1] injD [where f = "hmac cr _"] dest: injD [where f = "sha256 cr"])
qed

lemma sum_list_map_sort: "sum_list (map f (sort xs)) = (sum_list (map f xs) :: nat)"
proof (induction xs)
  case (Cons x xs)
  have "sum_list (map f (insort x ys)) = f x + sum_list (map f ys)" for ys by (induction ys) auto
  with Cons show ?case by simp
qed simp

lemma Join_length:
  "[] \<notin> set ws \<Longrightarrow> ws \<noteq> [] \<Longrightarrow> length (Join ws d) + length d = sum_list (map (\<lambda>w. length d + length w) ws)"
  by (cases ws) (auto simp: Join_eq length_concat comp_def)

lemma Join_sort_length:
  assumes "[] \<notin> set ws"
  shows "length (Join (sort ws) d) = length (Join ws d)"
proof (cases "ws = []")
  case False
  then have "sort ws \<noteq> []" by (metis length_0_conv length_sort)
  then have "length (Join (sort ws) d) + length d = length (Join ws d) + length d"
    using Join_length [of ws d] Join_length [of "sort ws" d] assms False sum_list_map_sort [of "\<lambda>w. length d + length w" ws]
    by simp
  then show ?thesis by simp
qed simp

lemma SignV4_refused:
  assumes "signable headers" "Get ''x-amz-date'' headers = [ToAmzDate (timezone cr) date]"
    "year_ok (timezone cr) date" "credential_word access_key" "credential_word region"
    "credential_word service" "secret_of access_key = secret_key" "\<not> names_in_order headers" "collision_free cr"
  shows "\<not> verify_headers cr secret_of (MethodToString m) uri (GetCanonicalQueryString query_params)
    (SignV4 cr service m uri region headers query_params access_key secret_key sha date) sha"
proof
  let ?names = "map header_name (signed_entries headers)"
  let ?signed = "SignV4 cr service m uri region headers query_params access_key secret_key sha date"
  assume "verify_headers cr secret_of (MethodToString m) uri (GetCanonicalQueryString query_params) ?signed sha"
  then have "canonical_request (MethodToString m) uri (GetCanonicalQueryString query_params)
      (snd (GetCanonicalHeaders headers)) (Join ?names '';'') sha
    = server_request (MethodToString m) uri (GetCanonicalQueryString query_params) ?signed ?names sha"
    unfolding SignV4_verified [where cr = cr and secret_of = secret_of, OF assms(1-7) refl] signed_tokens(2) [OF assms(1)]
    by (rule server_signature_inj [OF assms(9)])
  then have tail: "snd (GetCanonicalHeaders headers) @ [CHR 0x0A, CHR 0x0A] @ Join ?names '';''
    = Join (map (\<lambda>n. n @ '':'' @ canon_value (Get n ?signed)) (sort ?names)) [CHR 0x0A] @ [CHR 0x0A, CHR 0x0A] @ Join (sort ?names) '';''"
    by (simp add: server_request_def canonical_request_def)
  have "length (Join (sort ?names) '';'') = length (Join ?names '';'')"
    using signed_tokens(4) [OF assms(1)] by (intro Join_sort_length) auto
  with tail have "Join ?names '';'' = Join (sort ?names) '';''"
    by (simp flip: append_assoc)
  then have "tokens (CHR '';'') (Join ?names '';'') = tokens (CHR '';'') (Join (sort ?names) '';'')" by (rule arg_cong)
  then have "sort ?names = ?names"
    using signed_tokens(4) [OF assms(1)] by (simp add: tokens_Join)
  then show False using assms(8) sorted_sort [of ?names] by (simp add: names_in_order_def)
qed

text \<open>When the names are in order: the keys that are sorted as they are spelled, are sorted in lower case.\<close>

definition spelled_in_order :: "string set \<Rightarrow> bool" where
  "spelled_in_order K \<longleftrightarrow> (\<forall>k \<in> K. \<forall>k' \<in> K. k < k' \<longrightarrow> ToLower k \<le> ToLower k')"

lemma names_in_order_keys:
  assumes "mm_wf m" "fst ` set (signed_entries m) \<subseteq> K" "spelled_in_order K"
  shows "names_in_order m"
proof -
  have "sorted_wrt (\<lambda>e e'. fst e < fst e') (signed_entries m)"
    using assms(1) by (auto simp: mm_wf_def smap_wf_def signed_entries_def sorted_wrt_map intro: sorted_wrt_filter)
  then have "sorted_wrt (\<lambda>e e'. ToLower (fst e) \<le> ToLower (fst e')) (signed_entries m)"
  proof (rule sorted_wrt_mono_rel [rotated])
    fix e e' assume "e \<in> set (signed_entries m)" "e' \<in> set (signed_entries m)" "fst e < fst e'"
    then show "ToLower (fst e) \<le> ToLower (fst e')"
      using assms(2,3) unfolding spelled_in_order_def by blast
  qed
  then show ?thesis by (simp add: names_in_order_def sorted_map header_name_def sorted_wrt_map)
qed

lemma names_out_of_order:
  assumes "mm_wf m" "e \<in> set (signed_entries m)" "e' \<in> set (signed_entries m)" "fst e < fst e'"
    "ToLower (fst e') < ToLower (fst e)"
  shows "\<not> names_in_order m"
proof
  assume "names_in_order m"
  then have low: "sorted_wrt (\<lambda>e e'. ToLower (fst e) \<le> ToLower (fst e')) (signed_entries m)"
    by (simp add: names_in_order_def sorted_map header_name_def)
  have keys: "sorted_wrt (\<lambda>e e'. fst e < fst e') (signed_entries m)"
    using assms(1) by (auto simp: mm_wf_def smap_wf_def signed_entries_def sorted_wrt_map intro: sorted_wrt_filter)
  obtain i i' where i: "i < length (signed_entries m)" "signed_entries m ! i = e"
    "i' < length (signed_entries m)" "signed_entries m ! i' = e'" using assms(2,3) by (auto simp: in_set_conv_nth)
  consider "i < i'" | "i = i'" | "i' < i" by linarith
  then show False
  proof cases
    case 1
    then show ?thesis using sorted_wrt_nth_less [OF low 1 i(3)] i assms(5) by simp
  next
    case 3
    then show ?thesis using sorted_wrt_nth_less [OF keys 3 i(1)] i assms(4) by simp
  qed (use i assms(4) in simp)
qed

lemma SignV4_adds: "\<exists>a. SignV4 cr service m uri region headers qp ak sk sha date = Add ''Authorization'' a headers"
  by (cases "GetCanonicalHeaders headers") (simp add: SignV4_def Let_def, blast)

text \<open>Signing a second time leaves two \<open>Authorization\<close> values when the date differs.\<close>

lemma SignV4_keeps_old_authorization:
  assumes "mm_wf headers" "old \<in> mm_vals headers ''Authorization''"
  shows "old \<in> mm_vals (SignV4 cr service m uri region headers qp ak sk sha date) ''Authorization''"
  using assms by (simp add: SignV4_def Let_def mm_vals_Add split: prod.split)

subsection \<open>Presigned queries verify\<close>

lemma smap_upd_new:
  "smap_wf m \<Longrightarrow> k \<notin> fst ` set m \<Longrightarrow> filter (\<lambda>(k', v). k' \<noteq> k) (smap_upd k f m) = m"
proof (induction k f m rule: smap_upd.induct)
  case (2 k f k' v m)
  then have "filter (\<lambda>(k', v). k' \<noteq> k) m = m" by (force simp: filter_id_conv)
  with 2 show ?case by (auto simp: smap_wf_Cons)
qed simp

lemma mm_pairs_filter:
  "filter (\<lambda>(k', v). k' \<noteq> k) (mm_pairs m)
     = concat (map (\<lambda>(key, vals). map (\<lambda>v. (key, v)) vals) (filter (\<lambda>(k', v). k' \<noteq> k) (map_m m)))"
  unfolding mm_pairs_def
proof (induction "map_m m" arbitrary: m)
  case Nil
  then show ?case by simp
next
  case (Cons e es)
  obtain key vals where e: "e = (key, vals)" by (cases e)
  have "filter (\<lambda>(k', v). k' \<noteq> k) (map (\<lambda>v. (key, v)) vals) = (if key = k then [] else map (\<lambda>v. (key, v)) vals)"
    by (induction vals) auto
  moreover have "es = map_m (m\<lparr>map_m := es\<rparr>)" by simp
  ultimately show ?case
    using Cons.hyps(1) [of "m\<lparr>map_m := es\<rparr>"] Cons.hyps(2) [symmetric] by (simp add: e)
qed

lemma mm_lookup_none: "mm_wf m \<Longrightarrow> mm_vals m k = {} \<Longrightarrow> map_of (map_m m) k = None"
proof (rule ccontr)
  assume m: "mm_wf m" "mm_vals m k = {}" "map_of (map_m m) k \<noteq> None"
  then obtain vs where "map_of (map_m m) k = Some vs" "vs \<noteq> []" by (auto simp: mm_wf_def)
  with m(2) show False unfolding mm_vals_def
    by (metis (mono_tags, lifting) UN_I empty_iff last_in_set mem_Collect_eq old_vals_simps(2))
qed

lemma map_m_Add:
  "mm_wf m \<Longrightarrow> map_of (map_m (Add k v m)) = (map_of (map_m m))(k \<mapsto> ins_val v (map_of (map_m m) k))"
  by (simp add: Add_def mm_wf_def smap.lookup_upd)

lemma mm_pairs_Add_new:
  assumes "mm_wf m" "mm_vals m k = {}"
  shows "filter (\<lambda>(k', v). k' \<noteq> k) (mm_pairs (Add k v m)) = mm_pairs m"
proof -
  have "smap_wf (map_m m)" "k \<notin> fst ` set (map_m m)"
    using mm_lookup_none [OF assms] assms(1) by (simp_all add: map_of_eq_None_iff mm_wf_def)
  then show ?thesis unfolding mm_pairs_filter by (simp add: Add_def smap_upd_new mm_pairs_def)
qed

lemma query_value_only:
  assumes "mm_wf m" "map_of (map_m m) k = Some [v]"
  shows "query_value k (mm_pairs m) = v"
proof -
  have "(k, v') \<in> set (mm_pairs m) \<longleftrightarrow> v' = v" for v'
    unfolding mm_pairs_iff [OF assms(1)] assms(2) by simp
  moreover from this have "map_of (mm_pairs m) k \<noteq> None" by (metis weak_map_of_SomeI option.simps(3))
  ultimately show ?thesis unfolding query_value_def by (metis map_of_SomeD not_None_eq option.simps(5))
qed

text \<open>The parameters of a request to be presigned do not name the signer's own.\<close>

definition presignable :: "multimap \<Rightarrow> bool" where
  "presignable m \<longleftrightarrow> mm_wf m \<and> (\<forall>k \<in> set [''X-Amz-Algorithm'', ''X-Amz-Credential'', ''X-Amz-Date'',
     ''X-Amz-Expires'', ''X-Amz-SignedHeaders'', ''X-Amz-Signature'']. mm_vals m k = {})"

lemma presign_params_props:
  fixes cr :: crypto and region ak :: string and date :: utc_time and e :: u32
  assumes "presignable m"
  defines "P \<equiv> presign_params cr region m ak date e"
  shows "mm_wf P" "map_of (map_m P) ''X-Amz-Date'' = Some [ToAmzDate (timezone cr) date]"
    "map_of (map_m P) ''X-Amz-Credential'' = Some [ak @ ''/'' @ GetScope cr date region ''s3'']"
    "map_of (map_m P) ''X-Amz-SignedHeaders'' = Some [''host'']"
    "mm_vals P ''X-Amz-Signature'' = {}"
proof -
  have wf: "mm_wf m" using assms by (simp add: presignable_def)
  have none: "map_of (map_m m) ''X-Amz-Date'' = None" "map_of (map_m m) ''X-Amz-Credential'' = None"
    "map_of (map_m m) ''X-Amz-SignedHeaders'' = None"
    using assms mm_lookup_none [OF wf] by (simp_all add: presignable_def)
  have keys: "ToLower ''X-Amz-Algorithm'' \<noteq> ToLower ''X-Amz-Signature''"
    "ToLower ''X-Amz-Credential'' \<noteq> ToLower ''X-Amz-Signature''"
    "ToLower ''X-Amz-Date'' \<noteq> ToLower ''X-Amz-Signature''"
    "ToLower ''X-Amz-Expires'' \<noteq> ToLower ''X-Amz-Signature''"
    "ToLower ''X-Amz-SignedHeaders'' \<noteq> ToLower ''X-Amz-Signature''" by code_simp+
  show "mm_wf P" using wf by (simp add: P_def presign_params_def mm_wf_Add)
  show "map_of (map_m P) ''X-Amz-Date'' = Some [ToAmzDate (timezone cr) date]"
    "map_of (map_m P) ''X-Amz-Credential'' = Some [ak @ ''/'' @ GetScope cr date region ''s3'']"
    "map_of (map_m P) ''X-Amz-SignedHeaders'' = Some [''host'']"
    using wf none by (simp_all add: P_def presign_params_def mm_wf_Add map_m_Add ins_val_def
        insort_insert_key_def)
  show "mm_vals P ''X-Amz-Signature'' = {}"
    using wf keys [symmetric] assms by (simp add: P_def presign_params_def mm_wf_Add mm_vals_Add presignable_def)
qed

lemma PresignV4_accepted:
  assumes "presignable query_params" "year_ok (timezone cr) date" "credential_word access_key"
    "credential_word region" "secret_of access_key = secret_key"
  shows "verify_query cr secret_of (MethodToString m) uri h (GetCanonicalQueryString
    (PresignV4 cr m h uri region query_params access_key secret_key date expires))"
proof -
  define P where "P = presign_params cr region query_params access_key date expires"
  define d where "d = ToSignerDate (timezone cr) date"
  note props = presign_params_props [OF assms(1), of cr region access_key date expires, folded P_def]
  define sig where "sig = server_signature cr secret_key d region ''s3'' (ToAmzDate (timezone cr) date)
    (canonical_request (MethodToString m) uri (GetCanonicalQueryString P) (''host:'' @ h) ''host'' ''UNSIGNED-PAYLOAD'')"
  define Q where "Q = Add ''X-Amz-Signature'' sig P"
  have Q: "PresignV4 cr m h uri region query_params access_key secret_key date expires = Q"
    unfolding PresignV4_def Let_def signature_is_server_signature P_def [symmetric]
    by (simp add: Q_def sig_def d_def)
  have wf: "mm_wf Q" unfolding Q_def by (rule mm_wf_Add [OF props(1)])
  have lookup: "map_of (map_m Q) ''X-Amz-Date'' = Some [ToAmzDate (timezone cr) date]"
    "map_of (map_m Q) ''X-Amz-Credential'' = Some [access_key @ ''/'' @ GetScope cr date region ''s3'']"
    "map_of (map_m Q) ''X-Amz-SignedHeaders'' = Some [''host'']"
    "map_of (map_m Q) ''X-Amz-Signature'' = Some [sig]"
    using props mm_lookup_none [OF props(1,5)]
    by (simp_all add: Q_def map_m_Add ins_val_def insort_insert_key_def)
  have rest: "filter (\<lambda>(k, v). k \<noteq> ''X-Amz-Signature'') (mm_pairs Q) = mm_pairs P"
    unfolding Q_def by (rule mm_pairs_Add_new [OF props(1,5)])
  have d: "d \<noteq> []" "CHR ''/'' \<notin> set d"
    using signer_date_chars(1) [OF assms(2)] signer_date_chars(2) [OF assms(2), of "CHR ''/''"]
    by (auto simp: d_def is_digit_def)
  have cred: "parse_credential (access_key @ ''/'' @ GetScope cr date region ''s3'')
      = Some (access_key, d, region, ''s3'')"
    unfolding GetScope_def d_def [symmetric]
    by (rule parse_credential_print) (use assms d in \<open>auto simp: credential_word_def\<close>)
  have "StartsWith (ToAmzDate (timezone cr) date) d"
    unfolding StartsWith_iff d_def by (auto simp: amz_signer_date)
  then show ?thesis
    unfolding Q verify_query_def Let_def parse_query_canonical rest
    using assms(5) by (simp add: cred [unfolded append.simps] query_value_only [OF wf]
        lookup [unfolded append.simps] sig_def GetCanonicalQueryString_def)
qed

end
