(* ===== verification/Credentials.thy ===== *)
theory Credentials
  imports UtcTime
begin

section \<open>Credentials (src/credentials.cc, include/miniocpp/credentials.h)\<close>

text \<open>
  A set of credentials with its error and expiration time. \<open>now\<close> is the value of
  \<open>UtcTime::Now()\<close>. XML is parsed by pugixml: the argument \<open>xml\<close> gives, for a document
  that parses, the text at a path.
\<close>

record credentials =
  cr_err :: error
  access_key :: string
  secret_key :: string
  session_token :: string
  expiration :: utc_time

definition creds_empty :: credentials where
  "creds_empty = \<lparr>cr_err = SUCCESS, access_key = [], secret_key = [], session_token = [],
     expiration = utc_default\<rparr>"

definition creds_error :: "error \<Rightarrow> credentials" where
  "creds_error e = creds_empty\<lparr>cr_err := e\<rparr>"

definition expired :: "utc_time \<Rightarrow> utc_time \<Rightarrow> bool" where
  "expired now expi = (if \<not> utc_bool expi then False else utc_less expi (utc_add 10 now))"

definition IsExpired :: "utc_time \<Rightarrow> credentials \<Rightarrow> bool" where
  "IsExpired now c = expired now (expiration c)"

definition creds_bool :: "utc_time \<Rightarrow> credentials \<Rightarrow> bool" where
  "creds_bool now c \<longleftrightarrow> \<not> is_err (cr_err c) \<and> access_key c \<noteq> [] \<and> \<not> expired now (expiration c)"

text \<open>\<open>None\<close> for the outcome stands for the undefined behaviour of \<open>FromISO8601UTC\<close> on a
  text that is not a date.\<close>

definition ParseXML :: "int \<Rightarrow> (string \<Rightarrow> (string \<Rightarrow> string) option) \<Rightarrow> string \<Rightarrow> string
    \<Rightarrow> credentials result option" where
  "ParseXML tz xml body root =
     (case xml body of
        None \<Rightarrow> Some (Inl ''unable to parse XML'')
      | Some doc \<Rightarrow>
          (let at = (\<lambda>n. doc (root @ ''/Credentials/'' @ n @ ''/text()'')) in
           case FromISO8601UTC tz (at ''Expiration'') of
             None \<Rightarrow> None
           | Some e \<Rightarrow> Some (Inr \<lparr>cr_err = SUCCESS, access_key = at ''AccessKeyId'',
               secret_key = at ''SecretAccessKey'', session_token = at ''SessionToken'', expiration = e\<rparr>)))"

lemma creds_error_invalid [simp]: "is_err e \<Longrightarrow> \<not> creds_bool now (creds_error e)"
  by (simp add: creds_bool_def creds_error_def)

text \<open>Credentials expire ten seconds before their time, but never when the time has no
  microseconds.\<close>

lemma expired_iff:
  "expired now e \<longleftrightarrow> secs e \<noteq> 0 \<and> usecs e \<noteq> 0
     \<and> (secs e < secs now + 10 \<or> secs e = secs now + 10 \<and> usecs e < usecs now)"
  by (auto simp: expired_def utc_bool_def utc_less_iff utc_add_def)

lemma expired_mono: "expired now e \<Longrightarrow> utc_less now later \<Longrightarrow> expired later e"
  by (auto simp: expired_iff utc_less_iff)

end
