(* ===== verification/BaseUrl.thy ===== *)
theory BaseUrl
  imports Signer Credentials
begin

section \<open>Endpoints and S3 requests (src/request.cc, include/miniocpp/request.h)\<close>

text \<open>
  How the endpoint of a client is recognised (\<open>getAwsInfo\<close>, the \<open>BaseUrl\<close> constructor),
  how the URL of a request is built from it (\<open>BuildUrl\<close> and its helpers) and how a
  request gets its headers and signature (\<open>BuildHeaders\<close>, \<open>ToHttpRequest\<close>).

  The patterns are those of the source, matched without regard to case. Host strings are
  handed to the matcher as C strings.
\<close>

subsection \<open>The patterns\<close>

definition CLS_LABEL :: rx where
  "CLS_LABEL = Cls [rng_az, (CHR ''_'', CHR ''_''), rng_09, (CHR ''-'', CHR ''-'')]"

definition CLS_WORD :: rx where
  "CLS_WORD = Cls [rng_az, (CHR ''_'', CHR ''_''), rng_09]"

definition LABEL :: rx where
  "LABEL = Between 1 63 CLS_LABEL"

definition DASH_WORD :: rx where
  "DASH_WORD = Seq (lit ''-'') (Seq (NotAhead (lit ''_'')) (Plus CLS_WORD))"

definition HOSTNAME_REGEX :: rx where
  "HOSTNAME_REGEX =
     Seq (Star (Seq (NotAhead (lit ''-'')) (Seq (NotAhead (lit ''_'')) (Seq LABEL (lit ''.'')))))
       (Seq (NotAhead (lit ''_'')) (Seq (NotAhead (lit ''-'')) (Seq LABEL AtEnd)))"

definition AWS_TAIL :: rx where
  "AWS_TAIL = Seq (lit ''amazonaws.com'') (Seq (Alt Eps (lit ''.cn'')) AtEnd)"

definition AWS_ENDPOINT_REGEX :: rx where
  "AWS_ENDPOINT_REGEX = Seq (Star AnyCh) (Seq (lit ''.'') AWS_TAIL)"

definition AWS_S3_PREFIX_REGEX :: rx where
  "AWS_S3_PREFIX_REGEX =
     Alt (Seq (Alt (lit ''bucket.'') (lit ''accesspoint.''))
           (Seq (lit ''vpce'') (Seq (Plus DASH_WORD) (lit ''.s3.''))))
    (Alt (Seq (NotAhead (lit ''s3'')) (Seq (NotAhead (lit ''-'')) (Seq (NotAhead (lit ''_'')) (Seq LABEL
           (Seq (lit ''.'') (Seq (lit ''s3-control'') (Seq (Star DASH_WORD) (lit ''.''))))))))
         (Seq (lit ''s3'') (Seq (Star DASH_WORD) (lit ''.''))))"

definition AWS_S3_ENDPOINT_REGEX :: rx where
  "AWS_S3_ENDPOINT_REGEX =
     Seq AWS_S3_PREFIX_REGEX
       (Seq (Star (Seq (NotAhead (lit ''s3'')) (Seq (NotAhead (lit ''-'')) (Seq (NotAhead (lit ''_''))
               (Seq LABEL (lit ''.''))))))
         AWS_TAIL)"

definition AWS_ELB_ENDPOINT_REGEX :: rx where
  "AWS_ELB_ENDPOINT_REGEX =
     Seq (NotAhead (lit ''-'')) (Seq (NotAhead (lit ''_'')) (Seq LABEL (Seq (lit ''.'')
       (Seq (NotAhead (lit ''-'')) (Seq (NotAhead (lit ''_'')) (Seq LABEL (Seq (lit ''.'')
         (Seq (lit ''elb.amazonaws.com'') AtEnd))))))))"

definition REGION_REGEX :: rx where
  "REGION_REGEX = Seq (NotAhead (lit ''_'')) (Seq (NotAhead (lit ''-'')) (Seq LABEL AtEnd))"

text \<open>\<open>token.back()\<close> is read of every piece; \<open>HOSTNAME_REGEX\<close> and \<open>REGION_REGEX\<close> leave no
  empty piece, see \<open>hostname_labels\<close> below.\<close>

definition bad_end :: "string \<Rightarrow> bool" where
  "bad_end t \<longleftrightarrow> t \<noteq> [] \<and> (last t = CHR ''-'' \<or> last t = CHR ''_'')"

definition awsRegexMatch :: "(string \<Rightarrow> bool) \<Rightarrow> string \<Rightarrow> bool" where
  "awsRegexMatch search v =
     (if \<not> search (c_str v) then False else \<not> list_ex bad_end (tokens (CHR ''.'') (c_str v)))"

subsection \<open>Recognising Amazon hosts\<close>

record aws_info =
  ai_region :: string
  ai_prefix :: string
  ai_suffix :: string
  ai_dualstack :: bool

text \<open>The outputs are reference parameters: they keep what the caller passed where the code
  does not assign. \<open>None\<close> is an access to \<open>tokens[0]\<close> of an empty vector.\<close>

definition elb_region :: "string \<Rightarrow> string" where
  "elb_region h =
     (let token = (case str_rfind h ''.elb.amazonaws.com'' of None \<Rightarrow> h | Some i \<Rightarrow> take (i - 1) h)
      in case str_rfind token ''.'' of None \<Rightarrow> token | Some i \<Rightarrow> drop (i + 1) token)"

definition getAwsInfo :: "string \<Rightarrow> bool \<Rightarrow> aws_info \<Rightarrow> (error \<times> aws_info) option" where
  "getAwsInfo h tls info =
     (if \<not> awsRegexMatch (rx_prefix True HOSTNAME_REGEX) h then Some (SUCCESS, info)
      else if awsRegexMatch (rx_prefix True AWS_ELB_ENDPOINT_REGEX) h then
        Some (SUCCESS, if ai_region info = [] then info\<lparr>ai_region := elb_region h\<rparr> else info)
      else if \<not> awsRegexMatch (rx_search True AWS_ENDPOINT_REGEX) h then Some (SUCCESS, info)
      else if \<not> awsRegexMatch (rx_prefix True AWS_S3_ENDPOINT_REGEX) h then
        Some (''invalid Amazon AWS host '' @ h, info)
      else
        let n = rx_match_len True AWS_S3_PREFIX_REGEX h;
            info = info\<lparr>ai_prefix := take n h\<rparr>
        in if Contains (take n h) ''s3-accesspoint'' \<and> \<not> tls then
             Some (''use HTTPS scheme for host '' @ h, info)
           else case tokens (CHR ''.'') (drop n h) of
             [] \<Rightarrow> None
           | t # ts \<Rightarrow>
               let dual = (t = ''dualstack'');
                   info = info\<lparr>ai_dualstack := dual\<rparr>
               in case (if dual then ts else t # ts) of
                    [] \<Rightarrow> None
                  | t # ts \<Rightarrow>
                      let (region_in_host, toks) =
                            (if t \<noteq> ''vpce'' \<and> t \<noteq> ''amazonaws'' then (t, ts) else ([], t # ts));
                          suffix = Join toks ''.'';
                          info = info\<lparr>ai_suffix := suffix\<rparr>;
                          region_in_host = (if h = ''s3-external-1.amazonaws.com'' then ''us-east-1''
                            else region_in_host);
                          region_in_host = (if h = ''s3-us-gov-west-1.amazonaws.com''
                              \<or> h = ''s3-fips-us-gov-west-1.amazonaws.com'' then ''us-gov-west-1''
                            else region_in_host)
                      in if EndsWith suffix ''.cn'' \<and> \<not> EndsWith (take n h) ''s3-accelerate.''
                            \<and> ai_region info = [] then
                           Some (''region missing in Amazon S3 China endpoint '' @ h, info)
                         else Some (SUCCESS, if ai_region info = [] then info\<lparr>ai_region := region_in_host\<rparr>
                                             else info))"

text \<open>\<open>None\<close> is an access behind the end of \<open>tokens\<close>.\<close>

definition extractRegion :: "string \<Rightarrow> string option" where
  "extractRegion h =
     (let ts = tokens (CHR ''.'') h in
      if length ts < 2 then None
      else if ts ! 1 = ''dualstack'' \<and> length ts < 3 then None
      else let token = (if ts ! 1 = ''dualstack'' then ts ! 2 else ts ! 1)
           in if token = ''amazonaws'' then Some [] else Some token)"

subsection \<open>BaseUrl\<close>

record base_url =
  b_https :: bool
  b_host :: string
  b_port :: u32
  b_region :: string
  b_prefix :: string
  b_suffix :: string
  b_dualstack :: bool
  b_virtual_style :: bool
  b_err :: error

definition base_url_empty :: base_url where
  "base_url_empty = \<lparr>b_https = True, b_host = [], b_port = 0, b_region = [], b_prefix = [], b_suffix = [],
     b_dualstack = False, b_virtual_style = False, b_err = SUCCESS\<rparr>"

text \<open>The constructor; \<open>None\<close> when \<open>Url::Parse\<close> throws, or where \<open>getAwsInfo\<close> has no value.\<close>

definition BaseUrl_new :: "(string \<Rightarrow> bool) \<Rightarrow> string \<Rightarrow> bool \<Rightarrow> string \<Rightarrow> base_url option" where
  "BaseUrl_new inet6 h tls region =
     (let b = base_url_empty\<lparr>b_https := tls, b_region := region\<rparr> in
      case Url_Parse inet6 h of
        None \<Rightarrow> None
      | Some u \<Rightarrow>
          if path u \<noteq> [] \<or> query_string u \<noteq> [] then
            Some (b\<lparr>b_err := ''host value must contain only hostname and optional port number''\<rparr>)
          else
            let b = b\<lparr>b_host := host u, b_port := port u\<rparr>;
                b = (if Contains h ''://'' then b\<lparr>b_https := https u\<rparr> else b)
            in if region \<noteq> [] \<and> \<not> awsRegexMatch (rx_prefix True REGION_REGEX) region then
                 Some (b\<lparr>b_err := ''invalid region '' @ region\<rparr>)
               else case getAwsInfo (b_host b) (b_https b)
                   \<lparr>ai_region = b_region b, ai_prefix = [], ai_suffix = [], ai_dualstack = False\<rparr> of
                 None \<Rightarrow> None
               | Some (err, i) \<Rightarrow>
                   let b = b\<lparr>b_region := ai_region i, b_prefix := ai_prefix i, b_suffix := ai_suffix i,
                             b_dualstack := ai_dualstack i\<rparr>
                   in if is_err err then Some (b\<lparr>b_err := err\<rparr>)
                      else Some (b\<lparr>b_virtual_style := (b_suffix b \<noteq> [] \<or> EndsWith (b_host b) ''aliyuncs.com'')\<rparr>))"

definition base_url_bool :: "base_url \<Rightarrow> bool" where
  "base_url_bool b \<longleftrightarrow> \<not> is_err (b_err b) \<and> b_host b \<noteq> []"

definition base_url_Error :: "base_url \<Rightarrow> error" where
  "base_url_Error b = (if b_host b = [] \<and> \<not> is_err (b_err b) then ''empty host'' else b_err b)"

definition special_host :: "string \<Rightarrow> bool" where
  "special_host h \<longleftrightarrow> h = ''s3-external-1.amazonaws.com'' \<or> h = ''s3-us-gov-west-1.amazonaws.com''
     \<or> h = ''s3-fips-us-gov-west-1.amazonaws.com''"

definition BuildAwsUrl :: "base_url \<Rightarrow> url \<Rightarrow> string \<Rightarrow> bool \<Rightarrow> string \<Rightarrow> error \<times> url" where
  "BuildAwsUrl b u bucket_name enforce_path_style region =
     (let h = b_prefix b @ b_suffix b in
      if special_host h then (SUCCESS, u\<lparr>host := h\<rparr>)
      else
        let h = b_prefix b;
            accelerate = Contains (b_prefix b) ''s3-accelerate''
        in if accelerate \<and> ContainsChar bucket_name (CHR ''.'') then
             (''bucket name '' @ [CHR 0x27] @ bucket_name @ [CHR 0x27] @ '' with '' @ [CHR 0x27] @ ''.''
                @ [CHR 0x27] @ '' is not allowed for accelerate endpoint'', u)
           else
             let h = (if accelerate \<and> enforce_path_style then
                        (case str_find h ''-accelerate'' of None \<Rightarrow> h | Some i \<Rightarrow> take i h @ drop (i + 11) h)
                      else h);
                 h = (if b_dualstack b then h @ ''dualstack.'' else h);
                 h = (if \<not> accelerate then h @ region @ ''.'' else h)
             in (SUCCESS, u\<lparr>host := h @ b_suffix b\<rparr>))"

definition BuildListBucketsUrl :: "base_url \<Rightarrow> url \<Rightarrow> string \<Rightarrow> url" where
  "BuildListBucketsUrl b u region =
     (if b_suffix b = [] then u
      else
        let h = b_prefix b @ b_suffix b in
        if special_host h then u\<lparr>host := h\<rparr>
        else
          let (s3_prefix, domain_suffix) =
                (if StartsWith (b_prefix b) ''s3.'' \<or> StartsWith (b_prefix b) ''s3-'' then
                   (''s3.'', ''amazonaws.com'' @ (if EndsWith (b_suffix b) ''.cn'' then ''.cn'' else []))
                 else (b_prefix b, b_suffix b))
          in u\<lparr>host := s3_prefix @ region @ ''.'' @ domain_suffix\<rparr>)"

text \<open>\<open>BuildUrl\<close> fills \<open>url\<close>; \<open>EncodePath\<close> is called on a non-empty name.\<close>

definition encoded_path :: "string \<Rightarrow> string" where
  "encoded_path name = (case EncodePath name of None \<Rightarrow> [] | Some p \<Rightarrow> p)"

definition enforce_path :: "base_url \<Rightarrow> http_method \<Rightarrow> multimap \<Rightarrow> string \<Rightarrow> string \<Rightarrow> bool" where
  "enforce_path b m query_params bucket_name object_name \<longleftrightarrow>
     (m = kPut \<and> object_name = [] \<and> \<not> mm_bool query_params)
     \<or> mm_Contains ''location'' query_params
     \<or> (ContainsChar bucket_name (CHR ''.'') \<and> b_https b)"

definition BuildUrl :: "base_url \<Rightarrow> url \<Rightarrow> http_method \<Rightarrow> string \<Rightarrow> multimap \<Rightarrow> string \<Rightarrow> string
    \<Rightarrow> error \<times> url" where
  "BuildUrl b u m region query_params bucket_name object_name =
     (if is_err (b_err b) then (b_err b, u)
      else if bucket_name = [] \<and> object_name \<noteq> [] then
        (''empty bucket name for object name '' @ object_name, u)
      else
        let u = \<lparr>https = b_https b, host = b_host b, port = b_port b, path = ''/'',
                 query_string = ToQueryString query_params\<rparr>
        in if bucket_name = [] then (SUCCESS, BuildListBucketsUrl b u region)
           else
             let enforce = enforce_path b m query_params bucket_name object_name;
                 (err, u) = (if b_suffix b \<noteq> [] then BuildAwsUrl b u bucket_name enforce region
                             else (SUCCESS, u))
             in if is_err err then (err, u)
                else
                  let (h, p) = (if enforce \<or> \<not> b_virtual_style b then (host u, ''/'' @ bucket_name)
                                else (bucket_name @ ''.'' @ host u, ''/''));
                      p = (if object_name \<noteq> [] then
                             (if EndsWith p ''/'' then p else p @ ''/'') @ encoded_path object_name
                           else p)
                  in (SUCCESS, u\<lparr>host := h, path := p\<rparr>))"

subsection \<open>Requests\<close>

record 's s3_request =
  q_method :: http_method
  q_region :: string
  q_user_agent :: string
  q_headers :: multimap
  q_query_params :: multimap
  q_bucket_name :: string
  q_object_name :: string
  q_body :: string
  q_datafunc :: "'s data_function option"
  q_sha256 :: string
  q_date :: utc_time

definition EMPTY_SHA256 :: string where
  "EMPTY_SHA256 = ''e3b0c44298fc1c149afbf4c8996fb92427ae41e4649b934ca495991b7852b855''"

text \<open>\<open>creds\<close> is what the provider's \<open>Fetch\<close> returns, absent for a null provider; \<open>now\<close> is
  \<open>UtcTime::Now()\<close>. The request is a member object: its headers, hash and date are
  updated.\<close>

definition body_hash :: "crypto \<Rightarrow> 's s3_request \<Rightarrow> multimap \<Rightarrow> bool \<Rightarrow> string" where
  "body_hash cr q headers has_creds =
     (if \<not> has_creds then q_sha256 q
      else if mm_Contains ''x-amz-content-sha256'' headers then GetFront ''x-amz-content-sha256'' headers
      else if q_method q = kPut \<or> q_method q = kPost then Sha256Hash (sha256 cr) (q_body q)
      else EMPTY_SHA256)"

text \<open>The headers and the payload hash before the date is added.\<close>

definition base_headers :: "crypto \<Rightarrow> bool \<Rightarrow> url \<Rightarrow> 's s3_request \<Rightarrow> multimap \<times> string" where
  "base_headers cr has_creds u q =
     (let hs = Add ''User-Agent'' (q_user_agent q) (Add ''Host'' (HostHeaderValue u) (q_headers q));
          md5sum_added = mm_Contains ''Content-MD5'' hs;
          caller_set_sha256 = mm_Contains ''x-amz-content-sha256'' hs;
          upload = (q_method q = kPut \<or> q_method q = kPost);
          hs = (if upload then Add ''Content-Length'' (to_string (length (q_body q))) hs else hs);
          hs = (if upload \<and> \<not> mm_Contains ''Content-Type'' hs
                then Add ''Content-Type'' ''application/octet-stream'' hs else hs);
          sha = body_hash cr q hs has_creds;
          md5sum = (if upload \<and> \<not> has_creds \<and> \<not> md5sum_added then md5_base64 cr (q_body q) else []);
          hs = (if md5sum \<noteq> [] then Add ''Content-MD5'' md5sum hs else hs);
          hs = (if sha \<noteq> [] \<and> \<not> caller_set_sha256 then Add ''x-amz-content-sha256'' sha hs else hs)
      in (hs, sha))"

definition BuildHeaders :: "crypto \<Rightarrow> utc_time \<Rightarrow> credentials option \<Rightarrow> url \<Rightarrow> 's s3_request
    \<Rightarrow> 's s3_request" where
  "BuildHeaders cr now creds u q =
     (let (hs, sha) = base_headers cr (creds \<noteq> None) u q;
          hs = Add ''x-amz-date'' (ToAmzDate (timezone cr) now) hs;
          hs = (case creds of
              None \<Rightarrow> hs
            | Some c \<Rightarrow>
                let hs = (if session_token c \<noteq> [] then Add ''X-Amz-Security-Token'' (session_token c) hs else hs)
                in SignV4S3 cr (q_method q) (path u) (q_region q) hs (q_query_params q)
                     (access_key c) (secret_key c) sha now)
      in q\<lparr>q_headers := hs, q_sha256 := sha, q_date := now\<rparr>)"

text \<open>\<open>None\<close> is the \<open>std::terminate\<close> on a URL that cannot be built. The request object
  comes back because its headers have changed.\<close>

definition ToHttpRequest :: "crypto \<Rightarrow> utc_time \<Rightarrow> base_url \<Rightarrow> credentials option \<Rightarrow> 's s3_request
    \<Rightarrow> ('s http_request \<times> 's s3_request) option" where
  "ToHttpRequest cr now b creds q =
     (case BuildUrl b url_empty (q_method q) (q_region q) (q_query_params q) (q_bucket_name q)
         (q_object_name q) of
        (err, u) \<Rightarrow>
          if is_err err then None
          else
            let q = BuildHeaders cr now creds u q
            in Some (\<lparr>rq_method = q_method q, rq_url = u, rq_headers = q_headers q, rq_body = q_body q,
                      rq_datafunc = q_datafunc q\<rparr>, q))"

subsection \<open>Host names\<close>

definition label_char :: "char \<Rightarrow> bool" where
  "label_char c \<longleftrightarrow> is_lower c \<or> is_upper c \<or> is_num c \<or> c = CHR ''_'' \<or> c = CHR ''-''"

definition edge_ok :: "char \<Rightarrow> bool" where
  "edge_ok c \<longleftrightarrow> c \<noteq> CHR ''-'' \<and> c \<noteq> CHR ''_''"

text \<open>A label as the lookaheads admit it, and with the check of its last character.\<close>

definition label_start :: "string \<Rightarrow> bool" where
  "label_start w \<longleftrightarrow> w \<noteq> [] \<and> length w \<le> 63 \<and> list_all label_char w \<and> edge_ok (hd w)"

definition dns_label :: "string \<Rightarrow> bool" where
  "dns_label w \<longleftrightarrow> label_start w \<and> edge_ok (last w)"

lemma fold_case_fixed:
  "\<not> is_upper c \<Longrightarrow> to_lower_char c = c" "\<not> is_lower c \<Longrightarrow> to_upper_char c = c"
  by (auto intro!: byte_inj [THEN iffD1] simp: byte_lower byte_upper)

lemma label_cls: "cls_has True [rng_az, (CHR ''_'', CHR ''_''), rng_09, (CHR ''-'', CHR ''-'')] c \<longleftrightarrow> label_char c"
proof -
  consider (up) "is_upper c" | (low) "is_lower c" | (none) "\<not> is_upper c" "\<not> is_lower c" by blast
  then show ?thesis
  proof cases
    case up
    then have "97 \<le> byte (to_lower_char c)" "byte (to_lower_char c) \<le> 122"
      by (simp_all add: byte_lower) (simp_all add: is_upper_def)
    then show ?thesis using up
      by (simp add: cls_has_def in_range_def char_le_byte byte_lits label_char_def)
  next
    case low
    then have "to_lower_char c = c" by (intro fold_case_fixed) (auto simp: is_upper_def is_lower_def)
    with low show ?thesis
      by (simp add: cls_has_def in_range_def char_le_byte byte_lits label_char_def is_lower_def)
  next
    case none
    then show ?thesis using fold_case_fixed [of c]
      by (auto simp: cls_has_def in_range_def char_le_byte byte_lits label_char_def is_lower_def
          is_num_def char_nums)
  qed
qed

lemma derives_LABEL:
  "derives True LABEL s t \<longleftrightarrow> (\<exists>w. s = w @ t \<and> w \<noteq> [] \<and> length w \<le> 63 \<and> list_all label_char w)"
proof
  assume "derives True LABEL s t"
  then obtain c s' k where "s = c # s'" "label_char c" "k \<le> 62" "t = drop k s'"
    "\<forall>x \<in> set (take k s'). label_char x"
    by (auto simp: LABEL_def CLS_LABEL_def Between_def derives_UpTo_cls label_cls)
  then show "\<exists>w. s = w @ t \<and> w \<noteq> [] \<and> length w \<le> 63 \<and> list_all label_char w"
    by (intro exI [of _ "c # take k s'"]) (auto simp: list_all_iff)
next
  assume "\<exists>w. s = w @ t \<and> w \<noteq> [] \<and> length w \<le> 63 \<and> list_all label_char w"
  then obtain c w where "s = c # w @ t" "length w \<le> 62" "label_char c" "list_all label_char w"
    by (auto simp: neq_Nil_conv)
  then show "derives True LABEL s t"
    by (auto simp: LABEL_def CLS_LABEL_def Between_def derives_UpTo_cls label_cls list_all_iff
        intro!: exI [of _ "length w"])
qed

lemma dash_cls:
  "cls_has True [(CHR ''-'', CHR ''-'')] c \<longleftrightarrow> c = CHR ''-''"
  "cls_has True [(CHR ''_'', CHR ''_'')] c \<longleftrightarrow> c = CHR ''_''"
  "cls_has True [(CHR ''.'', CHR ''.'')] c \<longleftrightarrow> c = CHR ''.''"
proof -
  consider (up) "is_upper c" | (low) "is_lower c" | (none) "\<not> is_upper c" "\<not> is_lower c" by blast
  then have "(cls_has True [(CHR ''-'', CHR ''-'')] c \<longleftrightarrow> c = CHR ''-'')
      \<and> (cls_has True [(CHR ''_'', CHR ''_'')] c \<longleftrightarrow> c = CHR ''_'')
      \<and> (cls_has True [(CHR ''.'', CHR ''.'')] c \<longleftrightarrow> c = CHR ''.'')"
  proof cases
    case none
    then show ?thesis using fold_case_fixed [of c] by (auto simp: cls_has_def in_range_def)
  qed (auto simp: cls_has_def in_range_def char_le_byte byte_lits byte_lower byte_upper char_nums
      is_upper_def is_lower_def)
  then show "cls_has True [(CHR ''-'', CHR ''-'')] c \<longleftrightarrow> c = CHR ''-''"
    "cls_has True [(CHR ''_'', CHR ''_'')] c \<longleftrightarrow> c = CHR ''_''"
    "cls_has True [(CHR ''.'', CHR ''.'')] c \<longleftrightarrow> c = CHR ''.''" by auto
qed

lemma not_ahead_edge:
  "rx_m True (lit ''-'') s = [] \<longleftrightarrow> s = [] \<or> hd s \<noteq> CHR ''-''"
  "rx_m True (lit ''_'') s = [] \<longleftrightarrow> s = [] \<or> hd s \<noteq> CHR ''_''"
  by (cases s; simp add: dash_cls)+

lemma derives_dot: "derives True (lit ''.'') s t \<longleftrightarrow> s = CHR ''.'' # t"
  by (cases s) (auto simp: dash_cls)

lemma derives_host_label:
  "derives True (Seq (NotAhead (lit ''-'')) (Seq (NotAhead (lit ''_'')) (Seq LABEL (lit ''.'')))) s t
     \<longleftrightarrow> (\<exists>w. label_start w \<and> s = w @ CHR ''.'' # t)"
  by (auto simp: derives_LABEL derives_dot not_ahead_edge label_start_def edge_ok_def simp del: lit.simps)

lemma derives_host_labels:
  "derives True (Star (Seq (NotAhead (lit ''-'')) (Seq (NotAhead (lit ''_'')) (Seq LABEL (lit ''.''))))) s t
     \<longleftrightarrow> (\<exists>ws. list_all label_start ws \<and> s = concat (map (\<lambda>w. w @ ''.'') ws) @ t)"
  (is "derives True (Star ?r) s t \<longleftrightarrow> ?R s t")
proof
  show "derives True (Star ?r) s t \<Longrightarrow> ?R s t"
  proof (induction "Star ?r" s t rule: derives.induct)
    case (d_star0 s)
    then show ?case by (intro exI [of _ "[]"]) simp
  next
    case (d_star s t u)
    then obtain w ws where "label_start w" "s = w @ CHR ''.'' # t" "list_all label_start ws"
      "t = concat (map (\<lambda>w. w @ ''.'') ws) @ u" unfolding derives_host_label by blast
    then show ?case by (intro exI [of _ "w # ws"]) simp
  qed
  have "list_all label_start ws \<Longrightarrow> derives True (Star ?r) (concat (map (\<lambda>w. w @ ''.'') ws) @ t) t" for ws
  proof (induction ws)
    case Nil
    show ?case unfolding list.map concat.simps append_Nil by (rule d_star0)
  next
    case (Cons w ws)
    have "derives True ?r (w @ CHR ''.'' # concat (map (\<lambda>w. w @ ''.'') ws) @ t)
        (concat (map (\<lambda>w. w @ ''.'') ws) @ t)"
      using Cons.prems unfolding derives_host_label by auto
    moreover have "derives True (Star ?r) (concat (map (\<lambda>w. w @ ''.'') ws) @ t) t"
      using Cons.prems by (intro Cons.IH) simp
    ultimately have "derives True (Star ?r) (w @ CHR ''.'' # concat (map (\<lambda>w. w @ ''.'') ws) @ t) t"
      by (rule d_star)
    then show ?case by (simp only: list.map concat.simps append.simps append_assoc)
  qed
  then show "?R s t \<Longrightarrow> derives True (Star ?r) s t" by blast
qed

lemma hostname_regex:
  "rx_prefix True HOSTNAME_REGEX s \<longleftrightarrow>
     (\<exists>ws w. list_all label_start (ws @ [w]) \<and> s = concat (map (\<lambda>w. w @ ''.'') ws) @ w)"
proof -
  have end_label: "derives True (Seq (NotAhead (lit ''_'')) (Seq (NotAhead (lit ''-'')) (Seq LABEL AtEnd))) u t
      \<longleftrightarrow> t = [] \<and> label_start u" for u t
    by (auto simp: derives_LABEL not_ahead_edge label_start_def edge_ok_def simp del: lit.simps)
  have "derives True HOSTNAME_REGEX s t \<longleftrightarrow>
      (\<exists>ws. list_all label_start ws \<and> t = [] \<and> (\<exists>w. label_start w \<and> s = concat (map (\<lambda>w. w @ ''.'') ws) @ w))" for t
    unfolding HOSTNAME_REGEX_def derives_simps(4) [of _ "Star r" for r] end_label derives_host_labels by blast
  then have "rx_prefix True HOSTNAME_REGEX s \<longleftrightarrow> (\<exists>ws. list_all label_start ws
      \<and> (\<exists>w. label_start w \<and> s = concat (map (\<lambda>w. w @ ''.'') ws) @ w))" unfolding rx_prefix_iff by blast
  then show ?thesis by fastforce
qed

lemma tokens_dotted:
  "\<forall>w \<in> set (ws @ [l]). w \<noteq> [] \<and> d \<notin> set w \<Longrightarrow> tokens d (concat (map (\<lambda>w. w @ [d]) ws) @ l) = ws @ [l]"
proof (induction ws)
  case (Cons w ws)
  then show ?case unfolding tokens_def by (simp add: getline_tokens_walk)
qed (simp add: tokens_def getline_tokens_cur)

lemma label_start_tokens: "label_start w \<Longrightarrow> w \<noteq> [] \<and> CHR ''.'' \<notin> set w"
proof -
  have "\<not> label_char (CHR ''.'')"
    by (simp add: label_char_def is_lower_def is_upper_def is_num_def byte_lits)
  then show "label_start w \<Longrightarrow> ?thesis" by (auto simp: label_start_def list_all_iff)
qed

text \<open>Every piece of a matched host is a label, so \<open>token.back()\<close> exists.\<close>

lemma hostname_labels:
  "rx_prefix True HOSTNAME_REGEX s \<Longrightarrow> t \<in> set (tokens (CHR ''.'') s) \<Longrightarrow> label_start t"
proof -
  assume "rx_prefix True HOSTNAME_REGEX s" and t: "t \<in> set (tokens (CHR ''.'') s)"
  then obtain ws w where s: "list_all label_start (ws @ [w])" "s = concat (map (\<lambda>w. w @ ''.'') ws) @ w"
    unfolding hostname_regex by blast
  then have "tokens (CHR ''.'') s = ws @ [w]"
    using tokens_dotted [of ws w "CHR ''.''"] label_start_tokens by (auto simp: list_all_iff)
  with s t show ?thesis by (simp only: list_all_iff)
qed

lemma hostname_iff:
  assumes "CHR 0x00 \<notin> set h"
  shows "awsRegexMatch (rx_prefix True HOSTNAME_REGEX) h \<longleftrightarrow>
    (\<exists>ws w. h = concat (map (\<lambda>w. w @ ''.'') ws) @ w \<and> (\<forall>l \<in> set (ws @ [w]). dns_label l))"
proof -
  have toks: "tokens (CHR ''.'') (concat (map (\<lambda>w. w @ ''.'') ws) @ w) = ws @ [w]"
    if "list_all label_start (ws @ [w])" for ws w
    using that tokens_dotted [of ws w "CHR ''.''"] label_start_tokens by (auto simp: list_all_iff)
  have good: "dns_label l \<longleftrightarrow> label_start l \<and> \<not> bad_end l" for l
    by (auto simp: dns_label_def label_start_def bad_end_def edge_ok_def)
  show ?thesis
  proof
    assume "awsRegexMatch (rx_prefix True HOSTNAME_REGEX) h"
    then have m: "rx_prefix True HOSTNAME_REGEX h" "\<not> list_ex bad_end (tokens (CHR ''.'') h)"
      using c_str_id [OF assms] by (auto simp: awsRegexMatch_def split: if_splits)
    then obtain ws w where w: "list_all label_start (ws @ [w])" "h = concat (map (\<lambda>w. w @ ''.'') ws) @ w"
      unfolding hostname_regex by blast
    with m(2) toks have "\<not> list_ex bad_end (ws @ [w])" by metis
    with w show "\<exists>ws w. h = concat (map (\<lambda>w. w @ ''.'') ws) @ w \<and> (\<forall>l \<in> set (ws @ [w]). dns_label l)"
      by (intro exI [of _ ws] exI [of _ w]) (auto simp: good list_all_iff list_ex_iff)
  next
    assume "\<exists>ws w. h = concat (map (\<lambda>w. w @ ''.'') ws) @ w \<and> (\<forall>l \<in> set (ws @ [w]). dns_label l)"
    then obtain ws w where h: "h = concat (map (\<lambda>w. w @ ''.'') ws) @ w" "\<forall>l \<in> set (ws @ [w]). dns_label l"
      by blast
    then have ls: "list_all label_start (ws @ [w])" by (auto simp: good list_all_iff)
    have "\<not> list_ex bad_end (ws @ [w])" using h(2) by (auto simp: good list_ex_iff)
    then show "awsRegexMatch (rx_prefix True HOSTNAME_REGEX) h"
      unfolding awsRegexMatch_def c_str_id [OF assms] using ls h(1) toks [OF ls]
      by (auto simp: hostname_regex simp del: list_ex_append list_all_append)
  qed
qed

subsection \<open>Amazon hosts are taken apart without leaving the tokens\<close>

lemma derives_lit_end:
  "derives True (lit (w @ [c])) s t \<Longrightarrow> \<exists>p d. s = p @ d # t \<and> cls_has True [(c, c)] d"
proof (induction w arbitrary: s)
  case (Cons a w)
  then obtain b s' where "s = b # s'" "derives True (lit (w @ [c])) s' t" by auto
  with Cons.IH show ?case by (metis append_Cons)
qed auto

definition ends_dot :: "rx \<Rightarrow> bool" where
  "ends_dot r \<longleftrightarrow> (\<forall>s t. derives True r s t \<longrightarrow> (\<exists>p. s = p @ CHR ''.'' # t))"

lemma ends_dot_lit: "ends_dot (lit (w @ ''.''))"
  unfolding ends_dot_def using derives_lit_end [of w "CHR ''.''"] dash_cls(3) by fastforce

lemma ends_dot_Seq: "ends_dot b \<Longrightarrow> ends_dot (Seq a b)"
  unfolding ends_dot_def derives_simps(4) by (metis append_assoc derives_suffix)

lemma ends_dot_Alt: "ends_dot a \<Longrightarrow> ends_dot b \<Longrightarrow> ends_dot (Alt a b)"
  unfolding ends_dot_def by auto

lemma prefix_ends_dot: "ends_dot AWS_S3_PREFIX_REGEX"
  unfolding AWS_S3_PREFIX_REGEX_def
  using ends_dot_lit [of "[]"] ends_dot_lit [of "''.s3''"]
  by (intro ends_dot_Alt ends_dot_Seq) (simp_all del: lit.simps)

lemma tail_end:
  assumes "derives True AWS_TAIL s t"
  shows "s \<noteq> [] \<and> last s \<noteq> CHR ''.'' \<and> last s \<noteq> CHR ''k''"
proof -
  from assms obtain u where u: "derives True (lit ''amazonaws.com'') s u" "u = [] \<or> derives True (lit ''.cn'') u []"
    unfolding AWS_TAIL_def derives_simps(4) by (auto simp del: lit.simps)
  obtain p d where s: "s = p @ d # u" "cls_has True [(CHR ''m'', CHR ''m'')] d"
    using derives_lit_end [of "''amazonaws.co''" "CHR ''m''" s u] u(1) by (auto simp del: lit.simps)
  have nk: "\<not> cls_has True [(CHR ''m'', CHR ''m'')] (CHR ''.'')" "\<not> cls_has True [(CHR ''n'', CHR ''n'')] (CHR ''.'')"
    "\<not> cls_has True [(CHR ''m'', CHR ''m'')] (CHR ''k'')" "\<not> cls_has True [(CHR ''n'', CHR ''n'')] (CHR ''k'')"
    by code_simp+
  show ?thesis
  proof (cases "u = []")
    case True
    then have "last s = d" "s \<noteq> []" using s(1) by simp_all
    then show ?thesis using s(2) nk by auto
  next
    case False
    with u(2) have "derives True (lit ''.cn'') u []" by simp
    then obtain q e where u': "u = q @ e # []" "cls_has True [(CHR ''n'', CHR ''n'')] e"
      using derives_lit_end [of "''.c''" "CHR ''n''" u "[]"] by (auto simp del: lit.simps)
    then have "last s = e" "s \<noteq> []" using s(1) by simp_all
    then show ?thesis using u'(2) nk by auto
  qed
qed

lemma getline_tokens_Nil: "getline_tokens d cur s = [] \<Longrightarrow> cur = [] \<and> s = []"
  by (induction d cur s rule: getline_tokens.induct) (auto split: if_splits)

lemma tokens_single: "tokens d s = [t] \<Longrightarrow> s = t \<or> s = t @ [d]"
proof -
  have "getline_tokens d cur s = [t] \<Longrightarrow> rev cur @ s = t \<or> rev cur @ s = t @ [d]" for cur
  proof (induction d cur s rule: getline_tokens.induct)
    case (2 d cur c s)
    then show ?case by (auto split: if_splits dest: getline_tokens_Nil)
  qed (auto split: if_splits)
  from this [of "[]"] show "tokens d s = [t] \<Longrightarrow> ?thesis" by (simp add: tokens_def)
qed

lemma tokens_Nil: "tokens d s = [] \<Longrightarrow> s = []"
  using getline_tokens_Nil by (auto simp: tokens_def)

lemma s3_prefix_split:
  assumes "rx_prefix True AWS_S3_ENDPOINT_REGEX h"
  defines "n \<equiv> rx_match_len True AWS_S3_PREFIX_REGEX h"
  shows "drop n h \<noteq> []" "last (drop n h) \<noteq> CHR ''.''" "last (drop n h) \<noteq> CHR ''k''"
    "EndsWith (take n h) ''.''"
proof -
  from assms(1) obtain u v t where u: "derives True AWS_S3_PREFIX_REGEX h u"
    and v: "derives True AWS_TAIL v t" and w: "\<exists>w. u = w @ v"
    unfolding rx_prefix_iff AWS_S3_ENDPOINT_REGEX_def derives_simps(4) [of _ AWS_S3_PREFIX_REGEX]
      derives_simps(4) [of _ "Star r" for r] by (metis derives_suffix)
  have "u \<in> set (rx_m True AWS_S3_PREFIX_REGEX h)" using u unfolding rx_m_iff .
  then obtain x xs where x: "rx_m True AWS_S3_PREFIX_REGEX h = x # xs" by (cases "rx_m True AWS_S3_PREFIX_REGEX h") auto
  then have "derives True AWS_S3_PREFIX_REGEX h x" unfolding rx_m_iff [symmetric] by simp
  then obtain p where p: "h = p @ CHR ''.'' # x" using prefix_ends_dot unfolding ends_dot_def by blast
  have n: "n = Suc (length p)" unfolding n_def rx_match_len_def x using p by simp
  obtain q where "h = q @ u" using derives_suffix [OF u] by blast
  then have last: "last h = last v" "h \<noteq> []" using w tail_end [OF v] by auto
  have drop: "drop n h = x" "take n h = p @ ''.''" unfolding n p by simp_all
  show ne: "drop n h \<noteq> []" using last tail_end [OF v] p unfolding drop by (cases "x = []") auto
  then have "last (drop n h) = last h" using p unfolding drop by simp
  then show "last (drop n h) \<noteq> CHR ''.''" "last (drop n h) \<noteq> CHR ''k''" using last tail_end [OF v] by auto
  show "EndsWith (take n h) ''.''" unfolding drop EndsWith_iff by auto
qed

lemma getAwsInfo_total:
  assumes "CHR 0x00 \<notin> set h"
  shows "getAwsInfo h tls info \<noteq> None"
proof (cases "awsRegexMatch (rx_prefix True AWS_S3_ENDPOINT_REGEX) h")
  case True
  then have m: "rx_prefix True AWS_S3_ENDPOINT_REGEX h"
    using c_str_id [OF assms] by (simp add: awsRegexMatch_def split: if_splits)
  define d where "d = drop (rx_match_len True AWS_S3_PREFIX_REGEX h) h"
  note D = s3_prefix_split [OF m, folded d_def]
  obtain t ts where T: "tokens (CHR ''.'') d = t # ts" using tokens_Nil [of "CHR ''.''" d] D(1)
    by (cases "tokens (CHR ''.'') d") auto
  have "t = ''dualstack'' \<Longrightarrow> ts \<noteq> []"
    using tokens_single [of "CHR ''.''" d t] T D(2,3) by auto
  then obtain t' ts' where T': "(if t = ''dualstack'' then ts else t # ts) = t' # ts'"
    by (cases "t = ''dualstack''"; cases ts) auto
  have branch: "x \<noteq> None \<Longrightarrow> y \<noteq> None \<Longrightarrow> (if c then x else y) \<noteq> None" for c and x y :: "'a option"
    by simp
  show ?thesis
    unfolding getAwsInfo_def Let_def d_def [symmetric] T list.case T'
    by (intro branch) (auto split: prod.splits)
qed (simp add: getAwsInfo_def)

subsection \<open>Request URLs\<close>

lemma UriDecode_segments: "UriDecode (encode_segments s) = s"
proof (induction s)
  case (Cons c s)
  have "16 * (byte c div 16) + byte c mod 16 = byte c" by simp
  with Cons show ?case
    by (auto simp: UriDecode_Cons_plain is_unreserved_not_percent)
qed simp

lemma encoded_path_decodes: "UriDecode (encoded_path name) = squeeze_slashes name"
  by (cases "name = []") (simp_all add: encoded_path_def EncodePath_spec UriDecode_segments,
      simp add: EncodePath_def)

lemma UriDecode_plain: "CHR ''%'' \<notin> set a \<Longrightarrow> UriDecode (a @ b) = a @ UriDecode b"
  by (induction a) (auto simp: UriDecode_Cons_plain)

text \<open>The path-style URL of an endpoint that is not Amazon's: the decoded path is the
  bucket and the object name with runs of slashes squeezed.\<close>

lemma BuildUrl_path_style:
  assumes "\<not> is_err (b_err b)" "b_suffix b = []" "\<not> b_virtual_style b" "bucket \<noteq> []"
    "CHR ''%'' \<notin> set bucket" "last bucket \<noteq> CHR ''/''"
  obtains u where "BuildUrl b u0 m region qp bucket object_name = (SUCCESS, u)"
    "https u = b_https b" "host u = b_host b" "port u = b_port b" "query_string u = ToQueryString qp"
    "UriDecode (path u) = ''/'' @ bucket @ (if object_name = [] then [] else ''/'' @ squeeze_slashes object_name)"
proof -
  have slash: "\<not> EndsWith (CHR ''/'' # bucket) ''/''"
    using assms(4,6) unfolding EndsWith_iff by (metis last_ConsR last_snoc)
  have dec: "UriDecode (CHR ''/'' # bucket @ r) = CHR ''/'' # bucket @ UriDecode r" for r
    using UriDecode_plain [of "CHR ''/'' # bucket" r] assms(5) by simp
  then have dec0: "UriDecode (CHR ''/'' # bucket) = CHR ''/'' # bucket" using dec [of "[]"] by simp
  show ?thesis
    by (rule that [of "\<lparr>https = b_https b, host = b_host b, port = b_port b,
        path = ''/'' @ bucket @ (if object_name = [] then [] else ''/'' @ encoded_path object_name),
        query_string = ToQueryString qp\<rparr>"])
      (use assms slash in \<open>simp_all add: BuildUrl_def dec dec0 encoded_path_decodes UriDecode_Cons_plain\<close>)
qed

text \<open>The virtual-host URL: the bucket is the first label of the host.\<close>

lemma BuildUrl_virtual_style:
  assumes "BuildUrl b u0 m region qp bucket object_name = (SUCCESS, u)" "bucket \<noteq> []"
    "b_virtual_style b" "\<not> enforce_path b m qp bucket object_name"
  shows "StartsWith (host u) (bucket @ ''.'')" "UriDecode (path u) = ''/'' @ squeeze_slashes object_name"
    "port u = b_port b" "query_string u = ToQueryString qp"
proof -
  have aws: "BuildAwsUrl b v bucket e region = (err, v') \<Longrightarrow>
      port v' = port v \<and> query_string v' = query_string v" for v v' e err
    by (auto simp: BuildAwsUrl_def Let_def split: if_splits)
  show "StartsWith (host u) (bucket @ ''.'')" "UriDecode (path u) = ''/'' @ squeeze_slashes object_name"
    "port u = b_port b" "query_string u = ToQueryString qp"
    using assms aws
    by (auto simp: BuildUrl_def Let_def StartsWith_iff EndsWith_iff UriDecode_Cons_plain
        encoded_path_decodes is_err_def SUCCESS_def split: if_splits prod.splits)
qed

subsection \<open>Requests are signed so that they verify\<close>

lemma one_spelling_iff:
  assumes "mm_wf m"
  shows "one_spelling m \<longleftrightarrow> inj_on ToLower (fst ` set (map_m m))"
proof -
  have "distinct (map fst (map_m m))" using assms smap.items_distinct by (auto simp: mm_wf_def)
  then show ?thesis
    by (auto simp: one_spelling_def header_name_def distinct_map comp_def inj_on_def)
qed

lemma no_vals_no_spelling:
  assumes "mm_wf m" "mm_vals m k = {}" "k' \<in> fst ` set (map_m m)"
  shows "ToLower k' \<noteq> ToLower k"
proof
  assume "ToLower k' = ToLower k"
  then have "mm_vals m k' = {}" using assms(2) mm_vals_lower by metis
  from mm_lookup_none [OF assms(1) this] assms(3) show False by (auto simp: map_of_eq_None_iff)
qed

definition header_word :: "string \<Rightarrow> bool" where
  "header_word k \<longleftrightarrow> k \<noteq> [] \<and> CHR '';'' \<notin> set (ToLower k) \<and> CHR '','' \<notin> set (ToLower k)
     \<and> ToLower k \<noteq> ''authorization''"

lemma signable_Add:
  assumes "signable m" "mm_vals m k = {}" "header_word k"
  shows "signable (Add k v m)"
proof -
  have wf: "mm_wf m" and inj: "inj_on ToLower (fst ` set (map_m m))"
    using assms(1) one_spelling_iff by (auto simp: signable_def)
  have keys: "fst ` set (map_m (Add k v m)) = insert k (fst ` set (map_m m))"
    by (simp add: Add_def smap_upd_fst)
  have "inj_on ToLower (insert k (fst ` set (map_m m)))"
    using inj no_vals_no_spelling [OF wf assms(2)] by (fastforce simp: inj_on_def)
  then have "one_spelling (Add k v m)" using one_spelling_iff [OF mm_wf_Add [OF wf]] keys by simp
  moreover have "ToLower ''authorization'' = ''authorization''" by code_simp
  ultimately show ?thesis
    using assms wf keys unfolding signable_def header_word_def
    by (auto simp: mm_wf_Add mm_vals_Add)
qed

text \<open>The names the builder sets itself.\<close>

definition own_headers :: "string list" where
  "own_headers = [''Host'', ''User-Agent'', ''Content-Length'', ''x-amz-date'', ''X-Amz-Security-Token'']"

lemma own_names [simp]:
  "ToLower ''Host'' = ''host''" "ToLower ''User-Agent'' = ''user-agent''"
  "ToLower ''Content-Length'' = ''content-length''" "ToLower ''x-amz-date'' = ''x-amz-date''"
  "ToLower ''X-Amz-Security-Token'' = ''x-amz-security-token''"
  "ToLower ''Content-Type'' = ''content-type''" "ToLower ''Content-MD5'' = ''content-md5''"
  "ToLower ''x-amz-content-sha256'' = ''x-amz-content-sha256''"
  "ToLower ''Authorization'' = ''authorization''" "ToLower ''authorization'' = ''authorization''"
  by code_simp+

lemma own_header_words [simp]:
  "header_word ''Host''" "header_word ''User-Agent''" "header_word ''Content-Length''"
  "header_word ''x-amz-date''" "header_word ''X-Amz-Security-Token''" "header_word ''Content-Type''"
  "header_word ''Content-MD5''" "header_word ''x-amz-content-sha256''"
  by (simp_all add: header_word_def)

definition request_ok :: "'s s3_request \<Rightarrow> bool" where
  "request_ok q \<longleftrightarrow> signable (q_headers q) \<and> (\<forall>k \<in> set own_headers. mm_vals (q_headers q) k = {})"

text \<open>The headers just before signing.\<close>

definition unsigned_headers :: "crypto \<Rightarrow> utc_time \<Rightarrow> credentials \<Rightarrow> url \<Rightarrow> 's s3_request \<Rightarrow> multimap \<times> string" where
  "unsigned_headers cr now c u q =
     (let hs = Add ''User-Agent'' (q_user_agent q) (Add ''Host'' (HostHeaderValue u) (q_headers q));
          caller_set_sha256 = mm_Contains ''x-amz-content-sha256'' hs;
          upload = (q_method q = kPut \<or> q_method q = kPost);
          hs = (if upload then Add ''Content-Length'' (to_string (length (q_body q))) hs else hs);
          hs = (if upload \<and> \<not> mm_Contains ''Content-Type'' hs
                then Add ''Content-Type'' ''application/octet-stream'' hs else hs);
          sha = body_hash cr q hs True;
          hs = (if sha \<noteq> [] \<and> \<not> caller_set_sha256 then Add ''x-amz-content-sha256'' sha hs else hs);
          hs = Add ''x-amz-date'' (ToAmzDate (timezone cr) now) hs
      in (if session_token c \<noteq> [] then Add ''X-Amz-Security-Token'' (session_token c) hs else hs, sha))"

lemma BuildHeaders_signs:
  "BuildHeaders cr now (Some c) u q =
     (case unsigned_headers cr now c u q of (hs, sha) \<Rightarrow>
        q\<lparr>q_headers := SignV4S3 cr (q_method q) (path u) (q_region q) hs (q_query_params q)
             (access_key c) (secret_key c) sha now,
          q_sha256 := sha, q_date := now\<rparr>)"
  by (simp add: BuildHeaders_def base_headers_def unsigned_headers_def Let_def)

lemma Contains_iff_vals: "signable m \<Longrightarrow> mm_Contains k m \<longleftrightarrow> mm_vals m k \<noteq> {}"
  by (simp add: signable_def mm_Contains_iff)

lemma signable_vals_Add: "signable m \<Longrightarrow> mm_vals (Add k v m) k' = (if ToLower k' = ToLower k then {v} else {}) \<union> mm_vals m k'"
  by (simp add: signable_def mm_vals_Add)

lemma unsigned_headers_ok:
  assumes "request_ok q" "\<And>s. sha256 cr s \<noteq> []"
    "unsigned_headers cr now c u q = (hs, sha)"
  shows "signable hs" "Get ''x-amz-date'' hs = [ToAmzDate (timezone cr) now]"
    "GetFront ''x-amz-content-sha256'' hs = sha"
proof -
  define m where "m = q_headers q"
  have m: "signable m" "mm_wf m" and fresh: "mm_vals m ''Host'' = {}" "mm_vals m ''User-Agent'' = {}"
    "mm_vals m ''Content-Length'' = {}" "mm_vals m ''x-amz-date'' = {}" "mm_vals m ''X-Amz-Security-Token'' = {}"
    using assms(1) by (auto simp: request_ok_def own_headers_def signable_def m_def)
  define h2 where "h2 = Add ''User-Agent'' (q_user_agent q) (Add ''Host'' (HostHeaderValue u) m)"
  have s1: "signable (Add ''Host'' (HostHeaderValue u) m)" using m fresh by (intro signable_Add) simp_all
  have s2: "signable h2" unfolding h2_def
    using s1 fresh by (intro signable_Add) (simp_all add: signable_vals_Add m(1))
  have v2: "mm_vals h2 k = mm_vals m k" if "ToLower k \<noteq> ''host''" "ToLower k \<noteq> ''user-agent''" for k
    using that s1 m by (simp add: h2_def signable_vals_Add)
  define upload where "upload = (q_method q = kPut \<or> q_method q = kPost)"
  define h3 where "h3 = (if upload then Add ''Content-Length'' (to_string (length (q_body q))) h2 else h2)"
  have s3: "signable h3" unfolding h3_def using s2 fresh v2 by (simp add: signable_Add)
  have v3: "mm_vals h3 k = mm_vals h2 k" if "ToLower k \<noteq> ''content-length''" for k
    using that s2 by (simp add: h3_def signable_vals_Add)
  define h4 where "h4 = (if upload \<and> \<not> mm_Contains ''Content-Type'' h3
                then Add ''Content-Type'' ''application/octet-stream'' h3 else h3)"
  have s4: "signable h4" unfolding h4_def using s3 by (auto simp: signable_Add Contains_iff_vals)
  have v4: "mm_vals h4 k = mm_vals h3 k" if "ToLower k \<noteq> ''content-type''" for k
    using that s3 by (simp add: h4_def signable_vals_Add)
  have sha4: "mm_vals h4 ''x-amz-content-sha256'' = mm_vals m ''x-amz-content-sha256''"
    "mm_vals h2 ''x-amz-content-sha256'' = mm_vals m ''x-amz-content-sha256''"
    by (simp_all add: v2 v3 v4)
  define caller where "caller = mm_Contains ''x-amz-content-sha256'' m"
  have caller: "mm_Contains ''x-amz-content-sha256'' h2 = caller" "mm_Contains ''x-amz-content-sha256'' h4 = caller"
    using s2 s4 m(1) sha4 by (simp_all add: caller_def Contains_iff_vals)
  define sha' where "sha' = body_hash cr q h4 True"
  define h5 where "h5 = (if sha' \<noteq> [] \<and> \<not> caller then Add ''x-amz-content-sha256'' sha' h4 else h4)"
  have s5: "signable h5" unfolding h5_def
    using s4 sha4 m(1) by (auto simp: signable_Add caller_def Contains_iff_vals)
  have v5: "mm_vals h5 k = mm_vals h4 k" if "ToLower k \<noteq> ''x-amz-content-sha256''" for k
    using that s4 by (simp add: h5_def signable_vals_Add)
  define h6 where "h6 = Add ''x-amz-date'' (ToAmzDate (timezone cr) now) h5"
  have d5: "mm_vals h5 ''x-amz-date'' = {}" "mm_vals h5 ''X-Amz-Security-Token'' = {}"
    using fresh by (simp_all add: v2 v3 v4 v5)
  have s6: "signable h6" unfolding h6_def using s5 d5 by (simp add: signable_Add)
  define h7 where "h7 = (if session_token c \<noteq> [] then Add ''X-Amz-Security-Token'' (session_token c) h6 else h6)"
  have t6: "mm_vals h6 ''X-Amz-Security-Token'' = {}" using d5 s5 by (simp add: h6_def signable_vals_Add)
  have hs: "hs = h7" "sha = sha'"
    using assms(3) unfolding unsigned_headers_def Let_def m_def [symmetric] h2_def [symmetric]
      upload_def [symmetric] h3_def [symmetric] h4_def [symmetric] sha'_def [symmetric] caller
      h5_def [symmetric] h6_def [symmetric] h7_def [symmetric] by simp_all
  show "signable hs" unfolding hs h7_def using s6 t6 by (simp add: signable_Add)
  have wf: "mm_wf h4" "mm_wf h5" "mm_wf h6" using s4 s5 s6 by (auto simp: signable_def)
  have other: "Get n h7 = Get n h6" if "ToLower n \<noteq> ''x-amz-security-token''" for n
    using that wf by (simp add: h7_def Get_Add_other)
  show "Get ''x-amz-date'' hs = [ToAmzDate (timezone cr) now]"
    unfolding hs using other [of "''x-amz-date''"] Get_Add_new [OF wf(2) d5(1)] by (simp add: h6_def)
  have g: "GetFront ''x-amz-content-sha256'' h7 = GetFront ''x-amz-content-sha256'' h5"
    unfolding GetFront_def using other [of "''x-amz-content-sha256''"] wf
    by (simp add: h6_def Get_Add_other)
  show "GetFront ''x-amz-content-sha256'' hs = sha"
  proof (cases caller)
    case True
    then show ?thesis unfolding hs g by (simp add: h5_def sha'_def body_hash_def caller)
  next
    case False
    have hex: "hex_encode x \<noteq> []" if "x \<noteq> []" for x using that hex_encode_length [of x] by fastforce
    have "sha' \<noteq> []"
      using False caller(2) assms(2) by (simp add: sha'_def body_hash_def EMPTY_SHA256_def Sha256Hash_def hex)
    moreover have "mm_vals h4 ''x-amz-content-sha256'' = {}"
      using False sha4 m(1) by (simp add: caller_def Contains_iff_vals)
    ultimately show ?thesis unfolding hs g using False Get_Add_new [OF wf(1)]
      by (simp add: h5_def GetFront_def)
  qed
qed

lemma BuildUrl_query:
  assumes "BuildUrl b u0 m region qp bucket object_name = (SUCCESS, u)" "\<not> is_err (b_err b)"
  shows "query_string u = ToQueryString qp"
proof -
  have aws: "BuildAwsUrl b v bucket e region = (err, v') \<Longrightarrow> query_string v' = query_string v" for v v' e err
    by (auto simp: BuildAwsUrl_def Let_def split: if_splits)
  have lists: "query_string (BuildListBucketsUrl b v region) = query_string v" for v
    by (simp add: BuildListBucketsUrl_def Let_def)
  show ?thesis
    using assms aws lists
    by (auto simp: BuildUrl_def Let_def is_err_def SUCCESS_def split: if_splits prod.splits)
qed

lemma ToHttpRequest_Some:
  assumes "ToHttpRequest cr now b (Some c) q = Some (r, q')"
  obtains u hs sha where "query_string u = GetCanonicalQueryString (q_query_params q)"
    "unsigned_headers cr now c u q = (hs, sha)" "rq_url r = u" "rq_method r = q_method q"
    "rq_headers r = SignV4S3 cr (q_method q) (path u) (q_region q) hs (q_query_params q)
             (access_key c) (secret_key c) sha now" "q_headers q' = rq_headers r" "q_sha256 q' = sha"
proof -
  obtain err u where B: "BuildUrl b url_empty (q_method q) (q_region q) (q_query_params q) (q_bucket_name q)
         (q_object_name q) = (err, u)" by fastforce
  obtain hs sha where H: "unsigned_headers cr now c u q = (hs, sha)" by fastforce
  have ok: "\<not> is_err err" using assms by (simp add: ToHttpRequest_def B split: if_splits)
  then have "\<not> is_err (b_err b)" using B by (auto simp: BuildUrl_def split: if_splits)
  moreover have "err = SUCCESS" using ok by (simp add: not_is_err_iff)
  ultimately have "query_string u = GetCanonicalQueryString (q_query_params q)"
    using BuildUrl_query B unfolding ToQueryString_def by metis
  then show ?thesis
    using that [of u hs sha] assms ok H
    by (auto simp: ToHttpRequest_def B BuildHeaders_signs Let_def)
qed

text \<open>The names that are signed: those of the caller and of the builder. Without a session token they are in
  order if the caller's are; the token is spelled in upper case and comes before the date.\<close>

definition signed_keys :: "'s s3_request \<Rightarrow> string set" where
  "signed_keys q = fst ` set (map_m (q_headers q))
     \<union> {''Content-Length'', ''Content-Type'', ''Host'', ''x-amz-content-sha256'', ''x-amz-date''}"

lemma token_order: "''X-Amz-Security-Token'' < ''x-amz-date''" "''x-amz-date'' < ''x-amz-security-token''"
  by code_simp+

lemma Add_keys: "fst ` set (map_m (Add k v m)) = insert k (fst ` set (map_m m))"
  by (simp add: Add_def smap_upd_fst)

lemma unsigned_headers_keys:
  assumes "unsigned_headers cr now c u q = (hs, sha)"
  shows "fst ` set (map_m hs) \<subseteq> signed_keys q \<union> {''User-Agent''}
      \<union> (if session_token c \<noteq> [] then {''X-Amz-Security-Token''} else {})"
    and "''x-amz-date'' \<in> fst ` set (map_m hs)"
    and "session_token c \<noteq> [] \<Longrightarrow> ''X-Amz-Security-Token'' \<in> fst ` set (map_m hs)"
proof -
  have more: "fst ` set (map_m (if b then Add k v m else m)) \<subseteq> insert k (fst ` set (map_m m))" for b k v m
    by (simp add: Add_keys subset_insertI)
  define h2 where "h2 = Add ''User-Agent'' (q_user_agent q) (Add ''Host'' (HostHeaderValue u) (q_headers q))"
  define caller where "caller = mm_Contains ''x-amz-content-sha256'' h2"
  define upload where "upload = (q_method q = kPut \<or> q_method q = kPost)"
  define h3 where "h3 = (if upload then Add ''Content-Length'' (to_string (length (q_body q))) h2 else h2)"
  define h4 where "h4 = (if upload \<and> \<not> mm_Contains ''Content-Type'' h3
    then Add ''Content-Type'' ''application/octet-stream'' h3 else h3)"
  define sha' where "sha' = body_hash cr q h4 True"
  define h5 where "h5 = (if sha' \<noteq> [] \<and> \<not> caller then Add ''x-amz-content-sha256'' sha' h4 else h4)"
  have hs: "hs = (if session_token c \<noteq> []
      then Add ''X-Amz-Security-Token'' (session_token c) (Add ''x-amz-date'' (ToAmzDate (timezone cr) now) h5)
      else Add ''x-amz-date'' (ToAmzDate (timezone cr) now) h5)"
    using assms unfolding unsigned_headers_def Let_def h2_def [symmetric] caller_def [symmetric] upload_def [symmetric]
      h3_def [symmetric] h4_def [symmetric] sha'_def [symmetric] h5_def [symmetric] by simp
  have "fst ` set (map_m h5) \<subseteq> insert ''x-amz-content-sha256'' (fst ` set (map_m h4))"
    unfolding h5_def by (rule more)
  moreover have "fst ` set (map_m h4) \<subseteq> insert ''Content-Type'' (fst ` set (map_m h3))"
    unfolding h4_def by (rule more)
  moreover have "fst ` set (map_m h3) \<subseteq> insert ''Content-Length'' (fst ` set (map_m h2))"
    unfolding h3_def by (rule more)
  moreover have "fst ` set (map_m h2) = {''User-Agent'', ''Host''} \<union> fst ` set (map_m (q_headers q))"
    by (simp add: h2_def Add_keys)
  ultimately have h5: "fst ` set (map_m h5) \<subseteq> signed_keys q \<union> {''User-Agent''}"
    unfolding signed_keys_def by blast
  have date: "''x-amz-date'' \<in> signed_keys q" by (simp add: signed_keys_def)
  have grow: "A \<subseteq> B \<union> C \<Longrightarrow> d \<in> B \<Longrightarrow> insert d A \<subseteq> B \<union> C" for A B C :: "string set" and d by blast
  have token: "A \<subseteq> B \<Longrightarrow> insert d A \<subseteq> B \<union> {d}" for A B :: "string set" and d by blast
  show "fst ` set (map_m hs) \<subseteq> signed_keys q \<union> {''User-Agent''}
      \<union> (if session_token c \<noteq> [] then {''X-Amz-Security-Token''} else {})"
  proof (cases "session_token c = []")
    case True
    then have "hs = Add ''x-amz-date'' (ToAmzDate (timezone cr) now) h5" unfolding hs by simp
    then have "fst ` set (map_m hs) = insert ''x-amz-date'' (fst ` set (map_m h5))" by (simp only: Add_keys)
    with grow [OF h5 date] show ?thesis by (simp only: le_supI1)
  next
    case False
    then have "hs = Add ''X-Amz-Security-Token'' (session_token c) (Add ''x-amz-date'' (ToAmzDate (timezone cr) now) h5)"
      unfolding hs by simp
    then have "fst ` set (map_m hs) = insert ''X-Amz-Security-Token'' (insert ''x-amz-date'' (fst ` set (map_m h5)))"
      by (simp only: Add_keys)
    with token [OF grow [OF h5 date]] False show ?thesis by (simp only: if_True not_False_eq_True)
  qed
  show "''x-amz-date'' \<in> fst ` set (map_m hs)" unfolding hs by (simp add: Add_keys)
  show "session_token c \<noteq> [] \<Longrightarrow> ''X-Amz-Security-Token'' \<in> fst ` set (map_m hs)" unfolding hs by (simp add: Add_keys)
qed

lemma unsigned_headers_order:
  assumes "unsigned_headers cr now c u q = (hs, sha)" "mm_wf hs"
  shows "session_token c = [] \<Longrightarrow> spelled_in_order (signed_keys q) \<Longrightarrow> names_in_order hs"
    and "session_token c \<noteq> [] \<Longrightarrow> \<not> names_in_order hs"
proof -
  note keys = unsigned_headers_keys [OF assms(1)]
  show "names_in_order hs" if "session_token c = []" "spelled_in_order (signed_keys q)"
  proof (rule names_in_order_keys [OF assms(2) _ that(2)])
    show "fst ` set (signed_entries hs) \<subseteq> signed_keys q"
      using keys(1) that(1) by (fastforce simp: signed_entries_def)
  qed
  show "\<not> names_in_order hs" if with_token: "session_token c \<noteq> []"
  proof -
    have entry: "k \<in> fst ` S \<Longrightarrow> \<exists>v. (k, v) \<in> S" for k :: string and S :: "(string \<times> string list) set" by force
    obtain v where v: "(''X-Amz-Security-Token'', v) \<in> set (map_m hs)"
      using entry [OF keys(3) [OF with_token]] ..
    obtain v' where v': "(''x-amz-date'', v') \<in> set (map_m hs)"
      using entry [OF keys(2)] ..
    from v v' have "(''X-Amz-Security-Token'', v) \<in> set (signed_entries hs)" "(''x-amz-date'', v') \<in> set (signed_entries hs)"
      by (simp_all add: signed_entries_def)
    note out = names_out_of_order [OF assms(2) this, unfolded fst_conv own_names, OF token_order]
    show ?thesis by (rule out)
  qed
qed

text \<open>A server that reads the request's line and headers accepts its signature, unless the names are out of
  order.\<close>

lemma ToHttpRequest_signed:
  assumes "ToHttpRequest cr now b (Some c) q = Some (r, q')" "request_ok q" "\<And>s. sha256 cr s \<noteq> []"
  obtains hs sha u where "unsigned_headers cr now c u q = (hs, sha)" "signable hs"
    "Get ''x-amz-date'' hs = [ToAmzDate (timezone cr) now]"
    "GetFront ''x-amz-content-sha256'' (rq_headers r) = sha"
    "rq_headers r = SignV4 cr ''s3'' (rq_method r) (path (rq_url r)) (q_region q) hs (q_query_params q)
       (access_key c) (secret_key c) sha now"
    "query_string (rq_url r) = GetCanonicalQueryString (q_query_params q)"
proof -
  from assms(1) obtain u hs sha where T: "query_string u = GetCanonicalQueryString (q_query_params q)"
    "unsigned_headers cr now c u q = (hs, sha)" "rq_url r = u" "rq_method r = q_method q"
    "rq_headers r = SignV4 cr ''s3'' (q_method q) (path u) (q_region q) hs (q_query_params q)
             (access_key c) (secret_key c) sha now" by (auto simp: SignV4S3_def elim!: ToHttpRequest_Some)
  note ok = unsigned_headers_ok [OF assms(2,3) T(2)]
  have wf: "mm_wf hs" using ok(1) by (simp add: signable_def)
  obtain a where a: "rq_headers r = Add ''Authorization'' a hs"
    unfolding T(5) using SignV4_adds by blast
  have "GetFront ''x-amz-content-sha256'' (rq_headers r) = sha"
    using ok(3) Get_Add_other [OF wf, of "''x-amz-content-sha256''" "''Authorization''" a]
    unfolding a GetFront_def by simp
  with that [OF T(2) ok(1,2)] T show ?thesis by simp
qed

lemma ToHttpRequest_accepted:
  assumes "ToHttpRequest cr now b (Some c) q = Some (r, q')" "request_ok q" "\<And>s. sha256 cr s \<noteq> []"
    "year_ok (timezone cr) now" "credential_word (access_key c)" "credential_word (q_region q)"
    "secret_of (access_key c) = secret_key c" "session_token c = []" "spelled_in_order (signed_keys q)"
  shows "verify_headers cr secret_of (MethodToString (rq_method r)) (path (rq_url r))
    (query_string (rq_url r)) (rq_headers r) (GetFront ''x-amz-content-sha256'' (rq_headers r))"
proof -
  obtain hs sha u where T: "unsigned_headers cr now c u q = (hs, sha)" "signable hs"
    "Get ''x-amz-date'' hs = [ToAmzDate (timezone cr) now]"
    "GetFront ''x-amz-content-sha256'' (rq_headers r) = sha"
    "rq_headers r = SignV4 cr ''s3'' (rq_method r) (path (rq_url r)) (q_region q) hs (q_query_params q)
       (access_key c) (secret_key c) sha now"
    "query_string (rq_url r) = GetCanonicalQueryString (q_query_params q)"
    using ToHttpRequest_signed [OF assms(1-3)] .
  have "names_in_order hs" using unsigned_headers_order(1) [OF T(1) _ assms(8,9)] T(2) by (simp add: signable_def)
  moreover have s3: "credential_word ''s3''" by (simp add: credential_word_def)
  ultimately show ?thesis
    using SignV4_accepted [OF T(2,3) assms(4,5,6) s3, of secret_of] assms(7) T(4-6) by simp
qed

text \<open>With a session token they are: the credentials of every provider but the static ones.\<close>

lemma ToHttpRequest_refused:
  assumes "ToHttpRequest cr now b (Some c) q = Some (r, q')" "request_ok q" "\<And>s. sha256 cr s \<noteq> []"
    "year_ok (timezone cr) now" "credential_word (access_key c)" "credential_word (q_region q)"
    "secret_of (access_key c) = secret_key c" "session_token c \<noteq> []" "collision_free cr"
  shows "\<not> verify_headers cr secret_of (MethodToString (rq_method r)) (path (rq_url r))
    (query_string (rq_url r)) (rq_headers r) (GetFront ''x-amz-content-sha256'' (rq_headers r))"
proof -
  obtain hs sha u where T: "unsigned_headers cr now c u q = (hs, sha)" "signable hs"
    "Get ''x-amz-date'' hs = [ToAmzDate (timezone cr) now]"
    "GetFront ''x-amz-content-sha256'' (rq_headers r) = sha"
    "rq_headers r = SignV4 cr ''s3'' (rq_method r) (path (rq_url r)) (q_region q) hs (q_query_params q)
       (access_key c) (secret_key c) sha now"
    "query_string (rq_url r) = GetCanonicalQueryString (q_query_params q)"
    using ToHttpRequest_signed [OF assms(1-3)] .
  have "\<not> names_in_order hs" using unsigned_headers_order(2) [OF T(1) _ assms(8)] T(2) by (simp add: signable_def)
  moreover have s3: "credential_word ''s3''" by (simp add: credential_word_def)
  ultimately show ?thesis
    using SignV4_refused [OF T(2,3) assms(4,5,6) s3, of secret_of] assms(7,9) T(4-6) by simp
qed

text \<open>Building a second HTTP request from the same request object, as a retry does, adds to
  the headers of the first: with another time there are two dates.\<close>

definition grows :: "multimap \<Rightarrow> multimap \<Rightarrow> bool" where
  "grows m h \<longleftrightarrow> mm_wf h \<and> (\<forall>k. mm_vals m k \<subseteq> mm_vals h k)"

lemma grows_refl: "mm_wf m \<Longrightarrow> grows m m"
  by (simp add: grows_def)

lemma grows_Add: "grows m h \<Longrightarrow> grows m (Add k v h)"
  unfolding grows_def using mm.wf_add mm.vals_grow by (metis subset_trans)

lemma grows_if: "grows m a \<Longrightarrow> grows m b \<Longrightarrow> grows m (if c then a else b)"
  by simp

lemma grows_SignV4: "grows m h \<Longrightarrow> grows m (SignV4 cr service x uri region h qp ak sk sha date)"
  using SignV4_adds grows_Add by metis

lemma grows_case: "grows m a \<Longrightarrow> (\<And>c. creds = Some c \<Longrightarrow> grows m (f c)) \<Longrightarrow>
    grows m (case creds of None \<Rightarrow> a | Some c \<Rightarrow> f c)"
  by (cases creds) auto

lemmas grows_intros = grows_SignV4 grows_Add grows_if grows_case

lemma base_headers_grow: "mm_wf (q_headers q) \<Longrightarrow> grows (q_headers q) (fst (base_headers cr c u q))"
  unfolding base_headers_def Let_def by (simp only: fst_conv, intro grows_intros grows_refl)

lemma BuildHeaders_grows:
  assumes "mm_wf (q_headers q)"
  shows "grows (q_headers q) (q_headers (BuildHeaders cr now creds u q))"
    "ToAmzDate (timezone cr) now \<in> mm_vals (q_headers (BuildHeaders cr now creds u q)) ''x-amz-date''"
proof -
  obtain hs sha where B: "base_headers cr (creds \<noteq> None) u q = (hs, sha)" by fastforce
  have hs: "grows (q_headers q) hs" using base_headers_grow [OF assms] B by (metis fst_conv)
  let ?d = "Add ''x-amz-date'' (ToAmzDate (timezone cr) now) hs"
  have H: "grows m (q_headers (BuildHeaders cr now creds u q))" if "grows m ?d" for m
    unfolding BuildHeaders_def Let_def SignV4S3_def B prod.case
    using that by (cases creds) (auto intro: grows_intros)
  show "grows (q_headers q) (q_headers (BuildHeaders cr now creds u q))"
    by (intro H grows_Add hs)
  have "mm_wf ?d" using hs by (simp add: grows_def mm_wf_Add)
  from H [OF grows_refl [OF this]]
  have "mm_vals ?d ''x-amz-date'' \<subseteq> mm_vals (q_headers (BuildHeaders cr now creds u q)) ''x-amz-date''"
    unfolding grows_def by blast
  then show "ToAmzDate (timezone cr) now \<in> mm_vals (q_headers (BuildHeaders cr now creds u q)) ''x-amz-date''"
    using hs by (simp add: grows_def mm_vals_Add)
qed

lemma ToHttpRequest_twice:
  assumes "mm_wf (q_headers q)" "ToHttpRequest cr now b creds q = Some (r, q')"
    "ToHttpRequest cr later b creds' q' = Some (r', q'')"
  shows "{ToAmzDate (timezone cr) now, ToAmzDate (timezone cr) later} \<subseteq> mm_vals (rq_headers r') ''x-amz-date''"
proof -
  have one: "\<exists>u. x' = BuildHeaders cr t c u x \<and> rq_headers y = q_headers x'"
    if "ToHttpRequest cr t b c x = Some (y, x')" for t c and x x' :: "'a s3_request" and y
    using that by (auto simp: ToHttpRequest_def Let_def split: prod.splits if_splits)
  obtain u where q': "q' = BuildHeaders cr now creds u q" using one [OF assms(2)] by blast
  obtain u' where r': "q'' = BuildHeaders cr later creds' u' q'" "rq_headers r' = q_headers q''"
    using one [OF assms(3)] by blast
  have wf: "mm_wf (q_headers q')" using BuildHeaders_grows(1) [OF assms(1)] by (simp add: q' grows_def)
  show ?thesis
    using BuildHeaders_grows(2) [OF assms(1), of cr now creds u] BuildHeaders_grows [OF wf, of cr later creds' u']
    unfolding r' q' [symmetric] grows_def by auto
qed

end
