(* ===== verification/Documents.thy ===== *)
theory Documents
  imports Prelude
begin

text \<open>
  XML and JSON documents as the third-party parsers (pugixml, nlohmann::json) give them to the
  code: trees. Which text parses to which tree is a parameter of the models that read documents;
  the queries the code makes on a tree are defined here: \<open>xselect\<close> is \<open>select_nodes\<close> on a relative
  path of element names, \<open>xtext\<close> the value of the first node of \<open>path/text()\<close>, empty when there is
  none, as \<open>select_node(...).node().value()\<close> is. \<open>json_get\<close> reads a member of an object. \<open>xml_text\<close>
  is the text of a tree without whitespace, the way the code prints its request bodies.
\<close>

datatype xnode = XElem string "xnode list" | XText string

fun xkids :: "xnode \<Rightarrow> xnode list" where
  "xkids (XElem n ks) = ks"
| "xkids (XText t) = []"

fun xnamed :: "string \<Rightarrow> xnode \<Rightarrow> bool" where
  "xnamed a (XElem n ks) \<longleftrightarrow> n = a"
| "xnamed a (XText t) \<longleftrightarrow> False"

fun xselect :: "string list \<Rightarrow> xnode list \<Rightarrow> xnode list" where
  "xselect [] ns = []"
| "xselect [a] ns = filter (xnamed a) ns"
| "xselect (a # b # p) ns = xselect (b # p) (concat (map xkids (filter (xnamed a) ns)))"

fun xtexts :: "xnode list \<Rightarrow> string list" where
  "xtexts [] = []"
| "xtexts (XText t # ns) = t # xtexts ns"
| "xtexts (XElem n ks # ns) = xtexts ns"

definition xtext :: "string list \<Rightarrow> xnode list \<Rightarrow> string" where
  "xtext p ns = (case xtexts (concat (map xkids (xselect p ns))) of [] \<Rightarrow> [] | t # _ \<Rightarrow> t)"

text \<open>\<open>select_node(path)\<close> as a condition, and the children of the node it finds.\<close>

definition xhas :: "string list \<Rightarrow> xnode list \<Rightarrow> bool" where
  "xhas p ns \<longleftrightarrow> xselect p ns \<noteq> []"

definition xroot :: "string list \<Rightarrow> xnode list \<Rightarrow> xnode list" where
  "xroot p ns = (case xselect p ns of [] \<Rightarrow> [] | n # _ \<Rightarrow> xkids n)"

subsection \<open>Printing\<close>

definition xopen :: "string \<Rightarrow> string" where
  "xopen n = ''<'' @ n @ ''>''"

definition xclose :: "string \<Rightarrow> string" where
  "xclose n = ''</'' @ n @ ''>''"

text \<open>\<open>ss << "<N>" << body << "</N>"\<close>\<close>

definition xtag :: "string \<Rightarrow> string \<Rightarrow> string" where
  "xtag n body = xopen n @ body @ xclose n"

fun xml_text :: "xnode \<Rightarrow> string" where
  "xml_text (XElem n ks) = xtag n (concat (map xml_text ks))"
| "xml_text (XText t) = t"

text \<open>Text that needs no escape: the code prints most values as they are.\<close>

definition xplain :: "string \<Rightarrow> bool" where
  "xplain s \<longleftrightarrow> s \<noteq> [] \<and> set s \<inter> {CHR ''<'', CHR ''>'', CHR ''&'', CHR 0x0D, CHR 0x00} = {}
     \<and> \<not> set s \<subseteq> {CHR 0x09, CHR 0x0A, CHR 0x20}"

definition xleaf :: "string \<Rightarrow> string \<Rightarrow> xnode" where
  "xleaf n t = XElem n (if t = [] then [] else [XText t])"

lemma xml_text_leaf [simp]: "xml_text (xleaf n t) = xtag n t"
  by (simp add: xleaf_def)

lemma xnamed_leaf [simp]: "xnamed a (xleaf n t) \<longleftrightarrow> n = a"
  by (simp add: xleaf_def)

lemma xkids_leaf: "xkids (xleaf n t) = (if t = [] then [] else [XText t])"
  by (simp add: xleaf_def)

lemma xselect_one [simp]: "xselect [a] ns = filter (xnamed a) ns"
  by simp

lemma xtexts_append [simp]: "xtexts (ms @ ns) = xtexts ms @ xtexts ns"
  by (induction ms rule: xtexts.induct) simp_all

lemma xtext_first_leaf:
  "xtext [a] (xleaf a t # ns) = (if t = [] then xtext [a] ns else t)"
  by (simp add: xtext_def xleaf_def)

lemma xtext_skip_leaf [simp]: "n \<noteq> a \<Longrightarrow> xtext [a] (xleaf n t # ns) = xtext [a] ns"
  by (simp add: xtext_def)

lemma xtext_Nil [simp]: "xtext p [] = []"
proof -
  have "xselect p [] = []" for p by (induction p "[] :: xnode list" rule: xselect.induct) simp_all
  then show ?thesis by (simp add: xtext_def)
qed

lemma xtext_missing:
  "\<not> xhas [a] ns \<Longrightarrow> xtext [a] ns = []"
  by (simp add: xtext_def xhas_def)

subsection \<open>Reading what was printed\<close>

text \<open>
  What the models rely on in an XML parser: the text of a tree of named elements and plain texts
  is read as that tree (\<open>reads_plain\<close>). \<open>read_xml\<close> is a reader that does so; the parameter of a model
  can be instantiated with it.
\<close>

definition name_ok :: "string \<Rightarrow> bool" where
  "name_ok n \<longleftrightarrow> n \<noteq> [] \<and> CHR ''>'' \<notin> set n \<and> CHR 0x00 \<notin> set n \<and> hd n \<noteq> CHR ''/''"

fun text_first :: "xnode list \<Rightarrow> bool" where
  "text_first (XText t # ns) = True"
| "text_first ns = False"

fun xok :: "xnode list \<Rightarrow> bool" where
  "xok [] = True"
| "xok (XText t # ns) \<longleftrightarrow> xplain t \<and> \<not> text_first ns \<and> xok ns"
| "xok (XElem n ks # ns) \<longleftrightarrow> name_ok n \<and> xok ks \<and> xok ns"

definition reads_plain :: "(string \<Rightarrow> xnode list option) \<Rightarrow> bool" where
  "reads_plain xml \<longleftrightarrow> (\<forall>n ks. xok [XElem n ks] \<longrightarrow> xml (xml_text (XElem n ks)) = Some [XElem n ks])"

fun read_nodes :: "nat \<Rightarrow> string \<Rightarrow> (xnode list \<times> string) option" where
  "read_nodes 0 s = None"
| "read_nodes (Suc k) s =
     (if s = [] \<or> is_prefix ''</'' s then Some ([], s)
      else if hd s = CHR ''<'' then
        (let name = takeWhile (\<lambda>c. c \<noteq> CHR ''>'') (tl s) in
         case read_nodes k (drop (length name + 2) s) of
           None \<Rightarrow> None
         | Some (ks, r) \<Rightarrow>
             if is_prefix (xclose name) r then
               (case read_nodes k (drop (length name + 3) r) of
                  None \<Rightarrow> None | Some (ns, r) \<Rightarrow> Some (XElem name ks # ns, r))
             else None)
      else
        (let t = takeWhile (\<lambda>c. c \<noteq> CHR ''<'') s in
         case read_nodes k (drop (length t) s) of
           None \<Rightarrow> None | Some (ns, r) \<Rightarrow> Some (XText t # ns, r)))"

definition read_xml :: "string \<Rightarrow> xnode list option" where
  "read_xml s = (case read_nodes (length s + 1) s of Some (ns, []) \<Rightarrow> Some ns | _ \<Rightarrow> None)"

definition xml_texts :: "xnode list \<Rightarrow> string" where
  "xml_texts ns = concat (map xml_text ns)"

fun xweight :: "xnode list \<Rightarrow> nat" where
  "xweight [] = 1"
| "xweight (XText t # ns) = Suc (xweight ns)"
| "xweight (XElem n ks # ns) = Suc (xweight ks + xweight ns)"

definition at_close :: "string \<Rightarrow> bool" where
  "at_close r \<longleftrightarrow> r = [] \<or> is_prefix ''</'' r"

lemma xweight_le: "xok ns \<Longrightarrow> xweight ns \<le> length (xml_texts ns) + 1"
  by (induction ns rule: xweight.induct) (auto simp: xml_texts_def xtag_def xopen_def xclose_def xplain_def neq_Nil_conv)

lemma takeWhile_stop: "c \<notin> set a \<Longrightarrow> takeWhile (\<lambda>x. x \<noteq> c) (a @ c # b) = a"
  by (induction a) auto

lemma takeWhile_stop_end: "c \<notin> set a \<Longrightarrow> (b = [] \<or> hd b = c) \<Longrightarrow> takeWhile (\<lambda>x. x \<noteq> c) (a @ b) = a"
  by (cases b) (auto simp: takeWhile_stop takeWhile_eq_all_conv)

lemma xml_texts_start:
  "xok ns \<Longrightarrow> \<not> text_first ns \<Longrightarrow> at_close r \<Longrightarrow> xml_texts ns @ r = [] \<or> hd (xml_texts ns @ r) = CHR ''<''"
  by (cases ns rule: text_first.cases) (auto simp: xml_texts_def xtag_def xopen_def at_close_def is_prefix_iff)

lemma read_nodes_close: "at_close r \<Longrightarrow> read_nodes (Suc k) r = Some ([], r)"
  by (auto simp: at_close_def)

lemma read_nodes_ok:
  "xok ns \<Longrightarrow> at_close r \<Longrightarrow> xweight ns \<le> k \<Longrightarrow> read_nodes k (xml_texts ns @ r) = Some (ns, r)"
proof (induction ns arbitrary: k r rule: xweight.induct)
  case 1
  then obtain j where "k = Suc j" by (cases k) auto
  with 1 show ?case by (simp add: xml_texts_def read_nodes_close del: read_nodes.simps)
next
  case (2 t ns)
  then obtain j where k: "k = Suc j" "xweight ns \<le> j" by (cases k) auto
  have t: "t \<noteq> []" "CHR ''<'' \<notin> set t" using 2 by (auto simp: xplain_def)
  have "takeWhile (\<lambda>c. c \<noteq> CHR ''<'') (t @ xml_texts ns @ r) = t"
    using takeWhile_stop_end [OF t(2) xml_texts_start] 2 by simp
  moreover have "hd t \<noteq> CHR ''<''" using t by (metis hd_in_set)
  ultimately show ?case
    using 2 t k by (cases t) (auto simp: xml_texts_def Let_def)
next
  case (3 n ks ns)
  then obtain j where k: "k = Suc j" "xweight ks \<le> j" "xweight ns \<le> j" by (cases k) auto
  have n: "CHR ''>'' \<notin> set n" "n \<noteq> []" "hd n \<noteq> CHR ''/''" using 3 by (auto simp: name_ok_def)
  let ?rest = "xclose n @ xml_texts ns @ r"
  have s: "xml_texts (XElem n ks # ns) @ r = CHR ''<'' # n @ CHR ''>'' # xml_texts ks @ ?rest"
    by (simp add: xml_texts_def xtag_def xopen_def)
  have "at_close ?rest" by (simp add: at_close_def xclose_def)
  with 3 k have "read_nodes j (xml_texts ks @ ?rest) = Some (ks, ?rest)" by simp
  moreover have "read_nodes j (xml_texts ns @ r) = Some (ns, r)" using 3 k by simp
  moreover have "takeWhile (\<lambda>c. c \<noteq> CHR ''>'') (n @ CHR ''>'' # xml_texts ks @ ?rest) = n"
    using n by (simp add: takeWhile_stop)
  moreover have "drop (length n + 3) ?rest = xml_texts ns @ r" by (simp add: xclose_def numeral_3_eq_3)
  moreover have "is_prefix (xclose n) ?rest" by (auto simp: is_prefix_iff)
  moreover have "\<not> is_prefix ''</'' (CHR ''<'' # n @ CHR ''>'' # xml_texts ks @ ?rest)"
    using n by (cases n) auto
  ultimately show ?case unfolding s k by (simp add: Let_def)
qed

lemma reads_plain_read_xml: "reads_plain read_xml"
  unfolding reads_plain_def
proof (intro allI impI)
  fix n ks assume ok: "xok [XElem n ks]"
  have "read_nodes (length (xml_texts [XElem n ks]) + 1) (xml_texts [XElem n ks] @ []) = Some ([XElem n ks], [])"
    using ok xweight_le [OF ok] by (intro read_nodes_ok) (simp_all add: at_close_def)
  then show "read_xml (xml_text (XElem n ks)) = Some [XElem n ks]"
    by (simp add: read_xml_def xml_texts_def)
qed

lemma reads_plainD: "reads_plain xml \<Longrightarrow> xok [XElem n ks] \<Longrightarrow> xml (xml_text (XElem n ks)) = Some [XElem n ks]"
  by (simp add: reads_plain_def)

lemma xml_text_no_nul: "xok ns \<Longrightarrow> CHR 0x00 \<notin> set (xml_texts ns)"
  by (induction ns rule: xweight.induct)
    (auto simp: xml_texts_def xtag_def xopen_def xclose_def xplain_def name_ok_def)

text \<open>A text as the content of an element: empty or plain.\<close>

definition xvalue :: "string \<Rightarrow> bool" where
  "xvalue s \<longleftrightarrow> s = [] \<or> xplain s"

lemma xok_leaf [simp]: "xok (xleaf n t # ns) \<longleftrightarrow> name_ok n \<and> xvalue t \<and> xok ns"
  by (auto simp: xleaf_def xvalue_def)

lemma xok_append_elems: "xok ms \<Longrightarrow> xok ns \<Longrightarrow> \<not> text_first ns \<Longrightarrow> xok (ms @ ns)"
proof (induction ms rule: xok.induct)
  case (2 t ms)
  then show ?case by (cases ms rule: text_first.cases) (auto split: if_splits)
qed auto

subsection \<open>JSON\<close>

datatype json = JString string | JInt int | JBool bool | JArray "json list" | JObject "(string \<times> json) list" | JNull

text \<open>\<open>contains\<close> and \<open>operator[]\<close> on an object; conversion to a string throws on anything else. Numbers are integers: the code reads no other.\<close>

fun json_contains :: "string \<Rightarrow> json \<Rightarrow> bool" where
  "json_contains k (JObject m) \<longleftrightarrow> map_of m k \<noteq> None"
| "json_contains k _ \<longleftrightarrow> False"

fun json_get :: "string \<Rightarrow> json \<Rightarrow> json option" where
  "json_get k (JObject m) = map_of m k"
| "json_get k _ = None"

fun json_string :: "json option \<Rightarrow> string option" where
  "json_string (Some (JString s)) = Some s"
| "json_string _ = None"

text \<open>\<open>json.value(k, d)\<close>: throws on a non-object and on a member of another type.\<close>

fun json_value :: "string \<Rightarrow> string \<Rightarrow> json \<Rightarrow> string option" where
  "json_value k d (JObject m) = (case map_of m k of None \<Rightarrow> Some d | Some v \<Rightarrow> json_string (Some v))"
| "json_value k d _ = None"

end
