(* ===== verification/Types.thy ===== *)
theory Types
  imports Documents UtcTime
begin

section \<open>Request types (src/types.cc, include/miniocpp/types.h)\<close>

text \<open>
  Enumerations with their spellings, and the configurations the client sends as XML. \<open>Prefix\<close>,
  \<open>Integer\<close>, \<open>Boolean\<close> and the filter rules, values with a flag that says whether they are set, are
  options; a \<open>char\<close> that is 0 when unset stays a character; pointers that may be null are options;
  \<open>std::map\<close> is a list sorted by key. The default constructors leave a \<open>RetentionMode\<close>
  uninitialised: \<open>RetentionMode_unset\<close> stands for every value outside the enumeration.
  Functions that end the process on an unknown value return \<open>None\<close>. Values are printed as they are:
  the code does not escape them, except object names to delete.
\<close>

subsection \<open>Enumerations\<close>

datatype retention_mode = kGovernance | kCompliance | RetentionMode_unset

definition StringToRetentionMode :: "string \<Rightarrow> retention_mode option" where
  "StringToRetentionMode s =
     (if s = ''GOVERNANCE'' then Some kGovernance
      else if s = ''COMPLIANCE'' then Some kCompliance else None)"

fun IsRetentionModeValid :: "retention_mode \<Rightarrow> bool" where
  "IsRetentionModeValid kGovernance = True"
| "IsRetentionModeValid kCompliance = True"
| "IsRetentionModeValid RetentionMode_unset = False"

fun RetentionModeToString :: "retention_mode \<Rightarrow> string option" where
  "RetentionModeToString kGovernance = Some ''GOVERNANCE''"
| "RetentionModeToString kCompliance = Some ''COMPLIANCE''"
| "RetentionModeToString RetentionMode_unset = None"

datatype legal_hold = kOn | kOff

definition StringToLegalHold :: "string \<Rightarrow> legal_hold option" where
  "StringToLegalHold s = (if s = ''ON'' then Some kOn else if s = ''OFF'' then Some kOff else None)"

fun LegalHoldToString :: "legal_hold \<Rightarrow> string" where
  "LegalHoldToString kOn = ''ON''"
| "LegalHoldToString kOff = ''OFF''"

datatype directive = kCopy | kReplace

definition StringToDirective :: "string \<Rightarrow> directive option" where
  "StringToDirective s = (if s = ''COPY'' then Some kCopy else if s = ''REPLACE'' then Some kReplace else None)"

fun DirectiveToString :: "directive \<Rightarrow> string" where
  "DirectiveToString kCopy = ''COPY''"
| "DirectiveToString kReplace = ''REPLACE''"

datatype compression_type = kNoCompression | kGZip | kBZip2

fun CompressionTypeToString :: "compression_type \<Rightarrow> string" where
  "CompressionTypeToString kNoCompression = ''NONE''"
| "CompressionTypeToString kGZip = ''GZIP''"
| "CompressionTypeToString kBZip2 = ''BZIP2''"

datatype file_header_info = kUse | kIgnore | kNoInfo

fun FileHeaderInfoToString :: "file_header_info \<Rightarrow> string" where
  "FileHeaderInfoToString kUse = ''USE''"
| "FileHeaderInfoToString kIgnore = ''IGNORE''"
| "FileHeaderInfoToString kNoInfo = ''NONE''"

datatype json_type = kDocument | kLines

fun JsonTypeToString :: "json_type \<Rightarrow> string" where
  "JsonTypeToString kDocument = ''DOCUMENT''"
| "JsonTypeToString kLines = ''LINES''"

datatype quote_fields = kAlways | kAsNeeded

fun QuoteFieldsToString :: "quote_fields \<Rightarrow> string" where
  "QuoteFieldsToString kAlways = ''ALWAYS''"
| "QuoteFieldsToString kAsNeeded = ''ASNEEDED''"

subsection \<open>Pieces of XML\<close>

definition xtag_if :: "bool \<Rightarrow> string \<Rightarrow> string \<Rightarrow> string" where
  "xtag_if c n body = (if c then xtag n body else [])"

text \<open>A tag for a value that may be unset: null pointers, zero characters, options, empty strings.\<close>

definition xtag_opt :: "string \<Rightarrow> string option \<Rightarrow> string" where
  "xtag_opt n v = (case v of None \<Rightarrow> [] | Some t \<Rightarrow> xtag n t)"

definition xtag_char :: "string \<Rightarrow> char \<Rightarrow> string" where
  "xtag_char n c = xtag_if (c \<noteq> CHR 0x00) n [c]"

definition xtag_str :: "string \<Rightarrow> string \<Rightarrow> string" where
  "xtag_str n s = xtag_if (s \<noteq> []) n s"

definition xtag_int :: "string \<Rightarrow> int option \<Rightarrow> string" where
  "xtag_int n v = xtag_opt n (map_option int_to_string v)"

definition tag_xml :: "string \<times> string \<Rightarrow> string" where
  "tag_xml kv = xtag ''Tag'' (xtag ''Key'' (fst kv) @ xtag ''Value'' (snd kv))"

definition status_xml :: "bool \<Rightarrow> string" where
  "status_xml b = xtag ''Status'' (if b then ''Enabled'' else ''Disabled'')"

subsection \<open>Select requests\<close>

record csv_input =
  ci_compression_type :: "compression_type option"
  ci_allow_quoted_record_delimiter :: bool
  ci_comments :: char
  ci_field_delimiter :: char
  ci_file_header_info :: "file_header_info option"
  ci_quote_character :: char
  ci_quote_escape_character :: char
  ci_record_delimiter :: char

record json_input =
  ji_compression_type :: "compression_type option"
  ji_json_type :: "json_type option"

record csv_output =
  co_field_delimiter :: char
  co_quote_character :: char
  co_quote_escape_character :: char
  co_quote_fields :: "quote_fields option"
  co_record_delimiter :: char

record select_request =
  s_expr :: string
  s_csv_input :: "csv_input option"
  s_json_input :: "json_input option"
  s_parquet_input :: bool
  s_csv_output :: "csv_output option"
  s_json_output :: "char option"
  s_request_progress :: bool
  s_scan_start_range :: "u64 option"
  s_scan_end_range :: "u64 option"

definition csv_input_xml :: "csv_input \<Rightarrow> string" where
  "csv_input_xml c =
     xtag_opt ''CompressionType'' (map_option CompressionTypeToString (ci_compression_type c))
     @ xtag ''CSV''
        (xtag_if (ci_allow_quoted_record_delimiter c) ''AllowQuotedRecordDelimiter'' ''true''
         @ xtag_char ''Comments'' (ci_comments c)
         @ xtag_char ''FieldDelimiter'' (ci_field_delimiter c)
         @ xtag_opt ''FileHeaderInfo'' (map_option FileHeaderInfoToString (ci_file_header_info c))
         @ xtag_char ''QuoteCharacter'' (ci_quote_character c)
         @ xtag_char ''RecordDelimiter'' (ci_record_delimiter c))"

definition json_input_xml :: "json_input \<Rightarrow> string" where
  "json_input_xml j =
     xtag_opt ''CompressionType'' (map_option CompressionTypeToString (ji_compression_type j))
     @ xtag ''JSON'' (xtag_opt ''Type'' (map_option JsonTypeToString (ji_json_type j)))"

definition csv_output_xml :: "csv_output \<Rightarrow> string" where
  "csv_output_xml c =
     xtag ''CSV''
       (xtag_char ''FieldDelimiter'' (co_field_delimiter c)
        @ xtag_char ''QuoteCharacter'' (co_quote_character c)
        @ xtag_char ''QuoteEscapeCharacter'' (co_quote_escape_character c)
        @ xtag_opt ''QuoteFields'' (map_option QuoteFieldsToString (co_quote_fields c))
        @ xtag_char ''RecordDelimiter'' (co_record_delimiter c))"

definition opt_xml :: "('a \<Rightarrow> string) \<Rightarrow> 'a option \<Rightarrow> string" where
  "opt_xml f v = (case v of None \<Rightarrow> [] | Some x \<Rightarrow> f x)"

definition range_text :: "u64 option \<Rightarrow> string option" where
  "range_text v = map_option (\<lambda>w. to_string (unat w)) v"

definition SelectRequest_ToXML :: "select_request \<Rightarrow> string" where
  "SelectRequest_ToXML r =
     xtag ''SelectObjectContentRequest''
       (xtag ''Expression'' (s_expr r)
        @ xtag ''ExpressionType'' ''SQL''
        @ xtag ''InputSerialization''
            (opt_xml csv_input_xml (s_csv_input r) @ opt_xml json_input_xml (s_json_input r)
             @ xtag_if (s_parquet_input r) ''Parquet'' [])
        @ xtag ''OutputSerialization''
            (opt_xml csv_output_xml (s_csv_output r)
             @ opt_xml (\<lambda>d. xtag ''JSON'' (xtag_char ''RecordDelimiter'' d)) (s_json_output r))
        @ xtag_if (s_request_progress r) ''RequestProgress'' (xtag ''Enabled'' ''true'')
        @ xtag_if (s_scan_start_range r \<noteq> None \<or> s_scan_end_range r \<noteq> None) ''ScanRange''
            (xtag_opt ''Start'' (range_text (s_scan_start_range r))
             @ xtag_opt ''End'' (range_text (s_scan_end_range r))))"

subsection \<open>Notifications\<close>

record notification_common =
  nc_events :: "string list"
  nc_id :: string
  nc_prefix_filter_rule :: "string option"
  nc_suffix_filter_rule :: "string option"

text \<open>\<open>CloudFuncConfig\<close>, \<open>QueueConfig\<close> and \<open>TopicConfig\<close> add the target.\<close>

record target_config = notification_common +
  nc_target :: string

record notification_config =
  cloud_func_config_list :: "target_config list"
  queue_config_list :: "target_config list"
  topic_config_list :: "target_config list"

definition filter_rule_xml :: "string \<Rightarrow> string option \<Rightarrow> string" where
  "filter_rule_xml name v =
     opt_xml (\<lambda>t. xtag ''FilterRule'' (xtag ''Name'' name @ xtag ''Value'' t)) v"

definition target_config_xml :: "string \<Rightarrow> string \<Rightarrow> target_config \<Rightarrow> string" where
  "target_config_xml outer inner c =
     xtag outer
       (xtag inner (nc_target c)
        @ concat (map (xtag ''Event'') (nc_events c))
        @ xtag_str ''Id'' (nc_id c)
        @ xtag_if (nc_prefix_filter_rule c \<noteq> None \<or> nc_suffix_filter_rule c \<noteq> None) ''Filter''
            (xtag ''S3Key'' (filter_rule_xml ''prefix'' (nc_prefix_filter_rule c)
               @ filter_rule_xml ''suffix'' (nc_suffix_filter_rule c))))"

definition NotificationConfig_ToXML :: "notification_config \<Rightarrow> string" where
  "NotificationConfig_ToXML cfg =
     xtag ''NotificationConfiguration''
       (concat (map (target_config_xml ''CloudFunctionConfiguration'' ''CloudFunction'') (cloud_func_config_list cfg))
        @ concat (map (target_config_xml ''QueueConfiguration'' ''Queue'') (queue_config_list cfg))
        @ concat (map (target_config_xml ''TopicConfiguration'' ''Topic'') (topic_config_list cfg)))"

definition notification_config_empty :: notification_config where
  "notification_config_empty =
     \<lparr>cloud_func_config_list = [], queue_config_list = [], topic_config_list = []\<rparr>"

subsection \<open>Filters\<close>

record and_operator =
  and_prefix :: "string option"
  and_tags :: "(string \<times> string) list"

record rule_filter =
  f_and :: and_operator
  f_prefix :: "string option"
  f_tag :: "string \<times> string"

definition and_operator_bool :: "and_operator \<Rightarrow> bool" where
  "and_operator_bool a \<longleftrightarrow> and_prefix a \<noteq> None \<or> and_tags a \<noteq> []"

text \<open>\<open>static_cast<bool>(and_operator) ^ static_cast<bool>(prefix) ^ static_cast<bool>(tag)\<close>\<close>

definition rule_filter_bool :: "rule_filter \<Rightarrow> bool" where
  "rule_filter_bool f \<longleftrightarrow>
     ((and_operator_bool (f_and f) \<noteq> (f_prefix f \<noteq> None)) \<noteq> (fst (f_tag f) \<noteq> []))"

definition filter_xml :: "rule_filter \<Rightarrow> string" where
  "filter_xml f =
     xtag ''Filter''
       (xtag_if (and_operator_bool (f_and f)) ''And''
          (xtag_opt ''Prefix'' (and_prefix (f_and f)) @ concat (map tag_xml (and_tags (f_and f))))
        @ xtag_opt ''Prefix'' (f_prefix f)
        @ (if fst (f_tag f) \<noteq> [] then tag_xml (f_tag f) else []))"

subsection \<open>Replication\<close>

text \<open>A member with a private flag \<open>enabled_\<close> is an option.\<close>

record destination =
  d_bucket_arn :: string
  d_access_control_translation :: "string option"
  d_account :: string
  d_encryption_config :: "string option"
  d_metrics :: "(u32 \<times> bool) option"
  d_replication_time :: "(u32 \<times> bool) option"
  d_storage_class :: string

record replication_rule =
  rr_destination :: destination
  rr_delete_marker_replication_status :: "bool option"
  rr_existing_object_replication_status :: "bool option"
  rr_filter :: rule_filter
  rr_id :: string
  rr_prefix :: "string option"
  rr_priority :: "int option"
  rr_source_selection_criteria :: "bool option option"
  rr_delete_replication_status :: "bool option"
  rr_status :: bool

record replication_config =
  rc_role :: string
  rc_rules :: "replication_rule list"

definition minutes_xml :: "u32 \<Rightarrow> string" where
  "minutes_xml n = xtag_if (0 < n) ''Minutes'' (to_string (unat n))"

definition destination_xml :: "destination \<Rightarrow> string" where
  "destination_xml d =
     xtag ''Destination''
       (xtag ''Bucket'' (d_bucket_arn d)
        @ opt_xml (\<lambda>owner. xtag ''AccessControlTranslation'' (xtag ''Owner'' owner)) (d_access_control_translation d)
        @ xtag_str ''Account'' (d_account d)
        @ opt_xml (\<lambda>key. xtag ''EncryptionConfiguration'' (xtag_str ''ReplicaKmsKeyID'' key)) (d_encryption_config d)
        @ opt_xml (\<lambda>(n, b). xtag ''Metrics'' (xtag ''EventThreshold'' (minutes_xml n @ status_xml b))) (d_metrics d)
        @ opt_xml (\<lambda>(n, b). xtag ''ReplicationTime'' (xtag ''Time'' (minutes_xml n) @ status_xml b)) (d_replication_time d)
        @ xtag_str ''StorageClass'' (d_storage_class d))"

definition replication_rule_xml :: "replication_rule \<Rightarrow> string" where
  "replication_rule_xml r =
     xtag ''Rule''
       (destination_xml (rr_destination r)
        @ opt_xml (\<lambda>b. xtag ''DeleteMarkerReplication'' (status_xml b)) (rr_delete_marker_replication_status r)
        @ opt_xml (\<lambda>b. xtag ''ExistingObjectReplication'' (status_xml b)) (rr_existing_object_replication_status r)
        @ (if rule_filter_bool (rr_filter r) then filter_xml (rr_filter r) else [])
        @ xtag_str ''ID'' (rr_id r)
        @ xtag_opt ''Prefix'' (rr_prefix r)
        @ xtag_int ''Priority'' (rr_priority r)
        @ opt_xml (\<lambda>s. xtag ''SourceSelectionCriteria''
            (opt_xml (\<lambda>b. xtag ''SseKmsEncryptedObjects'' (status_xml b)) s)) (rr_source_selection_criteria r)
        @ opt_xml (\<lambda>b. xtag ''DeleteReplication'' (status_xml b)) (rr_delete_replication_status r)
        @ status_xml (rr_status r))"

definition ReplicationConfig_ToXML :: "replication_config \<Rightarrow> string" where
  "ReplicationConfig_ToXML c =
     xtag ''ReplicationConfiguration''
       (xtag_str ''Role'' (rc_role c) @ concat (map replication_rule_xml (rc_rules c)))"

subsection \<open>Life cycles\<close>

record lifecycle_rule =
  lr_abort_days :: "int option"
  lr_expiration_date :: utc_time
  lr_expiration_days :: "int option"
  lr_expired_object_delete_marker :: "bool option"
  lr_filter :: rule_filter
  lr_id :: string
  lr_noncurrent_expiration_days :: "int option"
  lr_noncurrent_transition_days :: "int option"
  lr_noncurrent_transition_storage_class :: string
  lr_status :: bool
  lr_transition_date :: utc_time
  lr_transition_days :: "int option"
  lr_transition_storage_class :: string

definition LifecycleRule_Validate :: "lifecycle_rule \<Rightarrow> error" where
  "LifecycleRule_Validate r =
     (if lr_abort_days r = None \<and> \<not> utc_bool (lr_expiration_date r) \<and> lr_expiration_days r = None
         \<and> lr_expired_object_delete_marker r = None \<and> lr_noncurrent_expiration_days r = None
         \<and> lr_noncurrent_transition_storage_class r = [] \<and> \<not> utc_bool (lr_transition_date r)
         \<and> lr_transition_days r = None \<and> lr_transition_storage_class r = [] then
        ''at least one of action (AbortIncompleteMultipartUpload, Expiration, NoncurrentVersionExpiration, NoncurrentVersionTransition or Transition) must be specified in a rule''
      else if \<not> rule_filter_bool (lr_filter r) then ''valid filter must be provided''
      else
        let err = (if lr_expired_object_delete_marker r \<noteq> None then
              (if utc_bool (lr_expiration_date r) \<or> lr_expiration_days r \<noteq> None then
                 ''ExpiredObjectDeleteMarker must not be provided along with Date and Days'' else SUCCESS)
            else if utc_bool (lr_expiration_date r) \<and> lr_expiration_days r \<noteq> None then
              ''only one of date or days of expiration must be set'' else SUCCESS)
        in if is_err err then err
           else if utc_bool (lr_transition_date r) \<and> lr_transition_days r \<noteq> None then
             ''only one of date and days of transition must be set''
           else if 255 < length (lr_id r) then ''id must be exceed 255 characters''
           else SUCCESS)"

definition lifecycle_rule_xml :: "int \<Rightarrow> lifecycle_rule \<Rightarrow> string" where
  "lifecycle_rule_xml tz r =
     xtag ''Rule''
       (opt_xml (\<lambda>n. xtag ''AbortIncompleteMultipartUpload'' (xtag ''DaysAfterInitiation'' (int_to_string n))) (lr_abort_days r)
        @ xtag_if (utc_bool (lr_expiration_date r) \<or> lr_expiration_days r \<noteq> None
              \<or> lr_expired_object_delete_marker r \<noteq> None) ''Expiration''
            (xtag_if (utc_bool (lr_expiration_date r)) ''Date'' (ToISO8601UTC tz (lr_expiration_date r))
             @ xtag_int ''Days'' (lr_expiration_days r)
             @ xtag_opt ''ExpiredObjectDeleteMarker''
                 (map_option (\<lambda>b. if b then ''true'' else ''false'') (lr_expired_object_delete_marker r)))
        @ filter_xml (lr_filter r)
        @ xtag_str ''ID'' (lr_id r)
        @ opt_xml (\<lambda>n. xtag ''NoncurrentVersionExpiration'' (xtag ''NoncurrentDays'' (int_to_string n)))
            (lr_noncurrent_expiration_days r)
        @ xtag_if (lr_noncurrent_transition_days r \<noteq> None \<or> lr_noncurrent_transition_storage_class r \<noteq> [])
            ''NoncurrentVersionTransition''
            (xtag_int ''NoncurrentDays'' (lr_noncurrent_transition_days r)
             @ xtag_str ''StorageClass'' (lr_noncurrent_transition_storage_class r))
        @ status_xml (lr_status r)
        @ xtag_if (utc_bool (lr_transition_date r) \<or> lr_transition_days r \<noteq> None
              \<or> lr_transition_storage_class r \<noteq> []) ''Transition''
            (xtag_if (utc_bool (lr_transition_date r)) ''Date'' (ToISO8601UTC tz (lr_transition_date r))
             @ xtag_int ''Days'' (lr_transition_days r)
             @ xtag_str ''StorageClass'' (lr_transition_storage_class r)))"

definition LifecycleConfig_ToXML :: "int \<Rightarrow> lifecycle_rule list \<Rightarrow> string" where
  "LifecycleConfig_ToXML tz rules = xtag ''LifecycleConfiguration'' (concat (map (lifecycle_rule_xml tz) rules))"

subsection \<open>Object locking, encryption\<close>

record object_lock_config =
  olc_retention_mode :: retention_mode
  olc_retention_duration_days :: "int option"
  olc_retention_duration_years :: "int option"

definition ObjectLockConfig_Validate :: "object_lock_config \<Rightarrow> error" where
  "ObjectLockConfig_Validate c =
     (if IsRetentionModeValid (olc_retention_mode c) then
        (if \<not> ((olc_retention_duration_days c \<noteq> None) \<noteq> (olc_retention_duration_years c \<noteq> None)) then
           ''retention mode must be provided with retention duration days or years''
         else SUCCESS)
      else if olc_retention_duration_days c \<noteq> None \<or> olc_retention_duration_years c \<noteq> None then
        ''retention duration days or years must be provided with retention mode''
      else SUCCESS)"

record sse_config =
  sse_algorithm :: string
  kms_master_key_id :: string

definition SseConfig_S3 :: sse_config where
  "SseConfig_S3 = \<lparr>sse_algorithm = ''AES256'', kms_master_key_id = []\<rparr>"

definition SseConfig_Kms :: "string \<Rightarrow> sse_config" where
  "SseConfig_Kms masterkeyid = \<lparr>sse_algorithm = ''aws:kms'', kms_master_key_id = masterkeyid\<rparr>"

definition SseConfig_bool :: "sse_config \<Rightarrow> bool" where
  "SseConfig_bool c \<longleftrightarrow> sse_algorithm c \<noteq> []"

record part =
  part_number :: u32
  part_etag :: string
  part_checksum_crc64nvme :: string

record retention =
  ret_mode :: retention_mode
  retain_until_date :: utc_time

record delete_object =
  do_name :: string
  do_version_id :: string

lemma retention_mode_round_trip:
  "RetentionModeToString m = Some s \<Longrightarrow> StringToRetentionMode s = Some m"
  by (cases m) (auto simp: StringToRetentionMode_def)

end
