(* ===== verification/Responses.thy ===== *)
theory Responses
  imports Types BucketName Http
begin

section \<open>Responses and their XML (src/response.cc, include/miniocpp/response.h)\<close>

text \<open>
  The answers of the server. Where the code parses XML, the parser is the parameter \<open>xml\<close>, the
  tree of a text, and the queries are those of Documents; \<open>load_string\<close> sees the text up to its
  first NUL, \<open>load_buffer\<close> all of it. \<open>None\<close> is an end the caller does not see as a value: an
  exception of \<open>std::stoul\<close>, \<open>std::terminate\<close> in \<open>StringToBool\<close>, or undefined behaviour (a date that
  does not parse, a \<open>bool\<close> that was never set). The text views of \<open>ListObjectsResponse\<close> into its own
  document are the strings they show.
\<close>

type_synonym 'a outcome = "(error + 'a) option"

type_synonym xml_reader = "string \<Rightarrow> xnode list option"

definition load_string :: "xml_reader \<Rightarrow> string \<Rightarrow> xnode list option" where
  "load_string xml s = xml (c_str s)"

subsection \<open>Response\<close>

record response =
  rs_status_code :: int
  rs_headers :: multimap
  rs_data :: string
  rs_code :: string
  rs_message :: string
  rs_resource :: string
  rs_request_id :: string
  rs_host_id :: string
  rs_bucket_name :: string
  rs_object_name :: string
  rs_etag :: string

definition Response_new :: response where
  "Response_new = \<lparr>rs_status_code = 0, rs_headers = mm_empty, rs_data = [], rs_code = [], rs_message = [],
     rs_resource = [], rs_request_id = [], rs_host_id = [], rs_bucket_name = [], rs_object_name = [],
     rs_etag = []\<rparr>"

definition Response_ParseXML :: "xml_reader \<Rightarrow> string \<Rightarrow> int \<Rightarrow> multimap \<Rightarrow> error + response" where
  "Response_ParseXML xml data status hs =
     (case xml data of
        None \<Rightarrow> Inl (''unable to parse XML; '' @ data)
      | Some doc \<Rightarrow>
          let root = xroot [''Error''] doc
          in Inr (Response_new\<lparr>rs_status_code := status, rs_headers := hs,
               rs_code := xtext [''Code''] root, rs_message := xtext [''Message''] root,
               rs_resource := xtext [''Resource''] root, rs_request_id := xtext [''RequestId''] root,
               rs_host_id := xtext [''HostId''] root, rs_bucket_name := xtext [''BucketName''] root,
               rs_object_name := xtext [''Key''] root\<rparr>))"

subsection \<open>Buckets\<close>

record bucket =
  bk_name :: string
  bk_creation_date :: utc_time

text \<open>A step that may fail for every element of a list.\<close>

fun map_opt :: "('a \<Rightarrow> 'b option) \<Rightarrow> 'a list \<Rightarrow> 'b list option" where
  "map_opt f [] = Some []"
| "map_opt f (x # xs) =
     (case f x of None \<Rightarrow> None
      | Some y \<Rightarrow> (case map_opt f xs of None \<Rightarrow> None | Some ys \<Rightarrow> Some (y # ys)))"

definition parse_bucket :: "int \<Rightarrow> xnode \<Rightarrow> bucket option" where
  "parse_bucket tz n =
     (let ks = xkids n; d = xtext [''CreationDate''] ks in
      map_option (\<lambda>t. \<lparr>bk_name = xtext [''Name''] ks, bk_creation_date = t\<rparr>)
        (if d = [] then Some utc_default else FromISO8601UTC tz d))"

definition ListBucketsResponse_ParseXML :: "int \<Rightarrow> xml_reader \<Rightarrow> string \<Rightarrow> bucket list outcome" where
  "ListBucketsResponse_ParseXML tz xml data =
     (case xml data of
        None \<Rightarrow> Some (Inl ''unable to parse XML'')
      | Some doc \<Rightarrow> map_option Inr
          (map_opt (parse_bucket tz) (xselect [''ListAllMyBucketsResult'', ''Buckets'', ''Bucket''] doc)))"

subsection \<open>Uploads\<close>

text \<open>The fields that \<open>CompleteMultipartUploadResponse\<close> and \<open>PutObjectResponse\<close> both have.\<close>

record put_object_response =
  po_base :: response
  po_etag :: string
  po_version_id :: string
  po_checksumCRC32 :: string
  po_checksumCRC32C :: string
  po_checksumSHA1 :: string
  po_checksumSHA256 :: string
  po_checksum_crc64nvme :: string

record complete_multipart_upload_response = put_object_response +
  cm_location :: string

definition put_object_response_of :: "response \<Rightarrow> put_object_response" where
  "put_object_response_of r = \<lparr>po_base = r, po_etag = [], po_version_id = [], po_checksumCRC32 = [],
     po_checksumCRC32C = [], po_checksumSHA1 = [], po_checksumSHA256 = [], po_checksum_crc64nvme = []\<rparr>"

text \<open>\<open>PutObjectResponse(const CompleteMultipartUploadResponse&)\<close>: the ETag and the version only.\<close>

definition put_of_complete :: "complete_multipart_upload_response \<Rightarrow> put_object_response" where
  "put_of_complete c = (put_object_response_of (po_base c))\<lparr>po_etag := po_etag c, po_version_id := po_version_id c\<rparr>"

definition CompleteMultipartUploadResponse_ParseXML ::
  "xml_reader \<Rightarrow> string \<Rightarrow> string \<Rightarrow> error + complete_multipart_upload_response" where
  "CompleteMultipartUploadResponse_ParseXML xml data version_id =
     (case xml data of
        None \<Rightarrow> Inl ''unable to parse XML''
      | Some doc \<Rightarrow>
          let root = xroot [''CompleteMultipartUploadResult''] doc
          in Inr \<lparr>po_base = Response_new\<lparr>rs_bucket_name := xtext [''Bucket''] root,
                 rs_object_name := xtext [''Key''] root\<rparr>,
               po_etag = Trim (xtext [''ETag''] root) (CHR 0x22), po_version_id = version_id,
               po_checksumCRC32 = xtext [''ChecksumCRC32''] root,
               po_checksumCRC32C = xtext [''ChecksumCRC32''] root,
               po_checksumSHA1 = xtext [''ChecksumSHA1''] root,
               po_checksumSHA256 = xtext [''ChecksumSHA256''] root,
               po_checksum_crc64nvme = [], cm_location = xtext [''Location''] root\<rparr>)"

subsection \<open>Listings\<close>

record item =
  it_etag :: string
  it_name :: string
  it_last_modified :: utc_time
  it_owner_id :: string
  it_owner_name :: string
  it_size :: u64
  it_storage_class :: string
  it_is_latest :: bool
  it_version_id :: string
  it_user_metadata :: "(string \<times> string) list"
  it_is_prefix :: bool
  it_is_delete_marker :: bool

definition item_new :: item where
  "item_new = \<lparr>it_etag = [], it_name = [], it_last_modified = utc_default, it_owner_id = [],
     it_owner_name = [], it_size = 0, it_storage_class = [], it_is_latest = False, it_version_id = [],
     it_user_metadata = [], it_is_prefix = False, it_is_delete_marker = False\<rparr>"

text \<open>\<open>is_truncated\<close>, \<open>max_keys\<close> and \<open>key_count\<close> have no initializer.\<close>

record list_objects_response =
  lo_name :: string
  lo_encoding_type :: string
  lo_prefix :: string
  lo_delimiter :: string
  lo_is_truncated :: "bool option"
  lo_max_keys :: "u32 option"
  lo_contents :: "item list"
  lo_marker :: string
  lo_next_marker :: string
  lo_key_count :: "u32 option"
  lo_start_after :: string
  lo_continuation_token :: string
  lo_next_continuation_token :: string
  lo_key_marker :: string
  lo_next_key_marker :: string
  lo_version_id_marker :: string
  lo_next_version_id_marker :: string

text \<open>\<open>std::stoul\<close> and \<open>std::stoull\<close> on 64 bits: blanks, a sign that wraps, digits; anything else
  behind them is ignored.\<close>

definition stoul :: "string \<Rightarrow> u64 option" where
  "stoul v =
     (let s = dropWhile is_space v;
          neg = (s \<noteq> [] \<and> hd s = CHR ''-'');
          s = (if s \<noteq> [] \<and> (hd s = CHR ''-'' \<or> hd s = CHR ''+'') then tl s else s);
          ds = takeWhile is_digit s;
          n = digits_val 0 ds
      in if ds = [] \<or> 2 ^ 64 \<le> n then None
         else Some (if neg then - word_of_nat n else word_of_nat n))"

text \<open>\<open>if (!value.empty()) x = f(value)\<close> on a member that starts as \<open>d\<close>.\<close>

definition set_from :: "string \<Rightarrow> 'a \<Rightarrow> (string \<Rightarrow> 'a option) \<Rightarrow> 'a option" where
  "set_from v d f = (if v = [] then Some d else f v)"

definition unescaped :: "string \<Rightarrow> string \<Rightarrow> string" where
  "unescaped encoding_type raw = (if encoding_type = ''url'' then UriDecode raw else raw)"

fun xname :: "xnode \<Rightarrow> string" where
  "xname (XElem n ks) = n"
| "xname (XText t) = []"

definition child_value :: "xnode \<Rightarrow> string" where
  "child_value n = (case xtexts (xkids n) of [] \<Rightarrow> [] | t # _ \<Rightarrow> t)"

definition parse_metadata :: "xnode list \<Rightarrow> (string \<times> string) list" where
  "parse_metadata ns = foldl (\<lambda>m n. smap_put (xname n) (child_value n) m) [] ns"

definition parse_item :: "int \<Rightarrow> string \<Rightarrow> bool \<Rightarrow> xnode \<Rightarrow> item option" where
  "parse_item tz encoding_type is_delete_marker n =
     (let ks = xkids n in
      case (FromISO8601UTC tz (xtext [''LastModified''] ks),
            set_from (xtext [''Size''] ks) 0 stoul,
            set_from (xtext [''IsLatest''] ks) False StringToBool) of
        (Some t, Some n, Some latest) \<Rightarrow>
          Some \<lparr>it_etag = Trim (xtext [''ETag''] ks) (CHR 0x22),
                it_name = unescaped encoding_type (xtext [''Key''] ks), it_last_modified = t,
                it_owner_id = xtext [''Owner'', ''ID''] ks, it_owner_name = xtext [''Owner'', ''DisplayName''] ks,
                it_size = n, it_storage_class = xtext [''StorageClass''] ks, it_is_latest = latest,
                it_version_id = xtext [''VersionId''] ks,
                it_user_metadata = parse_metadata (xroot [''UserMetadata''] ks),
                it_is_prefix = False, it_is_delete_marker = is_delete_marker\<rparr>
      | _ \<Rightarrow> None)"

definition prefix_item :: "string \<Rightarrow> xnode \<Rightarrow> item" where
  "prefix_item encoding_type n =
     item_new\<lparr>it_name := unescaped encoding_type (xtext [''Prefix''] (xkids n)), it_is_prefix := True\<rparr>"

text \<open>The scalar members, in the order of the code.\<close>

definition parse_list_header :: "xnode list \<Rightarrow> list_objects_response option" where
  "parse_list_header root =
     (let enc = xtext [''EncodingType''] root;
          url = (\<lambda>e. unescaped enc (xtext [e] root))
      in case (set_from (xtext [''IsTruncated''] root) None (\<lambda>v. map_option Some (StringToBool v)),
               set_from (xtext [''MaxKeys''] root) None (\<lambda>v. map_option (\<lambda>w. Some (ucast w)) (stoul v)),
               set_from (xtext [''KeyCount''] root) None (\<lambda>v. map_option (\<lambda>w. Some (ucast w)) (stoul v))) of
           (Some truncated, Some max_keys, Some key_count) \<Rightarrow>
             Some \<lparr>lo_name = xtext [''Name''] root, lo_encoding_type = enc, lo_prefix = url ''Prefix'',
               lo_delimiter = xtext [''Delimiter''] root, lo_is_truncated = truncated,
               lo_max_keys = max_keys, lo_contents = [], lo_marker = url ''Marker'',
               lo_next_marker = url ''NextMarker'', lo_key_count = key_count,
               lo_start_after = url ''StartAfter'', lo_continuation_token = xtext [''ContinuationToken''] root,
               lo_next_continuation_token = xtext [''NextContinuationToken''] root,
               lo_key_marker = url ''KeyMarker'', lo_next_key_marker = url ''NextKeyMarker'',
               lo_version_id_marker = xtext [''VersionIdMarker''] root,
               lo_next_version_id_marker = xtext [''NextVersionIdMarker''] root\<rparr>
         | _ \<Rightarrow> None)"

definition ListObjectsResponse_ParseXML :: "int \<Rightarrow> xml_reader \<Rightarrow> string \<Rightarrow> bool \<Rightarrow> list_objects_response outcome" where
  "ListObjectsResponse_ParseXML tz xml data version =
     (case xml data of
        None \<Rightarrow> Some (Inl ''unable to parse XML'')
      | Some doc \<Rightarrow>
          (let root = xroot [if version then ''ListVersionsResult'' else ''ListBucketResult''] doc in
           case parse_list_header root of
             None \<Rightarrow> None
           | Some resp \<Rightarrow>
               (let enc = lo_encoding_type resp in
                case (map_opt (parse_item tz enc False) (xselect [if version then ''Version'' else ''Contents''] root),
                      lo_is_truncated resp, map_opt (parse_item tz enc True) (xselect [''DeleteMarker''] root)) of
                  (Some contents, Some truncated, Some deleted) \<Rightarrow>
                    let last_name = (if contents = [] then [] else it_name (last contents));
                        resp = (if truncated \<and> lo_next_marker resp = [] then resp\<lparr>lo_next_marker := last_name\<rparr> else resp)
                    in Some (Inr (resp\<lparr>lo_contents := contents @ map (prefix_item enc) (xselect [''CommonPrefixes''] root)
                         @ deleted\<rparr>))
                | _ \<Rightarrow> None)))"

subsection \<open>Removed objects\<close>

record deleted_object =
  dl_name :: string
  dl_version_id :: string
  dl_delete_marker :: bool
  dl_delete_marker_version_id :: string

record delete_error =
  de_object_name :: string
  de_version_id :: string
  de_code :: string
  de_message :: string

record remove_objects_response =
  ro_objects :: "deleted_object list"
  ro_errors :: "delete_error list"

definition parse_deleted :: "xnode \<Rightarrow> deleted_object option" where
  "parse_deleted n =
     (let ks = xkids n in
      map_option (\<lambda>m. \<lparr>dl_name = xtext [''Key''] ks, dl_version_id = xtext [''VersionId''] ks,
          dl_delete_marker = m, dl_delete_marker_version_id = xtext [''DeleteMarkerVersionId''] ks\<rparr>)
        (set_from (xtext [''DeleteMarker''] ks) False StringToBool))"

definition parse_delete_error :: "xnode \<Rightarrow> delete_error" where
  "parse_delete_error n =
     (let ks = xkids n in
      \<lparr>de_object_name = xtext [''Key''] ks, de_version_id = xtext [''VersionId''] ks,
       de_code = xtext [''Code''] ks, de_message = xtext [''Message''] ks\<rparr>)"

definition RemoveObjectsResponse_ParseXML :: "xml_reader \<Rightarrow> string \<Rightarrow> remove_objects_response outcome" where
  "RemoveObjectsResponse_ParseXML xml data =
     (case xml data of
        None \<Rightarrow> Some (Inl ''unable to parse XML'')
      | Some doc \<Rightarrow>
          (let root = xroot [''DeleteResult''] doc in
           map_option (\<lambda>ds. Inr \<lparr>ro_objects = ds, ro_errors = map parse_delete_error (xselect [''Error''] root)\<rparr>)
             (map_opt parse_deleted (xselect [''Deleted''] root))))"

subsection \<open>Bucket settings\<close>

text \<open>\<open>event.node().value()\<close> is the value of an element node, which has none.\<close>

fun node_value :: "xnode \<Rightarrow> string" where
  "node_value (XElem n ks) = []"
| "node_value (XText t) = t"

definition apply_filter :: "notification_common \<Rightarrow> xnode \<Rightarrow> notification_common" where
  "apply_filter c n =
     (let ks = xkids n in
      if xtext [''Name''] ks = ''prefix'' then c\<lparr>nc_prefix_filter_rule := Some (xtext [''Value''] ks)\<rparr>
      else c\<lparr>nc_suffix_filter_rule := Some (xtext [''Value''] ks)\<rparr>)"

definition parse_notification_common :: "xnode list \<Rightarrow> notification_common" where
  "parse_notification_common ks =
     (let c = \<lparr>nc_events = map node_value (xselect [''Event''] ks), nc_id = xtext [''Id''] ks,
            nc_prefix_filter_rule = None, nc_suffix_filter_rule = None\<rparr>
      in if xhas [''Filter''] ks then foldl apply_filter c (xselect [''Filter'', ''S3Key'', ''FilterRule''] ks) else c)"

definition parse_target_config :: "string \<Rightarrow> xnode \<Rightarrow> target_config" where
  "parse_target_config inner n =
     (let ks = xkids n; c = parse_notification_common ks in
      \<lparr>nc_events = nc_events c, nc_id = nc_id c, nc_prefix_filter_rule = nc_prefix_filter_rule c,
       nc_suffix_filter_rule = nc_suffix_filter_rule c, nc_target = xtext [inner] ks\<rparr>)"

definition GetBucketNotificationResponse_ParseXML :: "xml_reader \<Rightarrow> string \<Rightarrow> error + notification_config" where
  "GetBucketNotificationResponse_ParseXML xml data =
     (case xml data of
        None \<Rightarrow> Inl ''unable to parse XML''
      | Some doc \<Rightarrow>
          let root = xroot [''NotificationConfiguration''] doc
          in Inr \<lparr>cloud_func_config_list =
                    map (parse_target_config ''CloudFunction'') (xselect [''CloudFunctionConfiguration''] root),
                  queue_config_list = map (parse_target_config ''Queue'') (xselect [''QueueConfiguration''] root),
                  topic_config_list = map (parse_target_config ''Topic'') (xselect [''TopicConfiguration''] root)\<rparr>)"

definition GetBucketEncryptionResponse_ParseXML :: "xml_reader \<Rightarrow> string \<Rightarrow> error + sse_config" where
  "GetBucketEncryptionResponse_ParseXML xml data =
     (case xml data of
        None \<Rightarrow> Inl ''unable to parse XML''
      | Some doc \<Rightarrow>
          let root = xroot [''ServerSideEncryptionConfiguration'', ''Rule'', ''ApplyServerSideEncryptionByDefault''] doc
          in Inr \<lparr>sse_algorithm = xtext [''SSEAlgorithm''] root, kms_master_key_id = xtext [''KMSMasterKeyID''] root\<rparr>)"

definition parse_tags :: "xnode list \<Rightarrow> (string \<times> string) list" where
  "parse_tags ns = foldl (\<lambda>m n. smap_put (xtext [''Key''] (xkids n)) (xtext [''Value''] (xkids n)) m) [] ns"

definition GetBucketTagsResponse_ParseXML :: "xml_reader \<Rightarrow> string \<Rightarrow> error + (string \<times> string) list" where
  "GetBucketTagsResponse_ParseXML xml data =
     (case xml data of
        None \<Rightarrow> Inl ''unable to parse XML''
      | Some doc \<Rightarrow> Inr (parse_tags (xselect [''Tagging'', ''TagSet'', ''Tag''] doc)))"

definition GetObjectTagsResponse_ParseXML :: "xml_reader \<Rightarrow> string \<Rightarrow> error + (string \<times> string) list" where
  "GetObjectTagsResponse_ParseXML xml data =
     (case xml data of
        None \<Rightarrow> Inl ''unable to parse XML''
      | Some doc \<Rightarrow> Inr (parse_tags (xselect [''Tagging'', ''TagSet'', ''Tag''] doc)))"

subsection \<open>Life cycle and replication rules\<close>

text \<open>The tags of \<open>And\<close> are looked for below the root, and each is read from \<open>filter\<close> itself.\<close>

definition parse_and_tags :: "xnode list \<Rightarrow> xnode list \<Rightarrow> (string \<times> string) list" where
  "parse_and_tags root fks =
     (if xhas [''And'', ''Tag''] fks then
        foldl (\<lambda>m tag. smap_put (xtext [''Key''] fks) (xtext [''Value''] fks) m) [] (xselect [''And'', ''Tag''] root)
      else [])"

definition text_if :: "string list \<Rightarrow> xnode list \<Rightarrow> string option" where
  "text_if p ks = (if xhas p ks then Some (xtext p ks) else None)"

text \<open>\<open>fks\<close> are the children of \<open>Filter\<close>, none when there is no such element.\<close>

definition parse_rule_filter :: "xnode list \<Rightarrow> xnode list \<Rightarrow> rule_filter" where
  "parse_rule_filter root fks =
     \<lparr>f_and = (if xhas [''And''] fks then
          \<lparr>and_prefix = text_if [''And'', ''Prefix''] fks, and_tags = parse_and_tags root fks\<rparr>
        else \<lparr>and_prefix = None, and_tags = []\<rparr>),
      f_prefix = text_if [''Prefix''] fks,
      f_tag = (if xhas [''Tag''] fks then (xtext [''Tag'', ''Key''] fks, xtext [''Tag'', ''Value''] fks) else ([], []))\<rparr>"

text \<open>A member set only when the element \<open>p\<close> is there, from a text that may not convert.\<close>

definition set_if :: "bool \<Rightarrow> 'a option \<Rightarrow> 'a option option" where
  "set_if c v = (if c then map_option Some v else Some None)"

definition stoi_opt :: "string \<Rightarrow> int option" where
  "stoi_opt v = (case stoi v of Stoi n \<Rightarrow> Some n | _ \<Rightarrow> None)"

definition enabled_if :: "string \<Rightarrow> xnode list \<Rightarrow> bool option" where
  "enabled_if e ks = (if xhas [e] ks then Some (xtext [e, ''Status''] ks = ''Enabled'') else None)"

definition minutes_of :: "string list \<Rightarrow> xnode list \<Rightarrow> u32 option" where
  "minutes_of p ks = map_option ucast (stoul (xtext p ks))"

definition parse_destination :: "xnode list \<Rightarrow> destination option" where
  "parse_destination ks =
     (case (set_if (xhas [''Metrics''] ks)
              (map_option (\<lambda>n. (n, xtext [''Metrics'', ''EventThreshold'', ''Status''] ks = ''Enabled''))
                (minutes_of [''Metrics'', ''EventThreshold'', ''Minutes''] ks)),
            set_if (xhas [''ReplicationTime''] ks)
              (map_option (\<lambda>n. (n, xtext [''ReplicationTime'', ''Status''] ks = ''Enabled''))
                (minutes_of [''ReplicationTime'', ''Time''] ks))) of
        (Some metrics, Some time) \<Rightarrow>
          Some \<lparr>d_bucket_arn = xtext [''Bucket''] ks,
            d_access_control_translation = (if xhas [''AccessControlTranslation''] ks
              then Some (xtext [''AccessControlTranslation'', ''Owner''] ks) else None),
            d_account = xtext [''Account''] ks,
            d_encryption_config = (if xhas [''EncryptionConfiguration''] ks
              then Some (xtext [''EncryptionConfiguration'', ''ReplicaKmsKeyID''] ks) else None),
            d_metrics = metrics, d_replication_time = time, d_storage_class = xtext [''StorageClass''] ks\<rparr>
      | _ \<Rightarrow> None)"

definition parse_replication_rule :: "xnode list \<Rightarrow> xnode \<Rightarrow> replication_rule option" where
  "parse_replication_rule root n =
     (let ks = xkids n in
      case (parse_destination (xroot [''Destination''] ks),
            set_if (xhas [''Priority''] ks) (stoi_opt (xtext [''Priority''] ks))) of
        (Some d, Some priority) \<Rightarrow>
          Some \<lparr>rr_destination = d,
            rr_delete_marker_replication_status = enabled_if ''DeleteMarkerReplication'' ks,
            rr_existing_object_replication_status = enabled_if ''ExistingObjectReplication'' ks,
            rr_filter = parse_rule_filter root (xroot [''Filter''] ks),
            rr_id = xtext [''ID''] ks, rr_prefix = text_if [''Prefix''] ks, rr_priority = priority,
            rr_source_selection_criteria =
              (if xhas [''SourceSelectionCriteria''] ks then
                 Some (if xhas [''SourceSelectionCriteria'', ''SseKmsEncryptedObjects''] ks then
                   Some (xtext [''SourceSelectionCriteria'', ''SseKmsEncryptedObjects'', ''Status''] ks = ''Enabled'')
                   else None)
               else None),
            rr_delete_replication_status = enabled_if ''DeleteReplication'' ks,
            rr_status = (xtext [''Status''] ks = ''Enabled'')\<rparr>
      | _ \<Rightarrow> None)"

definition GetBucketReplicationResponse_ParseXML :: "xml_reader \<Rightarrow> string \<Rightarrow> replication_config outcome" where
  "GetBucketReplicationResponse_ParseXML xml data =
     (case xml data of
        None \<Rightarrow> Some (Inl ''unable to parse XML'')
      | Some doc \<Rightarrow>
          (let root = xroot [''ReplicationConfiguration''] doc in
           map_option (\<lambda>rules. Inr \<lparr>rc_role = xtext [''Role''] root, rc_rules = rules\<rparr>)
             (map_opt (parse_replication_rule root) (xselect [''Rule''] root))))"

text \<open>\<open>BoolToString\<close> is given a pointer, which is true, and its result, again a pointer, is
  converted to a \<open>Boolean\<close>: the marker is true whatever the text.\<close>

definition parse_lifecycle_rule :: "int \<Rightarrow> xnode list \<Rightarrow> xnode \<Rightarrow> lifecycle_rule option" where
  "parse_lifecycle_rule tz root n =
     (let ks = xkids n;
          num = (\<lambda>e m. set_if (xhas [e] ks \<and> xhas [e, m] ks) (stoi_opt (xtext [e, m] ks)));
          must = (\<lambda>e m. set_if (xhas [e] ks) (stoi_opt (xtext [e, m] ks)));
          date = (\<lambda>e. if xhas [e, ''Date''] ks then FromISO8601UTC tz (xtext [e, ''Date''] ks) else Some utc_default)
      in case (must ''AbortIncompleteMultipartUpload'' ''DaysAfterInitiation'',
               date ''Expiration'', num ''Expiration'' ''Days'',
               must ''NoncurrentVersionExpiration'' ''NoncurrentDays'',
               must ''NoncurrentVersionTransition'' ''NoncurrentDays'',
               date ''Transition'', num ''Transition'' ''Days'') of
           (Some abort, Some edate, Some edays, Some nexp, Some ntrans, Some tdate, Some tdays) \<Rightarrow>
             Some \<lparr>lr_abort_days = abort, lr_expiration_date = edate, lr_expiration_days = edays,
               lr_expired_object_delete_marker =
                 (if xhas [''Expiration'', ''ExpiredObjectDeleteMarker''] ks then Some True else None),
               lr_filter = parse_rule_filter root (xroot [''Filter''] ks), lr_id = xtext [''ID''] ks,
               lr_noncurrent_expiration_days = nexp, lr_noncurrent_transition_days = ntrans,
               lr_noncurrent_transition_storage_class = xtext [''NoncurrentVersionTransition'', ''StorageClass''] ks,
               lr_status = (xtext [''Status''] ks = ''Enabled''),
               lr_transition_date = tdate, lr_transition_days = tdays,
               lr_transition_storage_class = xtext [''Transition'', ''StorageClass''] ks\<rparr>
         | _ \<Rightarrow> None)"

definition GetBucketLifecycleResponse_ParseXML :: "int \<Rightarrow> xml_reader \<Rightarrow> string \<Rightarrow> lifecycle_rule list outcome" where
  "GetBucketLifecycleResponse_ParseXML tz xml data =
     (case xml data of
        None \<Rightarrow> Some (Inl ''unable to parse XML'')
      | Some doc \<Rightarrow>
          (let root = xroot [''LifecycleConfiguration''] doc in
           map_option Inr (map_opt (parse_lifecycle_rule tz root) (xselect [''Rule''] root))))"

subsection \<open>Settings of objects and buckets\<close>

definition enabled_at :: "string \<Rightarrow> xnode list \<Rightarrow> bool option" where
  "enabled_at e ks = (if xhas [e] ks then Some (xtext [e] ks = ''Enabled'') else None)"

text \<open>Status and MFA delete, as \<open>BaseClient::GetBucketVersioning\<close> reads them.\<close>

definition parse_versioning :: "xml_reader \<Rightarrow> string \<Rightarrow> error + bool option \<times> bool option" where
  "parse_versioning xml data =
     (case load_string xml data of
        None \<Rightarrow> Inl ''unable to parse XML''
      | Some doc \<Rightarrow>
          let root = xroot [''VersioningConfiguration''] doc
          in Inr (enabled_at ''Status'' root, enabled_at ''MFADelete'' root))"

text \<open>The rule of \<open>BaseClient::GetObjectLockConfig\<close>. Without one, the mode was never set.\<close>

definition parse_object_lock :: "xml_reader \<Rightarrow> string \<Rightarrow> object_lock_config outcome" where
  "parse_object_lock xml data =
     (case load_string xml data of
        None \<Rightarrow> Some (Inl ''unable to parse XML'')
      | Some doc \<Rightarrow>
          if \<not> xhas [''ObjectLockConfiguration'', ''Rule''] doc then
            Some (Inr \<lparr>olc_retention_mode = RetentionMode_unset, olc_retention_duration_days = None,
              olc_retention_duration_years = None\<rparr>)
          else
            (let ks = xroot [''ObjectLockConfiguration'', ''Rule''] doc;
                 num = (\<lambda>e. set_if (xhas [''DefaultRetention'', e] ks) (stoi_opt (xtext [''DefaultRetention'', e] ks)))
             in case (StringToRetentionMode (xtext [''DefaultRetention'', ''Mode''] ks), num ''Days'', num ''Years'') of
                  (Some m, Some days, Some years) \<Rightarrow>
                    Some (Inr \<lparr>olc_retention_mode = m, olc_retention_duration_days = days,
                      olc_retention_duration_years = years\<rparr>)
                | _ \<Rightarrow> None))"

definition parse_retention :: "int \<Rightarrow> xml_reader \<Rightarrow> string \<Rightarrow> retention outcome" where
  "parse_retention tz xml data =
     (case load_string xml data of
        None \<Rightarrow> Some (Inl ''unable to parse XML'')
      | Some doc \<Rightarrow>
          (case (StringToRetentionMode (xtext [''Retention'', ''Mode''] doc),
                 FromISO8601UTC tz (xtext [''Retention'', ''RetainUntilDate''] doc)) of
             (Some m, Some t) \<Rightarrow> Some (Inr \<lparr>ret_mode = m, retain_until_date = t\<rparr>)
           | _ \<Rightarrow> None))"

subsection \<open>Errors have a message\<close>

lemma parse_result_error [simp]:
  "Response_ParseXML xml data status hs \<noteq> Inl []"
  "CompleteMultipartUploadResponse_ParseXML xml data v \<noteq> Inl []"
  "GetBucketNotificationResponse_ParseXML xml data \<noteq> Inl []"
  "GetBucketEncryptionResponse_ParseXML xml data \<noteq> Inl []"
  "GetBucketTagsResponse_ParseXML xml data \<noteq> Inl []"
  "GetObjectTagsResponse_ParseXML xml data \<noteq> Inl []"
  "parse_versioning xml data \<noteq> Inl []"
  by (simp_all add: Response_ParseXML_def CompleteMultipartUploadResponse_ParseXML_def
      GetBucketNotificationResponse_ParseXML_def GetBucketEncryptionResponse_ParseXML_def
      GetBucketTagsResponse_ParseXML_def GetObjectTagsResponse_ParseXML_def parse_versioning_def
      Let_def split: option.splits)

lemma parse_outcome_error [simp]:
  "ListBucketsResponse_ParseXML tz xml data \<noteq> Some (Inl [])"
  "RemoveObjectsResponse_ParseXML xml data \<noteq> Some (Inl [])"
  "GetBucketReplicationResponse_ParseXML xml data \<noteq> Some (Inl [])"
  "GetBucketLifecycleResponse_ParseXML tz xml data \<noteq> Some (Inl [])"
  "ListObjectsResponse_ParseXML tz xml data version \<noteq> Some (Inl [])"
  "parse_object_lock xml data \<noteq> Some (Inl [])"
  "parse_retention tz xml data \<noteq> Some (Inl [])"
  by (auto simp: ListBucketsResponse_ParseXML_def RemoveObjectsResponse_ParseXML_def
      GetBucketReplicationResponse_ParseXML_def GetBucketLifecycleResponse_ParseXML_def
      ListObjectsResponse_ParseXML_def parse_object_lock_def parse_retention_def
      Let_def split: option.splits)

end
