(* ===== verification/Args.thy ===== *)
theory Args
  imports Types BucketName Multimap PartInfo Signer
begin

section \<open>Arguments of the API calls (src/args.cc, src/sse.cc and their headers)\<close>

text \<open>
  The structs of arguments with their \<open>Validate\<close> functions, the headers they turn into, and the
  POST policy. Inheritance is record extension. Null function pointers and buffers are options;
  a C++ \<open>std::filesystem\<close> query is a parameter. A pointer to an \<open>Sse\<close> object is the object's value.
\<close>

subsection \<open>Server-side encryption\<close>

text \<open>The class of the object is \<open>sse_is_customer_key\<close>: a \<open>dynamic_cast\<close> asks for that one only.\<close>

record sse =
  sse_headers :: multimap
  sse_copy_headers :: multimap
  sse_tls_required :: bool
  sse_is_customer_key :: bool

definition SseCustomerKey_new :: "crypto \<Rightarrow> string \<Rightarrow> sse" where
  "SseCustomerKey_new cr key =
     (let b64key = base64 cr key; md5key = md5_base64 cr key;
          hs = Add ''X-Amz-Server-Side-Encryption-Customer-Algorithm'' ''AES256'' mm_empty;
          hs = Add ''X-Amz-Server-Side-Encryption-Customer-Key'' b64key hs;
          hs = Add ''X-Amz-Server-Side-Encryption-Customer-Key-MD5'' md5key hs;
          cs = Add ''X-Amz-Copy-Source-Server-Side-Encryption-Customer-Algorithm'' ''AES256'' mm_empty;
          cs = Add ''X-Amz-Copy-Source-Server-Side-Encryption-Customer-Key'' b64key cs;
          cs = Add ''X-Amz-Copy-Source-Server-Side-Encryption-Customer-Key-MD5'' md5key cs
      in \<lparr>sse_headers = hs, sse_copy_headers = cs, sse_tls_required = True,
        sse_is_customer_key = True\<rparr>)"

definition SseKms_new :: "crypto \<Rightarrow> string \<Rightarrow> string \<Rightarrow> sse" where
  "SseKms_new cr key ctx =
     (let hs = Add ''X-Amz-Server-Side-Encryption-Aws-Kms-Key-Id'' key mm_empty;
          hs = Add ''X-Amz-Server-Side-Encryption'' ''aws:kms'' hs;
          hs = (if ctx \<noteq> [] then Add ''X-Amz-Server-Side-Encryption-Context'' (base64 cr ctx) hs else hs)
      in \<lparr>sse_headers = hs, sse_copy_headers = mm_empty, sse_tls_required = True,
        sse_is_customer_key = False\<rparr>)"

definition SseS3_new :: sse where
  "SseS3_new = \<lparr>sse_headers = Add ''X-Amz-Server-Side-Encryption'' ''AES256'' mm_empty,
     sse_copy_headers = mm_empty, sse_tls_required = False, sse_is_customer_key = False\<rparr>"

subsection \<open>The common structs\<close>

record base_args =
  a_extra_headers :: multimap
  a_extra_query_params :: multimap

record bucket_args = base_args +
  a_bucket :: string
  a_region :: string

record object_args = bucket_args +
  a_object :: string

record object_write_args = object_args +
  a_headers :: multimap
  a_user_metadata :: multimap
  a_sse :: "sse option"
  a_tags :: "(string \<times> string) list"
  a_retention :: "retention option"
  a_legal_hold :: bool

record object_version_args = object_args +
  a_version_id :: string

record object_read_args = object_version_args +
  a_ssec :: "sse option"

record object_conditional_read_args = object_read_args +
  a_offset :: "u64 option"
  a_length :: "u64 option"
  a_match_etag :: string
  a_not_match_etag :: string
  a_modified_since :: utc_time
  a_unmodified_since :: utc_time

definition BucketArgs_Validate :: "'a bucket_args_scheme \<Rightarrow> error" where
  "BucketArgs_Validate a = CheckBucketName (a_bucket a) False"

definition ObjectArgs_Validate :: "'a object_args_scheme \<Rightarrow> error" where
  "ObjectArgs_Validate a =
     err_then (BucketArgs_Validate a)
       (if \<not> CheckNonEmptyString (a_object a) then ''object name cannot be empty'' else SUCCESS)"

text \<open>The \<open>x-amz-tagging\<close> value; the accumulated string is the loop's.\<close>

fun tagging_loop :: "string \<Rightarrow> (string \<times> string) list \<Rightarrow> string" where
  "tagging_loop tagging [] = tagging"
| "tagging_loop tagging ((k, v) # ts) =
     (let tag = UriEncode k @ ''='' @ UriEncode v in
      tagging_loop ((if tagging \<noteq> [] then tagging @ ''&'' else tagging) @ tag) ts)"

text \<open>\<open>None\<close>: \<open>RetentionModeToString\<close> ends the process.\<close>

definition ObjectWriteArgs_Headers :: "int \<Rightarrow> 'a object_write_args_scheme \<Rightarrow> multimap option" where
  "ObjectWriteArgs_Headers tz a =
     (let hs = AddAll (a_extra_headers a) mm_empty;
          hs = AddAll (a_headers a) hs;
          hs = AddAll (a_user_metadata a) hs;
          hs = (case a_sse a of None \<Rightarrow> hs | Some s \<Rightarrow> AddAll (sse_headers s) hs);
          tagging = tagging_loop [] (a_tags a);
          hs = (if tagging \<noteq> [] then Add ''x-amz-tagging'' tagging hs else hs);
          hold = (\<lambda>hs. if a_legal_hold a then Add ''x-amz-object-lock-legal-hold'' ''ON'' hs else hs)
      in case a_retention a of
           None \<Rightarrow> Some (hold hs)
         | Some r \<Rightarrow>
             (case RetentionModeToString (ret_mode r) of
                None \<Rightarrow> None
              | Some m \<Rightarrow>
                  let hs = Add ''x-amz-object-lock-mode'' m hs;
                      hs = Add ''x-amz-object-lock-retain-until-date'' (ToISO8601UTC tz (retain_until_date r)) hs
                  in Some (hold hs)))"

definition range_value :: "u64 option \<Rightarrow> u64 option \<Rightarrow> string" where
  "range_value offset len =
     (let off = (if len \<noteq> None \<and> offset = None then Some 0 else offset) in
      case off of
        None \<Rightarrow> []
      | Some off \<Rightarrow>
          ''bytes='' @ to_string (unat off) @ ''-''
            @ (case len of None \<Rightarrow> [] | Some len \<Rightarrow> to_string (unat (off + len - 1))))"

definition Add_nonempty :: "string \<Rightarrow> string \<Rightarrow> multimap \<Rightarrow> multimap" where
  "Add_nonempty k v m = (if v \<noteq> [] then Add k v m else m)"

definition Add_date :: "int \<Rightarrow> string \<Rightarrow> utc_time \<Rightarrow> multimap \<Rightarrow> multimap" where
  "Add_date tz k t m = (if utc_bool t then Add k (ToHttpHeaderValue tz t) m else m)"

definition ObjectConditionalReadArgs_Headers :: "int \<Rightarrow> 'a object_conditional_read_args_scheme \<Rightarrow> multimap" where
  "ObjectConditionalReadArgs_Headers tz a =
     (let hs = Add_nonempty ''Range'' (range_value (a_offset a) (a_length a)) mm_empty;
          hs = Add_nonempty ''if-match'' (a_match_etag a) hs;
          hs = Add_nonempty ''if-none-match'' (a_not_match_etag a) hs;
          hs = Add_date tz ''if-modified-since'' (a_modified_since a) hs;
          hs = Add_date tz ''if-unmodified-since'' (a_unmodified_since a) hs
      in case a_ssec a of None \<Rightarrow> hs | Some s \<Rightarrow> AddAll (sse_headers s) hs)"

definition copy_source :: "'a object_version_args_scheme \<Rightarrow> string" where
  "copy_source a =
     UriEncode (''/'' @ a_bucket a @ ''/'' @ a_object a)
       @ (if a_version_id a \<noteq> [] then ''?versionId='' @ UriEncode (a_version_id a) else [])"

definition ObjectConditionalReadArgs_CopyHeaders :: "int \<Rightarrow> 'a object_conditional_read_args_scheme \<Rightarrow> multimap" where
  "ObjectConditionalReadArgs_CopyHeaders tz a =
     (let hs = Add ''x-amz-copy-source'' (copy_source a) mm_empty;
          hs = (case a_ssec a of None \<Rightarrow> hs | Some s \<Rightarrow> AddAll (sse_copy_headers s) hs);
          hs = Add_nonempty ''x-amz-copy-source-if-match'' (a_match_etag a) hs;
          hs = Add_nonempty ''x-amz-copy-source-if-none-match'' (a_not_match_etag a) hs;
          hs = Add_date tz ''x-amz-copy-source-if-modified-since'' (a_modified_since a) hs
      in Add_date tz ''x-amz-copy-source-if-unmodified-since'' (a_unmodified_since a) hs)"

subsection \<open>One struct per call\<close>

record make_bucket_args = bucket_args +
  a_object_lock :: bool

definition MakeBucketArgs_Validate :: "make_bucket_args \<Rightarrow> error" where
  "MakeBucketArgs_Validate a = CheckBucketName (a_bucket a) True"

record upload_id_args = object_args +
  a_upload_id :: string

type_synonym abort_multipart_upload_args = upload_id_args

definition upload_id_check :: "string \<Rightarrow> error" where
  "upload_id_check i = (if \<not> CheckNonEmptyString i then ''upload ID cannot be empty'' else SUCCESS)"

definition AbortMultipartUploadArgs_Validate :: "abort_multipart_upload_args \<Rightarrow> error" where
  "AbortMultipartUploadArgs_Validate a = err_then (ObjectArgs_Validate a) (upload_id_check (a_upload_id a))"

record complete_multipart_upload_args = upload_id_args +
  a_parts :: "part list"

definition CompleteMultipartUploadArgs_Validate :: "complete_multipart_upload_args \<Rightarrow> error" where
  "CompleteMultipartUploadArgs_Validate a =
     err_then (ObjectArgs_Validate a) (upload_id_check (a_upload_id a))"

record create_multipart_upload_args = object_args +
  a_create_headers :: multimap

record put_object_base_args = object_write_args +
  a_object_size :: "u64 option"
  a_part_size :: u64
  a_part_count :: "u64 option"
  a_content_type :: string

record put_object_api_args = put_object_base_args +
  a_data :: string
  a_query_params :: multimap

record upload_part_args = object_write_args +
  a_part_upload_id :: string
  a_part_number :: u32
  a_part_data :: string

definition part_number_check :: "u32 \<Rightarrow> error" where
  "part_number_check n =
     (if n < 1 \<or> 10000 < n then ''part number must be between 1 and 10000'' else SUCCESS)"

definition UploadPartArgs_Validate :: "upload_part_args \<Rightarrow> error" where
  "UploadPartArgs_Validate a =
     err_then (ObjectArgs_Validate a)
       (err_then (upload_id_check (a_part_upload_id a)) (part_number_check (a_part_number a)))"

text \<open>\<open>UploadPartCopyArgs\<close> declares a second member \<open>headers\<close>, which hides the inherited one.\<close>

record upload_part_copy_args = object_write_args +
  a_copy_upload_id :: string
  a_copy_part_number :: u32
  a_copy_headers :: multimap

definition UploadPartCopyArgs_Validate :: "upload_part_copy_args \<Rightarrow> error" where
  "UploadPartCopyArgs_Validate a =
     err_then (ObjectArgs_Validate a)
       (err_then (upload_id_check (a_copy_upload_id a)) (part_number_check (a_copy_part_number a)))"

text \<open>Files: \<open>exists\<close> and \<open>file_size\<close> report an error text, or what they find.\<close>

record file_system =
  fs_exists :: "string \<Rightarrow> error + bool"
  fs_size :: "string \<Rightarrow> (error + u64) option"

record download_object_args = object_read_args +
  a_filename :: string
  a_overwrite :: bool

definition DownloadObjectArgs_Validate :: "file_system \<Rightarrow> download_object_args \<Rightarrow> error" where
  "DownloadObjectArgs_Validate fs a =
     err_then (ObjectArgs_Validate a)
       (if \<not> CheckNonEmptyString (a_filename a) then ''filename cannot be empty''
        else if a_overwrite a then SUCCESS
        else case fs_exists fs (a_filename a) of
          Inl ec \<Rightarrow> ''unable to check '' @ a_filename a @ '': '' @ ec
        | Inr True \<Rightarrow> ''file '' @ a_filename a @ '' already exists''
        | Inr False \<Rightarrow> SUCCESS)"

text \<open>A data function with the state \<open>'s\<close> behind it, or a buffer (with or without a size).\<close>

record 's get_object_args = object_conditional_read_args +
  a_datafunc :: "'s data_function option"
  a_buf :: "u64 option option"

definition GetObjectArgs_Validate :: "'s get_object_args \<Rightarrow> error" where
  "GetObjectArgs_Validate a =
     err_then (ObjectArgs_Validate a)
       (if (a_datafunc a \<noteq> None) = (a_buf a \<noteq> None) then ''exactly one of datafunc or buf must be set''
        else if a_buf a = Some None then ''size must be set when buf is set''
        else SUCCESS)"

record list_objects_args = bucket_args +
  l_delimiter :: string
  l_use_url_encoding_type :: bool
  l_marker :: string
  l_start_after :: string
  l_key_marker :: string
  l_max_keys :: u32
  l_prefix :: string
  l_continuation_token :: string
  l_fetch_owner :: bool
  l_version_id_marker :: string
  l_include_user_metadata :: bool
  l_recursive :: bool
  l_use_api_v1 :: bool
  l_include_versions :: bool

record list_objects_common_args = bucket_args +
  c_delimiter :: string
  c_encoding_type :: string
  c_max_keys :: u32
  c_prefix :: string

record list_objects_v1_args = list_objects_common_args +
  v1_marker :: string

record list_objects_v2_args = list_objects_common_args +
  v2_start_after :: string
  v2_continuation_token :: string
  v2_fetch_owner :: bool
  v2_include_user_metadata :: bool

record list_object_versions_args = list_objects_common_args +
  lv_key_marker :: string
  lv_version_id_marker :: string

definition ListObjectsV1Args_of :: "list_objects_args \<Rightarrow> list_objects_v1_args" where
  "ListObjectsV1Args_of a =
     \<lparr>a_extra_headers = a_extra_headers a, a_extra_query_params = a_extra_query_params a,
      a_bucket = a_bucket a, a_region = a_region a, c_delimiter = l_delimiter a,
      c_encoding_type = (if l_use_url_encoding_type a then ''url'' else []),
      c_max_keys = l_max_keys a, c_prefix = l_prefix a, v1_marker = l_marker a\<rparr>"

definition ListObjectsV2Args_of :: "list_objects_args \<Rightarrow> list_objects_v2_args" where
  "ListObjectsV2Args_of a =
     \<lparr>a_extra_headers = a_extra_headers a, a_extra_query_params = a_extra_query_params a,
      a_bucket = a_bucket a, a_region = a_region a, c_delimiter = l_delimiter a,
      c_encoding_type = (if l_use_url_encoding_type a then ''url'' else []),
      c_max_keys = l_max_keys a, c_prefix = l_prefix a, v2_start_after = l_start_after a,
      v2_continuation_token = l_continuation_token a, v2_fetch_owner = l_fetch_owner a,
      v2_include_user_metadata = l_include_user_metadata a\<rparr>"

definition ListObjectVersionsArgs_of :: "list_objects_args \<Rightarrow> list_object_versions_args" where
  "ListObjectVersionsArgs_of a =
     \<lparr>a_extra_headers = a_extra_headers a, a_extra_query_params = a_extra_query_params a,
      a_bucket = a_bucket a, a_region = a_region a, c_delimiter = l_delimiter a,
      c_encoding_type = (if l_use_url_encoding_type a then ''url'' else []),
      c_max_keys = l_max_keys a, c_prefix = l_prefix a, lv_key_marker = l_key_marker a,
      lv_version_id_marker = l_version_id_marker a\<rparr>"

subsection \<open>Uploads, copies, removal\<close>

text \<open>\<open>stream\<close> and \<open>buf\<close> are the bytes behind them; a stream may be set to throw at a short read
  (\<open>exceptions(failbit)\<close>). The size of a buffer may be unset. \<open>Validate\<close>
  fills in sizes and the part plan, so it returns the arguments too.\<close>

record istream =
  is_bytes :: string
  is_throws :: bool

record put_object_args = put_object_base_args +
  a_stream :: "istream option"
  a_put_buf :: "string option"
  a_size :: "u64 option"
  a_checksum_crc64nvme :: string
  a_max_inflight_parts :: "u32 option"

definition plan_parts :: "'a put_object_base_args_scheme \<Rightarrow> error \<times> 'a put_object_base_args_scheme" where
  "plan_parts a =
     (case CalcPartInfo (a_object_size a) (a_part_size a) (a_part_count a) of
        (err, psize, pcount) \<Rightarrow> (err, a\<lparr>a_part_size := psize, a_part_count := pcount\<rparr>))"

definition PutObjectArgs_Validate :: "put_object_args \<Rightarrow> error \<times> put_object_args" where
  "PutObjectArgs_Validate a =
     (let err = ObjectArgs_Validate a;
          has_stream = (a_stream a \<noteq> None);
          has_buf = (a_put_buf a \<noteq> None)
      in if is_err err then (err, a)
         else if has_stream = has_buf then (''exactly one of stream or buf must be set'', a)
         else if has_buf \<and> a_size a = None then (''size must be set when buf is set'', a)
         else
           let a = (if has_buf \<and> a_object_size a = None then a\<lparr>a_object_size := a_size a\<rparr> else a)
           in if a_max_inflight_parts a = Some 0 then
                (''max_inflight_parts must be greater than 0'', a)
              else plan_parts a)"

record copy_object_args = object_write_args +
  a_source :: object_conditional_read_args
  a_metadata_directive :: "directive option"
  a_tagging_directive :: "directive option"

definition CopyObjectArgs_Validate :: "copy_object_args \<Rightarrow> error" where
  "CopyObjectArgs_Validate a =
     err_then (ObjectArgs_Validate a) (err_then (ObjectArgs_Validate (a_source a))
       (if a_offset (a_source a) \<noteq> None \<or> a_length (a_source a) \<noteq> None then
          (if a_metadata_directive a = Some kCopy then
             ''COPY metadata directive is not applicable to source object with range''
           else if a_tagging_directive a = Some kCopy then
             ''COPY tagging directive is not applicable to source object with range''
           else SUCCESS)
        else SUCCESS))"

record compose_source = object_conditional_read_args +
  cs_object_size :: "u64 option"
  cs_headers :: multimap

text \<open>The sum of offset and length is computed on 64 bits.\<close>

definition source_text :: "'a object_version_args_scheme \<Rightarrow> string" where
  "source_text a = ''source '' @ a_bucket a @ ''/'' @ a_object a
     @ (if a_version_id a \<noteq> [] then ''?versionId='' @ a_version_id a else []) @ '': ''"

definition ComposeSource_BuildHeaders :: "int \<Rightarrow> compose_source \<Rightarrow> u64 \<Rightarrow> string \<Rightarrow> error \<times> compose_source" where
  "ComposeSource_BuildHeaders tz a osize etag =
     (let n = (\<lambda>w. to_string (unat (w :: u64)));
          off = (case a_offset a of None \<Rightarrow> 0 | Some off \<Rightarrow> off);
          err = (case a_offset a of
              Some off \<Rightarrow> if osize \<le> off then
                  source_text a @ ''offset '' @ n off @ '' is beyond object size '' @ n osize else SUCCESS
            | None \<Rightarrow> SUCCESS);
          err = err_then err (case a_length a of
              Some len \<Rightarrow>
                if osize < len then
                  source_text a @ ''length '' @ n len @ '' is beyond object size '' @ n osize
                else if osize < off + len then
                  source_text a @ ''compose size '' @ n (off + len) @ '' is beyond object size '' @ n osize
                else SUCCESS
            | None \<Rightarrow> SUCCESS)
      in if is_err err then (err, a)
         else
           let hs = ObjectConditionalReadArgs_CopyHeaders tz a;
               hs = (if mm_Contains ''x-amz-copy-source-if-match'' hs then hs
                     else Add ''x-amz-copy-source-if-match'' etag hs)
           in (SUCCESS, a\<lparr>cs_object_size := Some osize, cs_headers := hs\<rparr>))"

text \<open>\<open>None\<close>: the process ends, \<open>BuildHeaders\<close> was not called.\<close>

definition ComposeSource_ObjectSize :: "compose_source \<Rightarrow> u64 option" where
  "ComposeSource_ObjectSize a = cs_object_size a"

definition ComposeSource_Headers :: "compose_source \<Rightarrow> multimap option" where
  "ComposeSource_Headers a = (if mm_bool (cs_headers a) then Some (cs_headers a) else None)"

record compose_object_args = object_write_args +
  a_sources :: "compose_source list"

fun validate_sources :: "nat \<Rightarrow> compose_source list \<Rightarrow> error" where
  "validate_sources i [] = SUCCESS"
| "validate_sources i (s # ss) =
     (let err = ObjectArgs_Validate s in
      if is_err err then ''source '' @ to_string i @ '': '' @ err else validate_sources (Suc i) ss)"

definition ComposeObjectArgs_Validate :: "compose_object_args \<Rightarrow> error" where
  "ComposeObjectArgs_Validate a =
     err_then (ObjectArgs_Validate a)
       (if a_sources a = [] then ''compose sources cannot be empty'' else validate_sources 1 (a_sources a))"

record upload_object_args = put_object_base_args +
  a_upload_filename :: string

definition UploadObjectArgs_Validate :: "file_system \<Rightarrow> upload_object_args \<Rightarrow> error \<times> upload_object_args" where
  "UploadObjectArgs_Validate fs a =
     (let err = err_then (ObjectArgs_Validate a)
            (if \<not> CheckNonEmptyString (a_upload_filename a) then ''filename cannot be empty'' else SUCCESS)
      in if is_err err then (err, a)
         else case fs_size fs (a_upload_filename a) of
           None \<Rightarrow> (''file '' @ a_upload_filename a @ '' does not exist'', a)
         | Some (Inl ec) \<Rightarrow> (''unable to stat '' @ a_upload_filename a @ '': '' @ ec, a)
         | Some (Inr n) \<Rightarrow> plan_parts (a\<lparr>a_object_size := Some n\<rparr>))"

record remove_objects_api_args = bucket_args +
  a_bypass_governance_mode :: bool
  a_quiet :: bool
  a_objects :: "delete_object list"

text \<open>The function that yields the objects to delete, as the list it yields.\<close>

record remove_objects_args = bucket_args +
  a_bypass :: bool
  a_delete_objects :: "delete_object list option"

definition RemoveObjectsArgs_Validate :: "remove_objects_args \<Rightarrow> error" where
  "RemoveObjectsArgs_Validate a =
     err_then (BucketArgs_Validate a)
       (if a_delete_objects a = None then ''delete object function must be set'' else SUCCESS)"

subsection \<open>Select, notification, bucket settings\<close>

record select_object_content_args = object_read_args +
  a_request :: select_request
  a_has_resultfunc :: bool

definition count_set :: "bool list \<Rightarrow> nat" where
  "count_set bs = length (filter (\<lambda>b. b) bs)"

definition SelectObjectContentArgs_Validate :: "select_object_content_args \<Rightarrow> error" where
  "SelectObjectContentArgs_Validate a =
     (let r = a_request a in
      err_then (ObjectArgs_Validate a)
        (if \<not> CheckNonEmptyString (s_expr r) then ''SQL expression must not be empty''
         else if count_set [s_csv_input r \<noteq> None, s_json_input r \<noteq> None, s_parquet_input r] \<noteq> 1 then
           ''One of CSV, JSON or Parquet input serialization must be set''
         else if \<not> ((s_csv_output r \<noteq> None) \<noteq> (s_json_output r \<noteq> None)) then
           ''One of CSV or JSON output serialization must be set''
         else if \<not> a_has_resultfunc a then ''result function must be set''
         else SUCCESS))"

record listen_bucket_notification_args = bucket_args +
  a_prefix :: string
  a_suffix :: string
  a_events :: "string list"
  a_has_func :: bool

definition ListenBucketNotificationArgs_Validate :: "listen_bucket_notification_args \<Rightarrow> error" where
  "ListenBucketNotificationArgs_Validate a =
     err_then (BucketArgs_Validate a)
       (if \<not> a_has_func a then ''notification records function must be set'' else SUCCESS)"

record set_bucket_policy_args = bucket_args +
  a_policy :: string

definition SetBucketPolicyArgs_Validate :: "set_bucket_policy_args \<Rightarrow> error" where
  "SetBucketPolicyArgs_Validate a =
     err_then (BucketArgs_Validate a)
       (if \<not> CheckNonEmptyString (a_policy a) then ''bucket policy cannot be empty'' else SUCCESS)"

record set_bucket_notification_args = bucket_args +
  a_notification_config :: notification_config

record set_bucket_encryption_args = bucket_args +
  a_sse_config :: sse_config

definition SetBucketEncryptionArgs_Validate :: "set_bucket_encryption_args \<Rightarrow> error" where
  "SetBucketEncryptionArgs_Validate a =
     err_then (BucketArgs_Validate a)
       (if \<not> SseConfig_bool (a_sse_config a) then ''bucket encryption configuration cannot be empty'' else SUCCESS)"

record set_bucket_versioning_args = bucket_args +
  a_status :: "bool option"
  a_mfa_delete :: "bool option"

definition SetBucketVersioningArgs_Validate :: "set_bucket_versioning_args \<Rightarrow> error" where
  "SetBucketVersioningArgs_Validate a =
     err_then (BucketArgs_Validate a) (if a_status a = None then ''versioning status must be set'' else SUCCESS)"

record set_bucket_replication_args = bucket_args +
  a_replication_config :: replication_config

record set_bucket_lifecycle_args = bucket_args +
  a_lifecycle_rules :: "lifecycle_rule list"

record set_bucket_tags_args = bucket_args +
  a_bucket_tags :: "(string \<times> string) list"

text \<open>The loop over the tags of \<open>SetBucketTagsArgs::Validate\<close> and \<open>SetObjectTagsArgs::Validate\<close>.\<close>

fun validate_tags :: "(string \<times> string) list \<Rightarrow> error" where
  "validate_tags [] = SUCCESS"
| "validate_tags ((k, v) # ts) =
     (if length k = 0 \<or> 128 < length k \<or> Contains k ''&'' then ''invalid tag key '' @ [CHR 0x27] @ k @ [CHR 0x27]
      else if 256 < length v \<or> Contains v ''&'' then ''invalid tag value '' @ [CHR 0x27] @ v @ [CHR 0x27]
      else validate_tags ts)"

definition SetBucketTagsArgs_Validate :: "set_bucket_tags_args \<Rightarrow> error" where
  "SetBucketTagsArgs_Validate a =
     err_then (BucketArgs_Validate a)
       (if 50 < length (a_bucket_tags a) then
          ''too many bucket tags; allowed = 50, found = '' @ to_string (length (a_bucket_tags a))
        else validate_tags (a_bucket_tags a))"

record set_object_lock_config_args = bucket_args +
  a_lock_config :: object_lock_config

definition SetObjectLockConfigArgs_Validate :: "set_object_lock_config_args \<Rightarrow> error" where
  "SetObjectLockConfigArgs_Validate a =
     err_then (BucketArgs_Validate a) (ObjectLockConfig_Validate (a_lock_config a))"

record set_object_tags_args = object_version_args +
  a_object_tags :: "(string \<times> string) list"

definition SetObjectTagsArgs_Validate :: "set_object_tags_args \<Rightarrow> error" where
  "SetObjectTagsArgs_Validate a =
     err_then (ObjectArgs_Validate a)
       (if 10 < length (a_object_tags a) then
          ''too many object tags; allowed = 10, found = '' @ to_string (length (a_object_tags a))
        else validate_tags (a_object_tags a))"

record set_object_retention_args = object_version_args +
  a_retention_mode :: retention_mode
  a_retain_until_date :: utc_time

definition SetObjectRetentionArgs_Validate :: "set_object_retention_args \<Rightarrow> error" where
  "SetObjectRetentionArgs_Validate a =
     err_then (ObjectArgs_Validate a)
       (if IsRetentionModeValid (a_retention_mode a) then ''valid retention mode must be set''
        else if \<not> utc_bool (a_retain_until_date a) then ''retention until date must be set''
        else SUCCESS)"

definition kDefaultExpirySeconds :: u32 where
  "kDefaultExpirySeconds = 60 * 60 * 24 * 7"

record get_presigned_object_url_args = object_version_args +
  a_method :: http_method
  a_expiry_seconds :: u32
  a_request_time :: utc_time

text \<open>The method is one of the five by its type.\<close>

definition GetPresignedObjectUrlArgs_Validate :: "get_presigned_object_url_args \<Rightarrow> error" where
  "GetPresignedObjectUrlArgs_Validate a =
     err_then (ObjectArgs_Validate a)
       (if a_expiry_seconds a < 1 \<or> kDefaultExpirySeconds < a_expiry_seconds a then
          ''expiry seconds must be between 1 and '' @ to_string (unat kDefaultExpirySeconds)
        else SUCCESS)"

subsection \<open>What validation and headers achieve\<close>

lemma upload_id_check_SUCCESS [err_simps]: "upload_id_check i = SUCCESS \<longleftrightarrow> CheckNonEmptyString i"
  by (simp add: upload_id_check_def SUCCESS_def)

lemma part_number_check_SUCCESS [err_simps]:
  "part_number_check n = SUCCESS \<longleftrightarrow> 1 \<le> unat n \<and> unat n \<le> 10000"
  by (auto simp: part_number_check_def SUCCESS_def word_less_nat_alt)

lemma ObjectArgs_SUCCESS [err_simps]:
  "ObjectArgs_Validate a = SUCCESS \<longleftrightarrow> BucketArgs_Validate a = SUCCESS \<and> CheckNonEmptyString (a_object a)"
  by (simp add: ObjectArgs_Validate_def err_simps)

lemma UploadPartArgs_SUCCESS [err_simps]:
  "UploadPartArgs_Validate a = SUCCESS \<longleftrightarrow> ObjectArgs_Validate a = SUCCESS
     \<and> CheckNonEmptyString (a_part_upload_id a) \<and> 1 \<le> unat (a_part_number a) \<and> unat (a_part_number a) \<le> 10000"
  by (simp add: UploadPartArgs_Validate_def err_simps)

lemma UploadPartCopyArgs_SUCCESS [err_simps]:
  "UploadPartCopyArgs_Validate a = SUCCESS \<longleftrightarrow> ObjectArgs_Validate a = SUCCESS
     \<and> CheckNonEmptyString (a_copy_upload_id a) \<and> 1 \<le> unat (a_copy_part_number a)
     \<and> unat (a_copy_part_number a) \<le> 10000"
  by (simp add: UploadPartCopyArgs_Validate_def err_simps)

text \<open>The test of \<open>SetObjectRetentionArgs::Validate\<close> is the wrong way round: no valid retention
  mode passes.\<close>

lemma SetObjectRetentionArgs_SUCCESS:
  "SetObjectRetentionArgs_Validate a = SUCCESS \<longleftrightarrow> ObjectArgs_Validate a = SUCCESS
     \<and> a_retention_mode a = RetentionMode_unset \<and> utc_bool (a_retain_until_date a)"
  by (cases "a_retention_mode a") (auto simp: SetObjectRetentionArgs_Validate_def err_simps)

lemma validate_tags_SUCCESS [err_simps]:
  "validate_tags ts = SUCCESS \<longleftrightarrow> (\<forall>(k, v) \<in> set ts. k \<noteq> [] \<and> length k \<le> 128 \<and> length v \<le> 256
     \<and> \<not> Contains k ''&'' \<and> \<not> Contains v ''&'')"
  by (induction ts rule: validate_tags.induct) (auto simp: SUCCESS_def)

text \<open>An accepted upload has a part plan of at most 10000 parts.\<close>

lemma plan_parts_sound:
  assumes "plan_parts a = (SUCCESS, a')" "a_object_size a = Some n"
  shows "\<exists>cnt. a_part_count a' = Some cnt \<and> 1 \<le> unat cnt \<and> unat cnt \<le> 10000
    \<and> unat n \<le> unat cnt * unat (a_part_size a') \<and> a_object_size a' = Some n"
proof -
  obtain psz pcnt where C: "CalcPartInfo (Some n) (a_part_size a) (a_part_count a) = (SUCCESS, psz, pcnt)"
    and a': "a' = a\<lparr>a_part_size := psz, a_part_count := pcnt\<rparr>"
    using assms by (auto simp: plan_parts_def split: prod.splits)
  then obtain cnt where "pcnt = Some cnt" by (auto simp: CalcPartInfo_Some_iff)
  with C CalcPartInfo_sound [of n "a_part_size a" "a_part_count a" psz cnt] assms(2) show ?thesis
    by (simp add: a')
qed

lemma PutObjectArgs_SUCCESS:
  assumes "PutObjectArgs_Validate a = (SUCCESS, a')"
  shows "ObjectArgs_Validate a = SUCCESS" "(a_stream a \<noteq> None) \<noteq> (a_put_buf a \<noteq> None)"
    "a_max_inflight_parts a \<noteq> Some 0"
    "a_put_buf a \<noteq> None \<Longrightarrow> a_size a \<noteq> None"
    "plan_parts (if a_put_buf a \<noteq> None \<and> a_object_size a = None then a\<lparr>a_object_size := a_size a\<rparr> else a) = (SUCCESS, a')"
  using assms unfolding PutObjectArgs_Validate_def Let_def
  by (auto simp: is_err_def SUCCESS_def split: if_splits)

text \<open>The tagging header is a query string; it parses back to the tags.\<close>

lemma tagging_loop_eq: "tagging_loop s ts = canon_query_loop s ts"
  by (induction s ts rule: tagging_loop.induct) simp_all

lemma parse_tagging: "parse_query (tagging_loop [] ts) = ts"
  by (simp add: tagging_loop_eq parse_query_params)

text \<open>The bytes a read asks a server for. A range that ends before it starts is not valid; a server ignores it
  and sends the whole object, as it does without a \<open>Range\<close> header.\<close>

definition range_bytes :: "string \<Rightarrow> nat set" where
  "range_bytes h =
     (let r = drop 6 h; first = takeWhile (\<lambda>c. c \<noteq> CHR ''-'') r; lst = drop (Suc (length first)) r
      in if lst = [] then {digits_val 0 first..}
         else if digits_val 0 lst < digits_val 0 first then UNIV
         else {digits_val 0 first..digits_val 0 lst})"

definition header_reads :: "multimap \<Rightarrow> nat set" where
  "header_reads hs = (case Get ''Range'' hs of [] \<Rightarrow> UNIV | h # _ \<Rightarrow> range_bytes h)"

text \<open>The bytes the caller asks for.\<close>

definition asked_bytes :: "'a object_conditional_read_args_scheme \<Rightarrow> nat set" where
  "asked_bytes a =
     (let off = (case a_offset a of None \<Rightarrow> 0 | Some off \<Rightarrow> unat off)
      in case a_length a of None \<Rightarrow> {off..} | Some len \<Rightarrow> {off..<off + unat len})"

lemma range_bytes_text:
  "range_bytes (''bytes='' @ to_string m @ ''-'' @ l)
     = (if l = [] then {m..} else if digits_val 0 l < m then UNIV else {m..digits_val 0 l})"
proof -
  have "CHR ''-'' \<notin> set (to_string m)"
    using to_string_digits [of "CHR ''-''" m] by (auto simp: is_digit_def)
  then have "takeWhile (\<lambda>c. c \<noteq> CHR ''-'') (to_string m @ ''-'' @ l) = to_string m"
    by (simp add: takeWhile_until)
  then show ?thesis by (simp add: range_bytes_def to_string_val)
qed

lemma range_value_bytes:
  "range_value (Some off) None = ''bytes='' @ to_string (unat off) @ ''-'' @ []"
  "range_value first (Some len) = ''bytes='' @ to_string (unat (case first of None \<Rightarrow> 0 | Some off \<Rightarrow> off)) @ ''-''
     @ to_string (unat ((case first of None \<Rightarrow> 0 | Some off \<Rightarrow> off) + len - 1))"
  by (simp_all add: range_value_def split: option.split)

lemma range_value_exact:
  fixes len :: u64
  assumes "unat (case off of None \<Rightarrow> 0 | Some off \<Rightarrow> off) + unat len \<le> 2 ^ 64 - 1"
  defines "o' \<equiv> unat (case off of None \<Rightarrow> 0 | Some off \<Rightarrow> off)"
  shows "range_bytes (range_value off (Some len)) = {o'..<o' + unat len} \<longleftrightarrow> len \<noteq> 0"
proof -
  let ?o = "case off of None \<Rightarrow> 0 | Some off \<Rightarrow> off"
  have sum: "unat (?o + len) = o' + unat len"
    using assms(1) by (simp add: o'_def unat_add_lem [THEN iffD1])
  have bytes: "range_bytes (range_value off (Some len))
      = (if unat (?o + len - 1) < o' then UNIV else {o'..unat (?o + len - 1)})"
    unfolding range_value_bytes range_bytes_text by (simp add: to_string_val o'_def)
  show ?thesis
  proof (cases "len = 0")
    case False
    then have pos: "0 < unat len" by (simp add: unat_gt_0)
    then have "1 \<le> ?o + len" using sum by (simp add: word_le_nat_alt Suc_le_eq)
    then have "unat (?o + len - 1) = o' + unat len - 1" using sum by (simp add: unat_sub)
    with False pos show ?thesis unfolding bytes by auto
  next
    case True
    then have "range_bytes (range_value off (Some len)) \<noteq> {}" unfolding bytes by auto
    with True show ?thesis by simp
  qed
qed

lemma mm_vals_optional:
  "mm_wf m \<Longrightarrow> mm_wf (Add_nonempty k v m)" "mm_wf m \<Longrightarrow> mm_wf (Add_date tz k t m)"
  "mm_wf m \<Longrightarrow> ToLower k' \<noteq> ToLower k \<Longrightarrow> mm_vals (Add_nonempty k v m) k' = mm_vals m k'"
  "mm_wf m \<Longrightarrow> ToLower k' \<noteq> ToLower k \<Longrightarrow> mm_vals (Add_date tz k t m) k' = mm_vals m k'"
  by (simp_all add: Add_nonempty_def Add_date_def mm_wf_Add mm_vals_Add)

lemma range_header:
  assumes "\<And>s. a_ssec a = Some s \<Longrightarrow> mm_wf (sse_headers s) \<and> mm_vals (sse_headers s) ''Range'' = {}"
  shows "set (Get ''Range'' (ObjectConditionalReadArgs_Headers tz a))
    = (if range_value (a_offset a) (a_length a) = [] then {} else {range_value (a_offset a) (a_length a)})"
proof -
  have low: "ToLower ''Range'' \<noteq> ToLower ''if-match''" "ToLower ''Range'' \<noteq> ToLower ''if-none-match''"
    "ToLower ''Range'' \<noteq> ToLower ''if-modified-since''" "ToLower ''Range'' \<noteq> ToLower ''if-unmodified-since''"
    by code_simp+
  define h1 where "h1 = Add_nonempty ''Range'' (range_value (a_offset a) (a_length a)) mm_empty"
  have h1: "mm_wf h1" "mm_vals h1 ''Range''
      = (if range_value (a_offset a) (a_length a) = [] then {} else {range_value (a_offset a) (a_length a)})"
    by (simp_all add: h1_def Add_nonempty_def wf_intros mm_vals_Add)
  define h2 where "h2 = Add_date tz ''if-unmodified-since'' (a_unmodified_since a)
    (Add_date tz ''if-modified-since'' (a_modified_since a) (Add_nonempty ''if-none-match'' (a_not_match_etag a)
      (Add_nonempty ''if-match'' (a_match_etag a) h1)))"
  have h2: "mm_wf h2" "mm_vals h2 ''Range'' = mm_vals h1 ''Range''"
    by (simp_all only: h2_def h1(1) mm_vals_optional low not_False_eq_True)
  have hs: "ObjectConditionalReadArgs_Headers tz a = (case a_ssec a of None \<Rightarrow> h2 | Some s \<Rightarrow> AddAll (sse_headers s) h2)"
    by (simp only: ObjectConditionalReadArgs_Headers_def Let_def h1_def h2_def)
  show ?thesis
  proof (cases "a_ssec a")
    case None
    then show ?thesis using set_Get [OF h2(1)] h1 h2 hs by simp
  next
    case (Some s)
    note sse = assms [OF Some]
    have "mm_wf (AddAll (sse_headers s) h2)" using h2(1) sse by (simp add: mm_wf_AddAll)
    then show ?thesis using set_Get mm_vals_AddAll [OF h2(1)] sse h1 h2 hs Some by simp
  qed
qed

text \<open>With a length the header asks for the bytes that the caller does, except when the length is 0.\<close>

lemma header_reads_asked:
  assumes "\<And>s. a_ssec a = Some s \<Longrightarrow> mm_wf (sse_headers s) \<and> mm_vals (sse_headers s) ''Range'' = {}"
    "(case a_offset a of None \<Rightarrow> 0 | Some off \<Rightarrow> unat off) + (case a_length a of None \<Rightarrow> 0 | Some len \<Rightarrow> unat len) \<le> 2 ^ 64 - 1"
  shows "header_reads (ObjectConditionalReadArgs_Headers tz a) = asked_bytes a \<longleftrightarrow> a_length a \<noteq> Some 0"
proof -
  let ?v = "range_value (a_offset a) (a_length a)"
  have get: "set (Get ''Range'' (ObjectConditionalReadArgs_Headers tz a)) = (if ?v = [] then {} else {?v})"
    by (rule range_header [OF assms(1)])
  have reads: "header_reads (ObjectConditionalReadArgs_Headers tz a) = (if ?v = [] then UNIV else range_bytes ?v)"
    using get unfolding header_reads_def
    by (cases "Get ''Range'' (ObjectConditionalReadArgs_Headers tz a)") (auto split: if_splits)
  show ?thesis
  proof (cases "a_length a")
    case None
    show ?thesis
    proof (cases "a_offset a")
      case None
      with \<open>a_length a = None\<close> show ?thesis unfolding reads by (simp add: range_value_def asked_bytes_def)
    next
      case (Some off)
      have "range_bytes (range_value (Some off) None) = {unat off..}"
        unfolding range_value_bytes range_bytes_text by simp
      moreover have "range_value (Some off) None \<noteq> []" by (simp add: range_value_def)
      ultimately show ?thesis unfolding reads by (simp add: Some \<open>a_length a = None\<close> asked_bytes_def)
    qed
  next
    case (Some len)
    have o: "unat (case a_offset a of None \<Rightarrow> 0 | Some off \<Rightarrow> off) = (case a_offset a of None \<Rightarrow> 0 | Some off \<Rightarrow> unat off)"
      by (simp split: option.split)
    have "range_value (a_offset a) (Some len) \<noteq> []" by (simp add: range_value_def split: option.split)
    then show ?thesis
      using range_value_exact [of "a_offset a" len] assms(2) unfolding reads by (simp add: Some asked_bytes_def o Let_def)
  qed
qed

text \<open>A source of a composition that \<open>BuildHeaders\<close> accepts lies inside its object, when the
  sum of offset and length does not wrap.\<close>

lemma ComposeSource_in_object:
  assumes "ComposeSource_BuildHeaders tz a n etag = (SUCCESS, a')" "unat n < 2 ^ 63"
  shows "cs_object_size a' = Some n"
    and "a_offset a = Some off \<Longrightarrow> unat off < unat n"
    and "a_length a = Some len \<Longrightarrow>
      unat (case a_offset a of None \<Rightarrow> 0 | Some off \<Rightarrow> off) + unat len \<le> unat n"
proof -
  let ?off = "case a_offset a of None \<Rightarrow> 0 | Some off \<Rightarrow> off"
  have ok: "\<not> n \<le> off" if "a_offset a = Some off" for off
    using assms(1) that
    by (auto simp: ComposeSource_BuildHeaders_def Let_def is_err_def err_then_def SUCCESS_def source_text_def
        split: if_splits)
  have len: "\<not> n < len \<and> \<not> n < ?off + len" if "a_length a = Some len" for len
    using assms(1) that
    by (auto simp: ComposeSource_BuildHeaders_def Let_def is_err_def err_then_def SUCCESS_def source_text_def
        split: if_splits)
  show "cs_object_size a' = Some n"
    using assms(1) by (auto simp: ComposeSource_BuildHeaders_def Let_def is_err_def SUCCESS_def split: if_splits)
  show "unat off < unat n" if "a_offset a = Some off" for off
    using ok [OF that] by (simp add: word_le_nat_alt)
  show "unat ?off + unat len \<le> unat n" if "a_length a = Some len" for len
  proof -
    have "unat ?off \<le> unat n" using ok by (auto simp: word_le_nat_alt split: option.split)
    moreover have "unat len \<le> unat n" using len [OF that] by (simp add: word_less_nat_alt)
    ultimately have "unat (?off + len) = unat ?off + unat len"
      using assms(2) by (simp add: unat_add_lem [THEN iffD1])
    then show ?thesis using len [OF that] by (simp add: word_less_nat_alt)
  qed
qed

text \<open>And it accepts every such source.\<close>

lemma ComposeSource_accepts:
  assumes "unat n < 2 ^ 63"
  shows "fst (ComposeSource_BuildHeaders tz a n etag) = SUCCESS \<longleftrightarrow>
    (\<forall>off. a_offset a = Some off \<longrightarrow> unat off < unat n)
    \<and> (\<forall>len. a_length a = Some len \<longrightarrow> unat (case a_offset a of None \<Rightarrow> 0 | Some off \<Rightarrow> off) + unat len \<le> unat n)"
    (is "_ \<longleftrightarrow> ?inside")
proof
  assume "fst (ComposeSource_BuildHeaders tz a n etag) = SUCCESS"
  then obtain a' where "ComposeSource_BuildHeaders tz a n etag = (SUCCESS, a')" by (metis prod.collapse)
  from ComposeSource_in_object(2,3) [OF this assms] show ?inside by blast
next
  assume inside: ?inside
  let ?off = "case a_offset a of None \<Rightarrow> 0 | Some off \<Rightarrow> off"
  have off: "\<not> n \<le> off" if "a_offset a = Some off" for off
    using inside that by (simp add: word_le_nat_alt)
  have len: "\<not> n < len \<and> \<not> n < ?off + len" if "a_length a = Some len" for len
  proof -
    have sum: "unat ?off + unat len \<le> unat n" using inside that by blast
    then have "unat (?off + len) = unat ?off + unat len"
      using assms by (simp add: unat_add_lem [THEN iffD1])
    with sum show ?thesis by (simp add: word_less_nat_alt)
  qed
  show "fst (ComposeSource_BuildHeaders tz a n etag) = SUCCESS"
    using off len
    by (auto simp: ComposeSource_BuildHeaders_def Let_def is_err_def err_then_def SUCCESS_def split: option.splits)
qed

end
