(* ===== verification/PostPolicy.thy ===== *)
theory PostPolicy
  imports Args
begin

section \<open>POST policies (struct PostPolicy, src/args.cc and include/miniocpp/args.h)\<close>

text \<open>
  The policy of a browser upload and the form fields that carry it. \<open>conditions_\<close> is a map of maps;
  \<open>operator[]\<close> on it inserts what is missing, which \<open>touch\<close> writes out. The JSON printer is the
  parameter \<open>dump\<close>. The second part is a server: \<open>check_condition\<close> is what a condition of a policy
  means for the fields of a form, \<open>server_post_ok\<close> what a server checks before it takes an upload.
\<close>

record post_policy =
  pp_bucket :: string
  pp_region :: string
  pp_expiration :: utc_time
  pp_conditions :: "(string \<times> (string \<times> string) list) list"
  pp_lower_limit :: "int option"
  pp_upper_limit :: "int option"

definition PostPolicy_new :: "string \<Rightarrow> utc_time \<Rightarrow> post_policy" where
  "PostPolicy_new bucket expiration = \<lparr>pp_bucket = bucket, pp_region = [], pp_expiration = expiration,
     pp_conditions = [], pp_lower_limit = None, pp_upper_limit = None\<rparr>"

definition PostPolicy_bool :: "post_policy \<Rightarrow> bool" where
  "PostPolicy_bool p \<longleftrightarrow> pp_bucket p \<noteq> [] \<and> utc_bool (pp_expiration p)"

definition algorithm :: string where
  "algorithm = ''AWS4-HMAC-SHA256''"

definition trimDollar :: "string \<Rightarrow> string" where
  "trimDollar v = (if v \<noteq> [] \<and> hd v = CHR ''$'' then tl v else v)"

definition getCredentialString :: "crypto \<Rightarrow> string \<Rightarrow> utc_time \<Rightarrow> string \<Rightarrow> string" where
  "getCredentialString cr ak date region =
     ak @ ''/'' @ ToSignerDate (timezone cr) date @ ''/'' @ region @ ''/s3/aws4_request''"

definition isReservedElement :: "string \<Rightarrow> bool" where
  "isReservedElement e \<longleftrightarrow> e = ''bucket'' \<or> e = ''x-amz-algorithm'' \<or> e = ''x-amz-credential''
     \<or> e = ''x-amz-date'' \<or> e = ''policy'' \<or> e = ''x-amz-signature''"

text \<open>\<open>m[k]\<close> used as a place: the entry is there afterwards.\<close>

definition or_default :: "'v \<Rightarrow> 'v option \<Rightarrow> 'v" where
  "or_default d v = (case v of None \<Rightarrow> d | Some x \<Rightarrow> x)"

definition touch :: "'k::linorder \<Rightarrow> 'v \<Rightarrow> ('k \<times> 'v) list \<Rightarrow> ('k \<times> 'v) list" where
  "touch k d m = smap_upd k (or_default d) m"

definition at_key :: "'k \<Rightarrow> 'v \<Rightarrow> ('k \<times> 'v) list \<Rightarrow> 'v" where
  "at_key k d m = or_default d (map_of m k)"

definition set_condition :: "string \<Rightarrow> string \<Rightarrow> string \<Rightarrow> post_policy \<Rightarrow> post_policy" where
  "set_condition cond e v p = p\<lparr>pp_conditions :=
     smap_upd cond (\<lambda>m. smap_put e v (or_default [] m)) (pp_conditions p)\<rparr>"

definition erase_condition :: "string \<Rightarrow> string \<Rightarrow> post_policy \<Rightarrow> post_policy" where
  "erase_condition cond e p = p\<lparr>pp_conditions :=
     smap_upd cond (\<lambda>m. smap_erase e (or_default [] m)) (pp_conditions p)\<rparr>"

definition AddEqualsCondition :: "string \<Rightarrow> string \<Rightarrow> post_policy \<Rightarrow> error \<times> post_policy" where
  "AddEqualsCondition element v p =
     (if element = [] then (''condition element cannot be empty'', p)
      else
        let e = trimDollar element in
        if e = ''success_action_redirect'' \<or> e = ''redirect'' \<or> e = ''content-length-range'' then
          (e @ '' is unsupported for equals condition'', p)
        else if isReservedElement e then (e @ '' cannot be set'', p)
        else (SUCCESS, set_condition ''eq'' e v p))"

definition RemoveEqualsCondition :: "string \<Rightarrow> post_policy \<Rightarrow> error \<times> post_policy" where
  "RemoveEqualsCondition element p =
     (if element = [] then (''condition element cannot be empty'', p)
      else (SUCCESS, erase_condition ''eq'' element p))"

definition AddStartsWithCondition :: "string \<Rightarrow> string \<Rightarrow> post_policy \<Rightarrow> error \<times> post_policy" where
  "AddStartsWithCondition element v p =
     (if element = [] then (''condition element cannot be empty'', p)
      else
        let e = trimDollar element in
        if e = ''success_action_status'' \<or> e = ''content-length-range''
            \<or> (StartsWith e ''x-amz-'' \<and> StartsWith e ''x-amz-meta-'') then
          (e @ '' is unsupported for starts-with condition'', p)
        else if isReservedElement e then (e @ '' cannot be set'', p)
        else (SUCCESS, set_condition ''starts-with'' e v p))"

definition RemoveStartsWithCondition :: "string \<Rightarrow> post_policy \<Rightarrow> error \<times> post_policy" where
  "RemoveStartsWithCondition element p =
     (if element = [] then (''condition element cannot be empty'', p)
      else (SUCCESS, erase_condition ''starts-with'' element p))"

text \<open>\<open>static_cast<int>\<close> keeps the low 32 bits, signed.\<close>

definition int_of_size :: "u64 \<Rightarrow> int" where
  "int_of_size w = sint (ucast w :: 32 word)"

definition AddContentLengthRangeCondition :: "u64 \<Rightarrow> u64 \<Rightarrow> post_policy \<Rightarrow> error \<times> post_policy" where
  "AddContentLengthRangeCondition lower upper p =
     (if upper < lower then (''lower limit cannot be greater than upper limit'', p)
      else (SUCCESS, p\<lparr>pp_lower_limit := Some (int_of_size lower), pp_upper_limit := Some (int_of_size upper)\<rparr>))"

definition RemoveContentLengthRangeCondition :: "post_policy \<Rightarrow> post_policy" where
  "RemoveContentLengthRangeCondition p = p\<lparr>pp_lower_limit := None, pp_upper_limit := None\<rparr>"

text \<open>The test that a condition on the key is set. Reading \<open>conditions_[eq_]["key"]\<close> inserts it;
  the second operand is evaluated only when the first is empty.\<close>

definition read_key :: "string \<Rightarrow> post_policy \<Rightarrow> string \<times> post_policy" where
  "read_key cond p =
     (let cs = smap_upd cond (\<lambda>m. touch ''key'' [] (or_default [] m)) (pp_conditions p)
      in (at_key ''key'' [] (at_key cond [] cs), p\<lparr>pp_conditions := cs\<rparr>))"

definition has_key_condition :: "post_policy \<Rightarrow> bool \<times> post_policy" where
  "has_key_condition p =
     (case read_key ''eq'' p of (k, p) \<Rightarrow>
        if k \<noteq> [] then (True, p)
        else case read_key ''starts-with'' p of (k, p) \<Rightarrow> (k \<noteq> [], p))"

definition condition_json :: "string \<Rightarrow> string \<Rightarrow> string \<Rightarrow> json" where
  "condition_json cond k v = JArray [JString cond, JString (''$'' @ k), JString v]"

definition policy_json :: "crypto \<Rightarrow> utc_time \<Rightarrow> post_policy \<Rightarrow> string \<Rightarrow> string \<Rightarrow> json" where
  "policy_json cr date p credential session_token =
     (let conditions =
            [condition_json ''eq'' ''bucket'' (pp_bucket p)]
            @ concat (map (\<lambda>(cond, m). map (\<lambda>(k, v). condition_json cond k v) m) (pp_conditions p))
            @ (case (pp_lower_limit p, pp_upper_limit p) of
                 (Some l, Some u) \<Rightarrow> [JArray [JString ''content-length-range'', JInt l, JInt u]]
               | _ \<Rightarrow> [])
            @ [condition_json ''eq'' ''x-amz-algorithm'' algorithm,
               condition_json ''eq'' ''x-amz-credential'' credential]
            @ (if session_token \<noteq> [] then [condition_json ''eq'' ''x-amz-security-token'' session_token] else [])
            @ [condition_json ''eq'' ''x-amz-date'' (ToAmzDate (timezone cr) date)]
      in JObject [(''conditions'', JArray conditions),
                  (''expiration'', JString (ToISO8601UTC (timezone cr) (pp_expiration p)))])"

definition FormData :: "crypto \<Rightarrow> (json \<Rightarrow> string) \<Rightarrow> utc_time \<Rightarrow> string \<Rightarrow> string \<Rightarrow> string \<Rightarrow> string \<Rightarrow> post_policy
    \<Rightarrow> (error + (string \<times> string) list) \<times> post_policy" where
  "FormData cr dump date access_key secret_key session_token region p =
     (if region = [] then (Inl ''region cannot be empty'', p)
      else case has_key_condition p of
        (False, p) \<Rightarrow> (Inl ''key condition must be set'', p)
      | (True, p) \<Rightarrow>
          let credential = getCredentialString cr access_key date region;
              encoded_policy = base64 cr (dump (policy_json cr date p credential session_token));
              signature = PostPresignV4 cr encoded_policy secret_key date region;
              data = smap_put ''x-amz-algorithm'' algorithm [];
              data = smap_put ''x-amz-credential'' credential data;
              data = smap_put ''x-amz-date'' (ToAmzDate (timezone cr) date) data;
              data = smap_put ''policy'' encoded_policy data;
              data = smap_put ''x-amz-signature'' signature data;
              data = (if session_token \<noteq> [] then smap_put ''x-amz-security-token'' session_token data else data)
          in (Inr data, p))"

subsection \<open>The receiving side\<close>

text \<open>A condition of a policy on the fields of a form and the size of the upload.\<close>

fun check_condition :: "(string \<Rightarrow> string) \<Rightarrow> int \<Rightarrow> json \<Rightarrow> bool" where
  "check_condition form n (JArray [JString cond, JString (d # k), JString v]) \<longleftrightarrow>
     d = CHR ''$'' \<and> (if cond = ''eq'' then form k = v
       else if cond = ''starts-with'' then StartsWith (form k) v else False)"
| "check_condition form n (JArray [JString cond, JInt l, JInt u]) \<longleftrightarrow>
     cond = ''content-length-range'' \<and> l \<le> n \<and> n \<le> u"
| "check_condition form n _ \<longleftrightarrow> False"

definition check_policy :: "(string \<Rightarrow> string) \<Rightarrow> int \<Rightarrow> json \<Rightarrow> bool" where
  "check_policy form n policy =
     (case json_get ''conditions'' policy of
        Some (JArray cs) \<Rightarrow> list_all (check_condition form n) cs
      | _ \<Rightarrow> False)"

definition server_post_ok :: "crypto \<Rightarrow> (string \<Rightarrow> string) \<Rightarrow> (string \<Rightarrow> json option) \<Rightarrow> (string \<Rightarrow> string) \<Rightarrow> int \<Rightarrow> bool" where
  "server_post_ok cr secret_of policy_of form n =
     (case (parse_credential (form ''x-amz-credential''), policy_of (form ''policy'')) of
        (Some (ak, d, region, service), Some policy) \<Rightarrow>
          form ''x-amz-signature'' = hex_encode (hmac cr (hmac cr (hmac cr (hmac cr
              (hmac cr (''AWS4'' @ secret_of ak) d) region) service) ''aws4_request'') (form ''policy''))
          \<and> check_policy form n policy
      | _ \<Rightarrow> False)"

text \<open>The caller's part of a form: it satisfies the caller's conditions.\<close>

definition meets_conditions :: "(string \<Rightarrow> string) \<Rightarrow> int \<Rightarrow> post_policy \<Rightarrow> bool" where
  "meets_conditions form n p \<longleftrightarrow>
     form ''bucket'' = pp_bucket p
     \<and> list_all (\<lambda>(cond, m). list_all (\<lambda>(k, v).
          if cond = ''eq'' then form k = v else cond = ''starts-with'' \<and> StartsWith (form k) v) m) (pp_conditions p)
     \<and> (\<forall>l u. pp_lower_limit p = Some l \<and> pp_upper_limit p = Some u \<longrightarrow> l \<le> n \<and> n \<le> u)"

lemma check_condition_json [simp]:
  "check_condition form n (condition_json cond k v) \<longleftrightarrow>
     (if cond = ''eq'' then form k = v else cond = ''starts-with'' \<and> StartsWith (form k) v)"
  by (simp add: condition_json_def)

lemma check_conditions:
  "list_all (check_condition form n) (concat (map (\<lambda>(cond, m). map (\<lambda>(k, v). condition_json cond k v) m) cs))
     \<longleftrightarrow> list_all (\<lambda>(cond, m). list_all (\<lambda>(k, v).
          if cond = ''eq'' then form k = v else cond = ''starts-with'' \<and> StartsWith (form k) v) m) cs"
proof -
  have "list_all (check_condition form n) (map (\<lambda>(k, v). condition_json cond k v) m)
      \<longleftrightarrow> list_all (\<lambda>(k, v). if cond = ''eq'' then form k = v else cond = ''starts-with'' \<and> StartsWith (form k) v) m"
    for cond m by (induction m) (auto split: prod.splits)
  then show ?thesis by (induction cs) (auto split: prod.splits)
qed

lemma check_limits:
  "list_all (check_condition form n) (case (l, u) of
       (Some l, Some u) \<Rightarrow> [JArray [JString ''content-length-range'', JInt l, JInt u]] | _ \<Rightarrow> [])
     \<longleftrightarrow> (\<forall>l' u'. l = Some l' \<and> u = Some u' \<longrightarrow> l' \<le> n \<and> n \<le> u')"
  by (cases l; cases u) simp_all

lemma check_policy_json:
  "check_policy form n (policy_json cr date p credential token) \<longleftrightarrow>
     meets_conditions form n p
     \<and> form ''x-amz-algorithm'' = algorithm \<and> form ''x-amz-credential'' = credential
     \<and> (token \<noteq> [] \<longrightarrow> form ''x-amz-security-token'' = token)
     \<and> form ''x-amz-date'' = ToAmzDate (timezone cr) date"
proof -
  define user where "user = concat (map (\<lambda>(cond, m). map (\<lambda>(k, v). condition_json cond k v) m) (pp_conditions p))"
  define limits where "limits = (case (pp_lower_limit p, pp_upper_limit p) of
       (Some l, Some u) \<Rightarrow> [JArray [JString ''content-length-range'', JInt l, JInt u]] | _ \<Rightarrow> [])"
  define rest where "rest = (if token \<noteq> [] then [condition_json ''eq'' ''x-amz-security-token'' token] else [])"
  have get: "json_get ''conditions'' (policy_json cr date p credential token) = Some (JArray
       ([condition_json ''eq'' ''bucket'' (pp_bucket p)] @ user @ limits
        @ [condition_json ''eq'' ''x-amz-algorithm'' algorithm, condition_json ''eq'' ''x-amz-credential'' credential]
        @ rest @ [condition_json ''eq'' ''x-amz-date'' (ToAmzDate (timezone cr) date)]))"
    by (simp add: policy_json_def Let_def user_def limits_def rest_def)
  have rest: "list_all (check_condition form n) rest \<longleftrightarrow> (token \<noteq> [] \<longrightarrow> form ''x-amz-security-token'' = token)"
    by (simp add: rest_def)
  show ?thesis
    unfolding check_policy_def get option.case json.case list_all_append list.pred_inject check_condition_json rest
    unfolding user_def limits_def check_conditions check_limits meets_conditions_def
    by auto
qed

lemma touch_lookup [simp]: "smap_wf m \<Longrightarrow> map_of (touch k d m) k = Some (or_default d (map_of m k))"
  by (simp add: touch_def smap_lookup_upd)

text \<open>The condition the test leaves behind: an equals condition on the key, with an empty value.\<close>

lemma has_key_condition_inserts:
  assumes "smap_wf (pp_conditions p)" "\<forall>m. map_of (pp_conditions p) ''eq'' = Some m \<longrightarrow> smap_wf m"
    "at_key ''key'' [] (at_key ''eq'' [] (pp_conditions p)) = []"
    "has_key_condition p = (b, p')"
  shows "\<exists>m. map_of (pp_conditions p') ''eq'' = Some m \<and> map_of m ''key'' = Some []"
proof -
  let ?eq = "or_default [] (map_of (pp_conditions p) ''eq'')"
  let ?c1 = "smap_upd ''eq'' (\<lambda>m. touch ''key'' [] (or_default [] m)) (pp_conditions p)"
  have wf: "smap_wf ?eq" using assms(2) by (auto simp: or_default_def split: option.split)
  have l1: "map_of ?c1 ''eq'' = Some (touch ''key'' [] ?eq)"
    using assms(1) by (simp add: smap_lookup_upd)
  have empty: "or_default [] (map_of ?eq ''key'') = []"
    using assms(3) by (simp add: at_key_def)
  have "pp_conditions p' = smap_upd ''starts-with'' (\<lambda>m. touch ''key'' [] (or_default [] m)) ?c1"
    using assms(4) l1 empty wf
    by (auto simp: has_key_condition_def read_key_def at_key_def Let_def or_default_def split: if_splits)
  then have "map_of (pp_conditions p') ''eq'' = Some (touch ''key'' [] ?eq)"
    using l1 assms(1) by (simp add: smap_lookup_upd wf_intros)
  then show ?thesis using wf empty by simp
qed

lemma has_key_conditions_kept:
  assumes "has_key_condition p = (b, p')"
  shows "pp_bucket p' = pp_bucket p \<and> pp_lower_limit p' = pp_lower_limit p \<and> pp_upper_limit p' = pp_upper_limit p
    \<and> pp_expiration p' = pp_expiration p"
  using assms by (auto simp: has_key_condition_def read_key_def Let_def split: if_splits)

lemma FormData_has_key:
  assumes "FormData cr dump date ak sk token region p = (Inr data, p')"
  shows "has_key_condition p = (True, p')" "region \<noteq> []"
  using assms by (cases "has_key_condition p"; cases "fst (has_key_condition p)";
      simp add: FormData_def Let_def split: if_splits)+

text \<open>What \<open>FormData\<close> promises: a form that carries its fields and meets the conditions of the
  policy is accepted. \<open>policy_of\<close> is the server's decoding of the \<open>policy\<close> field.\<close>

lemma FormData_accepted:
  assumes "FormData cr dump date ak sk token region p = (Inr data, p')"
    and decode: "policy_of (base64 cr (dump (policy_json cr date p' (getCredentialString cr ak date region) token)))
      = Some (policy_json cr date p' (getCredentialString cr ak date region) token)"
    and "year_ok (timezone cr) date" "credential_word ak" "credential_word region" "secret_of ak = sk"
    and form: "\<And>k v. map_of data k = Some v \<Longrightarrow> form k = v" and "meets_conditions form n p'"
  shows "server_post_ok cr secret_of policy_of form n"
proof -
  define cred where "cred = getCredentialString cr ak date region"
  define pol where "pol = policy_json cr date p' cred token"
  define sig where "sig = PostPresignV4 cr (base64 cr (dump pol)) sk date region"
  define d where "d = ToSignerDate (timezone cr) date"
  have data: "data = (let data = smap_put ''x-amz-algorithm'' algorithm [];
              data = smap_put ''x-amz-credential'' cred data;
              data = smap_put ''x-amz-date'' (ToAmzDate (timezone cr) date) data;
              data = smap_put ''policy'' (base64 cr (dump pol)) data;
              data = smap_put ''x-amz-signature'' sig data
            in (if token \<noteq> [] then smap_put ''x-amz-security-token'' token data else data))"
    using assms(1) FormData_has_key [OF assms(1)]
    by (simp add: FormData_def cred_def pol_def sig_def Let_def)
  have put: "smap_wf m \<Longrightarrow> map_of (smap_put k v m) k' = (if k' = k then Some v else map_of m k')"
    "smap_wf m \<Longrightarrow> smap_wf (smap_put k v m)" for k v k' and m :: "(string \<times> string) list"
    by (simp_all add: smap_put_def smap_lookup_upd wf_intros)
  have fields: "form ''x-amz-algorithm'' = algorithm" "form ''x-amz-credential'' = cred"
    "form ''x-amz-date'' = ToAmzDate (timezone cr) date" "form ''policy'' = base64 cr (dump pol)"
    "form ''x-amz-signature'' = sig" "token \<noteq> [] \<Longrightarrow> form ''x-amz-security-token'' = token"
    by (rule form; simp add: data Let_def put)+
  have "d \<noteq> []" "CHR ''/'' \<notin> set d"
    using signer_date_chars(1) [OF assms(3)] signer_date_chars(2) [OF assms(3), of "CHR ''/''"]
    by (auto simp: d_def is_digit_def)
  then have "parse_credential cred = Some (ak, d, region, ''s3'')"
    using parse_credential_print [of ak d region "''s3''"] assms(4,5)
    by (simp add: cred_def getCredentialString_def credential_word_def d_def)
  moreover have "check_policy form n pol"
    unfolding pol_def check_policy_json using assms(8) fields by simp
  ultimately show ?thesis
    using assms(6) decode by (simp add: server_post_ok_def fields pol_def cred_def sig_def PostPresignV4_def
        GetSignature_def GetSigningKey_def HmacHash_def d_def Let_def)
qed

text \<open>A policy without an equals condition on the key demands an empty key, whatever its
  starts-with condition says.\<close>

lemma FormData_empty_key:
  assumes "FormData cr dump date ak sk token region p = (Inr data, p')"
    and "smap_wf (pp_conditions p)" "\<forall>m. map_of (pp_conditions p) ''eq'' = Some m \<longrightarrow> smap_wf m"
    and "at_key ''key'' [] (at_key ''eq'' [] (pp_conditions p)) = []"
    and "meets_conditions form n p'"
  shows "form ''key'' = []"
proof -
  from has_key_condition_inserts [OF assms(2-4) FormData_has_key(1) [OF assms(1)]]
  obtain m where "(''eq'', m) \<in> set (pp_conditions p')" "(''key'', []) \<in> set m"
    by (auto dest!: map_of_SomeD)
  then show ?thesis using assms(5) by (fastforce simp: meets_conditions_def list_all_iff)
qed

end
