(* ===== verification/Providers.thy ===== *)
theory Providers
  imports Documents Signer Credentials
begin

section \<open>Credential providers (src/providers.cc, include/miniocpp/providers.h)\<close>

text \<open>
  The providers that ask an STS endpoint, the static one, and the chain that tries several.
  A provider is its configuration with the protected members \<open>err_\<close> and \<open>creds_\<close> of the
  base class; \<open>Fetch\<close> returns credentials and the updated provider. What lies outside is
  the record \<open>penv\<close>: cryptography, the clock, httplib, pugixml, name resolution. \<open>None\<close>
  is the undefined behaviour of \<open>Credentials::ParseXML\<close> on a malformed date.

  The environment, configuration files, the JSON parser and the resolver are parameters.
\<close>

record jwt =
  jwt_token :: string
  jwt_expiry :: u32
  jwt_access_token :: string
  jwt_refresh_token :: string

record penv =
  pe_crypto :: crypto
  pe_now :: utc_time
  pe_send :: "http_call \<Rightarrow> http_exchange"
  pe_xml :: "string \<Rightarrow> (string \<Rightarrow> string) option"
  pe_json :: "string \<Rightarrow> json option"
  pe_token :: "string \<Rightarrow> jwt option"
  pe_inet6 :: "string \<Rightarrow> bool"
  pe_resolve :: "string \<Rightarrow> string + string list"

definition DEFAULT_DURATION_SECONDS :: u32 where
  "DEFAULT_DURATION_SECONDS = 60 * 60 * 24"

definition MIN_DURATION_SECONDS :: u32 where
  "MIN_DURATION_SECONDS = 60 * 15"

definition MAX_DURATION_SECONDS :: u32 where
  "MAX_DURATION_SECONDS = 60 * 60 * 24 * 7"

text \<open>\<open>checkLoopbackHost\<close>: \<open>resolve\<close> is \<open>getaddrinfo\<close>, an error text or the addresses.\<close>

definition checkLoopbackHost :: "(string \<Rightarrow> string + string list) \<Rightarrow> string \<Rightarrow> error" where
  "checkLoopbackHost resolve h =
     (case resolve h of
        Inl e \<Rightarrow> ''getaddrinfo: '' @ e
      | Inr ips \<Rightarrow> if list_all (\<lambda>ip. StartsWith ip ''127.'') ips then SUCCESS
                   else h @ '' is not loopback only host'')"

record iam_config =
  iam_endpoint :: url
  iam_token_file :: string
  iam_aws_region :: string
  iam_role_arn :: string
  iam_role_session_name :: string
  iam_relative_uri :: string
  iam_full_uri :: string

text \<open>Configurations, as the constructors leave them.\<close>

datatype provider_kind =
    StaticProvider
  | AssumeRoleProvider url string string string string string
  | WebIdentityClientGrantsProvider bool jwt url u32 string string string string
  | IamAwsProvider iam_config
  | LdapIdentityProvider url
  | CertificateIdentityProvider url
  | CustomTokenIdentityProvider url string string u32 string

record provider =
  p_kind :: provider_kind
  p_err :: error
  p_creds :: credentials

definition provider_of :: "provider_kind \<Rightarrow> provider" where
  "provider_of k = \<lparr>p_kind = k, p_err = SUCCESS, p_creds = creds_empty\<rparr>"

definition StaticProvider_new :: "string \<Rightarrow> string \<Rightarrow> string \<Rightarrow> provider" where
  "StaticProvider_new ak sk tok = (provider_of StaticProvider)
     \<lparr>p_creds := \<lparr>cr_err = SUCCESS, access_key = ak, secret_key = sk, session_token = tok,
        expiration = utc_default\<rparr>\<rparr>"

text \<open>The environment: \<open>GetEnv(var, name)\<close> keeps \<open>var\<close> when the name is not set. Home directory,
  configuration files, the INI reader and the JSON parser are parameters.\<close>

record os_env =
  os_getenv :: "string \<Rightarrow> string option"
  os_home :: string
  os_file :: "string \<Rightarrow> string"
  os_ini :: "string \<Rightarrow> (string \<Rightarrow> string \<Rightarrow> string option) option"
  os_json :: "string \<Rightarrow> json option"

definition GetEnv :: "os_env \<Rightarrow> string \<Rightarrow> string \<Rightarrow> string" where
  "GetEnv oe name var = (case os_getenv oe name of Some v \<Rightarrow> v | None \<Rightarrow> var)"

definition EnvAwsProvider_new :: "os_env \<Rightarrow> provider" where
  "EnvAwsProvider_new oe =
     (let ak = (if os_getenv oe ''AWS_ACCESS_KEY_ID'' = None then GetEnv oe ''AWS_ACCESS_KEY'' []
                else GetEnv oe ''AWS_ACCESS_KEY_ID'' []);
          sk = (if os_getenv oe ''AWS_SECRET_ACCESS_KEY'' = None then GetEnv oe ''AWS_SECRET_KEY'' []
                else GetEnv oe ''AWS_SECRET_ACCESS_KEY'' [])
      in StaticProvider_new ak sk (GetEnv oe ''AWS_SESSION_TOKEN'' []))"

definition EnvMinioProvider_new :: "os_env \<Rightarrow> provider" where
  "EnvMinioProvider_new oe =
     StaticProvider_new (GetEnv oe ''MINIO_ACCESS_KEY'' []) (GetEnv oe ''MINIO_SECRET_KEY'' []) []"

definition AwsConfigProvider_new :: "os_env \<Rightarrow> string \<Rightarrow> string \<Rightarrow> provider" where
  "AwsConfigProvider_new oe filename profile =
     (let filename = (if filename \<noteq> [] then filename
            else GetEnv oe ''AWS_SHARED_CREDENTIALS_FILE'' (os_home oe @ ''/aws/credentials''));
          profile = (if profile \<noteq> [] then profile else GetEnv oe ''AWS_PROFILE'' ''default'')
      in case os_ini oe filename of
           None \<Rightarrow> (provider_of StaticProvider)\<lparr>p_creds := creds_error (''unable to read '' @ filename)\<rparr>
         | Some get \<Rightarrow>
             let val = (\<lambda>k. case get profile k of Some v \<Rightarrow> v | None \<Rightarrow> [])
             in StaticProvider_new (val ''aws_access_key_id'') (val ''aws_secret_access_key'')
                  (val ''aws_session_token''))"

definition MinioClientConfigProvider_new :: "os_env \<Rightarrow> string \<Rightarrow> string \<Rightarrow> provider option" where
  "MinioClientConfigProvider_new oe filename alias =
     (let filename = (if filename \<noteq> [] then filename else os_home oe @ ''/.mc/config.json'');
          alias = (if alias \<noteq> [] then alias else GetEnv oe ''MINIO_ALIAS'' ''s3'');
          failed = (\<lambda>msg. Some ((provider_of StaticProvider)\<lparr>p_creds := creds_error msg\<rparr>))
      in case os_json oe (os_file oe filename) of
           None \<Rightarrow> None
         | Some j \<Rightarrow>
             (case (if json_contains ''hosts'' j then json_get ''hosts'' j else json_get ''aliases'' j) of
                None \<Rightarrow> failed (''invalid configuration in file '' @ filename)
              | Some aliases \<Rightarrow>
                  (case json_get alias aliases of
                     None \<Rightarrow> failed (''alias '' @ alias
                       @ '' not found in MinIO client configuration file '' @ filename)
                   | Some a \<Rightarrow>
                       (case (json_string (json_get ''accessKey'' a), json_string (json_get ''secretKey'' a)) of
                          (Some ak, Some sk) \<Rightarrow> Some (StaticProvider_new ak sk [])
                        | _ \<Rightarrow> None))))"

definition IamAwsProvider_new :: "os_env \<Rightarrow> url \<Rightarrow> provider" where
  "IamAwsProvider_new oe custom_endpoint =
     (let rel = GetEnv oe ''AWS_CONTAINER_CREDENTIALS_RELATIVE_URI'' [];
          rel = (if rel \<noteq> [] \<and> hd rel \<noteq> CHR ''/'' then ''/'' @ rel else rel)
      in provider_of (IamAwsProvider \<lparr>iam_endpoint = custom_endpoint,
           iam_token_file = GetEnv oe ''AWS_WEB_IDENTITY_TOKEN_FILE'' [],
           iam_aws_region = GetEnv oe ''AWS_REGION'' [], iam_role_arn = GetEnv oe ''AWS_ROLE_ARN'' [],
           iam_role_session_name = GetEnv oe ''AWS_ROLE_SESSION_NAME'' [], iam_relative_uri = rel,
           iam_full_uri = GetEnv oe ''AWS_CONTAINER_CREDENTIALS_FULL_URI'' []\<rparr>))"

definition Add_if :: "bool \<Rightarrow> string \<Rightarrow> string \<Rightarrow> multimap \<Rightarrow> multimap" where
  "Add_if c k v m = (if c then Add k v m else m)"

definition AssumeRoleProvider_new :: "crypto \<Rightarrow> url \<Rightarrow> string \<Rightarrow> string \<Rightarrow> u32 \<Rightarrow> string \<Rightarrow> string
    \<Rightarrow> string \<Rightarrow> string \<Rightarrow> string \<Rightarrow> string \<Rightarrow> provider" where
  "AssumeRoleProvider_new cr endpoint ak sk duration_seconds policy region role_arn role_session_name
       external_id token_revoke_type =
     (let endpoint = (if path endpoint = [] then endpoint\<lparr>path := ''/''\<rparr> else endpoint);
          duration_seconds = (if duration_seconds < DEFAULT_DURATION_SECONDS
            then DEFAULT_DURATION_SECONDS else duration_seconds);
          m = Add ''Action'' ''AssumeRole'' mm_empty;
          m = Add ''Version'' ''2011-06-15'' m;
          m = Add ''DurationSeconds'' (to_string (unat duration_seconds)) m;
          m = Add_if (role_arn \<noteq> []) ''RoleArn'' role_arn m;
          m = Add_if (role_session_name \<noteq> []) ''RoleSessionName'' role_session_name m;
          m = Add_if (policy \<noteq> []) ''Policy'' policy m;
          m = Add_if (external_id \<noteq> []) ''ExternalId'' external_id m;
          m = Add_if (token_revoke_type \<noteq> []) ''TokenRevokeType'' token_revoke_type m;
          body = ToQueryString m
      in provider_of (AssumeRoleProvider endpoint ak sk region body (Sha256Hash (sha256 cr) body)))"

definition LdapIdentityProvider_new :: "url \<Rightarrow> string \<Rightarrow> string \<Rightarrow> string \<Rightarrow> u32 \<Rightarrow> string \<Rightarrow> string \<Rightarrow> provider" where
  "LdapIdentityProvider_new endpoint ldap_username ldap_password policy duration_seconds
       token_revoke_type config_name =
     (let m = Add ''Action'' ''AssumeRoleWithLDAPIdentity'' mm_empty;
          m = Add ''Version'' ''2011-06-15'' m;
          m = Add ''LDAPUsername'' ldap_username m;
          m = Add ''LDAPPassword'' ldap_password m;
          m = Add_if (policy \<noteq> []) ''Policy'' policy m;
          m = Add_if (0 < duration_seconds) ''DurationSeconds'' (to_string (unat duration_seconds)) m;
          m = Add_if (token_revoke_type \<noteq> []) ''TokenRevokeType'' token_revoke_type m;
          m = Add_if (config_name \<noteq> []) ''ConfigName'' config_name m
      in provider_of (LdapIdentityProvider (endpoint\<lparr>query_string := ToQueryString m\<rparr>)))"

definition CertificateIdentityProvider_new :: "url \<Rightarrow> string \<Rightarrow> string \<Rightarrow> u32 \<Rightarrow> string \<Rightarrow> provider" where
  "CertificateIdentityProvider_new endpoint key_file cert_file duration_seconds token_revoke_type =
     (let blank = provider_of (CertificateIdentityProvider url_empty) in
      if \<not> https endpoint then blank\<lparr>p_err := ''sts endpoint scheme must be HTTPS''\<rparr>
      else if key_file = [] \<or> cert_file = [] then
        blank\<lparr>p_err := ''client key and certificate must be provided''\<rparr>
      else
        let expiry = (if duration_seconds < DEFAULT_DURATION_SECONDS
              then DEFAULT_DURATION_SECONDS else duration_seconds);
            m = Add ''Action'' ''AssumeRoleWithCertificate'' mm_empty;
            m = Add ''Version'' ''2011-06-15'' m;
            m = Add ''DurationSeconds'' (to_string (unat expiry)) m;
            m = Add_if (token_revoke_type \<noteq> []) ''TokenRevokeType'' token_revoke_type m
        in provider_of (CertificateIdentityProvider (endpoint\<lparr>query_string := ToQueryString m\<rparr>)))"

definition CustomTokenIdentityProvider_new :: "url \<Rightarrow> string \<Rightarrow> string \<Rightarrow> u32 \<Rightarrow> string \<Rightarrow> provider" where
  "CustomTokenIdentityProvider_new endpoint role_arn token duration_seconds token_revoke_type =
     (if host endpoint = [] then
        (provider_of (CustomTokenIdentityProvider url_empty [] [] 0 []))\<lparr>p_err := ''STS endpoint unknown''\<rparr>
      else provider_of (CustomTokenIdentityProvider endpoint role_arn token duration_seconds token_revoke_type))"

definition getDurationSeconds :: "u32 \<Rightarrow> u32 \<Rightarrow> u32" where
  "getDurationSeconds duration_seconds expiry =
     (let expiry = (if duration_seconds \<noteq> 0 then duration_seconds else expiry) in
      if MAX_DURATION_SECONDS < expiry then MAX_DURATION_SECONDS
      else if expiry = 0 then expiry
      else if expiry < MIN_DURATION_SECONDS then MIN_DURATION_SECONDS
      else expiry)"

subsection \<open>Fetch\<close>

definition sts_request :: "http_method \<Rightarrow> url \<Rightarrow> multimap \<Rightarrow> string \<Rightarrow> unit http_request" where
  "sts_request m u hs body =
     \<lparr>rq_method = m, rq_url = u, rq_headers = hs, rq_body = body, rq_datafunc = None\<rparr>"

text \<open>The credentials in a response: the response's error, or what \<open>ParseXML\<close> finds.\<close>

definition sts_creds :: "penv \<Rightarrow> string \<Rightarrow> http_response \<Rightarrow> credentials option" where
  "sts_creds e root resp =
     (if \<not> resp_bool resp then Some (creds_error (Response_Error resp))
      else case ParseXML (timezone (pe_crypto e)) (pe_xml e) (resp_body resp) root of
        None \<Rightarrow> None
      | Some (Inl err) \<Rightarrow> Some (creds_error err)
      | Some (Inr c) \<Rightarrow> Some c)"

text \<open>The query of \<open>WebIdentityClientGrantsProvider::Fetch\<close>.\<close>

definition web_identity_params :: "penv \<Rightarrow> bool \<Rightarrow> jwt \<Rightarrow> u32 \<Rightarrow> string \<Rightarrow> string \<Rightarrow> string \<Rightarrow> string \<Rightarrow> multimap" where
  "web_identity_params e web j duration policy role_arn role_session_name token_revoke_type =
     (let d = getDurationSeconds duration (jwt_expiry j);
          m = Add ''Version'' ''2011-06-15'' mm_empty;
          m = Add_if (d \<noteq> 0) ''DurationSeconds'' (to_string (unat d)) m;
          m = Add_if (policy \<noteq> []) ''Policy'' policy m;
          m = Add_if (token_revoke_type \<noteq> []) ''TokenRevokeType'' token_revoke_type m
      in if web then
           let m = Add ''Action'' ''AssumeRoleWithWebIdentity'' m;
               m = Add ''WebIdentityToken'' (jwt_token j) m;
               m = Add_if (jwt_access_token j \<noteq> []) ''WebIdentityAccessToken'' (jwt_access_token j) m;
               m = Add_if (jwt_refresh_token j \<noteq> []) ''WebIdentityRefreshToken'' (jwt_refresh_token j) m
           in if role_arn \<noteq> [] then
                Add ''RoleSessionName'' (if role_session_name \<noteq> [] then role_session_name
                     else ToISO8601UTC (timezone (pe_crypto e)) (pe_now e)) (Add ''RoleArn'' role_arn m)
              else m
         else Add ''Token'' (jwt_token j) (Add ''Action'' ''AssumeRoleWithClientGrants'' m))"

text \<open>The guards the \<open>Fetch\<close> functions start with: the constructor's error, and valid
  credentials from an earlier call.\<close>

definition unless_valid :: "penv \<Rightarrow> provider \<Rightarrow> (credentials \<times> provider) option \<Rightarrow> (credentials \<times> provider) option" where
  "unless_valid e p k = (if creds_bool (pe_now e) (p_creds p) then Some (p_creds p, p) else k)"

definition unless_error :: "provider \<Rightarrow> (credentials \<times> provider) option \<Rightarrow> (credentials \<times> provider) option" where
  "unless_error p k = (if is_err (p_err p) then Some (creds_error (p_err p), p) else k)"

text \<open>Sending the request; \<open>keep\<close> says that an error response is stored in \<open>creds_\<close> too.\<close>

definition send_for_creds :: "penv \<Rightarrow> bool \<Rightarrow> unit http_request \<Rightarrow> string \<Rightarrow> provider \<Rightarrow> (credentials \<times> provider) option" where
  "send_for_creds e keep req root p =
     (let resp = fst (http_execute (pe_send e) req ()) in
      case sts_creds e root resp of
        None \<Rightarrow> None
      | Some c \<Rightarrow> Some (c, if resp_bool resp \<or> keep then p\<lparr>p_creds := c\<rparr> else p))"

definition AssumeRoleProvider_Fetch :: "penv \<Rightarrow> url \<Rightarrow> string \<Rightarrow> string \<Rightarrow> string \<Rightarrow> string \<Rightarrow> string \<Rightarrow> provider
    \<Rightarrow> (credentials \<times> provider) option" where
  "AssumeRoleProvider_Fetch e u ak sk region body sha p =
     unless_error p (unless_valid e p
       (let date = pe_now e;
            hs = Add ''Content-Type'' ''application/x-www-form-urlencoded'' mm_empty;
            hs = Add ''Host'' (host u) hs;
            hs = Add ''X-Amz-Date'' (ToAmzDate (timezone (pe_crypto e)) date) hs;
            hs = SignV4STS (pe_crypto e) kPost (path u) region hs mm_empty ak sk sha date
        in send_for_creds e True (sts_request kPost u hs body) ''AssumeRoleResponse/AssumeRoleResult'' p))"

definition WebIdentityClientGrantsProvider_Fetch :: "penv \<Rightarrow> bool \<Rightarrow> jwt \<Rightarrow> url \<Rightarrow> u32 \<Rightarrow> string \<Rightarrow> string
    \<Rightarrow> string \<Rightarrow> string \<Rightarrow> provider \<Rightarrow> (credentials \<times> provider) option" where
  "WebIdentityClientGrantsProvider_Fetch e web j u duration policy role_arn session revoke p =
     unless_valid e p
       (send_for_creds e True
         (sts_request kPost (u\<lparr>query_string :=
            ToQueryString (web_identity_params e web j duration policy role_arn session revoke)\<rparr>) mm_empty [])
         (if web then ''AssumeRoleWithWebIdentityResponse/AssumeRoleWithWebIdentityResult''
          else ''AssumeRoleWithClientGrantsResponse/AssumeRoleWithClientGrantsResult'') p)"

definition LdapIdentityProvider_Fetch :: "penv \<Rightarrow> url \<Rightarrow> provider \<Rightarrow> (credentials \<times> provider) option" where
  "LdapIdentityProvider_Fetch e u p =
     unless_valid e p (send_for_creds e False (sts_request kPost u mm_empty [])
       ''AssumeRoleWithLDAPIdentityResponse/AssumeRoleWithLDAPIdentityResult'' p)"

definition CertificateIdentityProvider_Fetch :: "penv \<Rightarrow> url \<Rightarrow> provider \<Rightarrow> (credentials \<times> provider) option" where
  "CertificateIdentityProvider_Fetch e u p =
     unless_error p (unless_valid e p (send_for_creds e False (sts_request kPost u mm_empty [])
       ''AssumeRoleWithCertificateResponse/AssumeRoleWithCertificateResult'' p))"

definition CustomTokenIdentityProvider_Fetch :: "penv \<Rightarrow> url \<Rightarrow> string \<Rightarrow> string \<Rightarrow> u32 \<Rightarrow> string \<Rightarrow> provider
    \<Rightarrow> (credentials \<times> provider) option" where
  "CustomTokenIdentityProvider_Fetch e u role_arn token duration revoke p =
     unless_error p (unless_valid e p
       (let m = Add ''Action'' ''AssumeRoleWithCustomToken'' mm_empty;
            m = Add ''Version'' ''2011-06-15'' m;
            m = Add ''RoleArn'' role_arn m;
            m = Add ''Token'' token m;
            m = Add_if (0 < duration) ''DurationSeconds'' (to_string (unat duration)) m;
            m = Add_if (revoke \<noteq> []) ''TokenRevokeType'' revoke m
        in send_for_creds e True (sts_request kPost (u\<lparr>query_string := ToQueryString m\<rparr>) mm_empty [])
             ''AssumeRoleWithCustomTokenResponse/AssumeRoleWithCustomTokenResult'' p))"

subsection \<open>The EC2 metadata service\<close>

text \<open>The two requests of \<open>IamAwsProvider\<close>: the name of the role, the first line of the answer, and
  the credentials of the role as a JSON object. \<open>None\<close>: the JSON library throws.\<close>

definition first_line :: "string \<Rightarrow> string option" where
  "first_line s =
     (if CHR 0x0A \<in> set s then Some (takeWhile (\<lambda>c. c \<noteq> CHR 0x0A) s)
      else if s \<noteq> [] then Some s else None)"

definition iam_getRoleName :: "penv \<Rightarrow> url \<Rightarrow> error + string" where
  "iam_getRoleName e u =
     (let resp = fst (http_execute (pe_send e) (sts_request kGet u mm_empty []) ()) in
      if \<not> resp_bool resp then Inl (Response_Error resp)
      else case first_line (resp_body resp) of
        None \<Rightarrow> Inl (''no IAM roles attached to EC2 service '' @ Url_String u)
      | Some l \<Rightarrow> Inr (Trim l (CHR 0x0D)))"

definition iam_fetch :: "penv \<Rightarrow> url \<Rightarrow> credentials option" where
  "iam_fetch e u =
     (let resp = fst (http_execute (pe_send e) (sts_request kGet u mm_empty []) ()) in
      if \<not> resp_bool resp then Some (creds_error (Response_Error resp))
      else case pe_json e (resp_body resp) of
        None \<Rightarrow> None
      | Some j \<Rightarrow>
          (case json_value ''Code'' ''Success'' j of
             None \<Rightarrow> None
           | Some code \<Rightarrow>
               if code \<noteq> ''Success'' then
                 (case json_value ''Message'' [] j of
                    None \<Rightarrow> None
                  | Some msg \<Rightarrow> Some (creds_error (Url_String u @ '' failed with code '' @ code
                      @ '' and message '' @ msg)))
               else
                 (case (json_string (json_get ''Expiration'' j), json_string (json_get ''AccessKeyId'' j),
                    json_string (json_get ''SecretAccessKey'' j), json_string (json_get ''Token'' j)) of
                    (Some x, Some ak, Some sk, Some tok) \<Rightarrow>
                      (case FromISO8601UTC (timezone (pe_crypto e)) x of
                         None \<Rightarrow> None
                       | Some t \<Rightarrow> Some \<lparr>cr_err = SUCCESS, access_key = ak, secret_key = sk,
                           session_token = tok, expiration = t\<rparr>)
                  | _ \<Rightarrow> None)))"

definition default_url :: "url \<Rightarrow> string \<Rightarrow> string \<Rightarrow> url" where
  "default_url u h p = (if url_bool u then u else u\<lparr>https := True, host := h, path := p\<rparr>)"

definition IamAwsProvider_url :: "penv \<Rightarrow> iam_config \<Rightarrow> (error + url) option" where
  "IamAwsProvider_url e i =
     (if iam_relative_uri i \<noteq> [] then
        Some (Inr (default_url (iam_endpoint i) ''169.254.170.2'' (iam_relative_uri i)))
      else if iam_full_uri i \<noteq> [] then
        (case (if url_bool (iam_endpoint i) then Some (iam_endpoint i)
               else Url_Parse (pe_inet6 e) (iam_full_uri i)) of
           None \<Rightarrow> None
         | Some u \<Rightarrow>
             (let err = checkLoopbackHost (pe_resolve e) (host u) in
              if is_err err then Some (Inl err) else Some (Inr u)))
      else
        let u = default_url (iam_endpoint i) ''169.254.169.254'' ''/latest/meta-data/iam/security-credentials/''
        in case iam_getRoleName e u of
             Inl err \<Rightarrow> Some (Inl err)
           | Inr role \<Rightarrow> Some (Inr (u\<lparr>path := path u @ ''/'' @ role\<rparr>)))"

text \<open>With a token file the provider delegates to a fresh web identity provider; the file and
  its JSON text are read by \<open>pe_token\<close>.\<close>

definition IamAwsProvider_Fetch :: "penv \<Rightarrow> iam_config \<Rightarrow> provider \<Rightarrow> (credentials \<times> provider) option" where
  "IamAwsProvider_Fetch e i p =
     unless_valid e p
       (case (if iam_token_file i \<noteq> [] then
                (case pe_token e (iam_token_file i) of
                   None \<Rightarrow> None
                 | Some j \<Rightarrow>
                     let u = (if url_bool (iam_endpoint i) then iam_endpoint i
                              else (iam_endpoint i)\<lparr>https := True,
                                host := (if iam_aws_region i = [] then ''sts.amazonaws.com''
                                         else ''sts.'' @ iam_aws_region i @ ''.amazonaws.com'')\<rparr>)
                     in map_option fst (WebIdentityClientGrantsProvider_Fetch e True j u 0 []
                          (iam_role_arn i) (iam_role_session_name i) [] (provider_of StaticProvider)))
              else
                (case IamAwsProvider_url e i of
                   None \<Rightarrow> None
                 | Some (Inl err) \<Rightarrow> Some (creds_error err)
                 | Some (Inr u) \<Rightarrow> iam_fetch e u)) of
          None \<Rightarrow> None
        | Some c \<Rightarrow> Some (c, p\<lparr>p_creds := c\<rparr>))"

text \<open>The virtual call \<open>provider->Fetch()\<close>.\<close>

definition Fetch :: "penv \<Rightarrow> provider \<Rightarrow> (credentials \<times> provider) option" where
  "Fetch e p = (case p_kind p of
      StaticProvider \<Rightarrow> Some (p_creds p, p)
    | AssumeRoleProvider u ak sk region body sha \<Rightarrow> AssumeRoleProvider_Fetch e u ak sk region body sha p
    | WebIdentityClientGrantsProvider web j u d policy arn session revoke \<Rightarrow>
        WebIdentityClientGrantsProvider_Fetch e web j u d policy arn session revoke p
    | IamAwsProvider i \<Rightarrow> IamAwsProvider_Fetch e i p
    | LdapIdentityProvider u \<Rightarrow> LdapIdentityProvider_Fetch e u p
    | CertificateIdentityProvider u \<Rightarrow> CertificateIdentityProvider_Fetch e u p
    | CustomTokenIdentityProvider u arn token d revoke \<Rightarrow> CustomTokenIdentityProvider_Fetch e u arn token d revoke p)"

lemmas Fetch_defs = AssumeRoleProvider_Fetch_def WebIdentityClientGrantsProvider_Fetch_def
  IamAwsProvider_Fetch_def LdapIdentityProvider_Fetch_def CertificateIdentityProvider_Fetch_def
  CustomTokenIdentityProvider_Fetch_def Let_def

subsection \<open>The chain\<close>

text \<open>\<open>provider_\<close> points into \<open>providers_\<close>; it is the position in the list, whose entries
  are distinct objects.\<close>

record 'p chain =
  ch_creds :: credentials
  ch_provider :: "nat option"
  ch_providers :: "'p list"

text \<open>The loop over the providers from position \<open>i\<close>.\<close>

fun chain_loop :: "('p \<Rightarrow> (credentials \<times> 'p) option) \<Rightarrow> (credentials \<Rightarrow> bool) \<Rightarrow> nat \<Rightarrow> 'p list
    \<Rightarrow> ((credentials \<times> nat) option \<times> credentials option \<times> 'p list) option" where
  "chain_loop fetch valid i [] = Some (None, None, [])"
| "chain_loop fetch valid i (p # ps) =
     (case fetch p of
        None \<Rightarrow> None
      | Some (c, p') \<Rightarrow>
          if valid c then Some (Some (c, i), Some c, p' # ps)
          else case chain_loop fetch valid (Suc i) ps of
            None \<Rightarrow> None
          | Some (r, lst, ps') \<Rightarrow> Some (r, Some (case lst of None \<Rightarrow> c | Some d \<Rightarrow> d), p' # ps'))"

definition chain_scan :: "('p \<Rightarrow> (credentials \<times> 'p) option) \<Rightarrow> (credentials \<Rightarrow> bool) \<Rightarrow> 'p chain
    \<Rightarrow> (credentials \<times> 'p chain) option" where
  "chain_scan fetch valid ch =
     (case chain_loop fetch valid 0 (ch_providers ch) of
        None \<Rightarrow> None
      | Some (Some (c, i), _, ps) \<Rightarrow> Some (c, \<lparr>ch_creds = c, ch_provider = Some i, ch_providers = ps\<rparr>)
      | Some (None, lst, ps) \<Rightarrow>
          Some (creds_error ''All providers fail to fetch credentials'',
            \<lparr>ch_creds = (case lst of None \<Rightarrow> ch_creds ch | Some c \<Rightarrow> c),
             ch_provider = (if ps = [] then ch_provider ch else Some (length ps - 1)), ch_providers = ps\<rparr>))"

definition chain_Fetch :: "('p \<Rightarrow> (credentials \<times> 'p) option) \<Rightarrow> (credentials \<Rightarrow> bool) \<Rightarrow> 'p chain
    \<Rightarrow> (credentials \<times> 'p chain) option" where
  "chain_Fetch fetch valid ch =
     (if valid (ch_creds ch) then Some (ch_creds ch, ch)
      else case ch_provider ch of
        None \<Rightarrow> chain_scan fetch valid ch
      | Some i \<Rightarrow>
          (case fetch (ch_providers ch ! i) of
             None \<Rightarrow> None
           | Some (c, p') \<Rightarrow>
               let ch = ch\<lparr>ch_creds := c, ch_providers := (ch_providers ch)[i := p']\<rparr>
               in if valid c then Some (c, ch) else chain_scan fetch valid ch))"

subsection \<open>What a provider promises\<close>

lemma getDurationSeconds_bounds:
  "getDurationSeconds d e = 0 \<and> d = 0 \<and> e = 0
   \<or> 900 \<le> unat (getDurationSeconds d e) \<and> unat (getDurationSeconds d e) \<le> 604800"
  by (auto simp: getDurationSeconds_def Let_def MAX_DURATION_SECONDS_def MIN_DURATION_SECONDS_def
      word_less_nat_alt not_less word_le_nat_alt)

lemma getDurationSeconds_id:
  "900 \<le> unat x \<Longrightarrow> unat x \<le> 604800 \<Longrightarrow> x = (if d \<noteq> 0 then d else e) \<Longrightarrow> getDurationSeconds d e = x"
  by (auto simp: getDurationSeconds_def Let_def MAX_DURATION_SECONDS_def MIN_DURATION_SECONDS_def
      word_less_nat_alt unat_gt_0)

lemma Fetch_cached:
  "creds_bool (pe_now e) (p_creds p) \<Longrightarrow> \<not> is_err (p_err p) \<Longrightarrow> Fetch e p = Some (p_creds p, p)"
  by (cases "p_kind p") (simp_all add: Fetch_def Fetch_defs unless_error_def unless_valid_def)

lemma sts_creds_valid:
  assumes "sts_creds e root resp = Some c" "creds_bool now c"
  shows "resp_bool resp"
proof (rule ccontr)
  assume "\<not> resp_bool resp"
  moreover from this assms have "\<not> is_err (Response_Error resp)"
    by (auto simp: sts_creds_def)
  ultimately have "resp_error resp = []" "status_code resp = 0"
    by (auto simp: Response_Error_def resp_bool_def is_err_def split: if_splits)
  then show False using assms \<open>\<not> resp_bool resp\<close>
    by (auto simp: sts_creds_def creds_bool_def creds_error_def creds_empty_def)
qed

text \<open>Credentials that are valid are either the cached ones or come from a successful
  response, and then they are cached.\<close>

lemma send_for_creds_valid:
  assumes "send_for_creds e keep req root p = Some (c, p')" "creds_bool now c"
  shows "p' = p\<lparr>p_creds := c\<rparr>"
  using assms sts_creds_valid [of e root _ c now]
  by (auto simp: send_for_creds_def Let_def split: option.splits if_splits)

lemma unless_valid_keeps:
  assumes "unless_valid e p k = Some (c, p')" "k = Some (c, p') \<Longrightarrow> p' = p\<lparr>p_creds := c\<rparr>"
  shows "p' = p\<lparr>p_creds := c\<rparr>"
  using assms by (cases p) (auto simp: unless_valid_def split: if_splits)

lemma unless_error_valid:
  assumes "unless_error p k = Some (c, p')" "creds_bool now c"
  shows "\<not> is_err (p_err p)" "k = Some (c, p')"
  using assms by (auto simp: unless_error_def split: if_splits)

lemma Fetch_valid:
  assumes "Fetch e p = Some (c, p')" "creds_bool (pe_now e) c"
  shows "p' = p\<lparr>p_creds := c\<rparr>"
proof (cases "p_kind p")
  case StaticProvider
  then show ?thesis using assms by (cases p) (simp add: Fetch_def)
next
  case (IamAwsProvider i)
  then show ?thesis using assms(1)
    by (auto simp: Fetch_def IamAwsProvider_Fetch_def elim!: unless_valid_keeps split: option.splits)
qed (use assms in \<open>auto simp: Fetch_def Fetch_defs elim!: unless_valid_keeps
      dest!: unless_error_valid send_for_creds_valid\<close>)

lemma Fetch_stored:
  assumes "Fetch e p = Some (c, p')" "creds_bool (pe_now e) c"
  shows "Fetch e (p\<lparr>p_creds := c\<rparr>) = Some (c, p\<lparr>p_creds := c\<rparr>)"
proof (cases "p_kind p")
  case StaticProvider
  then show ?thesis by (simp add: Fetch_def)
qed (use assms in \<open>auto simp: Fetch_def Fetch_defs unless_valid_def unless_error_def split: if_splits\<close>)

text \<open>What the chain needs of its members: valid credentials are kept and given again.\<close>

locale credential_source =
  fixes fetch :: "'p \<Rightarrow> (credentials \<times> 'p) option" and valid :: "credentials \<Rightarrow> bool"
  assumes again: "fetch p = Some (c, p') \<Longrightarrow> valid c \<Longrightarrow> fetch p' = Some (c, p')"
    and error_invalid: "is_err e \<Longrightarrow> \<not> valid (creds_error e)"
begin

lemma loop_found:
  "chain_loop fetch valid i ps = Some (Some (c, j), lst, ps') \<Longrightarrow>
     valid c \<and> lst = Some c \<and> length ps' = length ps \<and> i \<le> j \<and> j < i + length ps
     \<and> (\<exists>p'. fetch (ps ! (j - i)) = Some (c, p') \<and> ps' ! (j - i) = p')
     \<and> (\<forall>k < j - i. \<exists>d p'. fetch (ps ! k) = Some (d, p') \<and> \<not> valid d)"
proof (induction ps arbitrary: i lst ps')
  case (Cons p ps)
  show ?case
  proof (cases "fetch p")
    case None
    with Cons.prems show ?thesis by simp
  next
    case (Some cp)
    obtain d p' where f: "fetch p = Some (d, p')" using Some by (cases cp) auto
    show ?thesis
    proof (cases "valid d")
      case True
      with Cons.prems f show ?thesis by auto
    next
      case False
      with Cons.prems f obtain lst' ps'' where
        L: "chain_loop fetch valid (Suc i) ps = Some (Some (c, j), lst', ps'')" "ps' = p' # ps''"
          "lst = Some (case lst' of None \<Rightarrow> d | Some d \<Rightarrow> d)"
        by (auto split: option.splits prod.splits)
      note IH = Cons.IH [OF L(1)]
      then have "j - i = Suc (j - Suc i)" by linarith
      with IH L f False show ?thesis by (auto simp: less_Suc_eq_0_disj)
    qed
  qed
qed simp

lemma loop_none:
  "chain_loop fetch valid i ps = Some (None, lst, ps') \<Longrightarrow>
     \<forall>k < length ps. \<exists>d p'. fetch (ps ! k) = Some (d, p') \<and> \<not> valid d"
proof (induction ps arbitrary: i lst ps')
  case (Cons p ps)
  then show ?case
    by (fastforce simp: less_Suc_eq_0_disj split: option.splits prod.splits if_splits)
qed simp

text \<open>Valid credentials come from the cache, from the current provider, or from the first
  provider of the list that has some.\<close>

lemma chain_result:
  assumes "chain_Fetch fetch valid ch = Some (c, ch')" "valid c"
  shows "ch_creds ch' = c"
    and "chain_Fetch fetch valid ch' = Some (c, ch')"
proof -
  have scan: "ch_creds ch' = c" if "chain_scan fetch valid ch0 = Some (c, ch')" for ch0
    using that assms(2) error_invalid [of "''All providers fail to fetch credentials''"] loop_found
    by (auto simp: chain_scan_def split: option.splits prod.splits)
  show *: "ch_creds ch' = c"
    using assms scan by (auto simp: chain_Fetch_def Let_def split: option.splits prod.splits if_splits)
  then show "chain_Fetch fetch valid ch' = Some (c, ch')"
    using assms(2) by (simp add: chain_Fetch_def)
qed

lemma chain_first:
  assumes "chain_scan fetch valid ch = Some (c, ch')" "valid c"
  obtains j p' where "j < length (ch_providers ch)" "fetch (ch_providers ch ! j) = Some (c, p')"
    "\<forall>k < j. \<exists>d q. fetch (ch_providers ch ! k) = Some (d, q) \<and> \<not> valid d"
    "ch_provider ch' = Some j" "ch_providers ch' ! j = p'" "fetch p' = Some (c, p')"
proof -
  from assms error_invalid [of "''All providers fail to fetch credentials''"]
  obtain j lst ps where L: "chain_loop fetch valid 0 (ch_providers ch) = Some (Some (c, j), lst, ps)"
    "ch' = \<lparr>ch_creds = c, ch_provider = Some j, ch_providers = ps\<rparr>"
    by (auto simp: chain_scan_def split: option.splits prod.splits)
  from loop_found [OF L(1)] obtain p' where "fetch (ch_providers ch ! j) = Some (c, p')" "ps ! j = p'"
    "j < length (ch_providers ch)" "\<forall>k < j. \<exists>d q. fetch (ch_providers ch ! k) = Some (d, q) \<and> \<not> valid d"
    by auto
  then show ?thesis using that again assms(2) L(2) by simp
qed

lemma chain_all_fail:
  assumes "chain_scan fetch valid ch = Some (c, ch')" "\<not> valid c"
  shows "c = creds_error ''All providers fail to fetch credentials''"
    and "\<forall>k < length (ch_providers ch). \<exists>d q. fetch (ch_providers ch ! k) = Some (d, q) \<and> \<not> valid d"
proof -
  obtain r lst ps where L: "chain_loop fetch valid 0 (ch_providers ch) = Some (r, lst, ps)"
    using assms(1) by (auto simp: chain_scan_def split: option.splits)
  have r: "r = None"
  proof (cases r)
    case (Some cj)
    then obtain d j where "r = Some (d, j)" by (cases cj) auto
    with L loop_found [of 0 "ch_providers ch" d j lst ps] assms show ?thesis
      by (simp add: chain_scan_def)
  qed
  show "c = creds_error ''All providers fail to fetch credentials''"
    using assms(1) by (simp add: chain_scan_def L r)
  show "\<forall>k < length (ch_providers ch). \<exists>d q. fetch (ch_providers ch ! k) = Some (d, q) \<and> \<not> valid d"
    by (rule loop_none) (use L r in simp)
qed

end

lemma Fetch_again:
  assumes "Fetch e p = Some (c, p')" "creds_bool (pe_now e) c"
  shows "Fetch e p' = Some (c, p')"
  using Fetch_valid [OF assms] Fetch_stored [OF assms] by simp

interpretation sts: credential_source "Fetch e" "creds_bool (pe_now e)" for e
  by unfold_locales (simp_all add: Fetch_again)

text \<open>A chain of providers is itself a source of credentials.\<close>

lemma chain_scan_again:
  assumes "credential_source fetch valid"
  shows "credential_source (chain_Fetch fetch valid) valid"
  using assms credential_source.chain_result [OF assms] credential_source.error_invalid [OF assms]
  by unfold_locales auto

interpretation chained: credential_source "chain_Fetch (Fetch e) (creds_bool (pe_now e))" "creds_bool (pe_now e)" for e
  by (rule chain_scan_again) (rule sts.credential_source_axioms)

end
