(* ===== verification/Select.thy ===== *)
theory Select
  imports Http
begin

section \<open>The S3 Select event stream (src/select.cc, include/miniocpp/select.h)\<close>

text \<open>
  \<open>SelectHandler\<close> reassembles messages from the chunks of a response body: an 8-byte
  prelude (total and header length), its CRC, headers and payload, and the CRC of it all.
  \<open>handler\<close> is the object's members; the reading functions, \<open>DecodeHeader\<close>, \<open>process\<close> and
  \<open>DataFunction\<close> are translated with their early returns.

  zlib's CRC32, pugixml and the caller's result function are the record \<open>select_env\<close>. A run
  can also crash: \<open>Undefined\<close> is a read behind a string's terminator, \<open>Thrown\<close> an exception
  of \<open>std::stoll\<close>, which nothing in the handler catches.
\<close>

unbundle bit_operations_syntax

record select_result =
  sr_err :: error
  sr_ended :: bool
  sr_bytes_scanned :: "int option"
  sr_bytes_processed :: "int option"
  sr_bytes_returned :: "int option"
  sr_records :: string

definition sr_default :: select_result where
  "sr_default = \<lparr>sr_err = SUCCESS, sr_ended = False, sr_bytes_scanned = None,
     sr_bytes_processed = None, sr_bytes_returned = None, sr_records = []\<rparr>"

definition sr_end :: select_result where
  "sr_end = sr_default\<lparr>sr_ended := True\<rparr>"

definition sr_error :: "error \<Rightarrow> select_result" where
  "sr_error e = sr_default\<lparr>sr_err := e, sr_ended := True\<rparr>"

definition sr_recs :: "string \<Rightarrow> select_result" where
  "sr_recs r = sr_default\<lparr>sr_records := r\<rparr>"

datatype crash = Undefined | Thrown

record 's select_env =
  se_crc32 :: "string \<Rightarrow> u32"
  se_xml :: "string \<Rightarrow> (string \<Rightarrow> string) option"
  se_result :: "'s \<Rightarrow> select_result \<Rightarrow> bool \<times> 's"

record handler =
  h_done :: bool
  h_response :: string
  h_prelude :: string
  h_prelude_read :: bool
  h_prelude_crc :: string
  h_prelude_crc_read :: bool
  h_total_length :: u64
  h_data :: string
  h_data_read :: bool
  h_message_crc :: string
  h_message_crc_read :: bool

definition handler_new :: handler where
  "handler_new = \<lparr>h_done = False, h_response = [], h_prelude = [], h_prelude_read = False,
     h_prelude_crc = [], h_prelude_crc_read = False, h_total_length = 0, h_data = [],
     h_data_read = False, h_message_crc = [], h_message_crc_read = False\<rparr>"

definition Reset :: "handler \<Rightarrow> handler" where
  "Reset h = h\<lparr>h_prelude := [], h_prelude_read := False, h_prelude_crc := [],
     h_prelude_crc_read := False, h_data := [], h_data_read := False, h_message_crc := [],
     h_message_crc_read := False\<rparr>"

text \<open>\<open>None\<close>: the function returns false and changes nothing.\<close>

definition ReadPrelude :: "handler \<Rightarrow> handler option" where
  "ReadPrelude h =
     (if length (h_response h) < 8 then None
      else Some (h\<lparr>h_prelude_read := True, h_prelude := take 8 (h_response h),
                   h_response := drop 8 (h_response h)\<rparr>))"

definition ReadPreludeCrc :: "handler \<Rightarrow> handler option" where
  "ReadPreludeCrc h =
     (if length (h_response h) < 4 then None
      else Some (h\<lparr>h_prelude_crc_read := True, h_prelude_crc := take 4 (h_response h),
                   h_response := drop 4 (h_response h)\<rparr>))"

definition ReadData :: "handler \<Rightarrow> handler option" where
  "ReadData h =
     (let data_length = unat (h_total_length h - 8 - 4 - 4) in
      if length (h_response h) < data_length then None
      else Some (h\<lparr>h_data_read := True, h_data := take data_length (h_response h),
                   h_response := drop data_length (h_response h)\<rparr>))"

definition ReadMessageCrc :: "handler \<Rightarrow> handler option" where
  "ReadMessageCrc h =
     (if length (h_response h) < 4 then None
      else Some (h\<lparr>h_message_crc_read := True, h_message_crc := take 4 (h_response h),
                   h_response := drop 4 (h_response h)\<rparr>))"

subsection \<open>Headers of a message\<close>

text \<open>\<open>data[i]\<close>: the terminator at the length, undefined behind it.\<close>

definition str_at :: "string \<Rightarrow> nat \<Rightarrow> char option" where
  "str_at s i = (if i < length s then Some (s ! i) else if i = length s then Some (CHR 0x00) else None)"

definition u32_of :: "string \<Rightarrow> u32" where
  "u32_of s = (case Int_be s of Some w \<Rightarrow> w | None \<Rightarrow> 0)"

type_synonym header_map = "(string \<times> string) list"

function DecodeHeader :: "header_map \<Rightarrow> string \<Rightarrow> crash + error \<times> header_map" where
  "DecodeHeader headers buf =
     (case str_at buf 0 of
        None \<Rightarrow> Inl Undefined
      | Some c \<Rightarrow>
          if byte c = 0 then Inr (SUCCESS, headers)
          else
            let buf = drop 1 buf;
                name = take (byte c) buf;
                buf = drop (byte c) buf
            in case str_at buf 0 of
                 None \<Rightarrow> Inl Undefined
               | Some t \<Rightarrow>
                   if byte t \<noteq> 7 then Inr (''header value type is not 7'', headers)
                   else
                     let buf = drop 1 buf
                     in case (str_at buf 0, str_at buf 1) of
                          (Some a, Some b) \<Rightarrow>
                            let len = byte a * 256 + byte b;
                                buf = drop 2 buf
                            in DecodeHeader (smap_put name (take len buf) headers) (drop len buf)
                        | _ \<Rightarrow> Inl Undefined)"
  by pat_completeness auto
termination
  by (relation "measure (\<lambda>(_, buf). length buf)")
    (auto simp: str_at_def byte_def split: if_splits)

declare DecodeHeader.simps [simp del]

definition header_get :: "header_map \<Rightarrow> string \<Rightarrow> string" where
  "header_get hs k = (case map_of hs k of Some v \<Rightarrow> v | None \<Rightarrow> [])"

subsection \<open>process and DataFunction\<close>

text \<open>\<open>step ret cont h s\<close>: the value returned, the flag \<open>cont\<close>, the object, the state behind the
  result function.\<close>

type_synonym 's step_result = "crash + bool \<times> bool \<times> handler \<times> 's"

definition finish :: "'s select_env \<Rightarrow> select_result \<Rightarrow> handler \<Rightarrow> 's \<Rightarrow> 's step_result" where
  "finish e r h s = Inr (False, False, h\<lparr>h_done := True\<rparr>, snd (se_result e s r))"

definition report :: "'s select_env \<Rightarrow> select_result \<Rightarrow> handler \<Rightarrow> 's \<Rightarrow> 's step_result" where
  "report e r h s =
     (case se_result e s r of (cont, s) \<Rightarrow> Inr (cont, cont, (Reset h)\<lparr>h_done := \<not> cont\<rparr>, s))"

text \<open>\<open>if (!value.empty()) x = std::stoll(value)\<close>\<close>

definition opt_stoll :: "string \<Rightarrow> crash + int option" where
  "opt_stoll v =
     (if v = [] then Inr None
      else let s = dropWhile is_space v;
               neg = (s \<noteq> [] \<and> hd s = CHR ''-'');
               s = (if s \<noteq> [] \<and> (hd s = CHR ''-'' \<or> hd s = CHR ''+'') then tl s else s);
               ds = takeWhile is_digit s;
               n = (if neg then - int (digits_val 0 ds) else int (digits_val 0 ds))
           in if ds = [] \<or> n < - (2 ^ 63) \<or> 2 ^ 63 \<le> n then Inl Thrown else Inr (Some n))"

definition stats_result :: "'s select_env \<Rightarrow> string \<Rightarrow> (string \<Rightarrow> string) \<Rightarrow> crash + select_result" where
  "stats_result e event doc =
     (case opt_stoll (doc (''/'' @ event @ ''/BytesScanned/text()'')) of
        Inl x \<Rightarrow> Inl x
      | Inr a \<Rightarrow>
          (case opt_stoll (doc (''/'' @ event @ ''/BytesProcessed/text()'')) of
             Inl x \<Rightarrow> Inl x
           | Inr b \<Rightarrow>
               (case opt_stoll (doc (''/'' @ event @ ''/BytesReturned/text()'')) of
                  Inl x \<Rightarrow> Inl x
                | Inr c \<Rightarrow> Inr (sr_default\<lparr>sr_bytes_scanned := a, sr_bytes_processed := b,
                                         sr_bytes_returned := c\<rparr>))))"

text \<open>The part of \<open>process\<close> after a complete message has been read and checked.\<close>

definition process_message :: "'s select_env \<Rightarrow> handler \<Rightarrow> 's \<Rightarrow> 's step_result" where
  "process_message e h s =
     (let header_length = u32_of (drop 4 (h_prelude h));
          headerdata = take (unat header_length) (h_data h);
          h = h\<lparr>h_data := drop (unat header_length) (h_data h)\<rparr>;
          hlen = (ucast header_length :: u64)
      in case DecodeHeader [] headerdata of
           Inl x \<Rightarrow> Inl x
         | Inr (err, headers) \<Rightarrow>
             let event = header_get headers '':event-type'' in
             if is_err err then finish e (sr_error err) h s
             else if header_get headers '':message-type'' = ''error'' then
               finish e (sr_error (header_get headers '':error-code'' @ '': ''
                 @ header_get headers '':error-message'')) h s
             else if event = ''End'' then finish e sr_end h s
             else if event = ''Cont'' \<or> h_total_length h \<le> hlen \<or> h_total_length h - hlen \<le> 16 then
               Inr (True, False, Reset h, s)
             else
               let payload = take (unat (h_total_length h - hlen - 16)) (h_data h) in
               if event = ''Progress'' \<or> event = ''Stats'' then
                 (case se_xml e (c_str payload) of
                    None \<Rightarrow> finish e (sr_error (''unable to parse XML; '' @ payload)) h s
                  | Some doc \<Rightarrow>
                      (case stats_result e event doc of
                         Inl x \<Rightarrow> Inl x
                       | Inr r \<Rightarrow> report e r h s))
               else if event = ''Records'' then report e (sr_recs payload) h s
               else finish e (sr_error (''unknown event-type '' @ event)) h s)"

definition crc_mismatch :: "string \<Rightarrow> u32 \<Rightarrow> u32 \<Rightarrow> select_result" where
  "crc_mismatch which expected got =
     sr_error (which @ '' CRC mismatch; expected: '' @ to_string (unat expected) @ '', got: ''
       @ to_string (unat got))"

text \<open>The four reads; \<open>Inr (Inl r)\<close> leaves \<open>process\<close> with \<open>r\<close>, \<open>Inr (Inr h)\<close> goes on.\<close>

definition read_prelude :: "handler \<Rightarrow> handler option" where
  "read_prelude h = (if h_prelude_read h then Some h else ReadPrelude h)"

definition read_prelude_crc :: "'s select_env \<Rightarrow> handler \<Rightarrow> 's \<Rightarrow> 's step_result + handler" where
  "read_prelude_crc e h s =
     (if h_prelude_crc_read h then Inr h
      else case ReadPreludeCrc h of
        None \<Rightarrow> Inl (Inr (True, False, h, s))
      | Some h \<Rightarrow>
          let got = se_crc32 e (h_prelude h); expected = u32_of (h_prelude_crc h)
          in if got \<noteq> expected then Inl (finish e (crc_mismatch ''prelude'' expected got) h s)
             else Inr (h\<lparr>h_total_length := ucast (u32_of (take 4 (h_prelude h)))\<rparr>))"

definition read_message_crc :: "'s select_env \<Rightarrow> handler \<Rightarrow> 's \<Rightarrow> 's step_result + handler" where
  "read_message_crc e h s =
     (if h_message_crc_read h then Inr h
      else case ReadMessageCrc h of
        None \<Rightarrow> Inl (Inr (True, False, h, s))
      | Some h \<Rightarrow>
          let got = se_crc32 e (h_prelude h @ h_prelude_crc h @ h_data h); expected = u32_of (h_message_crc h)
          in if got \<noteq> expected then Inl (finish e (crc_mismatch ''message'' expected got) h s)
             else Inr h)"

definition process :: "'s select_env \<Rightarrow> handler \<Rightarrow> 's \<Rightarrow> 's step_result" where
  "process e h s =
     (case read_prelude h of
        None \<Rightarrow> Inr (True, False, h, s)
      | Some h \<Rightarrow>
          (case read_prelude_crc e h s of
             Inl r \<Rightarrow> r
           | Inr h \<Rightarrow>
               (case (if h_data_read h then Some h else ReadData h) of
                  None \<Rightarrow> Inr (True, False, h, s)
                | Some h \<Rightarrow>
                    (case read_message_crc e h s of
                       Inl r \<Rightarrow> r
                     | Inr h \<Rightarrow> process_message e h s))))"

text \<open>A message that makes the loop go on has been taken from the buffer, so the loop ends.\<close>

definition h_measure :: "handler \<Rightarrow> nat" where
  "h_measure h = 2 * length (h_response h) + (if h_message_crc_read h then 1 else 0)"

lemma process_message_cont:
  "process_message e h s = Inr (True, True, h', s') \<Longrightarrow>
     h_response h' = h_response h \<and> \<not> h_message_crc_read h'"
  unfolding process_message_def Let_def finish_def report_def Reset_def
  by (auto split: sum.splits prod.splits if_splits option.splits)

lemma process_decreases:
  assumes "process e h s = Inr (True, True, h', s')"
  shows "h_measure h' < h_measure h"
proof -
  from assms obtain h1 h2 h3 h4 where
    1: "read_prelude h = Some h1" and 2: "read_prelude_crc e h1 s = Inr h2"
    and 3: "(if h_data_read h2 then Some h2 else ReadData h2) = Some h3"
    and 4: "read_message_crc e h3 s = Inr h4" and 5: "process_message e h4 s = Inr (True, True, h', s')"
    unfolding process_def
    by (auto split: option.splits sum.splits
        simp: read_prelude_crc_def read_message_crc_def finish_def Let_def split: if_splits)
  have "length (h_response h1) \<le> length (h_response h)" "h_message_crc_read h1 = h_message_crc_read h"
    using 1 by (auto simp: read_prelude_def ReadPrelude_def split: if_splits)
  moreover have "length (h_response h2) \<le> length (h_response h1)" "h_message_crc_read h2 = h_message_crc_read h1"
    using 2 by (auto simp: read_prelude_crc_def ReadPreludeCrc_def Let_def split: if_splits)
  moreover have "length (h_response h3) \<le> length (h_response h2)" "h_message_crc_read h3 = h_message_crc_read h2"
    using 3 by (auto simp: ReadData_def Let_def split: if_splits)
  moreover have "length (h_response h4) + (if h_message_crc_read h3 then 0 else 4) \<le> length (h_response h3)"
    using 4 by (auto simp: read_message_crc_def ReadMessageCrc_def Let_def split: if_splits)
  ultimately show ?thesis
    using process_message_cont [OF 5] by (auto simp: h_measure_def split: if_splits)
qed

function data_loop :: "'s select_env \<Rightarrow> handler \<Rightarrow> 's \<Rightarrow> crash + bool \<times> handler \<times> 's" where
  "data_loop e h s =
     (case process e h s of
        Inl x \<Rightarrow> Inl x
      | Inr (ret, cont, h', s') \<Rightarrow>
          if \<not> ret then Inr (False, h', s')
          else if \<not> cont then Inr (True, h', s')
          else data_loop e h' s')"
  by pat_completeness auto
termination
  by (relation "measure (\<lambda>(_, h, _). h_measure h)") (auto simp: process_decreases)

declare data_loop.simps [simp del]

definition DataFunction :: "'s select_env \<Rightarrow> handler \<Rightarrow> 's \<Rightarrow> string \<Rightarrow> crash + bool \<times> handler \<times> 's" where
  "DataFunction e h s chunk =
     (if h_done h then Inr (False, h, s)
      else data_loop e (h\<lparr>h_response := h_response h @ chunk\<rparr>) s)"

text \<open>The chunks of a body, as the HTTP client delivers them: it stops at the first false.\<close>

fun feed :: "'s select_env \<Rightarrow> handler \<Rightarrow> 's \<Rightarrow> string list \<Rightarrow> crash + bool \<times> handler \<times> 's" where
  "feed e h s [] = Inr (True, h, s)"
| "feed e h s (c # cs) =
     (case DataFunction e h s c of
        Inl x \<Rightarrow> Inl x
      | Inr (True, h', s') \<Rightarrow> feed e h' s' cs
      | Inr (False, h', s') \<Rightarrow> Inr (False, h', s'))"

subsection \<open>The sending side\<close>

lemma byte_char_of_mod [simp]: "byte (char_of n) = n mod 256"
  by (simp add: byte_def)

lemma unat_be32: "n < 2 ^ 32 \<Longrightarrow> Int_be (be32 n @ r) = Some (word_of_nat n)"
proof -
  assume n: "n < 2 ^ 32"
  have b: "byte32 (char_of (n div 2 ^ k mod 256)) = word_of_nat (take_bit 8 (drop_bit k n))" for k
    by (simp add: byte32_def take_bit_eq_mod drop_bit_eq_div)
  have b0: "byte32 (char_of (n mod 256)) = word_of_nat (take_bit 8 n)"
    by (simp add: byte32_def take_bit_eq_mod)
  have bits: "bit (word_of_nat m :: u32) i \<longleftrightarrow> i < 32 \<and> bit m i" for m i
    using bit_unsigned_iff [where 'a = nat, of "word_of_nat m :: u32" i]
    by (auto simp: unsigned_of_nat bit_take_bit_iff dest: bit_imp_le_length)
  have "(push_bit 24 (word_of_nat (take_bit 8 (drop_bit 24 n))) OR push_bit 16 (word_of_nat (take_bit 8 (drop_bit 16 n)))
      OR push_bit 8 (word_of_nat (take_bit 8 (drop_bit 8 n))) OR word_of_nat (take_bit 8 n)) = (word_of_nat n :: u32)"
  proof (rule bit_word_eqI)
    fix i assume "i < LENGTH(32)"
    then consider "24 \<le> i" "i < 32" | "16 \<le> i" "i < 24" | "8 \<le> i" "i < 16" | "i < 8" by fastforce
    then show "bit (push_bit 24 (word_of_nat (take_bit 8 (drop_bit 24 n))) OR push_bit 16 (word_of_nat (take_bit 8 (drop_bit 16 n)))
      OR push_bit 8 (word_of_nat (take_bit 8 (drop_bit 8 n))) OR word_of_nat (take_bit 8 n) :: u32) i = bit (word_of_nat n :: u32) i"
      by cases (auto simp: bit_or_iff bit_push_bit_iff bits bit_take_bit_iff bit_drop_bit_eq)
  qed
  then show ?thesis
    using b [of 24] b [of 16] b [of 8] b0 by (simp add: Int_be_def be32_def)
qed

lemma u32_of_be32 [simp]: "n < 2 ^ 32 \<Longrightarrow> u32_of (be32 n @ r) = word_of_nat n"
  by (simp add: u32_of_def unat_be32)

lemma u32_of_be32_unat [simp]: "u32_of (be32 (unat w)) = w"
  using u32_of_be32 [of "unat w" "[]"] unsigned_less [of w] by simp

lemma be32_length [simp]: "length (be32 n) = 4"
  by (simp add: be32_def)

definition enc_header :: "string \<times> string \<Rightarrow> string" where
  "enc_header h = [char_of (length (fst h))] @ fst h @ [char_of (7 :: nat)]
     @ [char_of (length (snd h) div 256), char_of (length (snd h) mod 256)] @ snd h"

definition enc_headers :: "(string \<times> string) list \<Rightarrow> string" where
  "enc_headers hs = concat (map enc_header hs)"

definition header_ok :: "string \<times> string \<Rightarrow> bool" where
  "header_ok h \<longleftrightarrow> fst h \<noteq> [] \<and> length (fst h) < 256 \<and> length (snd h) < 65536"

lemma DecodeHeader_Nil: "DecodeHeader m [] = Inr (SUCCESS, m)"
  by (simp add: DecodeHeader.simps [of m "[]"] str_at_def byte_def)

lemma DecodeHeader_enc:
  assumes "header_ok h"
  shows "DecodeHeader m (enc_header h @ r) = DecodeHeader (smap_put (fst h) (snd h) m) r"
proof -
  obtain k v where h: "h = (k, v)" by (cases h)
  have k: "length k mod 256 = length k" "k \<noteq> []"
    using assms by (auto simp: h header_ok_def)
  have "length v div 256 < 256" using assms by (auto simp: h header_ok_def)
  then have v: "length v div 256 mod 256 * 256 + length v mod 256 = length v" by simp
  show ?thesis
    unfolding h enc_header_def
    by (subst DecodeHeader.simps)
      (simp add: str_at_def k v Let_def)
qed

lemma DecodeHeader_headers:
  "list_all header_ok hs \<Longrightarrow>
     DecodeHeader m (enc_headers hs) = Inr (SUCCESS, foldl (\<lambda>m h. smap_put (fst h) (snd h) m) m hs)"
  by (induction hs arbitrary: m) (simp_all add: enc_headers_def DecodeHeader_Nil DecodeHeader_enc)

text \<open>A message: prelude, its CRC, headers and payload, the CRC of all that.\<close>

definition msg_prelude :: "(string \<times> string) list \<Rightarrow> string \<Rightarrow> string" where
  "msg_prelude hs payload =
     be32 (16 + length (enc_headers hs) + length payload) @ be32 (length (enc_headers hs))"

definition msg_prelude_crc :: "(string \<Rightarrow> u32) \<Rightarrow> (string \<times> string) list \<Rightarrow> string \<Rightarrow> string" where
  "msg_prelude_crc crc hs payload = be32 (unat (crc (msg_prelude hs payload)))"

definition msg_body :: "(string \<times> string) list \<Rightarrow> string \<Rightarrow> string" where
  "msg_body hs payload = enc_headers hs @ payload"

definition msg_crc :: "(string \<Rightarrow> u32) \<Rightarrow> (string \<times> string) list \<Rightarrow> string \<Rightarrow> string" where
  "msg_crc crc hs payload =
     be32 (unat (crc (msg_prelude hs payload @ msg_prelude_crc crc hs payload @ msg_body hs payload)))"

definition encode_message :: "(string \<Rightarrow> u32) \<Rightarrow> (string \<times> string) list \<Rightarrow> string \<Rightarrow> string" where
  "encode_message crc hs payload =
     msg_prelude hs payload @ msg_prelude_crc crc hs payload @ msg_body hs payload @ msg_crc crc hs payload"

definition message_ok :: "(string \<times> string) list \<Rightarrow> string \<Rightarrow> bool" where
  "message_ok hs payload \<longleftrightarrow> list_all header_ok hs \<and> 16 + length (enc_headers hs) + length payload < 2 ^ 32"

lemma msg_lengths [simp]:
  "length (msg_prelude hs pl) = 8" "length (msg_prelude_crc crc hs pl) = 4"
  "length (msg_body hs pl) = length (enc_headers hs) + length pl" "length (msg_crc crc hs pl) = 4"
  by (simp_all add: msg_prelude_def msg_prelude_crc_def msg_body_def msg_crc_def)

definition msg_total :: "(string \<times> string) list \<Rightarrow> string \<Rightarrow> u64" where
  "msg_total hs pl = word_of_nat (16 + length (enc_headers hs) + length pl)"

lemma unat_small: "n < 2 ^ 32 \<Longrightarrow> unat (word_of_nat n :: u64) = n" "n < 2 ^ 32 \<Longrightarrow> unat (word_of_nat n :: u32) = n"
  by (simp_all add: unat_of_nat)

lemma msg_total_read:
  assumes "message_ok hs pl"
  shows "ucast (u32_of (take 4 (msg_prelude hs pl))) = msg_total hs pl"
    "u32_of (drop 4 (msg_prelude hs pl)) = word_of_nat (length (enc_headers hs))"
    "unat (msg_total hs pl - 8 - 4 - 4) = length (msg_body hs pl)"
proof -
  have n: "16 + length (enc_headers hs) + length pl < 2 ^ 32" using assms by (simp add: message_ok_def)
  have wide: "ucast (word_of_nat m :: u32) = (word_of_nat m :: u64)" if "m < 2 ^ 32" for m
    using that by (simp add: unsigned_of_nat take_bit_nat_eq_self)
  have "u32_of (take 4 (msg_prelude hs pl)) = word_of_nat (16 + length (enc_headers hs) + length pl)"
    using u32_of_be32 [OF n, of "[]"] by (simp add: msg_prelude_def)
  then show "ucast (u32_of (take 4 (msg_prelude hs pl))) = msg_total hs pl"
    using wide [OF n] unfolding msg_total_def by simp
  show "u32_of (drop 4 (msg_prelude hs pl)) = word_of_nat (length (enc_headers hs))"
    using u32_of_be32 [of "length (enc_headers hs)" "[]"] n by (simp add: msg_prelude_def)
  have "unat (msg_total hs pl) = 16 + length (enc_headers hs) + length pl"
    unfolding msg_total_def using n by (simp only: unat_small)
  moreover have "msg_total hs pl - 8 - 4 - 4 = msg_total hs pl - 16" by simp
  ultimately show "unat (msg_total hs pl - 8 - 4 - 4) = length (msg_body hs pl)"
    using unat_sub [of 16 "msg_total hs pl"] by (simp add: word_le_nat_alt)
qed

subsection \<open>Reading a message piece by piece\<close>

text \<open>The object between messages, and with one to three pieces of a message read.\<close>

definition at0 :: "u64 \<Rightarrow> string \<Rightarrow> handler" where
  "at0 n b = handler_new\<lparr>h_total_length := n, h_response := b\<rparr>"

definition at1 :: "u64 \<Rightarrow> string \<Rightarrow> string \<Rightarrow> handler" where
  "at1 n P b = (at0 n b)\<lparr>h_prelude := P, h_prelude_read := True\<rparr>"

definition at2 :: "u64 \<Rightarrow> string \<Rightarrow> string \<Rightarrow> string \<Rightarrow> handler" where
  "at2 n P C b = (at1 n P b)\<lparr>h_prelude_crc := C, h_prelude_crc_read := True\<rparr>"

definition at3 :: "u64 \<Rightarrow> string \<Rightarrow> string \<Rightarrow> string \<Rightarrow> string \<Rightarrow> handler" where
  "at3 n P C D b = (at2 n P C b)\<lparr>h_data := D, h_data_read := True\<rparr>"

definition at4 :: "u64 \<Rightarrow> string \<Rightarrow> string \<Rightarrow> string \<Rightarrow> string \<Rightarrow> string \<Rightarrow> handler" where
  "at4 n P C D K b = (at3 n P C D b)\<lparr>h_message_crc := K, h_message_crc_read := True\<rparr>"

lemmas at_defs = at0_def at1_def at2_def at3_def at4_def handler_new_def

lemma at_response:
  "h_response (at0 n b) = b" "h_response (at1 n P b) = b" "h_response (at2 n P C b) = b"
  "h_response (at3 n P C D b) = b"
  "(at0 n b)\<lparr>h_response := b'\<rparr> = at0 n b'" "(at1 n P b)\<lparr>h_response := b'\<rparr> = at1 n P b'"
  "(at2 n P C b)\<lparr>h_response := b'\<rparr> = at2 n P C b'"
  "(at3 n P C D b)\<lparr>h_response := b'\<rparr> = at3 n P C D b'"
  "\<not> h_done (at0 n b)" "\<not> h_done (at1 n P b)" "\<not> h_done (at2 n P C b)" "\<not> h_done (at3 n P C D b)"
  by (simp_all add: at_defs)

lemma process_at0: "length P = 8 \<Longrightarrow> process e (at0 n (P @ b)) s = process e (at1 n P b) s"
  by (simp add: process_def read_prelude_def ReadPrelude_def at_defs)

lemma process_at0_short: "length b < 8 \<Longrightarrow> process e (at0 n b) s = Inr (True, False, at0 n b, s)"
  by (simp add: process_def read_prelude_def ReadPrelude_def at_defs)

lemma process_at1:
  "length C = 4 \<Longrightarrow> u32_of C = se_crc32 e P \<Longrightarrow>
     process e (at1 n P (C @ b)) s = process e (at2 (ucast (u32_of (take 4 P))) P C b) s"
  by (simp add: process_def read_prelude_def read_prelude_crc_def ReadPreludeCrc_def at_defs)

lemma process_at1_short: "length b < 4 \<Longrightarrow> process e (at1 n P b) s = Inr (True, False, at1 n P b, s)"
  by (simp add: process_def read_prelude_def read_prelude_crc_def ReadPreludeCrc_def at_defs)

lemma process_at2:
  "length D = unat (n - 8 - 4 - 4) \<Longrightarrow> process e (at2 n P C (D @ b)) s = process e (at3 n P C D b) s"
  by (simp add: process_def read_prelude_def read_prelude_crc_def ReadData_def at_defs)

lemma process_at2_short:
  "length b < unat (n - 8 - 4 - 4) \<Longrightarrow> process e (at2 n P C b) s = Inr (True, False, at2 n P C b, s)"
  by (simp add: process_def read_prelude_def read_prelude_crc_def ReadData_def at_defs)

lemma process_at3:
  "length K = 4 \<Longrightarrow> u32_of K = se_crc32 e (P @ C @ D) \<Longrightarrow>
     process e (at3 n P C D (K @ b)) s = process_message e (at4 n P C D K b) s"
  by (simp add: process_def read_prelude_def read_prelude_crc_def read_message_crc_def ReadMessageCrc_def
      at_defs)

lemma process_at3_short: "length b < 4 \<Longrightarrow> process e (at3 n P C D b) s = Inr (True, False, at3 n P C D b, s)"
  by (simp add: process_def read_prelude_def read_prelude_crc_def read_message_crc_def ReadMessageCrc_def
      at_defs)

text \<open>\<open>pending crc hs pl h X\<close>: the object \<open>h\<close> has taken in \<open>X\<close>, a part of the message.\<close>

inductive pending :: "(string \<Rightarrow> u32) \<Rightarrow> (string \<times> string) list \<Rightarrow> string \<Rightarrow> handler \<Rightarrow> string \<Rightarrow> bool"
  for crc hs pl where
  "pending crc hs pl (at0 n b) b"
| "pending crc hs pl (at1 n (msg_prelude hs pl) b) (msg_prelude hs pl @ b)"
| "pending crc hs pl (at2 (msg_total hs pl) (msg_prelude hs pl) (msg_prelude_crc crc hs pl) b)
     (msg_prelude hs pl @ msg_prelude_crc crc hs pl @ b)"
| "pending crc hs pl (at3 (msg_total hs pl) (msg_prelude hs pl) (msg_prelude_crc crc hs pl) (msg_body hs pl) b)
     (msg_prelude hs pl @ msg_prelude_crc crc hs pl @ msg_body hs pl @ b)"

text \<open>Taking in more bytes and processing is processing everything from the start of the
  message.\<close>

lemma pending_process:
  assumes "pending (se_crc32 e) hs pl h X" "message_ok hs pl"
  shows "\<exists>n. process e (h\<lparr>h_response := h_response h @ c\<rparr>) s = process e (at0 n (X @ c)) s"
    "\<not> h_done h"
proof -
  let ?P = "msg_prelude hs pl" and ?C = "msg_prelude_crc (se_crc32 e) hs pl" and ?D = "msg_body hs pl"
  have crc: "u32_of ?C = se_crc32 e ?P" by (simp add: msg_prelude_crc_def)
  note T = msg_total_read [OF assms(2)]
  have s1: "process e (at0 n (?P @ b)) s = process e (at1 n ?P b) s" for n b
    by (rule process_at0) simp
  have s2: "process e (at1 n ?P (?C @ b)) s = process e (at2 (msg_total hs pl) ?P ?C b) s" for n b
    using process_at1 [of ?C e ?P n b s] crc T(1) by simp
  have s3: "process e (at2 (msg_total hs pl) ?P ?C (?D @ b)) s = process e (at3 (msg_total hs pl) ?P ?C ?D b) s" for b
    using process_at2 [of ?D "msg_total hs pl" e ?P ?C b s] T(3) by simp
  show "\<exists>n. process e (h\<lparr>h_response := h_response h @ c\<rparr>) s = process e (at0 n (X @ c)) s"
    using assms(1) by cases (auto simp: at_response s1 s2 s3)
  show "\<not> h_done h" using assms(1) by cases (simp_all add: at_response)
qed

lemma process_part:
  assumes "message_ok hs pl" "length X < length (encode_message (se_crc32 e) hs pl)"
    "X @ Z = encode_message (se_crc32 e) hs pl @ W"
  obtains h where "process e (at0 n X) s = Inr (True, False, h, s)" "pending (se_crc32 e) hs pl h X"
proof -
  let ?P = "msg_prelude hs pl" and ?C = "msg_prelude_crc (se_crc32 e) hs pl" and ?D = "msg_body hs pl"
    and ?K = "msg_crc (se_crc32 e) hs pl"
  have crc: "u32_of ?C = se_crc32 e ?P" by (simp add: msg_prelude_crc_def)
  note T = msg_total_read [OF assms(1)]
  have M: "X @ Z = ?P @ ?C @ ?D @ ?K @ W" using assms(3) by (simp add: encode_message_def)
  have longer: "\<exists>b. a = u @ b" if "a @ z = u @ v" "length u \<le> length a" for a z u v :: string
    using that by (metis append_eq_append_conv_if append_take_drop_id)
  show ?thesis
  proof (cases "length X < 8")
    case True
    then show ?thesis using that process_at0_short pending.intros(1) by metis
  next
    case False
    then obtain b1 where X1: "X = ?P @ b1" using longer [OF M] by auto
    with M have M1: "b1 @ Z = ?C @ ?D @ ?K @ W" by simp
    have p1: "process e (at0 n X) s = process e (at1 n ?P b1) s" unfolding X1 by (rule process_at0) simp
    show ?thesis
    proof (cases "length b1 < 4")
      case True
      then show ?thesis using that p1 process_at1_short [OF True] pending.intros(2) X1 by metis
    next
      case False
      then obtain b2 where X2: "b1 = ?C @ b2" using longer [OF M1] by auto
      with M1 have M2: "b2 @ Z = ?D @ ?K @ W" by simp
      have p2: "process e (at1 n ?P b1) s = process e (at2 (msg_total hs pl) ?P ?C b2) s"
        unfolding X2 using process_at1 [of ?C e ?P n b2 s] crc T(1) by simp
      show ?thesis
      proof (cases "length b2 < length ?D")
        case True
        then have "length b2 < unat (msg_total hs pl - 8 - 4 - 4)" using T(3) by simp
        then show ?thesis using that p1 p2 process_at2_short pending.intros(3) X1 X2 by metis
      next
        case False
        then obtain b3 where X3: "b2 = ?D @ b3" using longer [OF M2] by auto
        have "length b3 < 4" using assms(2) unfolding X1 X2 X3 encode_message_def by simp
        moreover have "process e (at2 (msg_total hs pl) ?P ?C b2) s = process e (at3 (msg_total hs pl) ?P ?C ?D b3) s"
          unfolding X3 using process_at2 [of ?D "msg_total hs pl" e ?P ?C b3 s] T(3) by simp
        ultimately show ?thesis using that p1 p2 process_at3_short pending.intros(4) X1 X2 X3 by metis
      qed
    qed
  qed
qed

lemma process_whole:
  assumes "message_ok hs pl"
  shows "process e (at0 n (encode_message (se_crc32 e) hs pl @ R)) s =
    process_message e (at4 (msg_total hs pl) (msg_prelude hs pl) (msg_prelude_crc (se_crc32 e) hs pl)
      (msg_body hs pl) (msg_crc (se_crc32 e) hs pl) R) s"
proof -
  let ?P = "msg_prelude hs pl" and ?C = "msg_prelude_crc (se_crc32 e) hs pl" and ?D = "msg_body hs pl"
    and ?K = "msg_crc (se_crc32 e) hs pl"
  have crc: "u32_of ?C = se_crc32 e ?P" "u32_of ?K = se_crc32 e (?P @ ?C @ ?D)"
    by (simp_all add: msg_prelude_crc_def msg_crc_def)
  note T = msg_total_read [OF assms]
  have "process e (at0 n (?P @ ?C @ ?D @ ?K @ R)) s = process e (at1 n ?P (?C @ ?D @ ?K @ R)) s"
    by (rule process_at0) simp
  also have "\<dots> = process e (at2 (msg_total hs pl) ?P ?C (?D @ ?K @ R)) s"
    using process_at1 [of ?C e ?P n "?D @ ?K @ R" s] crc T(1) by simp
  also have "\<dots> = process e (at3 (msg_total hs pl) ?P ?C ?D (?K @ R)) s"
    using process_at2 [of ?D "msg_total hs pl" e ?P ?C "?K @ R" s] T(3) by simp
  also have "\<dots> = process_message e (at4 (msg_total hs pl) ?P ?C ?D ?K R) s"
    using process_at3 [of ?K e ?P ?C ?D "msg_total hs pl" R s] crc by simp
  finally show ?thesis by (simp add: encode_message_def)
qed

subsection \<open>A stream of messages\<close>

definition decoded :: "(string \<times> string) list \<Rightarrow> header_map" where
  "decoded hs = foldl (\<lambda>m h. smap_put (fst h) (snd h) m) [] hs"

definition event_headers :: "string \<Rightarrow> (string \<times> string) list \<Rightarrow> bool" where
  "event_headers ev hs \<longleftrightarrow> header_get (decoded hs) '':event-type'' = ev
     \<and> header_get (decoded hs) '':message-type'' \<noteq> ''error''"

abbreviation "whole e hs pl R \<equiv> at4 (msg_total hs pl) (msg_prelude hs pl)
  (msg_prelude_crc (se_crc32 e) hs pl) (msg_body hs pl) (msg_crc (se_crc32 e) hs pl) R"

lemma message_arith:
  assumes "message_ok hs pl"
  shows "unat (u32_of (drop 4 (msg_prelude hs pl))) = length (enc_headers hs)"
    "msg_total hs pl \<le> ucast (u32_of (drop 4 (msg_prelude hs pl))) \<longleftrightarrow> False"
    "msg_total hs pl - ucast (u32_of (drop 4 (msg_prelude hs pl))) \<le> 16 \<longleftrightarrow> pl = []"
    "unat (msg_total hs pl - ucast (u32_of (drop 4 (msg_prelude hs pl))) - 16) = length pl"
proof -
  define a where "a = length (enc_headers hs)"
  have n: "16 + a + length pl < 2 ^ 32" using assms by (simp add: message_ok_def a_def)
  have a32: "a < 2 ^ 32" using n by simp
  show "unat (u32_of (drop 4 (msg_prelude hs pl))) = length (enc_headers hs)"
    using unat_small(2) [OF a32] msg_total_read(2) [OF assms] by (simp add: a_def)
  have H: "ucast (u32_of (drop 4 (msg_prelude hs pl))) = (word_of_nat a :: u64)"
    using a32 msg_total_read(2) [OF assms] by (simp add: a_def unsigned_of_nat take_bit_nat_eq_self)
  have T: "unat (msg_total hs pl) = 16 + a + length pl"
    unfolding msg_total_def a_def [symmetric] using n by (simp only: unat_small)
  have A: "unat (word_of_nat a :: u64) = a" using unat_small(1) [OF a32] .
  show "msg_total hs pl \<le> ucast (u32_of (drop 4 (msg_prelude hs pl))) \<longleftrightarrow> False"
    unfolding H word_le_nat_alt T A by simp
  have D: "unat (msg_total hs pl - word_of_nat a) = 16 + length pl"
    using T A by (subst unat_sub) (simp_all add: word_le_nat_alt)
  show "msg_total hs pl - ucast (u32_of (drop 4 (msg_prelude hs pl))) \<le> 16 \<longleftrightarrow> pl = []"
    unfolding H word_le_nat_alt D by simp
  show "unat (msg_total hs pl - ucast (u32_of (drop 4 (msg_prelude hs pl))) - 16) = length pl"
    unfolding H using D by (subst unat_sub) (simp_all add: word_le_nat_alt)
qed

lemma at4_fields [simp]:
  "h_prelude (at4 n P C D K b) = P" "h_data (at4 n P C D K b) = D" "h_total_length (at4 n P C D K b) = n"
  "Reset ((at4 n P C D K b)\<lparr>h_data := x\<rparr>) = at0 n b"
  by (simp_all add: at_defs Reset_def)

lemma message_headers:
  assumes "message_ok hs pl"
  shows "DecodeHeader [] (take (length (enc_headers hs)) (msg_body hs pl)) = Inr (SUCCESS, decoded hs)"
    "drop (length (enc_headers hs)) (msg_body hs pl) = pl"
  using assms by (simp_all add: msg_body_def message_ok_def DecodeHeader_headers decoded_def)

text \<open>What a message does to the loop: it hands a result to the caller and goes on (\<open>Delivers\<close>),
  hands one over and ends the response (\<open>Ends\<close>), leaves the loop although more may be buffered
  (\<open>Stalls\<close>: a continuation message, or one without payload), or throws.\<close>

datatype message_effect = Delivers select_result | Ends select_result | Stalls | Crashes crash

definition message_outcome :: "'s select_env \<Rightarrow> (string \<times> string) list \<times> string \<Rightarrow> message_effect" where
  "message_outcome e m =
     (let hs = decoded (fst m); pl = snd m; event = header_get hs '':event-type'' in
      if header_get hs '':message-type'' = ''error''
      then Ends (sr_error (header_get hs '':error-code'' @ '': '' @ header_get hs '':error-message''))
      else if event = ''End'' then Ends sr_end
      else if event = ''Cont'' \<or> pl = [] then Stalls
      else if event = ''Progress'' \<or> event = ''Stats''
      then (case se_xml e (c_str pl) of
              None \<Rightarrow> Ends (sr_error (''unable to parse XML; '' @ pl))
            | Some doc \<Rightarrow> (case stats_result e event doc of Inl x \<Rightarrow> Crashes x | Inr r \<Rightarrow> Delivers r))
      else if event = ''Records'' then Delivers (sr_recs pl)
      else Ends (sr_error (''unknown event-type '' @ event)))"

lemma process_outcome:
  assumes "message_ok hs pl"
  shows "message_outcome e (hs, pl) = Ends r \<Longrightarrow>
      \<exists>h. process_message e (whole e hs pl R) s = Inr (False, False, h, snd (se_result e s r))"
    "message_outcome e (hs, pl) = Crashes x \<Longrightarrow> process_message e (whole e hs pl R) s = Inl x"
    "message_outcome e (hs, pl) = Stalls \<Longrightarrow>
      process_message e (whole e hs pl R) s = Inr (True, False, at0 (msg_total hs pl) R, s)"
    "message_outcome e (hs, pl) = Delivers r \<Longrightarrow> process_message e (whole e hs pl R) s =
      (case se_result e s r of (b, s') \<Rightarrow> Inr (b, b, (at0 (msg_total hs pl) R)\<lparr>h_done := \<not> b\<rparr>, s'))"
  using message_arith [OF assms] message_headers [OF assms]
  by (auto simp: process_message_def message_outcome_def finish_def report_def Let_def
      split: if_splits option.splits sum.splits)

text \<open>A continuation message leaves the loop although more messages may be buffered.\<close>

lemma data_loop_cont:
  assumes "message_ok hs pl" "event_headers ''Cont'' hs"
  shows "data_loop e (at0 n (encode_message (se_crc32 e) hs pl @ R)) s
    = Inr (True, at0 (msg_total hs pl) R, s)"
proof -
  have "message_outcome e (hs, pl) = Stalls"
    using assms(2) by (simp add: message_outcome_def event_headers_def)
  then show ?thesis
    by (subst data_loop.simps) (simp add: process_whole [OF assms(1)] process_outcome(3) [OF assms(1)])
qed

text \<open>A stream of messages, each its headers and its payload, and what the caller gets from it:
  the results in order, up to a message that ends the response or to the first that the
  caller's function declines. \<open>deliver\<close> is whether the handler asks for more, and the caller's
  state.\<close>

type_synonym message = "(string \<times> string) list \<times> string"

definition stream_ok :: "message list \<Rightarrow> bool" where
  "stream_ok ms \<longleftrightarrow> list_all (\<lambda>(hs, pl). message_ok hs pl) ms"

definition encode_stream :: "(string \<Rightarrow> u32) \<Rightarrow> message list \<Rightarrow> string" where
  "encode_stream crc ms = concat (map (\<lambda>(hs, pl). encode_message crc hs pl) ms)"

fun deliver :: "'s select_env \<Rightarrow> 's \<Rightarrow> message list \<Rightarrow> crash + bool \<times> 's" where
  "deliver e s [] = Inr (True, s)"
| "deliver e s (m # ms) =
     (case message_outcome e m of
        Delivers r \<Rightarrow> (case se_result e s r of (True, s') \<Rightarrow> deliver e s' ms | (False, s') \<Rightarrow> Inr (False, s'))
      | Ends r \<Rightarrow> Inr (False, snd (se_result e s r))
      | Stalls \<Rightarrow> deliver e s ms
      | Crashes x \<Rightarrow> Inl x)"

definition stalls :: "'s select_env \<Rightarrow> message \<Rightarrow> bool" where
  "stalls e m \<longleftrightarrow> message_outcome e m = Stalls"

text \<open>What \<open>feed\<close> tells of the caller, without the handler.\<close>

definition caller_view :: "crash + bool \<times> handler \<times> 's \<Rightarrow> crash + bool \<times> 's" where
  "caller_view = map_sum id (\<lambda>(b, h, s). (b, s))"

lemma caller_view_simps [simp]:
  "caller_view (Inl x) = Inl x" "caller_view (Inr (b, h, s)) = Inr (b, s)"
  by (simp_all add: caller_view_def)

lemma deliver_append:
  "deliver e s ms1 = Inr (True, s') \<Longrightarrow> deliver e s (ms1 @ ms2) = deliver e s' ms2"
  by (induction ms1 arbitrary: s) (auto split: message_effect.splits prod.splits bool.splits)

text \<open>\<open>waiting e st ms h X\<close>: the object has taken in \<open>X\<close>, the beginning of the stream \<open>ms\<close>; unless
  a message has stalled it (\<open>st\<close>) that is less than a message.\<close>

definition waiting :: "'s select_env \<Rightarrow> bool \<Rightarrow> message list \<Rightarrow> handler \<Rightarrow> string \<Rightarrow> bool" where
  "waiting e st ms h X \<longleftrightarrow>
     (case ms of
        [] \<Rightarrow> X = [] \<and> (\<exists>n. h = at0 n [])
      | (hs, pl) # _ \<Rightarrow> pending (se_crc32 e) hs pl h X
          \<and> (\<not> st \<longrightarrow> length X < length (encode_message (se_crc32 e) hs pl)))"

lemma waiting_data:
  assumes "waiting e st ms h X" "stream_ok ms"
  shows "\<exists>n. DataFunction e h s c = data_loop e (at0 n (X @ c)) s"
proof (cases ms)
  case Nil
  then obtain n where "h = at0 n []" "X = []" using assms(1) by (auto simp: waiting_def)
  then show ?thesis by (intro exI [of _ n]) (simp add: DataFunction_def at_response)
next
  case (Cons m ms')
  then obtain hs pl where "pending (se_crc32 e) hs pl h X" "message_ok hs pl"
    using assms by (cases m) (auto simp: waiting_def stream_ok_def)
  from pending_process(1) [OF this, of c s] pending_process(2) [OF this] show ?thesis
    by (auto simp: DataFunction_def data_loop.simps [of e "h\<lparr>h_response := _\<rparr>"] data_loop.simps [of e "at0 _ _"])
qed

text \<open>The loop on a buffer that starts at a message: either it has come to the end of what the
  caller gets, or it has handed over the complete messages and waits.\<close>

lemma data_loop_stream:
  assumes "stream_ok ms" "Y @ Z = encode_stream (se_crc32 e) ms"
  shows "(case data_loop e (at0 n Y) s of
       Inr (True, h, s') \<Rightarrow> \<exists>ms1 ms2 X. ms = ms1 @ ms2 \<and> deliver e s ms1 = Inr (True, s')
         \<and> waiting e (list_ex (stalls e) ms1) ms2 h X \<and> X @ Z = encode_stream (se_crc32 e) ms2
     | r \<Rightarrow> caller_view r = deliver e s ms)"
  using assms
proof (induction ms arbitrary: Y s n)
  case Nil
  then have "Y = []" "Z = []" by (simp_all add: encode_stream_def)
  moreover have "data_loop e (at0 n []) s = Inr (True, at0 n [], s)"
    by (simp add: data_loop.simps [of e "at0 n []"] process_at0_short)
  ultimately show ?case by (auto simp: waiting_def encode_stream_def)
next
  case (Cons m ms)
  obtain hs pl where m: "m = (hs, pl)" by (cases m)
  have ok: "message_ok hs pl" and oks: "stream_ok ms" using Cons.prems(1) by (simp_all add: stream_ok_def m)
  have Y: "Y @ Z = encode_message (se_crc32 e) hs pl @ encode_stream (se_crc32 e) ms"
    using Cons.prems(2) by (simp add: m encode_stream_def)
  show ?case
  proof (cases "length Y < length (encode_message (se_crc32 e) hs pl)")
    case True
    obtain h where h: "process e (at0 n Y) s = Inr (True, False, h, s)" "pending (se_crc32 e) hs pl h Y"
      using process_part [OF ok True Y, of n s] by auto
    then have run: "data_loop e (at0 n Y) s = Inr (True, h, s)" by (simp add: data_loop.simps [of e "at0 n Y"])
    have "waiting e (list_ex (stalls e) []) (m # ms) h Y" using h(2) True by (simp add: waiting_def m)
    then have "m # ms = [] @ m # ms \<and> deliver e s [] = Inr (True, s) \<and> waiting e (list_ex (stalls e) []) (m # ms) h Y
        \<and> Y @ Z = encode_stream (se_crc32 e) (m # ms)" using Cons.prems(2) by simp
    then show ?thesis unfolding run sum.case prod.case bool.case by blast
  next
    case False
    then obtain R where R: "Y = encode_message (se_crc32 e) hs pl @ R"
      using Y by (metis append_eq_append_conv_if append_take_drop_id not_less)
    then have RZ: "R @ Z = encode_stream (se_crc32 e) ms" using Y by simp
    note run = data_loop.simps [of e "at0 n Y" s, unfolded R, unfolded process_whole [OF ok]]
    show ?thesis
    proof (cases "message_outcome e m")
      case (Ends r)
      with process_outcome(1) [OF ok, of e r R s] show ?thesis unfolding R run by (auto simp: m)
    next
      case (Crashes x)
      with process_outcome(2) [OF ok, of e x R s] show ?thesis unfolding R run by (simp add: m)
    next
      case Stalls
      have "waiting e True ms (at0 (msg_total hs pl) R) R"
        using RZ pending.intros(1) [of "se_crc32 e" _ _ "msg_total hs pl" R]
        by (auto simp: waiting_def encode_stream_def split: list.split)
      then have "m # ms = [m] @ ms \<and> deliver e s [m] = Inr (True, s)
          \<and> waiting e (list_ex (stalls e) [m]) ms (at0 (msg_total hs pl) R) R \<and> R @ Z = encode_stream (se_crc32 e) ms"
        using Stalls RZ by (simp add: stalls_def)
      moreover have "data_loop e (at0 n Y) s = Inr (True, at0 (msg_total hs pl) R, s)"
        unfolding R run using process_outcome(3) [OF ok, of e R s] Stalls by (simp add: m)
      ultimately show ?thesis by (simp only: sum.case prod.case bool.case) blast
    next
      case (Delivers r)
      obtain b s' where b: "se_result e s r = (b, s')" by (cases "se_result e s r")
      note out = process_outcome(4) [OF ok, of e r R s, folded m, OF Delivers]
      show ?thesis
      proof (cases b)
        case False
        then show ?thesis unfolding R run using out b Delivers by simp
      next
        case True
        have "(at0 (msg_total hs pl) R)\<lparr>h_done := False\<rparr> = at0 (msg_total hs pl) R" by (simp add: at_defs)
        then have step: "data_loop e (at0 n Y) s = data_loop e (at0 (msg_total hs pl) R) s'"
          unfolding R run using out b True by simp
        have del: "deliver e s (m # xs) = deliver e s' xs" for xs using Delivers b True by simp
        have st: "stalls e m = False" using Delivers by (simp add: stalls_def)
        note IH = Cons.IH [OF oks RZ, of s' "msg_total hs pl"]
        show ?thesis
        proof (cases "\<exists>h s2. data_loop e (at0 (msg_total hs pl) R) s' = Inr (True, h, s2)")
          case True
          then obtain h s2 ms1 ms2 X where L: "data_loop e (at0 (msg_total hs pl) R) s' = Inr (True, h, s2)"
            "ms = ms1 @ ms2" "deliver e s' ms1 = Inr (True, s2)" "waiting e (list_ex (stalls e) ms1) ms2 h X"
            "X @ Z = encode_stream (se_crc32 e) ms2" using IH by auto
          then have "m # ms = (m # ms1) @ ms2 \<and> deliver e s (m # ms1) = Inr (True, s2)
              \<and> waiting e (list_ex (stalls e) (m # ms1)) ms2 h X \<and> X @ Z = encode_stream (se_crc32 e) ms2"
            using del [of ms1] st by simp
          then show ?thesis unfolding step L(1) by (simp only: sum.case prod.case bool.case) blast
        next
          case False
          with IH have "caller_view (data_loop e (at0 (msg_total hs pl) R) s') = deliver e s' ms"
            by (auto split: sum.splits prod.splits bool.splits)
          with False show ?thesis unfolding step del [of ms]
            by (auto split: sum.splits prod.splits bool.splits)
        qed
      qed
    qed
  qed
qed

text \<open>However the body is cut into chunks, the caller gets a prefix of the stream, and all of it
  when no message stalls.\<close>

lemma feed_stream:
  assumes "stream_ok ms" "X @ concat cs = encode_stream (se_crc32 e) ms" "waiting e st ms h X"
  shows "\<exists>k. caller_view (feed e h s cs) = deliver e s (take k ms)
    \<and> (\<not> st \<and> \<not> list_ex (stalls e) ms \<longrightarrow> length ms \<le> k)"
  using assms
proof (induction cs arbitrary: ms X h s st)
  case Nil
  have "st \<or> ms = []"
    using Nil by (auto simp: waiting_def encode_stream_def split: list.splits)
  then show ?case by (intro exI [of _ 0]) auto
next
  case (Cons c cs)
  obtain n where D: "DataFunction e h s c = data_loop e (at0 n (X @ c)) s"
    using waiting_data [OF Cons.prems(3,1)] by blast
  have Y: "(X @ c) @ concat cs = encode_stream (se_crc32 e) ms" using Cons.prems(2) by simp
  note loop = data_loop_stream [OF Cons.prems(1) Y, of s n, folded D]
  show ?case
  proof (cases "\<exists>h' s'. DataFunction e h s c = Inr (True, h', s')")
    case False
    then have "caller_view (feed e h s (c # cs)) = caller_view (DataFunction e h s c)"
      by (auto split: sum.splits prod.splits bool.splits)
    moreover have "caller_view (DataFunction e h s c) = deliver e s ms"
      using loop False by (auto split: sum.splits prod.splits bool.splits)
    ultimately show ?thesis by (intro exI [of _ "length ms"]) simp
  next
    case True
    then obtain h' s' where go: "DataFunction e h s c = Inr (True, h', s')" by blast
    then obtain ms1 ms2 X' where L: "ms = ms1 @ ms2" "deliver e s ms1 = Inr (True, s')"
      "waiting e (list_ex (stalls e) ms1) ms2 h' X'" "X' @ concat cs = encode_stream (se_crc32 e) ms2"
      using loop by auto
    have "stream_ok ms2" using Cons.prems(1) L(1) by (simp add: stream_ok_def)
    from Cons.IH [OF this L(4,3), of s'] obtain k where
      k: "caller_view (feed e h' s' cs) = deliver e s' (take k ms2)"
      "\<not> list_ex (stalls e) ms1 \<and> \<not> list_ex (stalls e) ms2 \<longrightarrow> length ms2 \<le> k" by blast
    have "deliver e s (take (length ms1 + k) ms) = deliver e s' (take k ms2)"
      using deliver_append [OF L(2)] by (simp add: L(1))
    then show ?thesis
      using k by (intro exI [of _ "length ms1 + k"]) (auto simp: go L(1))
  qed
qed

lemma feed_whole_stream:
  assumes "stream_ok ms" "concat cs = encode_stream (se_crc32 e) ms"
  shows "\<exists>k. caller_view (feed e handler_new s cs) = deliver e s (take k ms)
    \<and> (\<not> list_ex (stalls e) ms \<longrightarrow> length ms \<le> k)"
proof -
  have new: "handler_new = at0 0 []" by (simp add: at_defs)
  have "0 < length (encode_message (se_crc32 e) hs pl)" for hs pl by (simp add: encode_message_def)
  then have "waiting e False ms handler_new []"
    using pending.intros(1) [of "se_crc32 e" _ _ 0 "[]"] by (auto simp: waiting_def new split: list.split)
  from feed_stream [OF assms(1) _ this] assms(2) show ?thesis by simp
qed

subsection \<open>The invariant of the object\<close>

text \<open>What has been read has its full length, in order: so \<open>utils::Int\<close> never reads
  outside a string.\<close>

definition handler_wf :: "handler \<Rightarrow> bool" where
  "handler_wf h \<longleftrightarrow> (h_prelude_read h \<longrightarrow> length (h_prelude h) = 8)
     \<and> (h_prelude_crc_read h \<longrightarrow> h_prelude_read h \<and> length (h_prelude_crc h) = 4)
     \<and> (h_data_read h \<longrightarrow> h_prelude_crc_read h)
     \<and> (h_message_crc_read h \<longrightarrow> h_data_read h \<and> length (h_message_crc h) = 4)"

lemma handler_wf_new [wf_intros]: "handler_wf handler_new"
  by (simp add: handler_wf_def handler_new_def)

lemma handler_wf_Reset: "handler_wf (Reset h)"
  by (simp add: handler_wf_def Reset_def)

lemma handler_wf_fields [simp]:
  "handler_wf (h\<lparr>h_done := b\<rparr>) = handler_wf h" "handler_wf (h\<lparr>h_response := r\<rparr>) = handler_wf h"
  "handler_wf (h\<lparr>h_data := d\<rparr>) = handler_wf h" "handler_wf (h\<lparr>h_total_length := n\<rparr>) = handler_wf h"
  by (simp_all add: handler_wf_def)

lemma process_message_wf:
  "handler_wf h \<Longrightarrow> process_message e h s = Inr (r, c, h', s') \<Longrightarrow> handler_wf h'"
  unfolding process_message_def Let_def finish_def report_def
  by (auto simp: handler_wf_Reset split: sum.splits prod.splits if_splits option.splits)

lemma read_stages_wf:
  "handler_wf h \<Longrightarrow> read_prelude h = Some h' \<Longrightarrow> handler_wf h' \<and> h_prelude_read h'"
  "handler_wf h \<Longrightarrow> h_prelude_read h \<Longrightarrow> read_prelude_crc e h s = Inr h' \<Longrightarrow> handler_wf h' \<and> h_prelude_crc_read h'"
  "handler_wf h \<Longrightarrow> h_prelude_read h \<Longrightarrow> read_prelude_crc e h s = Inl (Inr (r, c, h', s')) \<Longrightarrow> handler_wf h'"
  "handler_wf h \<Longrightarrow> h_prelude_crc_read h \<Longrightarrow> (if h_data_read h then Some h else ReadData h) = Some h' \<Longrightarrow>
     handler_wf h' \<and> h_data_read h'"
  "handler_wf h \<Longrightarrow> h_data_read h \<Longrightarrow> read_message_crc e h s = Inr h' \<Longrightarrow> handler_wf h'"
  "handler_wf h \<Longrightarrow> h_data_read h \<Longrightarrow> read_message_crc e h s = Inl (Inr (r, c, h', s')) \<Longrightarrow> handler_wf h'"
  by (auto simp: read_prelude_def ReadPrelude_def read_prelude_crc_def ReadPreludeCrc_def ReadData_def
      read_message_crc_def ReadMessageCrc_def handler_wf_def Let_def finish_def split: if_splits)

lemma process_wf:
  assumes "handler_wf h" "process e h s = Inr (r, c, h', s')"
  shows "handler_wf h'"
proof (cases "read_prelude h")
  case None
  then show ?thesis using assms by (simp add: process_def)
next
  case (Some h1)
  note 1 = read_stages_wf(1) [OF assms(1) Some]
  show ?thesis
  proof (cases "read_prelude_crc e h1 s")
    case (Inl x)
    then show ?thesis using assms(2) Some 1 read_stages_wf(3) [of h1 e s r c h' s'] by (simp add: process_def)
  next
    case (Inr h2)
    note 2 = read_stages_wf(2) [OF _ _ Inr] 1
    show ?thesis
    proof (cases "if h_data_read h2 then Some h2 else ReadData h2")
      case None
      then show ?thesis using assms(2) Some Inr 2 by (simp add: process_def)
    next
      case (Some h3)
      note 3 = read_stages_wf(4) [OF _ _ Some] 2
      show ?thesis
      proof (cases "read_message_crc e h3 s")
        case (Inl x)
        then show ?thesis
          using assms(2) \<open>read_prelude h = Some h1\<close> Inr Some 3 read_stages_wf(6) [of h3 e s r c h' s']
          by (simp add: process_def)
      next
        case (Inr h4)
        then show ?thesis
          using assms(2) \<open>read_prelude h = Some h1\<close> \<open>read_prelude_crc e h1 s = _\<close> Some 3
            read_stages_wf(5) [OF _ _ Inr] process_message_wf [of h4 e s r c h' s']
          by (simp add: process_def)
      qed
    qed
  qed
qed

lemma data_loop_wf: "handler_wf h \<Longrightarrow> data_loop e h s = Inr (r, h', s') \<Longrightarrow> handler_wf h'"
proof (induction e h s rule: data_loop.induct)
  case (1 e h s)
  from "1.prems" show ?case
    by (subst (asm) data_loop.simps) (auto split: sum.splits prod.splits if_splits
        dest: process_wf "1.IH")
qed

lemma DataFunction_wf:
  "handler_wf h \<Longrightarrow> DataFunction e h s chunk = Inr (r, h', s') \<Longrightarrow> handler_wf h'"
  using data_loop_wf [of "h\<lparr>h_response := h_response h @ chunk\<rparr>" e s r h' s']
  by (auto simp: DataFunction_def split: if_splits)

text \<open>The handler behind a request's data function: a crash stays.\<close>

definition select_datafunc :: "'s select_env \<Rightarrow> (crash + handler \<times> 's) data_function" where
  "select_datafunc e st resp chunk =
     (case st of
        Inl x \<Rightarrow> (False, Inl x)
      | Inr (h, s) \<Rightarrow>
          (case DataFunction e h s chunk of
             Inl x \<Rightarrow> (False, Inl x)
           | Inr (b, h', s') \<Rightarrow> (b, Inr (h', s'))))"

definition select_inv :: "crash + handler \<times> 's \<Rightarrow> bool" where
  "select_inv st \<longleftrightarrow> (case st of Inl _ \<Rightarrow> True | Inr (h, _) \<Rightarrow> handler_wf h)"

interpretation sel: stream_consumer "select_datafunc e" select_inv for e
  by unfold_locales
    (auto simp: select_datafunc_def select_inv_def dest: DataFunction_wf split: sum.splits prod.splits)

lemma DataFunction_done: "h_done h \<Longrightarrow> DataFunction e h s chunk = Inr (False, h, s)"
  by (simp add: DataFunction_def)

end
