(* ===== verification/Notification.thy ===== *)
theory Notification
  imports Documents Http
begin

section \<open>Bucket notifications (NotificationRecord in src/types.cc, the data function of ListenBucketNotification in src/baseclient.cc)\<close>

text \<open>
  The records of an event and the function that cuts the streamed body into lines and hands the
  records of each line to the caller. The JSON parser is the parameter \<open>parse\<close> (\<open>None\<close>: it
  throws); \<open>func\<close> is the caller's function with the state \<open>'s\<close> behind it. Exceptions leave the data
  function as \<open>None\<close>. The size of an object that the record does not have stays uninitialised, an
  option here.
\<close>

record notification_record =
  nr_event_version :: string
  nr_event_source :: string
  nr_aws_region :: string
  nr_event_time :: string
  nr_event_name :: string
  nr_user_principal_id :: string
  nr_request_principal_id :: string
  nr_request_region :: string
  nr_request_source_ip_address :: string
  nr_content_length :: string
  nr_x_amz_request_id :: string
  nr_x_minio_deployment_id :: string
  nr_x_minio_origin_endpoint :: string
  nr_s3_schema_version :: string
  nr_configuration_id :: string
  nr_bucket_name :: string
  nr_bucket_arn :: string
  nr_bucket_owner :: string
  nr_object_key :: string
  nr_object_size :: "u64 option"
  nr_object_etag :: string
  nr_object_content_type :: string
  nr_object_user_metadata :: "(string \<times> string) list"
  nr_object_sequencer :: string
  nr_source_host :: string
  nr_source_port :: string
  nr_source_user_agent :: string

text \<open>\<open>j[k]\<close> when \<open>j.contains(k)\<close>, the empty object otherwise: the members read from it then keep
  their empty default, as the code does by not reading them.\<close>

definition json_sub :: "string \<Rightarrow> json \<Rightarrow> json" where
  "json_sub k j = (case json_get k j of None \<Rightarrow> JObject [] | Some v \<Rightarrow> v)"

text \<open>The elements a range loop sees, and the keys and values of \<open>items()\<close>.\<close>

fun json_elems :: "json \<Rightarrow> json list" where
  "json_elems (JArray xs) = xs"
| "json_elems (JObject m) = map snd m"
| "json_elems JNull = []"
| "json_elems j = [j]"

fun json_items :: "json \<Rightarrow> (string \<times> json) list" where
  "json_items (JArray xs) = zip (map to_string [0..<length xs]) xs"
| "json_items (JObject m) = m"
| "json_items JNull = []"
| "json_items j = [([], j)]"

text \<open>\<open>value(k, size_t(0))\<close>\<close>

fun json_size :: "string \<Rightarrow> json \<Rightarrow> u64 option" where
  "json_size k (JObject m) = (case map_of m k of None \<Rightarrow> Some 0 | Some (JInt n) \<Rightarrow> Some (word_of_int n) | _ \<Rightarrow> None)"
| "json_size k _ = None"

fun json_strings :: "(string \<times> json) list \<Rightarrow> (string \<times> string) list \<Rightarrow> (string \<times> string) list option" where
  "json_strings [] m = Some m"
| "json_strings ((k, j) # kvs) m =
     (case json_string (Some j) of None \<Rightarrow> None | Some v \<Rightarrow> json_strings kvs (smap_put k v m))"

fun json_values :: "json \<Rightarrow> string list \<Rightarrow> string list option" where
  "json_values j [] = Some []"
| "json_values j (k # ks) =
     (case (json_value k [] j, json_values j ks) of (Some v, Some vs) \<Rightarrow> Some (v # vs) | _ \<Rightarrow> None)"

definition NotificationRecord_ParseJSON :: "json \<Rightarrow> notification_record option" where
  "NotificationRecord_ParseJSON j =
     (let s3 = json_sub ''s3'' j; bucket = json_sub ''bucket'' s3; object = json_sub ''object'' s3
      in case (json_values j [''eventVersion'', ''eventSource'', ''awsRegion'', ''eventTime'', ''eventName''],
               json_values (json_sub ''userIdentity'' j) [''principalId''],
               json_values (json_sub ''requestParameters'' j) [''principalId'', ''region'', ''sourceIPAddress''],
               json_values (json_sub ''responseElements'' j)
                 [''content-length'', ''x-amz-request-id'', ''x-minio-deployment-id'', ''x-minio-origin-endpoint''],
               json_values s3 [''s3SchemaVersion'', ''configurationId''],
               json_values bucket [''name'', ''arn''],
               json_values (json_sub ''ownerIdentity'' bucket) [''principalId''],
               json_values object [''key'', ''eTag'', ''contentType'', ''sequencer''],
               json_size ''size'' object,
               json_strings (json_items (json_sub ''userMetadata'' object)) [],
               json_values (json_sub ''source'' j) [''host'', ''port'', ''userAgent'']) of
           (Some [version, source, region, time, name], Some [user], Some [ppal, rregion, ip],
            Some [clen, rid, did, origin], Some [schema, cid], Some [bname, arn], Some [owner],
            Some [key, etag, ctype, seqr], Some osize, Some metadata, Some [shost, sport, agent]) \<Rightarrow>
             Some \<lparr>nr_event_version = version, nr_event_source = source, nr_aws_region = region,
               nr_event_time = time, nr_event_name = name, nr_user_principal_id = user,
               nr_request_principal_id = ppal, nr_request_region = rregion,
               nr_request_source_ip_address = ip, nr_content_length = clen, nr_x_amz_request_id = rid,
               nr_x_minio_deployment_id = did, nr_x_minio_origin_endpoint = origin,
               nr_s3_schema_version = schema, nr_configuration_id = cid, nr_bucket_name = bname,
               nr_bucket_arn = arn, nr_bucket_owner = owner, nr_object_key = key,
               nr_object_size = (if json_contains ''object'' s3 then Some osize else None),
               nr_object_etag = etag, nr_object_content_type = ctype, nr_object_user_metadata = metadata,
               nr_object_sequencer = seqr, nr_source_host = shost, nr_source_port = sport,
               nr_source_user_agent = agent\<rparr>
         | _ \<Rightarrow> None)"

subsection \<open>Lines of the stream\<close>

record 's listener =
  li_parse :: "string \<Rightarrow> json option"
  li_func :: "'s \<Rightarrow> notification_record list \<Rightarrow> bool \<times> 's"

fun parse_records :: "json list \<Rightarrow> notification_record list option" where
  "parse_records [] = Some []"
| "parse_records (j # js) =
     (case NotificationRecord_ParseJSON j of None \<Rightarrow> None
      | Some r \<Rightarrow> (case parse_records js of None \<Rightarrow> None | Some rs \<Rightarrow> Some (r # rs)))"

text \<open>One line: whether to go on, and the caller's state.\<close>

definition listen_line :: "'s listener \<Rightarrow> string \<Rightarrow> 's \<Rightarrow> (bool \<times> 's) option" where
  "listen_line l raw s =
     (let line = Trim raw (CHR '' '') in
      if line = [] then Some (True, s)
      else case li_parse l line of
        None \<Rightarrow> None
      | Some j \<Rightarrow>
          if \<not> json_contains ''Records'' j then Some (True, s)
          else case parse_records (json_elems (json_sub ''Records'' j)) of
            None \<Rightarrow> None
          | Some rs \<Rightarrow> if rs = [] then Some (True, s)
              else (case li_func l s rs of (cont, s) \<Rightarrow> Some (cont, s)))"

text \<open>The loop over the complete lines of the data. The result has what is left of the data.\<close>

function listen_loop :: "'s listener \<Rightarrow> string \<Rightarrow> 's \<Rightarrow> (bool \<times> string \<times> 's) option" where
  "listen_loop l data s =
     (case str_find data [CHR 0x0A] of
        None \<Rightarrow> Some (True, data, s)
      | Some pos \<Rightarrow>
          (case listen_line l (take pos data) s of
             None \<Rightarrow> None
           | Some (cont, s) \<Rightarrow>
               if cont then listen_loop l (drop (pos + 1) data) s else Some (False, drop (pos + 1) data, s)))"
  by pat_completeness auto
termination
proof (relation "measure (\<lambda>(l, data, s). length data)", goal_cases)
  case (2 l data s pos)
  then have "CHR 0x0A \<in> set data" by (auto simp: str_find_char split: if_splits)
  then have "data \<noteq> []" by auto
  then show ?case by simp
qed simp

declare listen_loop.simps [simp del]

definition listen_step :: "'s listener \<Rightarrow> string \<Rightarrow> 's \<Rightarrow> string \<Rightarrow> (bool \<times> string \<times> 's) option" where
  "listen_step l data s chunk = listen_loop l (data @ chunk) s"

text \<open>The lambda behind the request; \<open>None\<close> in the state: an exception has left it.\<close>

definition listen_datafunc :: "'s listener \<Rightarrow> (string \<times> 's) option data_function" where
  "listen_datafunc l st resp chunk =
     (case st of
        None \<Rightarrow> (False, None)
      | Some (data, s) \<Rightarrow>
          (case listen_step l data s chunk of
             None \<Rightarrow> (False, None)
           | Some (cont, data, s) \<Rightarrow> (cont, Some (data, s))))"

subsection \<open>What the caller sees does not depend on the chunks\<close>

text \<open>The stream as the caller means it: its lines in order, until one is refused or throws.\<close>

fun deliver_lines :: "'s listener \<Rightarrow> string list \<Rightarrow> 's \<Rightarrow> (bool \<times> 's) option" where
  "deliver_lines l [] s = Some (True, s)"
| "deliver_lines l (x # xs) s =
     (case listen_line l x s of
        None \<Rightarrow> None
      | Some (cont, s) \<Rightarrow> if cont then deliver_lines l xs s else Some (False, s))"

text \<open>The data function on the chunks of a body, in order, until it cancels.\<close>

fun listen_feed :: "'s listener \<Rightarrow> string \<Rightarrow> 's \<Rightarrow> string list \<Rightarrow> (bool \<times> 's) option" where
  "listen_feed l data s [] = Some (True, s)"
| "listen_feed l data s (c # cs) =
     (case listen_step l data s c of
        None \<Rightarrow> None
      | Some (cont, data, s) \<Rightarrow> if cont then listen_feed l data s cs else Some (False, s))"

definition line_feed :: "string \<Rightarrow> string" where
  "line_feed x = x @ [CHR 0x0A]"

lemma listen_loop_no_line:
  "CHR 0x0A \<notin> set data \<Longrightarrow> listen_loop l data s = Some (True, data, s)"
  by (subst listen_loop.simps) (simp add: str_find_char)

lemma listen_loop_line:
  assumes "CHR 0x0A \<notin> set x"
  shows "listen_loop l (line_feed x @ r) s =
    (case listen_line l x s of None \<Rightarrow> None
     | Some (cont, s) \<Rightarrow> if cont then listen_loop l r s else Some (False, r, s))"
  using assms
  by (subst listen_loop.simps) (simp add: line_feed_def str_find_char takeWhile_until split: option.splits)

lemma listen_loop_append:
  "listen_loop l (a @ b) s =
     (case listen_loop l a s of None \<Rightarrow> None
      | Some (cont, rest, s') \<Rightarrow> if cont then listen_loop l (rest @ b) s' else Some (False, rest @ b, s'))"
proof (induction l a s rule: listen_loop.induct)
  case (1 l a s)
  show ?case
  proof (cases "CHR 0x0A \<in> set a")
    case False
    then show ?thesis by (simp add: listen_loop_no_line)
  next
    case True
    then obtain x r where a: "a = line_feed x @ r" and x: "CHR 0x0A \<notin> set x"
      by (metis append.assoc append_Cons append_Nil line_feed_def split_list_first)
    have f: "str_find a [CHR 0x0A] = Some (length x)"
      using x by (simp add: a line_feed_def str_find_char takeWhile_until)
    have d: "take (length x) a = x" "drop (length x + 1) a = r" by (simp_all add: a line_feed_def)
    have IH: "listen_loop l (r @ b) s' =
       (case listen_loop l r s' of None \<Rightarrow> None
        | Some (cont, rest, s'') \<Rightarrow> if cont then listen_loop l (rest @ b) s'' else Some (False, rest @ b, s''))"
      if "listen_line l x s = Some (True, s')" for s'
      by (rule "1.IH" [OF f _ refl TrueI, unfolded d, OF that])
    show ?thesis
      unfolding a append_assoc listen_loop_line [OF x]
      using IH by (auto split: option.splits)
  qed
qed

lemma listen_loop_rest:
  "listen_loop l data s = Some (True, rest, s') \<Longrightarrow> CHR 0x0A \<notin> set rest"
proof (induction l data s rule: listen_loop.induct)
  case (1 l data s)
  show ?case
  proof (cases "str_find data [CHR 0x0A]")
    case None
    with "1.prems" show ?thesis
      by (subst (asm) listen_loop.simps) (auto simp: str_find_char split: if_splits)
  next
    case (Some pos)
    with "1.prems" show ?thesis
      by (subst (asm) listen_loop.simps) (auto split: option.splits if_splits dest: "1.IH" [OF Some _ refl])
  qed
qed

lemma listen_feed_loop:
  "CHR 0x0A \<notin> set data \<Longrightarrow>
     listen_feed l data s cs = map_option (\<lambda>(cont, _, s). (cont, s)) (listen_loop l (data @ concat cs) s)"
proof (induction cs arbitrary: data s)
  case Nil
  then show ?case by (simp add: listen_loop_no_line)
next
  case (Cons c cs)
  have "listen_loop l (data @ concat (c # cs)) s = listen_loop l ((data @ c) @ concat cs) s" by simp
  also note listen_loop_append
  finally show ?case
    using Cons.IH listen_loop_rest [of l "data @ c" s]
    by (auto simp: listen_step_def split: option.splits)
qed

lemma listen_loop_lines:
  assumes "\<forall>x \<in> set ls. CHR 0x0A \<notin> set x" "CHR 0x0A \<notin> set tail"
  shows "map_option (\<lambda>(cont, _, s). (cont, s)) (listen_loop l (concat (map line_feed ls) @ tail) s)
    = deliver_lines l ls s"
  using assms
proof (induction ls arbitrary: s)
  case Nil
  then show ?case by (simp add: listen_loop_no_line)
next
  case (Cons x ls)
  then show ?case by (auto simp: listen_loop_line split: option.splits)
qed

lemma listen_feed_lines:
  assumes "\<forall>x \<in> set ls. CHR 0x0A \<notin> set x" "CHR 0x0A \<notin> set tail"
    "concat cs = concat (map line_feed ls) @ tail"
  shows "listen_feed l [] s cs = deliver_lines l ls s"
  using listen_feed_loop [of "[]" l s cs] listen_loop_lines [OF assms(1,2), of l s] assms(3) by simp

end
