(* ===== verification/BaseClient.thy ===== *)
theory BaseClient
  imports BaseUrl Responses Args
begin

section \<open>The client's core (src/baseclient.cc: errors, execution, regions)\<close>

text \<open>
  The members of \<open>BaseClient\<close> that decide what is sent, the classification of a failed response,
  one signed exchange with the server (\<open>execute\<close>), its single retry (\<open>Execute\<close>) and the lookup of a
  bucket's region with its cache.

  What lies outside is \<open>client_env\<close>: the cryptographic functions and time zone, the clock, the
  provider's \<open>Fetch\<close> (absent for a null provider), the HTTP library and the XML parser. The first three
  and the server may depend on the state \<open>'w\<close> of the world, which a fetch or an exchange changes.
  An operation returns \<open>None\<close> when the process ends, an exception leaves it or its behaviour is
  undefined; otherwise an error or a value, and the client as it is then. Debug output, certificate
  settings and the locks around the region map change no value of a single caller.
\<close>

record 'w client_env =
  ce_crypto :: crypto
  ce_now :: "'w \<Rightarrow> utc_time"
  ce_fetch :: "('w \<Rightarrow> credentials \<times> 'w) option"
  ce_send :: "'w \<Rightarrow> http_call \<Rightarrow> http_exchange \<times> 'w"
  ce_xml :: xml_reader

record 'w client =
  cl_base_url :: base_url
  cl_user_agent :: string
  cl_region_map :: "(string \<times> string) list"
  cl_world :: 'w

type_synonym ('a, 'w) op = "'w client \<Rightarrow> ((error + 'a) \<times> 'w client) option"

text \<open>\<open>DEFAULT_USER_AGENT\<close> is a macro with the platform and the version: an argument.\<close>

definition BaseClient_new :: "string \<Rightarrow> base_url \<Rightarrow> 'w \<Rightarrow> 'w client option" where
  "BaseClient_new agent b w =
     (if base_url_bool b then
        Some \<lparr>cl_base_url = b, cl_user_agent = agent, cl_region_map = [], cl_world = w\<rparr>
      else None)"

definition SetAppInfo :: "string \<Rightarrow> string \<Rightarrow> string \<Rightarrow> 'w client \<Rightarrow> error \<times> 'w client" where
  "SetAppInfo agent app_name app_version c =
     (if app_name = [] \<or> app_version = [] then (''Application name/version cannot be empty'', c)
      else (SUCCESS, c\<lparr>cl_user_agent := agent @ '' '' @ app_name @ ''/'' @ app_version\<rparr>))"

definition GetCommonListObjectsQueryParams :: "string \<Rightarrow> string \<Rightarrow> u32 \<Rightarrow> string \<Rightarrow> multimap" where
  "GetCommonListObjectsQueryParams delimiter encoding_type max_keys prefix =
     (let m = Add ''delimiter'' delimiter mm_empty;
          m = Add ''max-keys'' (to_string (if 0 < max_keys then unat max_keys else 1000)) m;
          m = Add ''prefix'' prefix m
      in if encoding_type \<noteq> [] then Add ''encoding-type'' encoding_type m else m)"

subsection \<open>Failed responses\<close>

text \<open>The region map has a region for the bucket.\<close>

definition known_region :: "'w client \<Rightarrow> string \<Rightarrow> string option" where
  "known_region c bucket =
     (case map_of (cl_region_map c) bucket of
        Some r \<Rightarrow> if r \<noteq> [] then Some r else None | None \<Rightarrow> None)"

definition HandleRedirectResponse :: "'w client \<Rightarrow> int \<Rightarrow> http_method \<Rightarrow> multimap \<Rightarrow> string \<Rightarrow> bool
    \<Rightarrow> string \<times> string" where
  "HandleRedirectResponse c status m hs bucket retry =
     (let (code, message) =
            (if status = 301 then (''PermanentRedirect'', ''Moved Permanently'')
             else if status = 307 then (''Redirect'', ''Temporary redirect'')
             else if status = 400 then (''BadRequest'', ''Bad request'')
             else ([], []));
          region = GetFront ''x-amz-bucket-region'' hs;
          message = (if message \<noteq> [] \<and> region \<noteq> [] then message @ ''; use region '' @ region else message)
      in if retry \<and> region \<noteq> [] \<and> m = kHead \<and> bucket \<noteq> [] \<and> known_region c bucket \<noteq> None
         then (''RetryHead'', []) else (code, message))"

definition is_xml :: "string \<Rightarrow> bool" where
  "is_xml v \<longleftrightarrow> Contains (ToLower v) ''application/xml''"

text \<open>The function always ends in an error: its \<open>Result\<close> is that error.\<close>

definition GetErrorResponse :: "xml_reader \<Rightarrow> 'w client \<Rightarrow> http_response \<Rightarrow> http_method \<Rightarrow> string \<Rightarrow> string
    \<Rightarrow> error" where
  "GetErrorResponse xml c r m bucket object =
     (if resp_error r \<noteq> [] then resp_error r
      else if resp_body r \<noteq> [] then
        (let types = Get ''Content-Type'' (resp_headers r) in
         if list_ex is_xml types then
           (case Response_ParseXML xml (resp_body r) (status_code r) (resp_headers r) of
              Inl e \<Rightarrow> e | Inr p \<Rightarrow> rs_code p @ '': '' @ rs_message p)
         else ''invalid response received; status code: '' @ int_to_string (status_code r)
                @ ''; content-type: '' @ Join types '','')
      else if status_code r = 301 \<or> status_code r = 307 \<or> status_code r = 400 then
        (case HandleRedirectResponse c (status_code r) m (resp_headers r) bucket True of
           (code, message) \<Rightarrow> if code = ''RetryHead'' then ''RetryHead'' else code @ '': '' @ message)
      else if status_code r = 403 then ''AccessDenied: Access denied''
      else if status_code r = 404 then
        (if object \<noteq> [] then ''NoSuchKey: Object does not exist''
         else if bucket = [] then ''NoSuchBucket: Bucket does not exist''
         else ''ResourceNotFound: Request resource not found'')
      else if status_code r = 405 then
        ''MethodNotAllowed: The specified method is not allowed against this resource''
      else if status_code r = 409 then
        (if bucket = [] then ''NoSuchBucket: Bucket does not exist''
         else ''ResourceConflict: Request resource conflicts'')
      else if status_code r = 501 then
        ''MethodNotAllowed: The specified method is not allowed against this resource''
      else ''server failed with HTTP status code '' @ int_to_string (status_code r))"

subsection \<open>One exchange\<close>

text \<open>The provider is asked while the request is signed.\<close>

definition fetch_creds :: "'w client_env \<Rightarrow> 'w \<Rightarrow> credentials option \<times> 'w" where
  "fetch_creds e w = (case ce_fetch e of None \<Rightarrow> (None, w) | Some f \<Rightarrow> (case f w of (cr, w) \<Rightarrow> (Some cr, w)))"

definition response_of :: "http_response \<Rightarrow> response" where
  "response_of r = Response_new\<lparr>rs_status_code := status_code r, rs_headers := resp_headers r,
     rs_data := resp_body r\<rparr>"

definition forgets_region :: "error \<Rightarrow> bool" where
  "forgets_region err \<longleftrightarrow> Contains err ''NoSuchBucket'' \<or> err = ''RetryHead''"

text \<open>The request is a member the caller keeps: it comes back with the headers it was sent with. \<open>s\<close> is
  the state behind its data function.\<close>

definition execute :: "'w client_env \<Rightarrow> 's s3_request \<Rightarrow> 's \<Rightarrow> 'w client
    \<Rightarrow> ((error + response) \<times> 's s3_request \<times> 's \<times> 'w client) option" where
  "execute e q s c =
     (let q = q\<lparr>q_user_agent := cl_user_agent c\<rparr>;
          (creds, w) = fetch_creds e (cl_world c)
      in case ToHttpRequest (ce_crypto e) (ce_now e (cl_world c)) (cl_base_url c) creds q of
           None \<Rightarrow> None
         | Some (r, q) \<Rightarrow>
             let (x, w) = ce_send e w (call_of r);
                 (h, s) = http_execute (\<lambda>_. x) r s;
                 c = c\<lparr>cl_world := w\<rparr>
             in if resp_bool h then Some (Inr (response_of h), q, s, c)
                else
                  let err = GetErrorResponse (ce_xml e) c h (q_method q) (q_bucket_name q) (q_object_name q);
                      c = (if forgets_region err
                           then c\<lparr>cl_region_map := smap_erase (q_bucket_name q) (cl_region_map c)\<rparr> else c)
                  in Some (Inl err, q, s, c))"

definition Execute :: "'w client_env \<Rightarrow> 's s3_request \<Rightarrow> 's \<Rightarrow> 'w client
    \<Rightarrow> ((error + response) \<times> 's s3_request \<times> 's \<times> 'w client) option" where
  "Execute e q s c =
     (case execute e q s c of
        None \<Rightarrow> None
      | Some (Inr r, q, s, c) \<Rightarrow> Some (Inr r, q, s, c)
      | Some (Inl err, q, s, c) \<Rightarrow>
          if err \<noteq> ''RetryHead'' then Some (Inl err, q, s, c) else execute e q s c)"

text \<open>A call without a data function, whose request is not used again.\<close>

definition send_request :: "'w client_env \<Rightarrow> unit s3_request \<Rightarrow> (response, 'w) op" where
  "send_request e q c = map_option (\<lambda>(r, q, s, c). (r, c)) (Execute e q () c)"

subsection \<open>Sequencing\<close>

definition ret :: "'a \<Rightarrow> ('a, 'w) op" where
  "ret x c = Some (Inr x, c)"

definition fail :: "error \<Rightarrow> ('a, 'w) op" where
  "fail err c = Some (Inl err, c)"

definition undefined_op :: "('a, 'w) op" where
  "undefined_op c = None"

text \<open>What follows an error, and what follows a value.\<close>

definition on_result :: "('a, 'w) op \<Rightarrow> (error \<Rightarrow> ('b, 'w) op) \<Rightarrow> ('a \<Rightarrow> ('b, 'w) op) \<Rightarrow> ('b, 'w) op" where
  "on_result m f g c =
     (case m c of None \<Rightarrow> None | Some (Inl err, c) \<Rightarrow> f err c | Some (Inr x, c) \<Rightarrow> g x c)"

text \<open>\<open>if (!x) return make_unexpected(x.error()); ...\<close>\<close>

definition and_then :: "('a, 'w) op \<Rightarrow> ('a \<Rightarrow> ('b, 'w) op) \<Rightarrow> ('b, 'w) op" where
  "and_then m f = on_result m fail f"

definition or_else :: "('a, 'w) op \<Rightarrow> (error \<Rightarrow> ('a, 'w) op) \<Rightarrow> ('a, 'w) op" where
  "or_else m f = on_result m f ret"

text \<open>Reading the members of the client, and changing them.\<close>

definition with_client :: "('w client \<Rightarrow> ('a, 'w) op) \<Rightarrow> ('a, 'w) op" where
  "with_client f c = f c c"

definition modify :: "('w client \<Rightarrow> 'w client) \<Rightarrow> 'a \<Rightarrow> ('a, 'w) op" where
  "modify f x c = Some (Inr x, f c)"

text \<open>\<open>provider_->Fetch()\<close>, when there is a provider.\<close>

definition fetch_op :: "'w client_env \<Rightarrow> (credentials option, 'w) op" where
  "fetch_op e c = (case fetch_creds e (cl_world c) of (cr, w) \<Rightarrow> Some (Inr cr, c\<lparr>cl_world := w\<rparr>))"

text \<open>\<open>if (error::Error err = ...) return make_unexpected(err); ...\<close>\<close>

definition check :: "error \<Rightarrow> ('a, 'w) op \<Rightarrow> ('a, 'w) op" where
  "check err m = (if is_err err then fail err else m)"

text \<open>A parsed document as the result.\<close>

definition lift_outcome :: "'a outcome \<Rightarrow> ('a, 'w) op" where
  "lift_outcome v c = map_option (\<lambda>r. (r, c)) v"

definition lift_result :: "(error + 'a) \<Rightarrow> ('a, 'w) op" where
  "lift_result r c = Some (r, c)"

subsection \<open>Requests\<close>

definition Request_new :: "http_method \<Rightarrow> string \<Rightarrow> multimap \<Rightarrow> multimap \<Rightarrow> 's s3_request" where
  "Request_new m region headers params =
     \<lparr>q_method = m, q_region = region, q_user_agent = [], q_headers = headers, q_query_params = params,
      q_bucket_name = [], q_object_name = [], q_body = [], q_datafunc = None, q_sha256 = [],
      q_date = utc_default\<rparr>"

definition with_param :: "string \<Rightarrow> string \<Rightarrow> 's s3_request \<Rightarrow> 's s3_request" where
  "with_param k v q = q\<lparr>q_query_params := Add k v (q_query_params q)\<rparr>"

definition with_header :: "string \<Rightarrow> string \<Rightarrow> 's s3_request \<Rightarrow> 's s3_request" where
  "with_header k v q = q\<lparr>q_headers := Add k v (q_headers q)\<rparr>"

subsection \<open>Regions\<close>

definition set_region :: "string \<Rightarrow> string \<Rightarrow> 'w client \<Rightarrow> 'w client" where
  "set_region bucket region c = c\<lparr>cl_region_map := smap_put bucket region (cl_region_map c)\<rparr>"

definition location_request :: "string \<Rightarrow> 's s3_request" where
  "location_request bucket =
     (with_param ''location'' [] (Request_new kGet ''us-east-1'' mm_empty mm_empty))\<lparr>q_bucket_name := bucket\<rparr>"

definition location_value :: "base_url \<Rightarrow> string \<Rightarrow> string" where
  "location_value b v =
     (if v = [] then ''us-east-1''
      else if v = ''EU'' then (if b_suffix b \<noteq> [] then ''eu-west-1'' else v)
      else v)"

text \<open>The query for the region of a bucket; its answer goes into the map.\<close>

definition fetch_region :: "'w client_env \<Rightarrow> string \<Rightarrow> (string, 'w) op" where
  "fetch_region e bucket =
     and_then (send_request e (location_request bucket))
       (\<lambda>resp. case load_string (ce_xml e) (rs_data resp) of
           None \<Rightarrow> fail ''unable to parse XML''
         | Some doc \<Rightarrow> with_client (\<lambda>c.
             let v = location_value (cl_base_url c) (xtext [''LocationConstraint''] doc)
             in modify (set_region bucket v) v))"

definition GetRegion :: "'w client_env \<Rightarrow> string \<Rightarrow> string \<Rightarrow> (string, 'w) op" where
  "GetRegion e bucket region = with_client (\<lambda>c.
     let base_region = b_region (cl_base_url c) in
     if region \<noteq> [] then
       (if base_region \<noteq> [] \<and> base_region \<noteq> region then
          fail (''region must be '' @ base_region @ '', but passed '' @ region)
        else ret region)
     else if base_region \<noteq> [] then ret base_region
     else if bucket = [] \<or> ce_fetch e = None then ret ''us-east-1''
     else case known_region c bucket of
       Some r \<Rightarrow> ret r
     | None \<Rightarrow> fetch_region e bucket)"

subsection \<open>The shape of a call\<close>

text \<open>What almost every call starts with: its arguments are checked, the region is looked up, and a
  request is made from the common arguments.\<close>

definition in_region :: "'w client_env \<Rightarrow> 'b bucket_args_scheme \<Rightarrow> (string \<Rightarrow> ('a, 'w) op) \<Rightarrow> ('a, 'w) op" where
  "in_region e a k = and_then (GetRegion e (a_bucket a) (a_region a)) k"

definition bucket_request :: "http_method \<Rightarrow> string \<Rightarrow> 'b bucket_args_scheme \<Rightarrow> 's s3_request" where
  "bucket_request m region a =
     (Request_new m region (a_extra_headers a) (a_extra_query_params a))\<lparr>q_bucket_name := a_bucket a\<rparr>"

definition object_request :: "http_method \<Rightarrow> string \<Rightarrow> 'b object_args_scheme \<Rightarrow> 's s3_request" where
  "object_request m region a = (bucket_request m region a)\<lparr>q_object_name := a_object a\<rparr>"

definition version_request :: "http_method \<Rightarrow> string \<Rightarrow> 'b object_version_args_scheme \<Rightarrow> 's s3_request" where
  "version_request m region a =
     (if a_version_id a \<noteq> [] then with_param ''versionId'' (a_version_id a) (object_request m region a)
      else object_request m region a)"

definition with_params :: "multimap \<Rightarrow> 's s3_request \<Rightarrow> 's s3_request" where
  "with_params m q = q\<lparr>q_query_params := AddAll m (q_query_params q)\<rparr>"

definition with_headers :: "multimap \<Rightarrow> 's s3_request \<Rightarrow> 's s3_request" where
  "with_headers m q = q\<lparr>q_headers := AddAll m (q_headers q)\<rparr>"

text \<open>\<open>req.headers.Add("Content-MD5", utils::Md5sumHash(body)); req.body = body\<close>\<close>

definition with_md5_body :: "crypto \<Rightarrow> string \<Rightarrow> 's s3_request \<Rightarrow> 's s3_request" where
  "with_md5_body cr body q = (with_header ''Content-MD5'' (md5_base64 cr body) q)\<lparr>q_body := body\<rparr>"

text \<open>\<open>if (args.ssec != nullptr && !base_url_.https)\<close>\<close>

definition check_ssec :: "sse option \<Rightarrow> ('a, 'w) op \<Rightarrow> ('a, 'w) op" where
  "check_ssec ssec m = with_client (\<lambda>c.
     if ssec \<noteq> None \<and> \<not> b_https (cl_base_url c) then
       fail ''SSE-C operation must be performed over a secure connection''
     else m)"

text \<open>The body of \<open>SetBucketTags\<close> and of \<open>SetObjectTags\<close>.\<close>

definition tagging_body :: "(string \<times> string) list \<Rightarrow> string" where
  "tagging_body tags = xtag ''Tagging'' (if tags \<noteq> [] then xtag ''TagSet'' (concat (map tag_xml tags)) else [])"

text \<open>A call with a data function: the state behind it comes back, also with an error.\<close>

definition stream_call :: "'w client_env \<Rightarrow> (string, 'w) op \<Rightarrow> (string \<Rightarrow> 's s3_request) \<Rightarrow> 's \<Rightarrow> 'w client
    \<Rightarrow> ((error + response) \<times> 's \<times> 'w client) option" where
  "stream_call e pre q s c =
     (case pre c of
        None \<Rightarrow> None
      | Some (Inl err, c) \<Rightarrow> Some (Inl err, s, c)
      | Some (Inr region, c) \<Rightarrow> map_option (\<lambda>(r, _, s, c). (r, s, c)) (Execute e (q region) s c))"

subsection \<open>What every operation keeps\<close>

text \<open>The region map is sorted and has no empty region.\<close>

definition client_wf :: "'w client \<Rightarrow> bool" where
  "client_wf c \<longleftrightarrow> smap_wf (cl_region_map c) \<and> (\<forall>r \<in> snd ` set (cl_region_map c). r \<noteq> [])"

text \<open>The environment with a log of the requests handed to the HTTP library.\<close>

definition logged :: "'w client_env \<Rightarrow> ('w \<times> http_call list) client_env" where
  "logged e = \<lparr>ce_crypto = ce_crypto e, ce_now = (\<lambda>(w, l). ce_now e w),
     ce_fetch = map_option (\<lambda>f (w, l). case f w of (cr, w) \<Rightarrow> (cr, (w, l))) (ce_fetch e),
     ce_send = (\<lambda>(w, l) call. case ce_send e w call of (x, w) \<Rightarrow> (x, (w, l @ [call]))),
     ce_xml = ce_xml e\<rparr>"

text \<open>An operation keeps the map well-formed, the URL and the user agent, and sends at most \<open>n\<close>
  requests. An error it reports has a message, so the caller sees it as an error.\<close>

definition op_frame :: "nat \<Rightarrow> ('w \<times> http_call list) client \<Rightarrow> ('w \<times> http_call list) client \<Rightarrow> bool" where
  "op_frame n c c' \<longleftrightarrow> (client_wf c \<longrightarrow> client_wf c') \<and> cl_base_url c' = cl_base_url c
     \<and> cl_user_agent c' = cl_user_agent c
     \<and> (\<exists>calls. length calls \<le> n \<and> snd (cl_world c') = snd (cl_world c) @ calls)"

definition framed :: "nat \<Rightarrow> ('a, 'w \<times> http_call list) op \<Rightarrow> bool" where
  "framed n m \<longleftrightarrow> (\<forall>c r c'. m c = Some (r, c') \<longrightarrow> op_frame n c c' \<and> (\<forall>err. r = Inl err \<longrightarrow> err \<noteq> []))"

named_theorems frame_intros \<open>how operations are framed\<close>

lemma op_frame_refl [simp]: "op_frame n c c"
  by (simp add: op_frame_def)

lemma op_frame_trans: "op_frame n c c' \<Longrightarrow> op_frame k c' c'' \<Longrightarrow> op_frame (n + k) c c''"
  unfolding op_frame_def by (metis (no_types, opaque_lifting) add_mono append_assoc length_append)

lemma op_frame_mono: "op_frame n c c' \<Longrightarrow> n \<le> k \<Longrightarrow> op_frame k c c'"
  unfolding op_frame_def by (metis le_trans)

lemma framed_mono: "framed n m \<Longrightarrow> n \<le> k \<Longrightarrow> framed k m"
  unfolding framed_def by (blast intro: op_frame_mono)

lemma framedD: "framed n m \<Longrightarrow> m c = Some (r, c') \<Longrightarrow> op_frame n c c'"
  by (simp add: framed_def)

lemma framed_error: "framed n m \<Longrightarrow> m c = Some (Inl err, c') \<Longrightarrow> err \<noteq> []"
  by (simp add: framed_def)

lemma framed_ret [frame_intros]: "framed n (ret x)"
  by (simp add: framed_def ret_def)

lemma framed_fail [frame_intros]: "err \<noteq> [] \<Longrightarrow> framed n (fail err)"
  by (simp add: framed_def fail_def)

lemma framed_undefined [frame_intros]: "framed n undefined_op"
  by (simp add: framed_def undefined_op_def)

lemma framed_lift_result [frame_intros]: "r \<noteq> Inl [] \<Longrightarrow> framed n (lift_result r)"
  by (auto simp: framed_def lift_result_def)

lemma framed_lift_outcome [frame_intros]: "r \<noteq> Some (Inl []) \<Longrightarrow> framed n (lift_outcome r)"
  by (auto simp: framed_def lift_outcome_def)

lemma framed_on_result:
  assumes "framed n m" "\<And>err. err \<noteq> [] \<Longrightarrow> framed k (f err)" "\<And>x. framed k (g x)"
  shows "framed (n + k) (on_result m f g)"
  unfolding framed_def
proof (intro allI impI)
  fix c r c' assume run: "on_result m f g c = Some (r, c')"
  then obtain r1 c1 where m: "m c = Some (r1, c1)" by (cases "m c") (auto simp: on_result_def)
  show "op_frame (n + k) c c' \<and> (\<forall>err. r = Inl err \<longrightarrow> err \<noteq> [])"
  proof (cases r1)
    case (Inl err)
    have "err \<noteq> []" using framed_error [OF assms(1)] m Inl by blast
    with run m Inl assms(2) have "op_frame k c1 c' \<and> (\<forall>err. r = Inl err \<longrightarrow> err \<noteq> [])"
      by (auto simp: on_result_def framed_def)
    with op_frame_trans framedD [OF assms(1) m] show ?thesis by blast
  next
    case (Inr x)
    with run m assms(3) have "op_frame k c1 c' \<and> (\<forall>err. r = Inl err \<longrightarrow> err \<noteq> [])"
      by (auto simp: on_result_def framed_def)
    with op_frame_trans framedD [OF assms(1) m] show ?thesis by blast
  qed
qed

lemma framed_on_result_0 [frame_intros]:
  "framed n m \<Longrightarrow> (\<And>err. err \<noteq> [] \<Longrightarrow> framed 0 (f err)) \<Longrightarrow> (\<And>x. framed 0 (g x)) \<Longrightarrow> framed n (on_result m f g)"
  using framed_on_result [of n m 0 f g] by simp

lemma framed_and_then: "framed n m \<Longrightarrow> (\<And>x. framed k (f x)) \<Longrightarrow> framed (n + k) (and_then m f)"
  unfolding and_then_def by (intro framed_on_result framed_fail)

lemma framed_and_then_0 [frame_intros]: "framed n m \<Longrightarrow> (\<And>x. framed 0 (f x)) \<Longrightarrow> framed n (and_then m f)"
  using framed_and_then [of n m 0 f] by simp

lemma framed_or_else [frame_intros]:
  "framed n m \<Longrightarrow> (\<And>err. err \<noteq> [] \<Longrightarrow> framed 0 (f err)) \<Longrightarrow> framed n (or_else m f)"
  unfolding or_else_def by (intro frame_intros)

lemma framed_with_client [frame_intros]: "(\<And>c. framed n (f c)) \<Longrightarrow> framed n (with_client f)"
  by (simp add: framed_def with_client_def)

lemma smap_upd_values:
  "snd ` set (smap_upd k f m) \<subseteq> insert (f None) (snd ` set m) \<union> (f \<circ> Some) ` snd ` set m"
  by (induction k f m rule: smap_upd.induct) auto

lemma client_wf_set_region: "region \<noteq> [] \<Longrightarrow> client_wf c \<Longrightarrow> client_wf (set_region bucket region c)"
  using smap_upd_values [of bucket "\<lambda>_. region" "cl_region_map c"]
  by (auto simp: client_wf_def set_region_def smap_put_def smap_wf_upd dest!: subsetD [OF _ imageI])

lemma framed_set_region [frame_intros]: "region \<noteq> [] \<Longrightarrow> framed n (modify (set_region bucket region) x)"
  using client_wf_set_region by (auto simp: framed_def modify_def op_frame_def set_region_def)

lemma framed_if [frame_intros]:
  "(b \<Longrightarrow> framed n m) \<Longrightarrow> (\<not> b \<Longrightarrow> framed n m') \<Longrightarrow> framed n (if b then m else m')"
  by simp

lemma framed_check [frame_intros]: "framed n m \<Longrightarrow> framed n (check err m)"
  by (auto simp: check_def is_err_def intro: frame_intros)

lemma framed_check_ssec [frame_intros]: "framed n m \<Longrightarrow> framed n (check_ssec s m)"
  unfolding check_ssec_def by (auto intro!: frame_intros)

lemma framed_fetch_op [frame_intros]: "framed n (fetch_op (logged e))"
  by (auto simp: framed_def fetch_op_def fetch_creds_def logged_def op_frame_def client_wf_def
      split: option.splits prod.splits)

subsection \<open>Requests and regions\<close>

lemma GetErrorResponse_nonempty: "GetErrorResponse xml c r m bucket object \<noteq> []"
  by (simp add: GetErrorResponse_def Let_def Response_ParseXML_def split: option.splits sum.splits prod.splits)

lemma ToHttpRequest_names:
  assumes "ToHttpRequest cr now b creds q = Some (r, q')"
  shows "q_bucket_name q' = q_bucket_name q" "q_object_name q' = q_object_name q" "q_method q' = q_method q"
  using assms by (auto simp: ToHttpRequest_def BuildHeaders_def Let_def split: prod.splits option.splits if_splits)

text \<open>The error a failed exchange ends in, and the client after it.\<close>

definition exchange_error :: "'w client_env \<Rightarrow> 's s3_request \<Rightarrow> http_response \<Rightarrow> 'w client \<Rightarrow> error" where
  "exchange_error e q h c = GetErrorResponse (ce_xml e) c h (q_method q) (q_bucket_name q) (q_object_name q)"

lemma exchange_error_nonempty [simp]: "exchange_error e q h c \<noteq> []" "[] \<noteq> exchange_error e q h c"
  by (simp_all add: exchange_error_def GetErrorResponse_nonempty GetErrorResponse_nonempty [symmetric])

definition forget :: "'s s3_request \<Rightarrow> error \<Rightarrow> 'w client \<Rightarrow> 'w client" where
  "forget q err c = (if forgets_region err
     then c\<lparr>cl_region_map := smap_erase (q_bucket_name q) (cl_region_map c)\<rparr> else c)"

text \<open>How an exchange went: \<open>hr\<close> is what was handed over, \<open>x\<close> the answer, \<open>h\<close> the response.\<close>

definition exchanged :: "'w client_env \<Rightarrow> 's s3_request \<Rightarrow> 's \<Rightarrow> 'w client
    \<Rightarrow> (error + response) \<times> 's s3_request \<times> 's \<times> 'w client
    \<Rightarrow> 's http_request \<Rightarrow> http_exchange \<Rightarrow> http_response \<Rightarrow> bool" where
  "exchanged e q s c res hr x h \<longleftrightarrow>
     (case res of (r, q', s', c') \<Rightarrow>
      \<exists>creds w0 w. fetch_creds e (cl_world c) = (creds, w0)
        \<and> ToHttpRequest (ce_crypto e) (ce_now e (cl_world c)) (cl_base_url c) creds
            (q\<lparr>q_user_agent := cl_user_agent c\<rparr>) = Some (hr, q')
        \<and> ce_send e w0 (call_of hr) = (x, w) \<and> http_execute (\<lambda>_. x) hr s = (h, s')
        \<and> (if resp_bool h then r = Inr (response_of h) \<and> c' = c\<lparr>cl_world := w\<rparr>
           else let err = exchange_error e q h (c\<lparr>cl_world := w\<rparr>) in
             r = Inl err \<and> c' = forget q err (c\<lparr>cl_world := w\<rparr>)))"

lemma execute_exchanged:
  assumes "execute e q s c = Some res"
  shows "\<exists>hr x h. exchanged e q s c res hr x h"
proof -
  obtain creds w0 where f: "fetch_creds e (cl_world c) = (creds, w0)" by fastforce
  with assms obtain hr q1 where t: "ToHttpRequest (ce_crypto e) (ce_now e (cl_world c)) (cl_base_url c) creds
       (q\<lparr>q_user_agent := cl_user_agent c\<rparr>) = Some (hr, q1)"
    by (auto simp: execute_def Let_def split: option.splits)
  obtain x w where x: "ce_send e w0 (call_of hr) = (x, w)" by fastforce
  obtain h s1 where h: "http_execute (\<lambda>_. x) hr s = (h, s1)" by fastforce
  from ToHttpRequest_names [OF t] have n: "q_bucket_name q1 = q_bucket_name q"
    "q_object_name q1 = q_object_name q" "q_method q1 = q_method q" by simp_all
  have "exchanged e q s c res hr x h"
    using assms n f t x h
    by (cases "resp_bool h") (auto simp: execute_def Let_def exchange_error_def forget_def exchanged_def)
  then show ?thesis by blast
qed

text \<open>One exchange: the client afterwards, whatever the answer.\<close>

lemma execute_cases:
  assumes "execute e q s c = Some (r, q', s', c')"
  shows "\<exists>w. c' = c\<lparr>cl_world := w\<rparr> \<or> c' = c\<lparr>cl_world := w, cl_region_map := smap_erase (q_bucket_name q) (cl_region_map c)\<rparr>"
    and "q_bucket_name q' = q_bucket_name q" and "r \<noteq> Inl []"
proof -
  from execute_exchanged [OF assms] obtain hr x h where ex: "exchanged e q s c (r, q', s', c') hr x h" by blast
  show "\<exists>w. c' = c\<lparr>cl_world := w\<rparr> \<or> c' = c\<lparr>cl_world := w, cl_region_map := smap_erase (q_bucket_name q) (cl_region_map c)\<rparr>"
    using ex by (auto simp: exchanged_def forget_def Let_def split: if_splits)
  show "q_bucket_name q' = q_bucket_name q" using ex ToHttpRequest_names(1) by (fastforce simp: exchanged_def)
  show "r \<noteq> Inl []" using ex by (auto simp: exchanged_def Let_def split: if_splits)
qed

lemma client_wf_erase: "client_wf c \<Longrightarrow> client_wf (c\<lparr>cl_world := w, cl_region_map := smap_erase b (cl_region_map c)\<rparr>)"
  by (auto simp: client_wf_def smap_erase_def smap_wf_def sorted_wrt_map intro: sorted_wrt_filter)

lemma forget_world [simp]: "cl_world (forget q err c) = cl_world c"
  by (simp add: forget_def)

lemma fetch_logged: "snd (snd (fetch_creds (logged e) wl)) = snd wl"
  by (cases wl) (simp add: fetch_creds_def logged_def split: option.splits prod.splits)

lemma send_logged: "snd (snd (ce_send (logged e) wl call)) = snd wl @ [call]"
  by (cases wl) (simp add: logged_def split: prod.splits)

lemma execute_frame:
  assumes "execute (logged e) q s c = Some (r, q', s', c')"
  shows "op_frame 1 c c'"
proof -
  from execute_exchanged [OF assms] obtain hr x h
    where ex: "exchanged (logged e) q s c (r, q', s', c') hr x h" by blast
  then obtain creds w0 w where w: "fetch_creds (logged e) (cl_world c) = (creds, w0)"
    "ce_send (logged e) w0 (call_of hr) = (x, w)" and "cl_world c' = w"
    by (auto simp: exchanged_def Let_def split: if_splits)
  then have "\<exists>call. snd (cl_world c') = snd (cl_world c) @ [call]"
    using fetch_logged [of e "cl_world c"] send_logged [of e w0 "call_of hr"] by auto
  then have "\<exists>calls. length calls \<le> 1 \<and> snd (cl_world c') = snd (cl_world c) @ calls"
    by (metis length_Cons list.size(3) One_nat_def order_refl)
  with execute_cases(1) [OF assms] show ?thesis
    by (auto simp: op_frame_def client_wf_erase) (auto simp: client_wf_def)
qed

lemma Execute_frame:
  assumes "Execute (logged e) q s c = Some (r, q', s', c')"
  shows "op_frame 2 c c'" "r \<noteq> Inl []"
proof -
  from assms obtain r1 q1 s1 c1 where x: "execute (logged e) q s c = Some (r1, q1, s1, c1)"
    and "(r, c') = (r1, c1) \<or> execute (logged e) q1 s1 c1 = Some (r, q', s', c')"
    unfolding Execute_def by (auto split: option.splits sum.splits if_splits)
  then have "op_frame (1 + 1) c c' \<and> r \<noteq> Inl []"
  proof (elim disjE)
    assume "(r, c') = (r1, c1)"
    then show ?thesis
      using op_frame_mono [OF execute_frame [OF x]] execute_cases(3) [OF x] by simp
  next
    assume x': "execute (logged e) q1 s1 c1 = Some (r, q', s', c')"
    show ?thesis
      using op_frame_trans [OF execute_frame [OF x] execute_frame [OF x']] execute_cases(3) [OF x'] by simp
  qed
  then show "op_frame 2 c c'" "r \<noteq> Inl []" by (simp_all add: numeral_2_eq_2)
qed

lemma framed_send [frame_intros]: "framed 2 (send_request (logged e) q)"
  by (auto simp: framed_def send_request_def dest: Execute_frame)

lemma location_value_nonempty [simp]: "location_value b v \<noteq> []"
  by (simp add: location_value_def)

lemma framed_fetch_region [frame_intros]: "framed 2 (fetch_region (logged e) bucket)"
  unfolding fetch_region_def Let_def by (intro frame_intros) (auto split: option.splits intro!: frame_intros)

lemma framed_GetRegion [frame_intros]: "framed 2 (GetRegion (logged e) bucket region)"
  unfolding GetRegion_def Let_def
  by (intro frame_intros) (auto split: option.splits intro!: frame_intros)

lemma framed_in_region [frame_intros]: "(\<And>x. framed 2 (k x)) \<Longrightarrow> framed 4 (in_region (logged e) a k)"
  using framed_and_then [OF framed_GetRegion, of 2 k] by (simp add: in_region_def)

text \<open>Calls with a data function.\<close>

lemma stream_call_frame:
  assumes "stream_call (logged e) pre q s c = Some (r, s', c')" "framed 2 pre"
  shows "op_frame 4 c c' \<and> r \<noteq> Inl []"
proof -
  from assms(1) obtain r1 c1 where pre: "pre c = Some (r1, c1)"
    by (auto simp: stream_call_def split: option.splits)
  have f: "op_frame 2 c c1" by (rule framedD [OF assms(2) pre])
  have "op_frame (2 + 2) c c' \<and> r \<noteq> Inl []"
  proof (cases r1)
    case (Inl err)
    with assms(1) pre framed_error [OF assms(2)] f show ?thesis
      by (auto simp: stream_call_def intro: op_frame_mono)
  next
    case (Inr region)
    with assms(1) pre obtain q' where "Execute (logged e) (q region) s c1 = Some (r, q', s', c')"
      by (auto simp: stream_call_def)
    with Execute_frame [OF this] op_frame_trans [OF f] show ?thesis by blast
  qed
  then show ?thesis by simp
qed

subsection \<open>The cache of regions\<close>

lemma known_region_iff: "known_region c b = Some r \<longleftrightarrow> map_of (cl_region_map c) b = Some r \<and> r \<noteq> []"
  by (auto simp: known_region_def split: option.splits)

lemma known_region_set [simp]:
  "client_wf c \<Longrightarrow> region \<noteq> [] \<Longrightarrow> known_region (set_region bucket region c) bucket = Some region"
  by (simp add: known_region_iff set_region_def smap_put_def smap_lookup_upd client_wf_def)

lemma known_region_erased [simp]: "known_region (c\<lparr>cl_region_map := smap_erase b m\<rparr>) b = None"
  by (simp add: known_region_def smap_lookup_erase)

lemma set_region_fields [simp]:
  "cl_base_url (set_region b r c) = cl_base_url c" "cl_user_agent (set_region b r c) = cl_user_agent c"
  "cl_world (set_region b r c) = cl_world c"
  by (simp_all add: set_region_def)

text \<open>What an exchange leaves of the client in any environment.\<close>

definition same_client :: "'w client \<Rightarrow> 'w client \<Rightarrow> bool" where
  "same_client c c' \<longleftrightarrow> (client_wf c \<longrightarrow> client_wf c') \<and> cl_base_url c' = cl_base_url c
     \<and> cl_user_agent c' = cl_user_agent c"

lemma execute_same:
  assumes "execute e q s c = Some (r, q', s', c')" shows "same_client c c'"
  using execute_cases(1) [OF assms] client_wf_erase by (auto simp: same_client_def) (auto simp: client_wf_def)

lemma Execute_same:
  assumes "Execute e q s c = Some (r, q', s', c')" shows "same_client c c'"
proof -
  from assms obtain r1 q1 s1 c1 where x: "execute e q s c = Some (r1, q1, s1, c1)"
    and "(r, c') = (r1, c1) \<or> execute e q1 s1 c1 = Some (r, q', s', c')"
    unfolding Execute_def by (auto split: option.splits sum.splits if_splits)
  then show ?thesis using execute_same [OF x] execute_same [of e q1 s1 c1] by (auto simp: same_client_def)
qed

lemma send_same: "send_request e q c = Some (r, c') \<Longrightarrow> same_client c c'"
  by (auto simp: send_request_def dest: Execute_same)

lemma and_then_Inr:
  "and_then m f c = Some (Inr x, c') \<longleftrightarrow> (\<exists>y c1. m c = Some (Inr y, c1) \<and> f y c1 = Some (Inr x, c'))"
  by (auto simp: and_then_def on_result_def fail_def split: option.splits sum.splits)

lemma check_Inr: "check err m c = Some (Inr x, c') \<longleftrightarrow> err = SUCCESS \<and> m c = Some (Inr x, c')"
  by (auto simp: check_def fail_def not_is_err_iff is_err_def SUCCESS_def)

lemma check_rejects: "is_err err \<Longrightarrow> check err m c = Some (Inl err, c)"
  by (simp add: check_def fail_def)

lemma fetch_region_Inr:
  assumes "client_wf c" "fetch_region e bucket c = Some (Inr v, c')"
  shows "v \<noteq> [] \<and> known_region c' bucket = Some v \<and> cl_base_url c' = cl_base_url c"
proof -
  from assms(2) obtain resp c1 doc where s: "send_request e (location_request bucket) c = Some (Inr resp, c1)"
    and "v = location_value (cl_base_url c1) (xtext [''LocationConstraint''] doc)" "c' = set_region bucket v c1"
    by (auto simp: fetch_region_def and_then_Inr with_client_def modify_def fail_def Let_def split: option.splits)
  with send_same [OF s] assms(1) show ?thesis by (auto simp: same_client_def)
qed

lemma GetRegion_cached:
  assumes "client_wf c" "GetRegion e bucket region c = Some (Inr v, c')"
  shows "v \<noteq> [] \<and> GetRegion e bucket region c' = Some (Inr v, c')"
proof (cases "region \<noteq> [] \<or> b_region (cl_base_url c) \<noteq> [] \<or> bucket = [] \<or> ce_fetch e = None")
  case True
  with assms(2) have "c' = c \<and> v \<noteq> []"
    by (auto simp: GetRegion_def with_client_def ret_def fail_def Let_def split: if_splits)
  with assms(2) show ?thesis by simp
next
  case False
  show ?thesis
  proof (cases "known_region c bucket")
    case (Some r)
    with False assms(2) have "c' = c \<and> v = r" by (auto simp: GetRegion_def with_client_def ret_def Let_def)
    with assms(2) Some show ?thesis by (simp add: known_region_iff)
  next
    case None
    with False assms(2) have "fetch_region e bucket c = Some (Inr v, c')"
      by (auto simp: GetRegion_def with_client_def Let_def)
    with fetch_region_Inr [OF assms(1)] have "v \<noteq> []" "known_region c' bucket = Some v"
      "cl_base_url c' = cl_base_url c" by blast+
    with False show ?thesis by (auto simp: GetRegion_def with_client_def ret_def)
  qed
qed

subsection \<open>The retry\<close>

text \<open>The HTTP library does not report a failure with the text of the retry marker.\<close>

definition plain_failures :: "'w client_env \<Rightarrow> bool" where
  "plain_failures e \<longleftrightarrow> (\<forall>w call. x_failure (fst (ce_send e w call)) \<noteq> Some ''RetryHead'')"

lemma receive_error:
  "receive st f cs resp s = (b, resp', s') \<Longrightarrow> resp_error resp' = resp_error resp"
  by (induction st f cs resp s rule: receive.induct) (auto split: if_splits prod.splits bool.splits)

lemma http_execute_error_text:
  assumes "http_execute (\<lambda>_. x) r s = (h, s')"
  shows "resp_error h = [] \<or> resp_error h = ''unable to create HTTP client for '' @ endpoint_of (rq_url r)
   \<or> x_failure x = Some (resp_error h)"
  using assms unfolding http_execute_def Let_def
  by (auto simp: response_empty_def split: option.splits prod.splits if_splits dest!: receive_error)

lemma colon_text: "a @ '': '' @ b \<noteq> ''RetryHead''"
proof
  assume "a @ '': '' @ b = ''RetryHead''"
  then have "CHR '':'' \<in> set ''RetryHead''" by (metis append_Cons in_set_conv_decomp)
  then show False by simp
qed

lemma GetErrorResponse_RetryHead:
  assumes "GetErrorResponse xml c h m bucket object = ''RetryHead''" "resp_error h \<noteq> ''RetryHead''"
  shows "m = kHead \<and> known_region c bucket \<noteq> None"
proof -
  have "HandleRedirectResponse c (status_code h) m (resp_headers h) bucket True = (code, message)
      \<Longrightarrow> code = ''RetryHead'' \<Longrightarrow> m = kHead \<and> known_region c bucket \<noteq> None" for code message
    by (auto simp: HandleRedirectResponse_def Let_def split: if_splits)
  then show ?thesis
    using assms colon_text
    by (auto simp: GetErrorResponse_def Response_ParseXML_def Let_def split: if_splits option.splits sum.splits prod.splits)
qed

text \<open>An exchange that asks for the retry was a \<open>HEAD\<close> on a bucket whose region was known, and the
  region is forgotten; so the second exchange does not ask again.\<close>

lemma execute_RetryHead:
  assumes "plain_failures e" "execute e q s c = Some (Inl ''RetryHead'', q', s', c')"
  shows "known_region c (q_bucket_name q) \<noteq> None" "known_region c' (q_bucket_name q) = None"
proof -
  from execute_exchanged [OF assms(2)] obtain hr x h
    where ex: "exchanged e q s c (Inl ''RetryHead'', q', s', c') hr x h" by blast
  then obtain w0 w where x: "ce_send e w0 (call_of hr) = (x, w)" "http_execute (\<lambda>_. x) hr s = (h, s')"
    and err: "exchange_error e q h (c\<lparr>cl_world := w\<rparr>) = ''RetryHead''"
      "c' = forget q ''RetryHead'' (c\<lparr>cl_world := w\<rparr>)"
    by (auto simp: exchanged_def Let_def split: if_splits)
  from x(1) assms(1) have "x_failure x \<noteq> Some ''RetryHead''" by (metis fst_conv plain_failures_def)
  with http_execute_error_text [OF x(2)] have "resp_error h \<noteq> ''RetryHead''" by auto
  with GetErrorResponse_RetryHead err(1) have "known_region (c\<lparr>cl_world := w\<rparr>) (q_bucket_name q) \<noteq> None"
    unfolding exchange_error_def by blast
  then show "known_region c (q_bucket_name q) \<noteq> None" by (simp add: known_region_def)
  show "known_region c' (q_bucket_name q) = None"
    using err(2) known_region_erased [where c = "c\<lparr>cl_world := w\<rparr>"] by (simp add: forget_def forgets_region_def)
qed

lemma Execute_not_RetryHead:
  assumes "plain_failures e" "Execute e q s c = Some (r, q', s', c')"
  shows "r \<noteq> Inl ''RetryHead''"
proof
  assume r: "r = Inl ''RetryHead''"
  with assms(2) obtain q1 s1 c1 where x: "execute e q s c = Some (Inl ''RetryHead'', q1, s1, c1)"
    and x': "execute e q1 s1 c1 = Some (Inl ''RetryHead'', q', s', c')"
    unfolding Execute_def by (auto split: option.splits sum.splits if_splits)
  from execute_RetryHead(2) [OF assms(1) x] execute_cases(2) [OF x]
  have "known_region c1 (q_bucket_name q1) = None" by simp
  with execute_RetryHead(1) [OF assms(1) x'] show False by simp
qed

text \<open>A bucket the server does not know loses its region.\<close>

lemma execute_NoSuchBucket:
  assumes "execute e q s c = Some (Inl err, q', s', c')" "Contains err ''NoSuchBucket''"
  shows "known_region c' (q_bucket_name q) = None"
proof -
  from execute_exchanged [OF assms(1)] obtain hr x h where "exchanged e q s c (Inl err, q', s', c') hr x h" by blast
  then obtain w where "c' = forget q err (c\<lparr>cl_world := w\<rparr>)" by (auto simp: exchanged_def Let_def split: if_splits)
  with assms(2) known_region_erased [where c = "c\<lparr>cl_world := w\<rparr>"] show ?thesis by (simp add: forget_def forgets_region_def)
qed

lemma Execute_NoSuchBucket:
  assumes "Execute e q s c = Some (Inl err, q', s', c')" "Contains err ''NoSuchBucket''"
  shows "known_region c' (q_bucket_name q) = None"
proof -
  from assms(1) obtain r1 q1 s1 c1 where x: "execute e q s c = Some (r1, q1, s1, c1)"
    and "(Inl err, c') = (r1, c1) \<or> execute e q1 s1 c1 = Some (Inl err, q', s', c')"
    unfolding Execute_def by (auto split: option.splits sum.splits if_splits)
  then show ?thesis
    using execute_NoSuchBucket [OF _ assms(2)] execute_cases(2) [OF x] by (metis prod.inject)
qed

lemma send_NoSuchBucket:
  "send_request e q c = Some (Inl err, c') \<Longrightarrow> Contains err ''NoSuchBucket'' \<Longrightarrow> known_region c' (q_bucket_name q) = None"
  by (auto simp: send_request_def dest: Execute_NoSuchBucket)

subsection \<open>The contract of a call\<close>

text \<open>What the callers of a method rely on: arguments that do not validate are answered with the
  validation's error and nothing else happens; a call sends at most four requests and keeps the
  client well-formed.\<close>

locale api_call =
  fixes validate :: "'args \<Rightarrow> error"
    and run :: "('w \<times> http_call list) client_env \<Rightarrow> 'args \<Rightarrow> ('b, 'w \<times> http_call list) op"
  assumes rejects: "is_err (validate a) \<Longrightarrow> run e a c = Some (Inl (validate a), c)"
    and run_framed: "framed 4 (run (logged env) a)"
begin

lemma success_valid: "run e a c = Some (Inr x, c') \<Longrightarrow> validate a = SUCCESS"
  using rejects [of a e c] by (auto simp: is_err_def SUCCESS_def)

lemma invalid_silent: "is_err (validate a) \<Longrightarrow> run e a c = Some (r, c') \<Longrightarrow> c' = c \<and> r = Inl (validate a)"
  using rejects [of a e c] by simp

lemma run_wf: "run (logged e) a c = Some (r, c') \<Longrightarrow> client_wf c \<Longrightarrow> client_wf c'"
  using framedD [OF run_framed] by (simp add: op_frame_def)

lemma run_requests:
  "run (logged e) a c = Some (r, c') \<Longrightarrow>
     \<exists>calls. length calls \<le> 4 \<and> snd (cl_world c') = snd (cl_world c) @ calls"
  using framedD [OF run_framed] by (simp add: op_frame_def)

lemma run_error: "run (logged e) a c = Some (Inl err, c') \<Longrightarrow> err \<noteq> []"
  using framed_error [OF run_framed] by blast

end

lemma send_logged_answer: "fst (ce_send (logged e) wl call) = fst (ce_send e (fst wl) call)"
  by (cases wl) (simp add: logged_def split: prod.splits)

lemma plain_failures_logged [simp]: "plain_failures (logged e) \<longleftrightarrow> plain_failures e"
  by (simp add: plain_failures_def send_logged_answer)

subsection \<open>A server that follows a script\<close>

text \<open>The world is the list of answers to come. Concrete runs of the client are computed with it: an
  answer does not depend on the request, so the signature need not be evaluated.\<close>

definition no_answer :: http_exchange where
  "no_answer = \<lparr>x_valid = True, x_status = 0, x_chunks = [], x_headers = [], x_failure = Some ''Connection''\<rparr>"

definition answer :: "int \<Rightarrow> string \<Rightarrow> http_exchange" where
  "answer status body = \<lparr>x_valid = True, x_status = status, x_chunks = [body],
     x_headers = [(''Content-Type'', ''application/xml'')], x_failure = None\<rparr>"

definition scripted :: "crypto \<Rightarrow> utc_time \<Rightarrow> credentials option \<Rightarrow> xml_reader \<Rightarrow> http_exchange list client_env" where
  "scripted cr now creds xml = \<lparr>ce_crypto = cr, ce_now = (\<lambda>_. now), ce_fetch = map_option (\<lambda>c w. (c, w)) creds,
     ce_send = (\<lambda>w call. case w of [] \<Rightarrow> (no_answer, []) | x # xs \<Rightarrow> (x, xs)), ce_xml = xml\<rparr>"

lemma scripted_simps [simp]:
  "ce_crypto (scripted cr now creds xml) = cr" "ce_xml (scripted cr now creds xml) = xml"
  "ce_now (scripted cr now creds xml) w = now" "ce_fetch (scripted cr now creds xml) = None \<longleftrightarrow> creds = None"
  "fetch_creds (scripted cr now creds xml) w = (creds, w)"
  "ce_send (scripted cr now creds xml) (x # xs) call = (x, xs)"
  by (simp_all add: scripted_def fetch_creds_def split: option.splits)

text \<open>An endpoint that is not Amazon's: every request for a bucket can be built.\<close>

definition plain_endpoint :: "base_url \<Rightarrow> bool" where
  "plain_endpoint b \<longleftrightarrow> \<not> is_err (b_err b) \<and> b_suffix b = []"

lemma ToHttpRequest_plain:
  assumes "plain_endpoint b" "q_bucket_name q \<noteq> [] \<or> q_object_name q = []"
  shows "\<exists>r q'. ToHttpRequest cr now b creds q = Some (r, q') \<and> rq_method r = q_method q \<and> rq_datafunc r = q_datafunc q"
  using assms
  by (auto simp: plain_endpoint_def ToHttpRequest_def BuildUrl_def BuildListBucketsUrl_def BuildHeaders_def Let_def
      split: prod.splits)

lemma execute_total:
  assumes "plain_endpoint (cl_base_url c)" "q_bucket_name q \<noteq> [] \<or> q_object_name q = []"
  shows "\<exists>r q' s' c'. execute e q s c = Some (r, q', s', c') \<and> q_object_name q' = q_object_name q"
proof -
  obtain creds w where f: "fetch_creds e (cl_world c) = (creds, w)" by fastforce
  obtain r q' where t: "ToHttpRequest (ce_crypto e) (ce_now e (cl_world c)) (cl_base_url c) creds
      (q\<lparr>q_user_agent := cl_user_agent c\<rparr>) = Some (r, q')"
    using ToHttpRequest_plain [OF assms(1), of "q\<lparr>q_user_agent := cl_user_agent c\<rparr>"] assms(2) by fastforce
  show ?thesis using ToHttpRequest_names(2) [OF t]
    by (auto simp: execute_def f t Let_def split: prod.splits)
qed

lemma send_total:
  assumes "plain_endpoint (cl_base_url c)" "q_bucket_name q \<noteq> [] \<or> q_object_name q = []"
  shows "\<exists>r c'. send_request e q c = Some (r, c')"
proof -
  obtain r1 q1 s1 c1 where x: "execute e q () c = Some (r1, q1, s1, c1)" "q_object_name q1 = q_object_name q"
    using execute_total [OF assms] by blast
  have "s1 = ()" by simp
  have "plain_endpoint (cl_base_url c1)" using execute_same [OF x(1)] assms(1) by (simp add: same_client_def)
  then obtain r2 q2 s2 c2 where y: "execute e q1 s1 c1 = Some (r2, q2, s2, c2)"
    using execute_total [of c1 q1 e s1] execute_cases(2) [OF x(1)] x(2) assms(2) by auto
  with x(1) \<open>s1 = ()\<close> show ?thesis by (cases r1) (auto simp: send_request_def Execute_def)
qed

text \<open>The response to an answer, for a request without a data function.\<close>

definition answered :: "int \<Rightarrow> string \<Rightarrow> http_response" where
  "answered status body = \<lparr>resp_error = [], status_code = status,
     resp_headers = add_headers [(''Content-Type'', ''application/xml'')] mm_empty, resp_body = body\<rparr>"

lemma execute_scripted:
  assumes "plain_endpoint (cl_base_url c)" "q_bucket_name q \<noteq> [] \<or> q_object_name q = []" "q_datafunc q = None"
    "cl_world c = answer status body # xs"
  shows "\<exists>q'. execute (scripted cr now creds xml) q s c =
    (let h = answered status body; c' = c\<lparr>cl_world := xs\<rparr> in
     if resp_bool h then Some (Inr (response_of h), q', s, c')
     else let err = exchange_error (scripted cr now creds xml) q h c' in Some (Inl err, q', s, forget q err c'))"
proof -
  obtain r q' where t: "ToHttpRequest cr now (cl_base_url c) creds (q\<lparr>q_user_agent := cl_user_agent c\<rparr>) = Some (r, q')"
    and r: "rq_datafunc r = None"
    using ToHttpRequest_plain [OF assms(1), of "q\<lparr>q_user_agent := cl_user_agent c\<rparr>" cr now creds] assms(2,3) by auto
  have h: "http_execute (\<lambda>_. answer status body) r s = (answered status body, s)"
    using r by (simp add: http_execute_def answer_def answered_def response_empty_def)
  show ?thesis
    using t h assms(4) ToHttpRequest_names [OF t]
    by (auto simp: execute_def Let_def exchange_error_def forget_def intro!: exI [of _ q'])
qed

lemma answered_bool: "resp_bool (answered status body) \<longleftrightarrow> 200 \<le> status \<and> status \<le> 299"
  by (simp add: answered_def resp_bool_def)

lemma send_ok:
  assumes "plain_endpoint (cl_base_url c)" "q_bucket_name q \<noteq> [] \<or> q_object_name q = []" "q_datafunc q = None"
    "cl_world c = answer status body # xs" "200 \<le> status" "status \<le> 299"
  shows "send_request (scripted cr now creds xml) q c = Some (Inr (response_of (answered status body)), c\<lparr>cl_world := xs\<rparr>)"
  using execute_scripted [OF assms(1-4), of cr now creds xml "()"] assms(5,6)
  by (auto simp: send_request_def Execute_def answered_bool Let_def)

lemma send_fails:
  fixes q :: "unit s3_request" and c :: "http_exchange list client"
  assumes "plain_endpoint (cl_base_url c)" "q_bucket_name q \<noteq> [] \<or> q_object_name q = []" "q_datafunc q = None"
    "cl_world c = answer status body # xs" "299 < status"
    "err = exchange_error (scripted cr now creds xml) q (answered status body) (c\<lparr>cl_world := xs\<rparr>)" "err \<noteq> ''RetryHead''"
  shows "send_request (scripted cr now creds xml) q c = Some (Inl err, forget q err (c\<lparr>cl_world := xs\<rparr>))"
  using execute_scripted [OF assms(1-4), of cr now creds xml "()"] assms(5-7)
  by (auto simp: send_request_def Execute_def answered_bool Let_def)

lemma rs_data_answered [simp]: "rs_data (response_of (answered status body)) = body"
  by (simp add: response_of_def answered_def)

end
