(* ===== verification/BucketApi.thy ===== *)
theory BucketApi
  imports BaseClient Notification
begin

section \<open>Calls on buckets (src/baseclient.cc)\<close>

text \<open>
  One definition per method of \<open>BaseClient\<close> about a bucket or its settings. \<open>tz\<close> is the time zone of
  \<open>crypto\<close>. A \<open>Response\<close> that the method only wraps is the response.
\<close>

definition BucketExists :: "'w client_env \<Rightarrow> bucket_args \<Rightarrow> (bool, 'w) op" where
  "BucketExists e a = check (BucketArgs_Validate a)
     (on_result (GetRegion e (a_bucket a) (a_region a))
        (\<lambda>err. if Contains err ''NoSuchBucket'' then ret False else fail err)
        (\<lambda>region. and_then (send_request e (bucket_request kHead region a)) (\<lambda>_. ret True)))"

definition make_bucket_body :: "string \<Rightarrow> string" where
  "make_bucket_body region = xtag ''CreateBucketConfiguration'' (xtag ''LocationConstraint'' region)"

definition MakeBucket :: "'w client_env \<Rightarrow> make_bucket_args \<Rightarrow> (response, 'w) op" where
  "MakeBucket e a = check (MakeBucketArgs_Validate a) (with_client (\<lambda>c.
     let region = a_region a; base_region = b_region (cl_base_url c) in
     if base_region \<noteq> [] \<and> region \<noteq> [] \<and> base_region \<noteq> region then
       fail (''region must be '' @ base_region @ '', but passed '' @ region)
     else
       let region = (if region = [] then base_region else region);
           region = (if region = [] then ''us-east-1'' else region);
           q = bucket_request kPut region a;
           q = (if a_object_lock a then with_header ''x-amz-bucket-object-lock-enabled'' ''true'' q else q);
           q = (if region \<noteq> ''us-east-1'' then q\<lparr>q_body := make_bucket_body region\<rparr> else q)
       in and_then (send_request e q) (modify (set_region (a_bucket a) region))))"

definition RemoveBucket :: "'w client_env \<Rightarrow> bucket_args \<Rightarrow> (response, 'w) op" where
  "RemoveBucket e a = check (BucketArgs_Validate a)
     (in_region e a (\<lambda>region. send_request e (bucket_request kDelete region a)))"

definition ListBuckets :: "'w client_env \<Rightarrow> base_args \<Rightarrow> (bucket list, 'w) op" where
  "ListBuckets e a = with_client (\<lambda>c.
     and_then (send_request e (Request_new kGet (b_region (cl_base_url c)) (a_extra_headers a) (a_extra_query_params a)))
       (\<lambda>r. lift_outcome (ListBucketsResponse_ParseXML (timezone (ce_crypto e)) (ce_xml e) (rs_data r))))"

subsection \<open>Settings that are read\<close>

text \<open>\<open>GET\<close> with one empty query parameter.\<close>

definition get_setting :: "'w client_env \<Rightarrow> string \<Rightarrow> bucket_args \<Rightarrow> (response, 'w) op" where
  "get_setting e name a = check (BucketArgs_Validate a)
     (in_region e a (\<lambda>region. send_request e (with_param name [] (bucket_request kGet region a))))"

definition GetBucketEncryption :: "'w client_env \<Rightarrow> bucket_args \<Rightarrow> (sse_config, 'w) op" where
  "GetBucketEncryption e a = and_then (get_setting e ''encryption'' a)
     (\<lambda>r. lift_result (GetBucketEncryptionResponse_ParseXML (ce_xml e) (rs_data r)))"

definition GetBucketLifecycle :: "'w client_env \<Rightarrow> bucket_args \<Rightarrow> (lifecycle_rule list, 'w) op" where
  "GetBucketLifecycle e a = check (BucketArgs_Validate a)
     (in_region e a (\<lambda>region.
        on_result (send_request e (with_param ''lifecycle'' [] (bucket_request kGet region a)))
          (\<lambda>err. if Contains err ''NoSuchLifecycleConfiguration'' then ret [] else fail err)
          (\<lambda>r. lift_outcome (GetBucketLifecycleResponse_ParseXML (timezone (ce_crypto e)) (ce_xml e) (rs_data r)))))"

definition GetBucketNotification :: "'w client_env \<Rightarrow> bucket_args \<Rightarrow> (notification_config, 'w) op" where
  "GetBucketNotification e a = and_then (get_setting e ''notification'' a)
     (\<lambda>r. lift_result (GetBucketNotificationResponse_ParseXML (ce_xml e) (rs_data r)))"

definition GetBucketPolicy :: "'w client_env \<Rightarrow> bucket_args \<Rightarrow> (string, 'w) op" where
  "GetBucketPolicy e a = and_then (get_setting e ''policy'' a) (\<lambda>r. ret (rs_data r))"

definition GetBucketReplication :: "'w client_env \<Rightarrow> bucket_args \<Rightarrow> (replication_config, 'w) op" where
  "GetBucketReplication e a = and_then (get_setting e ''replication'' a)
     (\<lambda>r. lift_outcome (GetBucketReplicationResponse_ParseXML (ce_xml e) (rs_data r)))"

definition GetBucketTags :: "'w client_env \<Rightarrow> bucket_args \<Rightarrow> ((string \<times> string) list, 'w) op" where
  "GetBucketTags e a = and_then (get_setting e ''tagging'' a)
     (\<lambda>r. lift_result (GetBucketTagsResponse_ParseXML (ce_xml e) (rs_data r)))"

definition GetBucketVersioning :: "'w client_env \<Rightarrow> bucket_args \<Rightarrow> (bool option \<times> bool option, 'w) op" where
  "GetBucketVersioning e a = and_then (get_setting e ''versioning'' a)
     (\<lambda>r. lift_result (parse_versioning (ce_xml e) (rs_data r)))"

definition GetObjectLockConfig :: "'w client_env \<Rightarrow> bucket_args \<Rightarrow> (object_lock_config, 'w) op" where
  "GetObjectLockConfig e a = and_then (get_setting e ''object-lock'' a)
     (\<lambda>r. lift_outcome (parse_object_lock (ce_xml e) (rs_data r)))"

subsection \<open>Settings that are removed\<close>

definition delete_setting :: "'w client_env \<Rightarrow> string \<Rightarrow> bucket_args \<Rightarrow> string \<Rightarrow> (response, 'w) op" where
  "delete_setting e name a region = send_request e (with_param name [] (bucket_request kDelete region a))"

definition DeleteBucketEncryption :: "'w client_env \<Rightarrow> bucket_args \<Rightarrow> (response, 'w) op" where
  "DeleteBucketEncryption e a = check (BucketArgs_Validate a)
     (in_region e a (\<lambda>region. or_else (delete_setting e ''encryption'' a region) (\<lambda>_. ret Response_new)))"

definition DeleteBucketLifecycle :: "'w client_env \<Rightarrow> bucket_args \<Rightarrow> (response, 'w) op" where
  "DeleteBucketLifecycle e a = check (BucketArgs_Validate a) (in_region e a (delete_setting e ''lifecycle'' a))"

definition DeleteBucketPolicy :: "'w client_env \<Rightarrow> bucket_args \<Rightarrow> (response, 'w) op" where
  "DeleteBucketPolicy e a = check (BucketArgs_Validate a) (in_region e a (delete_setting e ''policy'' a))"

definition DeleteBucketReplication :: "'w client_env \<Rightarrow> bucket_args \<Rightarrow> (response, 'w) op" where
  "DeleteBucketReplication e a = check (BucketArgs_Validate a)
     (in_region e a (\<lambda>region. or_else (delete_setting e ''replication'' a region)
        (\<lambda>err. if Contains err ''ReplicationConfigurationNotFoundError'' then ret Response_new else fail err)))"

definition DeleteBucketTags :: "'w client_env \<Rightarrow> bucket_args \<Rightarrow> (response, 'w) op" where
  "DeleteBucketTags e a = check (BucketArgs_Validate a) (in_region e a (delete_setting e ''tagging'' a))"

definition DeleteObjectLockConfig :: "'w client_env \<Rightarrow> bucket_args \<Rightarrow> (response, 'w) op" where
  "DeleteObjectLockConfig e a = check (BucketArgs_Validate a) (in_region e a (delete_setting e ''object-lock'' a))"

subsection \<open>Settings that are written\<close>

definition put_setting :: "'w client_env \<Rightarrow> string \<Rightarrow> 'b bucket_args_scheme \<Rightarrow> string \<Rightarrow> string
    \<Rightarrow> (response, 'w) op" where
  "put_setting e name a body region =
     send_request e (with_md5_body (ce_crypto e) body (with_param name [] (bucket_request kPut region a)))"

definition encryption_body :: "sse_config \<Rightarrow> string" where
  "encryption_body cfg =
     xtag ''ServerSideEncryptionConfiguration'' (xtag ''Rule'' (xtag ''ApplyServerSideEncryptionByDefault''
       (xtag ''SSEAlgorithm'' (sse_algorithm cfg) @ xtag_str ''KMSMasterKeyID'' (kms_master_key_id cfg))))"

definition SetBucketEncryption :: "'w client_env \<Rightarrow> set_bucket_encryption_args \<Rightarrow> (response, 'w) op" where
  "SetBucketEncryption e a = check (SetBucketEncryptionArgs_Validate a)
     (in_region e a (put_setting e ''encryption'' a (encryption_body (a_sse_config a))))"

definition SetBucketLifecycle :: "'w client_env \<Rightarrow> set_bucket_lifecycle_args \<Rightarrow> (response, 'w) op" where
  "SetBucketLifecycle e a = check (BucketArgs_Validate a)
     (in_region e a (put_setting e ''lifecycle'' a
        (LifecycleConfig_ToXML (timezone (ce_crypto e)) (a_lifecycle_rules a))))"

definition SetBucketNotification :: "'w client_env \<Rightarrow> set_bucket_notification_args \<Rightarrow> (response, 'w) op" where
  "SetBucketNotification e a = check (BucketArgs_Validate a)
     (in_region e a (put_setting e ''notification'' a (NotificationConfig_ToXML (a_notification_config a))))"

definition DeleteBucketNotification :: "'w client_env \<Rightarrow> bucket_args \<Rightarrow> (response, 'w) op" where
  "DeleteBucketNotification e a = check (BucketArgs_Validate a)
     (SetBucketNotification e
        \<lparr>a_extra_headers = a_extra_headers a, a_extra_query_params = a_extra_query_params a,
         a_bucket = a_bucket a, a_region = a_region a, a_notification_config = notification_config_empty\<rparr>)"

definition SetBucketPolicy :: "'w client_env \<Rightarrow> set_bucket_policy_args \<Rightarrow> (response, 'w) op" where
  "SetBucketPolicy e a = check (SetBucketPolicyArgs_Validate a)
     (in_region e a (put_setting e ''policy'' a (a_policy a)))"

definition SetBucketReplication :: "'w client_env \<Rightarrow> set_bucket_replication_args \<Rightarrow> (response, 'w) op" where
  "SetBucketReplication e a = check (BucketArgs_Validate a)
     (in_region e a (put_setting e ''replication'' a (ReplicationConfig_ToXML (a_replication_config a))))"

definition SetBucketTags :: "'w client_env \<Rightarrow> set_bucket_tags_args \<Rightarrow> (response, 'w) op" where
  "SetBucketTags e a = check (SetBucketTagsArgs_Validate a)
     (in_region e a (put_setting e ''tagging'' a (tagging_body (a_bucket_tags a))))"

definition versioning_body :: "bool option \<Rightarrow> bool option \<Rightarrow> string" where
  "versioning_body status mfa_delete =
     xtag ''VersioningConfiguration''
       (opt_xml (\<lambda>b. xtag ''Status'' (if b then ''Enabled'' else ''Suspended'')) status
        @ opt_xml (\<lambda>b. xtag ''MFADelete'' (if b then ''Enabled'' else ''Disabled'')) mfa_delete)"

definition SetBucketVersioning :: "'w client_env \<Rightarrow> set_bucket_versioning_args \<Rightarrow> (response, 'w) op" where
  "SetBucketVersioning e a = check (SetBucketVersioningArgs_Validate a)
     (in_region e a (put_setting e ''versioning'' a (versioning_body (a_status a) (a_mfa_delete a))))"

definition object_lock_body :: "object_lock_config \<Rightarrow> string" where
  "object_lock_body cfg =
     xtag ''ObjectLockConfiguration''
       (xtag ''ObjectLockEnabled'' ''Enabled''
        @ opt_xml (\<lambda>m. xtag ''Rule'' (xtag ''DefaultRetention''
            (xtag ''Mode'' m @ xtag_int ''Days'' (olc_retention_duration_days cfg)
             @ xtag_int ''Years'' (olc_retention_duration_years cfg))))
           (if IsRetentionModeValid (olc_retention_mode cfg)
            then RetentionModeToString (olc_retention_mode cfg) else None))"

definition SetObjectLockConfig :: "'w client_env \<Rightarrow> set_object_lock_config_args \<Rightarrow> (response, 'w) op" where
  "SetObjectLockConfig e a = check (SetObjectLockConfigArgs_Validate a)
     (in_region e a (put_setting e ''object-lock'' a (object_lock_body (a_lock_config a))))"

subsection \<open>Listings and events\<close>

definition list_objects :: "'w client_env \<Rightarrow> bool \<Rightarrow> unit s3_request \<Rightarrow> (list_objects_response, 'w) op" where
  "list_objects e version q = and_then (send_request e q)
     (\<lambda>r. lift_outcome (ListObjectsResponse_ParseXML (timezone (ce_crypto e)) (ce_xml e) (rs_data r) version))"

definition with_nonempty :: "string \<Rightarrow> string \<Rightarrow> 's s3_request \<Rightarrow> 's s3_request" where
  "with_nonempty k v q = (if v \<noteq> [] then with_param k v q else q)"

definition common_params :: "'b list_objects_common_args_scheme \<Rightarrow> 's s3_request \<Rightarrow> 's s3_request" where
  "common_params a = with_params
     (GetCommonListObjectsQueryParams (c_delimiter a) (c_encoding_type a) (c_max_keys a) (c_prefix a))"

definition ListObjectsV1 :: "'w client_env \<Rightarrow> list_objects_v1_args \<Rightarrow> (list_objects_response, 'w) op" where
  "ListObjectsV1 e a = check (BucketArgs_Validate a)
     (in_region e a (\<lambda>region.
        list_objects e False (with_nonempty ''marker'' (v1_marker a)
          (common_params a (bucket_request kGet region a)))))"

definition ListObjectsV2 :: "'w client_env \<Rightarrow> list_objects_v2_args \<Rightarrow> (list_objects_response, 'w) op" where
  "ListObjectsV2 e a = check (BucketArgs_Validate a)
     (in_region e a (\<lambda>region.
        let q = with_param ''list-type'' ''2'' (bucket_request kGet region a);
            q = common_params a q;
            q = with_nonempty ''continuation-token'' (v2_continuation_token a) q;
            q = (if v2_fetch_owner a then with_param ''fetch-owner'' ''true'' q else q);
            q = with_nonempty ''start-after'' (v2_start_after a) q;
            q = (if v2_include_user_metadata a then with_param ''metadata'' ''true'' q else q)
        in list_objects e False q))"

definition ListObjectVersions :: "'w client_env \<Rightarrow> list_object_versions_args \<Rightarrow> (list_objects_response, 'w) op" where
  "ListObjectVersions e a = check (BucketArgs_Validate a)
     (in_region e a (\<lambda>region.
        let q = with_param ''versions'' [] (bucket_request kGet region a);
            q = common_params a q;
            q = with_nonempty ''key-marker'' (lv_key_marker a) q;
            q = with_nonempty ''version-id-marker'' (lv_version_id_marker a) q
        in list_objects e True q))"

definition listen_request :: "'s listener \<Rightarrow> listen_bucket_notification_args \<Rightarrow> string
    \<Rightarrow> (string \<times> 's) option s3_request" where
  "listen_request l a region =
     (let q = with_param ''prefix'' (a_prefix a) (bucket_request kGet region a);
          q = with_param ''suffix'' (a_suffix a) q;
          events = (if a_events a \<noteq> [] then a_events a
                    else [''s3:ObjectCreated:*'', ''s3:ObjectRemoved:*'', ''s3:ObjectAccessed:*'']);
          q = foldl (\<lambda>q event. with_param ''events'' event q) q events
      in q\<lparr>q_datafunc := Some (listen_datafunc l)\<rparr>)"

text \<open>An exception of the data function ends the call.\<close>

definition ListenBucketNotification :: "'w client_env \<Rightarrow> 's listener \<Rightarrow> listen_bucket_notification_args \<Rightarrow> 's
    \<Rightarrow> 'w client \<Rightarrow> ((error + response) \<times> 's \<times> 'w client) option" where
  "ListenBucketNotification e l a s c =
     (case stream_call e
        (check (ListenBucketNotificationArgs_Validate a)
          (with_client (\<lambda>c. if b_suffix (cl_base_url c) \<noteq> [] then
              fail ''ListenBucketNotification API is not supported in Amazon S3''
            else GetRegion e (a_bucket a) (a_region a))))
        (listen_request l a) (Some ([], s)) c of
        Some (r, Some (_, s), c) \<Rightarrow> Some (r, s, c)
      | _ \<Rightarrow> None)"

subsection \<open>Every call is framed\<close>

lemma framed_delete_setting [frame_intros]: "framed 2 (delete_setting (logged e) name a region)"
  unfolding delete_setting_def by (intro frame_intros)

lemma framed_put_setting [frame_intros]: "framed 2 (put_setting (logged e) name a body region)"
  unfolding put_setting_def by (intro frame_intros)

lemma framed_list_objects [frame_intros]: "framed 2 (list_objects (logged e) v q)"
  unfolding list_objects_def by (intro frame_intros; simp)

lemma framed_get_setting [frame_intros]: "framed 4 (get_setting (logged e) name a)"
  unfolding get_setting_def by (intro frame_intros)

lemma framed_BucketExists [frame_intros]: "framed 4 (BucketExists (logged e) a)"
  unfolding BucketExists_def
  by (intro frame_intros framed_on_result [of 2 _ 2, simplified]) (auto intro: frame_intros)

lemma framed_MakeBucket [frame_intros]: "framed 2 (MakeBucket (logged e) a)"
  unfolding MakeBucket_def Let_def by (intro frame_intros; auto intro!: frame_intros)

lemma framed_ListBuckets [frame_intros]: "framed 2 (ListBuckets (logged e) a)"
  unfolding ListBuckets_def by (intro frame_intros; simp)

lemma framed_GetBucketLifecycle [frame_intros]: "framed 4 (GetBucketLifecycle (logged e) a)"
  unfolding GetBucketLifecycle_def by (intro frame_intros; auto intro!: frame_intros)

lemma framed_RemoveBucket [frame_intros]: "framed 4 (RemoveBucket (logged e) a)"
  unfolding RemoveBucket_def by (intro frame_intros; auto intro!: frame_intros)

lemma framed_GetBucketEncryption [frame_intros]: "framed 4 (GetBucketEncryption (logged e) a)"
  unfolding GetBucketEncryption_def by (intro frame_intros; auto intro!: frame_intros)

lemma framed_GetBucketNotification [frame_intros]: "framed 4 (GetBucketNotification (logged e) a)"
  unfolding GetBucketNotification_def by (intro frame_intros; auto intro!: frame_intros)

lemma framed_GetBucketPolicy [frame_intros]: "framed 4 (GetBucketPolicy (logged e) a)"
  unfolding GetBucketPolicy_def by (intro frame_intros; auto intro!: frame_intros)

lemma framed_GetBucketReplication [frame_intros]: "framed 4 (GetBucketReplication (logged e) a)"
  unfolding GetBucketReplication_def by (intro frame_intros; auto intro!: frame_intros)

lemma framed_GetBucketTags [frame_intros]: "framed 4 (GetBucketTags (logged e) a)"
  unfolding GetBucketTags_def by (intro frame_intros; auto intro!: frame_intros)

lemma framed_GetBucketVersioning [frame_intros]: "framed 4 (GetBucketVersioning (logged e) a)"
  unfolding GetBucketVersioning_def by (intro frame_intros; auto intro!: frame_intros)

lemma framed_GetObjectLockConfig [frame_intros]: "framed 4 (GetObjectLockConfig (logged e) a)"
  unfolding GetObjectLockConfig_def by (intro frame_intros; auto intro!: frame_intros)

lemma framed_DeleteBucketEncryption [frame_intros]: "framed 4 (DeleteBucketEncryption (logged e) a)"
  unfolding DeleteBucketEncryption_def by (intro frame_intros; auto intro!: frame_intros)

lemma framed_DeleteBucketLifecycle [frame_intros]: "framed 4 (DeleteBucketLifecycle (logged e) a)"
  unfolding DeleteBucketLifecycle_def by (intro frame_intros; auto intro!: frame_intros)

lemma framed_DeleteBucketPolicy [frame_intros]: "framed 4 (DeleteBucketPolicy (logged e) a)"
  unfolding DeleteBucketPolicy_def by (intro frame_intros; auto intro!: frame_intros)

lemma framed_DeleteBucketReplication [frame_intros]: "framed 4 (DeleteBucketReplication (logged e) a)"
  unfolding DeleteBucketReplication_def by (intro frame_intros; auto intro!: frame_intros)

lemma framed_DeleteBucketTags [frame_intros]: "framed 4 (DeleteBucketTags (logged e) a)"
  unfolding DeleteBucketTags_def by (intro frame_intros; auto intro!: frame_intros)

lemma framed_DeleteObjectLockConfig [frame_intros]: "framed 4 (DeleteObjectLockConfig (logged e) a)"
  unfolding DeleteObjectLockConfig_def by (intro frame_intros; auto intro!: frame_intros)

lemma framed_SetBucketEncryption [frame_intros]: "framed 4 (SetBucketEncryption (logged e) a)"
  unfolding SetBucketEncryption_def by (intro frame_intros; auto intro!: frame_intros)

lemma framed_SetBucketLifecycle [frame_intros]: "framed 4 (SetBucketLifecycle (logged e) a)"
  unfolding SetBucketLifecycle_def by (intro frame_intros; auto intro!: frame_intros)

lemma framed_SetBucketNotification [frame_intros]: "framed 4 (SetBucketNotification (logged e) a)"
  unfolding SetBucketNotification_def by (intro frame_intros; auto intro!: frame_intros)

lemma framed_SetBucketPolicy [frame_intros]: "framed 4 (SetBucketPolicy (logged e) a)"
  unfolding SetBucketPolicy_def by (intro frame_intros; auto intro!: frame_intros)

lemma framed_SetBucketReplication [frame_intros]: "framed 4 (SetBucketReplication (logged e) a)"
  unfolding SetBucketReplication_def by (intro frame_intros; auto intro!: frame_intros)

lemma framed_SetBucketTags [frame_intros]: "framed 4 (SetBucketTags (logged e) a)"
  unfolding SetBucketTags_def by (intro frame_intros; auto intro!: frame_intros)

lemma framed_SetBucketVersioning [frame_intros]: "framed 4 (SetBucketVersioning (logged e) a)"
  unfolding SetBucketVersioning_def by (intro frame_intros; auto intro!: frame_intros)

lemma framed_SetObjectLockConfig [frame_intros]: "framed 4 (SetObjectLockConfig (logged e) a)"
  unfolding SetObjectLockConfig_def by (intro frame_intros; auto intro!: frame_intros)

lemma framed_ListObjectsV1 [frame_intros]: "framed 4 (ListObjectsV1 (logged e) a)"
  unfolding ListObjectsV1_def by (intro frame_intros; auto intro!: frame_intros)

lemma framed_ListObjectsV2 [frame_intros]: "framed 4 (ListObjectsV2 (logged e) a)"
  unfolding ListObjectsV2_def Let_def by (intro frame_intros; auto intro!: frame_intros)

lemma framed_ListObjectVersions [frame_intros]: "framed 4 (ListObjectVersions (logged e) a)"
  unfolding ListObjectVersions_def Let_def by (intro frame_intros; auto intro!: frame_intros)

lemma framed_DeleteBucketNotification [frame_intros]: "framed 4 (DeleteBucketNotification (logged e) a)"
  unfolding DeleteBucketNotification_def by (intro frame_intros)

lemma ListenBucketNotification_frame:
  "ListenBucketNotification (logged e) l a s c = Some (r, s', c') \<Longrightarrow> op_frame 4 c c' \<and> r \<noteq> Inl []"
  unfolding ListenBucketNotification_def
  by (auto dest!: stream_call_frame intro!: frame_intros split: option.splits prod.splits)

subsection \<open>The calls meet the contract\<close>

interpretation bucket_exists: api_call BucketArgs_Validate BucketExists
  by (unfold_locales, simp add: BucketExists_def check_rejects, rule framed_BucketExists)

interpretation remove_bucket: api_call BucketArgs_Validate RemoveBucket
  by (unfold_locales, simp add: RemoveBucket_def check_rejects, rule framed_RemoveBucket)

interpretation set_bucket_tags: api_call SetBucketTagsArgs_Validate SetBucketTags
  by (unfold_locales, simp add: SetBucketTags_def check_rejects, rule framed_SetBucketTags)

interpretation set_bucket_versioning: api_call SetBucketVersioningArgs_Validate SetBucketVersioning
  by (unfold_locales, simp add: SetBucketVersioning_def check_rejects, rule framed_SetBucketVersioning)

interpretation set_object_lock_config: api_call SetObjectLockConfigArgs_Validate SetObjectLockConfig
  by (unfold_locales, simp add: SetObjectLockConfig_def check_rejects, rule framed_SetObjectLockConfig)

interpretation list_objects_v1: api_call BucketArgs_Validate ListObjectsV1
  by (unfold_locales, simp add: ListObjectsV1_def check_rejects, rule framed_ListObjectsV1)

interpretation list_objects_v2: api_call BucketArgs_Validate ListObjectsV2
  by (unfold_locales, simp add: ListObjectsV2_def check_rejects, rule framed_ListObjectsV2)

interpretation list_object_versions: api_call BucketArgs_Validate ListObjectVersions
  by (unfold_locales, simp add: ListObjectVersions_def check_rejects, rule framed_ListObjectVersions)

subsection \<open>Regions of new and of missing buckets\<close>

definition made_region :: "'w client \<Rightarrow> make_bucket_args \<Rightarrow> string" where
  "made_region c a = (if a_region a \<noteq> [] then a_region a
     else if b_region (cl_base_url c) \<noteq> [] then b_region (cl_base_url c) else ''us-east-1'')"

lemma CheckBucketName_empty: "CheckBucketName [] strict \<noteq> SUCCESS"
  by (simp add: CheckBucketName_def CheckNonEmptyString_def Trim_def Let_def)

lemma MakeBucket_Inr:
  assumes "MakeBucket e a c = Some (Inr r, c')"
  shows "a_bucket a \<noteq> []" "b_region (cl_base_url c) \<noteq> [] \<Longrightarrow> made_region c a = b_region (cl_base_url c)"
    "\<exists>q c1. send_request e q c = Some (Inr r, c1) \<and> c' = set_region (a_bucket a) (made_region c a) c1"
  using assms CheckBucketName_empty [of True]
  by (auto simp: MakeBucket_def check_Inr and_then_Inr with_client_def modify_def fail_def made_region_def
      MakeBucketArgs_Validate_def Let_def split: if_splits)

text \<open>The region a bucket was made in is the one later calls use, without asking the server.\<close>

lemma MakeBucket_GetRegion:
  assumes "client_wf c" "MakeBucket e a c = Some (Inr r, c')" "ce_fetch e \<noteq> None"
  shows "GetRegion e (a_bucket a) [] c' = Some (Inr (made_region c a), c')"
proof -
  obtain q c1 where s: "send_request e q c = Some (Inr r, c1)" and c': "c' = set_region (a_bucket a) (made_region c a) c1"
    using MakeBucket_Inr(3) [OF assms(2)] by blast
  have same: "client_wf c1" "cl_base_url c1 = cl_base_url c"
    using send_same [OF s] assms(1) by (simp_all add: same_client_def)
  have ne: "made_region c a \<noteq> []" by (simp add: made_region_def)
  then show ?thesis
    using same MakeBucket_Inr(1,2) [OF assms(2)] assms(3)
    by (auto simp: GetRegion_def with_client_def ret_def c' Let_def)
qed

text \<open>Once the region is known, \<open>BucketExists\<close> never answers that there is no bucket: a failed \<open>HEAD\<close> is
  an error, whatever its status.\<close>

lemma BucketExists_True:
  assumes "BucketExists e a c = Some (Inr b, c')" "GetRegion e (a_bucket a) (a_region a) c = Some (Inr region, c1)"
  shows "b"
  using assms by (auto simp: BucketExists_def check_Inr on_result_def and_then_Inr ret_def)

text \<open>A call on a bucket the server does not know makes the client forget the bucket's region.\<close>

lemma RemoveBucket_forgets:
  assumes "RemoveBucket e a c = Some (Inl err, c')" "GetRegion e (a_bucket a) (a_region a) c = Some (Inr region, c1)"
    "Contains err ''NoSuchBucket''" "BucketArgs_Validate a = SUCCESS"
  shows "known_region c' (a_bucket a) = None"
proof -
  have "send_request e (bucket_request kDelete region a) c1 = Some (Inl err, c')"
    using assms(1,2,4)
    by (auto simp: RemoveBucket_def check_def in_region_def and_then_def on_result_def fail_def
        split: option.splits sum.splits)
  from send_NoSuchBucket [OF this assms(3)] show ?thesis by (simp add: bucket_request_def)
qed

end
