(* ===== verification/ObjectApi.thy ===== *)
theory ObjectApi
  imports BaseClient PostPolicy Select
begin

section \<open>Calls on objects (src/baseclient.cc)\<close>

text \<open>
  One definition per method of \<open>BaseClient\<close> about an object. The RDMA paths, which are compiled only
  with \<open>MINIO_CPP_RDMA\<close>, are left out, so a \<open>PutObject\<close> is one HTTP request.
\<close>

subsection \<open>Reading\<close>

definition get_object_request :: "int \<Rightarrow> 's get_object_args \<Rightarrow> string \<Rightarrow> 's s3_request" where
  "get_object_request tz a region =
     with_headers (ObjectConditionalReadArgs_Headers tz a)
       ((version_request kGet region a)\<lparr>q_datafunc := a_datafunc a\<rparr>)"

definition GetObject :: "'w client_env \<Rightarrow> 's get_object_args \<Rightarrow> 's \<Rightarrow> 'w client
    \<Rightarrow> ((error + response) \<times> 's \<times> 'w client) option" where
  "GetObject e a =
     stream_call e
       (check (GetObjectArgs_Validate a) (check_ssec (a_ssec a) (GetRegion e (a_bucket a) (a_region a))))
       (get_object_request (timezone (ce_crypto e)) a)"

record stat_object_response =
  so_base :: response
  so_bucket_name :: string
  so_object_name :: string
  so_version_id :: string
  so_etag :: string
  so_size :: u64
  so_last_modified :: utc_time
  so_retention_mode :: retention_mode
  so_retain_until_date :: utc_time
  so_legal_hold :: "legal_hold option"
  so_delete_marker :: bool
  so_user_metadata :: multimap

text \<open>\<open>std::stoll\<close>, converted to \<open>size_t\<close>.\<close>

definition stoll_size :: "string \<Rightarrow> u64 option" where
  "stoll_size v = (case opt_stoll v of Inr (Some n) \<Rightarrow> Some (word_of_int n) | _ \<Rightarrow> None)"

definition add_metadata :: "multimap \<Rightarrow> multimap \<Rightarrow> string \<Rightarrow> multimap" where
  "add_metadata hs m key =
     (if StartsWith key ''x-amz-meta-'' then foldl (\<lambda>m v. Add (drop 11 key) v m) m (Get key hs) else m)"

text \<open>The members of the response; the mode and the legal hold have no initializer. A size that is not
  a number throws, an unknown mode, hold or Boolean ends the process.\<close>

definition stat_response :: "int \<Rightarrow> string \<Rightarrow> string \<Rightarrow> response \<Rightarrow> stat_object_response option" where
  "stat_response tz bucket object r =
     (let hs = rs_headers r; h = (\<lambda>k. GetFront k hs) in
      case (set_from (h ''content-length'') 0 stoll_size,
            set_from (h ''x-amz-object-lock-mode'') RetentionMode_unset StringToRetentionMode,
            set_from (h ''x-amz-object-lock-retain-until-date'') utc_default (FromISO8601UTC tz),
            set_from (h ''x-amz-object-lock-legal-hold'') None (\<lambda>v. map_option Some (StringToLegalHold v)),
            set_from (h ''x-amz-delete-marker'') False StringToBool) of
        (Some n, Some m, Some t, Some l, Some d) \<Rightarrow>
          Some \<lparr>so_base = r, so_bucket_name = bucket, so_object_name = object,
            so_version_id = h ''x-amz-version-id'', so_etag = Trim (h ''etag'') (CHR 0x22), so_size = n,
            so_last_modified = (if h ''last-modified'' \<noteq> [] then FromHttpHeaderValue tz (h ''last-modified'')
              else utc_default),
            so_retention_mode = m, so_retain_until_date = t, so_legal_hold = l, so_delete_marker = d,
            so_user_metadata = foldl (add_metadata hs) mm_empty (Keys hs)\<rparr>
      | _ \<Rightarrow> None)"

definition StatObject :: "'w client_env \<Rightarrow> object_conditional_read_args \<Rightarrow> (stat_object_response, 'w) op" where
  "StatObject e a = check (ObjectArgs_Validate a) (check_ssec (a_ssec a)
     (in_region e a (\<lambda>region.
        and_then (send_request e (with_headers (ObjectConditionalReadArgs_Headers (timezone (ce_crypto e)) a)
            (version_request kHead region a)))
          (\<lambda>r. lift_outcome (map_option Inr
             (stat_response (timezone (ce_crypto e)) (a_bucket a) (a_object a) r))))))"

text \<open>\<open>GET\<close> with the version and one empty parameter.\<close>

definition get_object_setting :: "'w client_env \<Rightarrow> string \<Rightarrow> object_version_args \<Rightarrow> string \<Rightarrow> (response, 'w) op" where
  "get_object_setting e name a region = send_request e (with_param name [] (version_request kGet region a))"

definition GetObjectTags :: "'w client_env \<Rightarrow> object_version_args \<Rightarrow> ((string \<times> string) list, 'w) op" where
  "GetObjectTags e a = check (ObjectArgs_Validate a) (in_region e a (\<lambda>region.
     and_then (get_object_setting e ''tagging'' a region)
       (\<lambda>r. lift_result (GetObjectTagsResponse_ParseXML (ce_xml e) (rs_data r)))))"

definition GetObjectRetention :: "'w client_env \<Rightarrow> object_version_args \<Rightarrow> (retention, 'w) op" where
  "GetObjectRetention e a = check (ObjectArgs_Validate a) (in_region e a (\<lambda>region.
     on_result (get_object_setting e ''retention'' a region)
       (\<lambda>err. if Contains err ''NoSuchObjectLockConfiguration'' then
            ret \<lparr>ret_mode = RetentionMode_unset, retain_until_date = utc_default\<rparr>
          else fail err)
       (\<lambda>r. lift_outcome (parse_retention (timezone (ce_crypto e)) (ce_xml e) (rs_data r)))))"

definition parse_legal_hold :: "xml_reader \<Rightarrow> string \<Rightarrow> error + bool" where
  "parse_legal_hold xml data =
     (case load_string xml data of
        None \<Rightarrow> Inl ''unable to parse XML''
      | Some doc \<Rightarrow> Inr (xtext [''LegalHold'', ''Status''] doc = ''ON''))"

definition IsObjectLegalHoldEnabled :: "'w client_env \<Rightarrow> object_version_args \<Rightarrow> (bool, 'w) op" where
  "IsObjectLegalHoldEnabled e a = check (ObjectArgs_Validate a) (in_region e a (\<lambda>region.
     on_result (get_object_setting e ''legal-hold'' a region)
       (\<lambda>err. if Contains err ''NoSuchObjectLockConfiguration'' then ret False else fail err)
       (\<lambda>r. lift_result (parse_legal_hold (ce_xml e) (rs_data r)))))"

subsection \<open>Writing settings\<close>

definition put_object_setting :: "'w client_env \<Rightarrow> string \<Rightarrow> 'b object_version_args_scheme \<Rightarrow> string \<Rightarrow> string
    \<Rightarrow> (response, 'w) op" where
  "put_object_setting e name a body region =
     send_request e (with_md5_body (ce_crypto e) body (with_param name [] (version_request kPut region a)))"

definition legal_hold_body :: "string \<Rightarrow> string" where
  "legal_hold_body status = xtag ''LegalHold'' (xtag ''Status'' status)"

definition EnableObjectLegalHold :: "'w client_env \<Rightarrow> object_version_args \<Rightarrow> (response, 'w) op" where
  "EnableObjectLegalHold e a = check (ObjectArgs_Validate a)
     (in_region e a (put_object_setting e ''legal-hold'' a (legal_hold_body ''ON'')))"

definition DisableObjectLegalHold :: "'w client_env \<Rightarrow> object_version_args \<Rightarrow> (response, 'w) op" where
  "DisableObjectLegalHold e a = check (ObjectArgs_Validate a)
     (in_region e a (put_object_setting e ''legal-hold'' a (legal_hold_body ''OFF'')))"

definition retention_body :: "int \<Rightarrow> string \<Rightarrow> utc_time \<Rightarrow> string" where
  "retention_body tz mode date =
     xtag ''Retention'' (xtag ''Mode'' mode @ xtag ''RetainUntilDate'' (ToISO8601UTC tz date))"

text \<open>\<open>RetentionModeToString\<close> ends the process on a value outside the enumeration.\<close>

definition SetObjectRetention :: "'w client_env \<Rightarrow> set_object_retention_args \<Rightarrow> (response, 'w) op" where
  "SetObjectRetention e a = check (SetObjectRetentionArgs_Validate a)
     (in_region e a (\<lambda>region.
        case RetentionModeToString (a_retention_mode a) of
          None \<Rightarrow> undefined_op
        | Some mode \<Rightarrow> put_object_setting e ''retention'' a
            (retention_body (timezone (ce_crypto e)) mode (a_retain_until_date a)) region))"

definition SetObjectTags :: "'w client_env \<Rightarrow> set_object_tags_args \<Rightarrow> (response, 'w) op" where
  "SetObjectTags e a = check (SetObjectTagsArgs_Validate a)
     (in_region e a (put_object_setting e ''tagging'' a (tagging_body (a_object_tags a))))"

definition DeleteObjectTags :: "'w client_env \<Rightarrow> object_version_args \<Rightarrow> (response, 'w) op" where
  "DeleteObjectTags e a = check (ObjectArgs_Validate a)
     (in_region e a (\<lambda>region. send_request e (with_param ''tagging'' [] (version_request kDelete region a))))"

subsection \<open>Removing\<close>

definition RemoveObject :: "'w client_env \<Rightarrow> object_version_args \<Rightarrow> (response, 'w) op" where
  "RemoveObject e a = check (ObjectArgs_Validate a)
     (in_region e a (\<lambda>region. send_request e (version_request kDelete region a)))"

definition delete_object_xml :: "(string \<Rightarrow> string) \<Rightarrow> delete_object \<Rightarrow> string" where
  "delete_object_xml xml_encode d =
     xtag ''Object'' (xtag ''Key'' (xml_encode (do_name d)) @ xtag_str ''VersionId'' (do_version_id d))"

definition delete_body :: "(string \<Rightarrow> string) \<Rightarrow> bool \<Rightarrow> delete_object list \<Rightarrow> string" where
  "delete_body xml_encode quiet objects =
     xtag ''Delete'' (xtag_if quiet ''Quiet'' ''true'' @ concat (map (delete_object_xml xml_encode) objects))"

text \<open>\<open>xml_encode\<close> is \<open>utils::XMLEncode\<close>, pugixml's printing of a text node.\<close>

definition RemoveObjects :: "'w client_env \<Rightarrow> (string \<Rightarrow> string) \<Rightarrow> remove_objects_api_args
    \<Rightarrow> (remove_objects_response, 'w) op" where
  "RemoveObjects e xml_encode a = check (BucketArgs_Validate a) (in_region e a (\<lambda>region.
     let q = with_param ''delete'' [] (bucket_request kPost region a);
         q = (if a_bypass_governance_mode a
              then with_header ''x-amz-bypass-governance-retention'' ''true'' q else q);
         body = delete_body xml_encode (a_quiet a) (a_objects a);
         q = with_header ''Content-Type'' ''application/xml'' (q\<lparr>q_body := body\<rparr>);
         q = with_header ''Content-MD5'' (md5_base64 (ce_crypto e) body) q
     in and_then (send_request e q) (\<lambda>r. lift_outcome (RemoveObjectsResponse_ParseXML (ce_xml e) (rs_data r)))))"

subsection \<open>Uploading\<close>

definition put_response :: "response \<Rightarrow> put_object_response" where
  "put_response r =
     (let h = (\<lambda>k. GetFront k (rs_headers r)) in
      (put_object_response_of Response_new)\<lparr>po_etag := Trim (h ''etag'') (CHR 0x22),
        po_version_id := h ''x-amz-version-id'', po_checksumCRC32 := h ''x-amz-checksum-crc32'',
        po_checksumCRC32C := h ''x-amz-checksum-crc32c'', po_checksumSHA1 := h ''x-amz-checksum-sha1'',
        po_checksumSHA256 := h ''x-amz-checksum-sha256''\<rparr>)"

definition put_object_request :: "put_object_api_args \<Rightarrow> string \<Rightarrow> 's s3_request" where
  "put_object_request a region =
     (with_headers (a_headers a) (with_params (a_query_params a) (object_request kPut region a)))\<lparr>q_body := a_data a\<rparr>"

definition PutObject :: "'w client_env \<Rightarrow> put_object_api_args \<Rightarrow> (put_object_response, 'w) op" where
  "PutObject e a = check (ObjectArgs_Validate a) (in_region e a (\<lambda>region.
     and_then (send_request e (put_object_request a region)) (\<lambda>r. ret (put_response r))))"

definition upload_part_api_args :: "upload_part_args \<Rightarrow> put_object_api_args" where
  "upload_part_api_args a =
     \<lparr>a_extra_headers = a_extra_headers a, a_extra_query_params = a_extra_query_params a,
      a_bucket = a_bucket a, a_region = a_region a, a_object = a_object a, a_headers = a_headers a,
      a_user_metadata = mm_empty, a_sse = None, a_tags = [], a_retention = None, a_legal_hold = False,
      a_object_size = None, a_part_size = 0, a_part_count = None, a_content_type = [],
      a_data = a_part_data a,
      a_query_params = Add ''uploadId'' (a_part_upload_id a)
        (Add ''partNumber'' (to_string (unat (a_part_number a))) mm_empty)\<rparr>"

definition UploadPart :: "'w client_env \<Rightarrow> upload_part_args \<Rightarrow> (put_object_response, 'w) op" where
  "UploadPart e a = check (UploadPartArgs_Validate a) (PutObject e (upload_part_api_args a))"

definition copy_part_response :: "response \<Rightarrow> put_object_response" where
  "copy_part_response r =
     (put_object_response_of Response_new)\<lparr>po_etag := Trim (GetFront ''etag'' (rs_headers r)) (CHR 0x22)\<rparr>"

definition UploadPartCopy :: "'w client_env \<Rightarrow> upload_part_copy_args \<Rightarrow> (put_object_response, 'w) op" where
  "UploadPartCopy e a = check (UploadPartCopyArgs_Validate a) (in_region e a (\<lambda>region.
     let q = with_params (a_extra_query_params a) (object_request kPut region a);
         q = with_param ''partNumber'' (to_string (unat (a_copy_part_number a))) q;
         q = with_param ''uploadId'' (a_copy_upload_id a) q
     in and_then (send_request e (with_headers (a_copy_headers a) q)) (\<lambda>r. ret (copy_part_response r))))"

subsection \<open>Multipart uploads\<close>

definition AbortMultipartUpload :: "'w client_env \<Rightarrow> abort_multipart_upload_args \<Rightarrow> (response, 'w) op" where
  "AbortMultipartUpload e a = check (AbortMultipartUploadArgs_Validate a) (in_region e a (\<lambda>region.
     send_request e (with_param ''uploadId'' (a_upload_id a) (object_request kDelete region a))))"

definition part_xml :: "part \<Rightarrow> string" where
  "part_xml p =
     xtag ''Part'' (xtag ''PartNumber'' (to_string (unat (part_number p)))
       @ xtag ''ETag'' ([CHR 0x22] @ part_etag p @ [CHR 0x22])
       @ xtag_str ''ChecksumCRC64NVME'' (part_checksum_crc64nvme p))"

definition complete_body :: "part list \<Rightarrow> string" where
  "complete_body parts = xtag ''CompleteMultipartUpload'' (concat (map part_xml parts))"

text \<open>\<open>req.headers = headers\<close> replaces the headers made from the arguments.\<close>

definition CompleteMultipartUpload :: "'w client_env \<Rightarrow> complete_multipart_upload_args
    \<Rightarrow> (complete_multipart_upload_response, 'w) op" where
  "CompleteMultipartUpload e a = check (CompleteMultipartUploadArgs_Validate a) (in_region e a (\<lambda>region.
     let q = with_param ''uploadId'' (a_upload_id a) (object_request kPost region a);
         body = complete_body (a_parts a);
         headers = Add ''Content-MD5'' (md5_base64 (ce_crypto e) body)
           (Add ''Content-Type'' ''application/xml'' mm_empty)
     in and_then (send_request e (q\<lparr>q_body := body, q_headers := headers\<rparr>))
          (\<lambda>r. lift_result (CompleteMultipartUploadResponse_ParseXML (ce_xml e) (rs_data r)
             (GetFront ''x-amz-version-id'' (rs_headers r))))))"

definition parse_upload_id :: "xml_reader \<Rightarrow> string \<Rightarrow> error + string" where
  "parse_upload_id xml data =
     (case load_string xml data of
        None \<Rightarrow> Inl ''unable to parse XML''
      | Some doc \<Rightarrow> Inr (xtext [''InitiateMultipartUploadResult'', ''UploadId''] doc))"

definition CreateMultipartUpload :: "'w client_env \<Rightarrow> create_multipart_upload_args \<Rightarrow> (string, 'w) op" where
  "CreateMultipartUpload e a = check (ObjectArgs_Validate a)
     (let headers = (if mm_Contains ''Content-Type'' (a_create_headers a) then a_create_headers a
           else Add ''Content-Type'' ''application/octet-stream'' (a_create_headers a))
      in in_region e a (\<lambda>region.
        and_then (send_request e (with_headers headers (with_param ''uploads'' [] (object_request kPost region a))))
          (\<lambda>r. lift_result (parse_upload_id (ce_xml e) (rs_data r)))))"

subsection \<open>Selecting\<close>

definition select_call_request :: "crypto \<Rightarrow> 's select_env \<Rightarrow> select_object_content_args \<Rightarrow> string
    \<Rightarrow> (crash + handler \<times> 's) s3_request" where
  "select_call_request cr se a region =
     (let q = with_param ''select'' [] (object_request kPost region a);
          q = with_param ''select-type'' ''2'' q;
          q = with_md5_body cr (SelectRequest_ToXML (a_request a)) q
      in q\<lparr>q_datafunc := Some (select_datafunc se)\<rparr>)"

text \<open>A crash of the handler ends the call.\<close>

definition SelectObjectContent :: "'w client_env \<Rightarrow> 's select_env \<Rightarrow> select_object_content_args \<Rightarrow> 's
    \<Rightarrow> 'w client \<Rightarrow> ((error + response) \<times> 's \<times> 'w client) option" where
  "SelectObjectContent e se a s c =
     (case stream_call e
        (check (SelectObjectContentArgs_Validate a) (check_ssec (a_ssec a) (GetRegion e (a_bucket a) (a_region a))))
        (select_call_request (ce_crypto e) se a) (Inr (handler_new, s)) c of
        Some (r, Inr (_, s), c) \<Rightarrow> Some (r, s, c)
      | _ \<Rightarrow> None)"

subsection \<open>Presigned requests\<close>

text \<open>\<open>None\<close>: a URL that cannot be built ends the process.\<close>

definition GetPresignedObjectUrl :: "'w client_env \<Rightarrow> get_presigned_object_url_args \<Rightarrow> (string, 'w) op" where
  "GetPresignedObjectUrl e a = check (GetPresignedObjectUrlArgs_Validate a) (in_region e a (\<lambda>region.
     with_client (\<lambda>c.
       let params = AddAll (a_extra_query_params a) mm_empty;
           params = (if a_version_id a \<noteq> [] then Add ''versionId'' (a_version_id a) params else params)
       in case BuildUrl (cl_base_url c) url_empty (a_method a) region params (a_bucket a) (a_object a) of
            (err, u) \<Rightarrow>
              if is_err err then undefined_op
              else and_then (fetch_op e) (\<lambda>creds. case creds of
                  None \<Rightarrow> ret (Url_String u)
                | Some cr \<Rightarrow> with_client (\<lambda>c.
                    let params = (if session_token cr \<noteq> []
                          then Add ''X-Amz-Security-Token'' (session_token cr) params else params);
                        date = (if utc_bool (a_request_time a) then a_request_time a
                          else ce_now e (cl_world c));
                        params = PresignV4 (ce_crypto e) (a_method a) (HostHeaderValue u) (path u) region params
                          (access_key cr) (secret_key cr) date (a_expiry_seconds a)
                    in ret (Url_String (u\<lparr>query_string := ToQueryString params\<rparr>)))))))"

text \<open>The policy is passed by value. \<open>dump\<close> prints JSON.\<close>

definition GetPresignedPostFormData :: "'w client_env \<Rightarrow> (json \<Rightarrow> string) \<Rightarrow> post_policy
    \<Rightarrow> ((string \<times> string) list, 'w) op" where
  "GetPresignedPostFormData e dump p =
     check (if \<not> PostPolicy_bool p then ''valid policy must be provided''
            else if ce_fetch e = None then ''Anonymous access does not require pre-signed post form-data''
            else SUCCESS)
       (and_then (GetRegion e (pp_bucket p) (pp_region p)) (\<lambda>region.
          and_then (fetch_op e) (\<lambda>creds. case creds of
              None \<Rightarrow> undefined_op
            | Some cr \<Rightarrow> with_client (\<lambda>c.
                lift_result (fst (FormData (ce_crypto e) dump (ce_now e (cl_world c)) (access_key cr)
                  (secret_key cr) (session_token cr) region p))))))"

subsection \<open>Every call is framed\<close>

lemma parse_legal_hold_error [simp]: "parse_legal_hold xml data \<noteq> Inl []"
  and parse_upload_id_error [simp]: "parse_upload_id xml data \<noteq> Inl []"
  by (simp_all add: parse_legal_hold_def parse_upload_id_def split: option.splits)

lemma FormData_error [simp]: "fst (FormData cr dump date ak sk tk region p) \<noteq> Inl []"
  by (simp add: FormData_def Let_def split: prod.splits bool.splits)

lemma framed_get_object_setting [frame_intros]: "framed 2 (get_object_setting (logged e) name a region)"
  unfolding get_object_setting_def by (intro frame_intros)

lemma framed_put_object_setting [frame_intros]: "framed 2 (put_object_setting (logged e) name a body region)"
  unfolding put_object_setting_def by (intro frame_intros)

lemma framed_StatObject [frame_intros]: "framed 4 (StatObject (logged e) a)"
  unfolding StatObject_def Let_def by (intro frame_intros; auto intro!: frame_intros)

lemma framed_GetObjectTags [frame_intros]: "framed 4 (GetObjectTags (logged e) a)"
  unfolding GetObjectTags_def Let_def by (intro frame_intros; auto intro!: frame_intros)

lemma framed_GetObjectRetention [frame_intros]: "framed 4 (GetObjectRetention (logged e) a)"
  unfolding GetObjectRetention_def Let_def by (intro frame_intros; auto intro!: frame_intros)

lemma framed_IsObjectLegalHoldEnabled [frame_intros]: "framed 4 (IsObjectLegalHoldEnabled (logged e) a)"
  unfolding IsObjectLegalHoldEnabled_def Let_def by (intro frame_intros; auto intro!: frame_intros)

lemma framed_EnableObjectLegalHold [frame_intros]: "framed 4 (EnableObjectLegalHold (logged e) a)"
  unfolding EnableObjectLegalHold_def Let_def by (intro frame_intros; auto intro!: frame_intros)

lemma framed_DisableObjectLegalHold [frame_intros]: "framed 4 (DisableObjectLegalHold (logged e) a)"
  unfolding DisableObjectLegalHold_def Let_def by (intro frame_intros; auto intro!: frame_intros)

lemma framed_SetObjectRetention [frame_intros]: "framed 4 (SetObjectRetention (logged e) a)"
  unfolding SetObjectRetention_def Let_def by (intro frame_intros; auto intro!: frame_intros split: option.splits)

lemma framed_SetObjectTags [frame_intros]: "framed 4 (SetObjectTags (logged e) a)"
  unfolding SetObjectTags_def Let_def by (intro frame_intros; auto intro!: frame_intros)

lemma framed_DeleteObjectTags [frame_intros]: "framed 4 (DeleteObjectTags (logged e) a)"
  unfolding DeleteObjectTags_def Let_def by (intro frame_intros; auto intro!: frame_intros)

lemma framed_RemoveObject [frame_intros]: "framed 4 (RemoveObject (logged e) a)"
  unfolding RemoveObject_def Let_def by (intro frame_intros; auto intro!: frame_intros)

lemma framed_PutObject [frame_intros]: "framed 4 (PutObject (logged e) a)"
  unfolding PutObject_def Let_def by (intro frame_intros; auto intro!: frame_intros)

lemma framed_UploadPart [frame_intros]: "framed 4 (UploadPart (logged e) a)"
  unfolding UploadPart_def by (intro frame_intros; auto intro!: frame_intros)

lemma framed_UploadPartCopy [frame_intros]: "framed 4 (UploadPartCopy (logged e) a)"
  unfolding UploadPartCopy_def Let_def by (intro frame_intros; auto intro!: frame_intros)

lemma framed_AbortMultipartUpload [frame_intros]: "framed 4 (AbortMultipartUpload (logged e) a)"
  unfolding AbortMultipartUpload_def Let_def by (intro frame_intros; auto intro!: frame_intros)

lemma framed_CompleteMultipartUpload [frame_intros]: "framed 4 (CompleteMultipartUpload (logged e) a)"
  unfolding CompleteMultipartUpload_def Let_def by (intro frame_intros; auto intro!: frame_intros)

lemma framed_CreateMultipartUpload [frame_intros]: "framed 4 (CreateMultipartUpload (logged e) a)"
  unfolding CreateMultipartUpload_def Let_def by (intro frame_intros; auto intro!: frame_intros)

lemma framed_GetPresignedObjectUrl [frame_intros]: "framed 4 (GetPresignedObjectUrl (logged e) a)"
  unfolding GetPresignedObjectUrl_def Let_def by (intro frame_intros; auto intro!: frame_intros split: option.splits prod.splits)

lemma framed_RemoveObjects [frame_intros]: "framed 4 (RemoveObjects (logged e) enc a)"
  unfolding RemoveObjects_def Let_def by (intro frame_intros; simp)

lemma framed_GetPresignedPostFormData [frame_intros]: "framed 4 (GetPresignedPostFormData (logged e) dump p)"
  unfolding GetPresignedPostFormData_def
  by (intro frame_intros framed_mono [OF framed_GetRegion]; auto split: option.splits intro!: frame_intros)

lemma GetObject_frame:
  "GetObject (logged e) a s c = Some (r, s', c') \<Longrightarrow> op_frame 4 c c' \<and> r \<noteq> Inl []"
  unfolding GetObject_def by (auto dest!: stream_call_frame intro!: frame_intros)

lemma SelectObjectContent_frame:
  "SelectObjectContent (logged e) se a s c = Some (r, s', c') \<Longrightarrow> op_frame 4 c c' \<and> r \<noteq> Inl []"
  unfolding SelectObjectContent_def
  by (auto dest!: stream_call_frame intro!: frame_intros split: option.splits prod.splits sum.splits)

subsection \<open>The calls meet the contract\<close>

interpretation stat_object: api_call ObjectArgs_Validate StatObject
  by (unfold_locales, simp add: StatObject_def check_rejects, rule framed_StatObject)

interpretation put_object: api_call ObjectArgs_Validate PutObject
  by (unfold_locales, simp add: PutObject_def check_rejects, rule framed_PutObject)

interpretation upload_part: api_call UploadPartArgs_Validate UploadPart
  by (unfold_locales, simp add: UploadPart_def check_rejects, rule framed_UploadPart)

interpretation upload_part_copy: api_call UploadPartCopyArgs_Validate UploadPartCopy
  by (unfold_locales, simp add: UploadPartCopy_def check_rejects, rule framed_UploadPartCopy)

interpretation create_multipart_upload: api_call ObjectArgs_Validate CreateMultipartUpload
  by (unfold_locales, simp add: CreateMultipartUpload_def check_rejects, rule framed_CreateMultipartUpload)

interpretation complete_multipart_upload: api_call CompleteMultipartUploadArgs_Validate CompleteMultipartUpload
  by (unfold_locales, simp add: CompleteMultipartUpload_def check_rejects, rule framed_CompleteMultipartUpload)

interpretation abort_multipart_upload: api_call AbortMultipartUploadArgs_Validate AbortMultipartUpload
  by (unfold_locales, simp add: AbortMultipartUpload_def check_rejects, rule framed_AbortMultipartUpload)

interpretation remove_objects: api_call BucketArgs_Validate "\<lambda>e. RemoveObjects e enc" for enc
  by (unfold_locales, simp add: RemoveObjects_def check_rejects, rule framed_RemoveObjects)

interpretation set_object_tags: api_call SetObjectTagsArgs_Validate SetObjectTags
  by (unfold_locales, simp add: SetObjectTags_def check_rejects, rule framed_SetObjectTags)

interpretation set_object_retention: api_call SetObjectRetentionArgs_Validate SetObjectRetention
  by (unfold_locales, simp add: SetObjectRetention_def check_rejects, rule framed_SetObjectRetention)

end
