(* ===== verification/Session.thy ===== *)
theory Session
  imports BucketApi ObjectApi
begin

section \<open>A client in use\<close>

text \<open>
  The calls a program makes on one client, in any order: \<open>api_step\<close> is one call, whatever its
  arguments and its answer, and its reflexive transitive closure a run of the program. \<open>se\<close>, \<open>l\<close>,
  \<open>enc\<close> and \<open>dump\<close> are the caller's functions and the XML and JSON printers the calls are given. The
  theorems about runs are by rule induction.
\<close>

inductive api_step :: "'w client_env \<Rightarrow> 's select_env \<Rightarrow> 's listener \<Rightarrow> (string \<Rightarrow> string) \<Rightarrow> (json \<Rightarrow> string)
    \<Rightarrow> 'w client \<Rightarrow> 'w client \<Rightarrow> bool"
  for e se l enc dump where
  step_GetRegion: "GetRegion e b region c = Some (r, c') \<Longrightarrow> api_step e se l enc dump c c'"
| step_BucketExists: "BucketExists e a c = Some (r, c') \<Longrightarrow> api_step e se l enc dump c c'"
| step_MakeBucket: "MakeBucket e a c = Some (r, c') \<Longrightarrow> api_step e se l enc dump c c'"
| step_RemoveBucket: "RemoveBucket e a c = Some (r, c') \<Longrightarrow> api_step e se l enc dump c c'"
| step_ListBuckets: "ListBuckets e a c = Some (r, c') \<Longrightarrow> api_step e se l enc dump c c'"
| step_GetBucketEncryption: "GetBucketEncryption e a c = Some (r, c') \<Longrightarrow> api_step e se l enc dump c c'"
| step_GetBucketLifecycle: "GetBucketLifecycle e a c = Some (r, c') \<Longrightarrow> api_step e se l enc dump c c'"
| step_GetBucketNotification: "GetBucketNotification e a c = Some (r, c') \<Longrightarrow> api_step e se l enc dump c c'"
| step_GetBucketPolicy: "GetBucketPolicy e a c = Some (r, c') \<Longrightarrow> api_step e se l enc dump c c'"
| step_GetBucketReplication: "GetBucketReplication e a c = Some (r, c') \<Longrightarrow> api_step e se l enc dump c c'"
| step_GetBucketTags: "GetBucketTags e a c = Some (r, c') \<Longrightarrow> api_step e se l enc dump c c'"
| step_GetBucketVersioning: "GetBucketVersioning e a c = Some (r, c') \<Longrightarrow> api_step e se l enc dump c c'"
| step_GetObjectLockConfig: "GetObjectLockConfig e a c = Some (r, c') \<Longrightarrow> api_step e se l enc dump c c'"
| step_DeleteBucketEncryption: "DeleteBucketEncryption e a c = Some (r, c') \<Longrightarrow> api_step e se l enc dump c c'"
| step_DeleteBucketLifecycle: "DeleteBucketLifecycle e a c = Some (r, c') \<Longrightarrow> api_step e se l enc dump c c'"
| step_DeleteBucketNotification: "DeleteBucketNotification e a c = Some (r, c') \<Longrightarrow> api_step e se l enc dump c c'"
| step_DeleteBucketPolicy: "DeleteBucketPolicy e a c = Some (r, c') \<Longrightarrow> api_step e se l enc dump c c'"
| step_DeleteBucketReplication: "DeleteBucketReplication e a c = Some (r, c') \<Longrightarrow> api_step e se l enc dump c c'"
| step_DeleteBucketTags: "DeleteBucketTags e a c = Some (r, c') \<Longrightarrow> api_step e se l enc dump c c'"
| step_DeleteObjectLockConfig: "DeleteObjectLockConfig e a c = Some (r, c') \<Longrightarrow> api_step e se l enc dump c c'"
| step_SetBucketEncryption: "SetBucketEncryption e a c = Some (r, c') \<Longrightarrow> api_step e se l enc dump c c'"
| step_SetBucketLifecycle: "SetBucketLifecycle e a c = Some (r, c') \<Longrightarrow> api_step e se l enc dump c c'"
| step_SetBucketNotification: "SetBucketNotification e a c = Some (r, c') \<Longrightarrow> api_step e se l enc dump c c'"
| step_SetBucketPolicy: "SetBucketPolicy e a c = Some (r, c') \<Longrightarrow> api_step e se l enc dump c c'"
| step_SetBucketReplication: "SetBucketReplication e a c = Some (r, c') \<Longrightarrow> api_step e se l enc dump c c'"
| step_SetBucketTags: "SetBucketTags e a c = Some (r, c') \<Longrightarrow> api_step e se l enc dump c c'"
| step_SetBucketVersioning: "SetBucketVersioning e a c = Some (r, c') \<Longrightarrow> api_step e se l enc dump c c'"
| step_SetObjectLockConfig: "SetObjectLockConfig e a c = Some (r, c') \<Longrightarrow> api_step e se l enc dump c c'"
| step_ListObjectsV1: "ListObjectsV1 e a c = Some (r, c') \<Longrightarrow> api_step e se l enc dump c c'"
| step_ListObjectsV2: "ListObjectsV2 e a c = Some (r, c') \<Longrightarrow> api_step e se l enc dump c c'"
| step_ListObjectVersions: "ListObjectVersions e a c = Some (r, c') \<Longrightarrow> api_step e se l enc dump c c'"
| step_StatObject: "StatObject e a c = Some (r, c') \<Longrightarrow> api_step e se l enc dump c c'"
| step_GetObjectTags: "GetObjectTags e a c = Some (r, c') \<Longrightarrow> api_step e se l enc dump c c'"
| step_GetObjectRetention: "GetObjectRetention e a c = Some (r, c') \<Longrightarrow> api_step e se l enc dump c c'"
| step_IsObjectLegalHoldEnabled: "IsObjectLegalHoldEnabled e a c = Some (r, c') \<Longrightarrow> api_step e se l enc dump c c'"
| step_EnableObjectLegalHold: "EnableObjectLegalHold e a c = Some (r, c') \<Longrightarrow> api_step e se l enc dump c c'"
| step_DisableObjectLegalHold: "DisableObjectLegalHold e a c = Some (r, c') \<Longrightarrow> api_step e se l enc dump c c'"
| step_SetObjectRetention: "SetObjectRetention e a c = Some (r, c') \<Longrightarrow> api_step e se l enc dump c c'"
| step_SetObjectTags: "SetObjectTags e a c = Some (r, c') \<Longrightarrow> api_step e se l enc dump c c'"
| step_DeleteObjectTags: "DeleteObjectTags e a c = Some (r, c') \<Longrightarrow> api_step e se l enc dump c c'"
| step_RemoveObject: "RemoveObject e a c = Some (r, c') \<Longrightarrow> api_step e se l enc dump c c'"
| step_PutObject: "PutObject e a c = Some (r, c') \<Longrightarrow> api_step e se l enc dump c c'"
| step_UploadPart: "UploadPart e a c = Some (r, c') \<Longrightarrow> api_step e se l enc dump c c'"
| step_UploadPartCopy: "UploadPartCopy e a c = Some (r, c') \<Longrightarrow> api_step e se l enc dump c c'"
| step_AbortMultipartUpload: "AbortMultipartUpload e a c = Some (r, c') \<Longrightarrow> api_step e se l enc dump c c'"
| step_CompleteMultipartUpload: "CompleteMultipartUpload e a c = Some (r, c') \<Longrightarrow> api_step e se l enc dump c c'"
| step_CreateMultipartUpload: "CreateMultipartUpload e a c = Some (r, c') \<Longrightarrow> api_step e se l enc dump c c'"
| step_GetPresignedObjectUrl: "GetPresignedObjectUrl e a c = Some (r, c') \<Longrightarrow> api_step e se l enc dump c c'"
| step_RemoveObjects: "RemoveObjects e enc a c = Some (r, c') \<Longrightarrow> api_step e se l enc dump c c'"
| step_GetPresignedPostFormData:
    "GetPresignedPostFormData e dump p c = Some (r, c') \<Longrightarrow> api_step e se l enc dump c c'"
| step_ListenBucketNotification:
    "ListenBucketNotification e l a s c = Some (r, s', c') \<Longrightarrow> api_step e se l enc dump c c'"
| step_GetObject: "GetObject e (a :: 's get_object_args) s c = Some (r, s', c') \<Longrightarrow> api_step e se l enc dump c c'"
| step_SelectObjectContent:
    "SelectObjectContent e se a s c = Some (r, s', c') \<Longrightarrow> api_step e se l enc dump c c'"

text \<open>One call: at most four requests, and the client stays well-formed.\<close>

lemma api_step_frame:
  assumes "api_step (logged e) se l enc dump c c'"
  shows "op_frame 4 c c'"
  using assms
proof cases
  case step_GetRegion
  then show ?thesis by (rule framedD [OF framed_mono [OF framed_GetRegion], rotated]) simp
next
  case step_MakeBucket
  then show ?thesis by (rule framedD [OF framed_mono [OF framed_MakeBucket], rotated]) simp
next
  case step_ListBuckets
  then show ?thesis by (rule framedD [OF framed_mono [OF framed_ListBuckets], rotated]) simp
qed (blast dest: GetObject_frame SelectObjectContent_frame ListenBucketNotification_frame
    intro: framedD frame_intros)+

definition api_run :: "'w client_env \<Rightarrow> 's select_env \<Rightarrow> 's listener \<Rightarrow> (string \<Rightarrow> string) \<Rightarrow> (json \<Rightarrow> string)
    \<Rightarrow> 'w client \<Rightarrow> 'w client \<Rightarrow> bool" where
  "api_run e se l enc dump = (api_step e se l enc dump)\<^sup>*\<^sup>*"

lemma BaseClient_new_wf: "BaseClient_new agent b w = Some c \<Longrightarrow> client_wf c \<and> cl_base_url c = b"
  by (auto simp: BaseClient_new_def client_wf_def split: if_splits)

lemma api_run_keeps:
  assumes "api_run (logged e) se l enc dump c c'" "client_wf c"
  shows "client_wf c' \<and> cl_base_url c' = cl_base_url c \<and> cl_user_agent c' = cl_user_agent c"
  using assms unfolding api_run_def
proof (induction rule: rtranclp_induct)
  case (step c1 c2)
  with api_step_frame [OF step.hyps(2)] show ?case by (simp add: op_frame_def)
qed simp

end
