(* ===== verification/Settings.thy ===== *)
theory Settings
  imports BucketApi ObjectApi
begin

section \<open>Settings survive the wire\<close>

text \<open>
  The bodies the client sends, as trees, and what the client's own parser makes of them when a server
  gives them back. The lemmas hold for every XML reader that reads the text of a tree of elements and
  plain texts as that tree.
\<close>

lemma c_str_xml_text: "xok [XElem n ks] \<Longrightarrow> c_str (xml_text (XElem n ks)) = xml_text (XElem n ks)"
  using xml_text_no_nul [of "[XElem n ks]"] by (intro c_str_id) (simp add: xml_texts_def)

lemma load_string_plain:
  "reads_plain xml \<Longrightarrow> xok [XElem n ks] \<Longrightarrow> load_string xml (xml_text (XElem n ks)) = Some [XElem n ks]"
  unfolding load_string_def by (simp only: c_str_xml_text reads_plainD)

lemma xroot_elem [simp]: "xroot [n] [XElem n ks] = ks"
  by (simp add: xroot_def)

lemma xtext_leaf [simp]: "xtext [n] [xleaf n t] = t"
  by (simp add: xtext_first_leaf)

lemma xtext_first [simp]: "xtext [n] (xleaf n t # ns) = (if t = [] then xtext [n] ns else t)"
  by (rule xtext_first_leaf)

lemma xtext_deep [simp]:
  "xtext (a # b # p) ns = xtext (b # p) (concat (map xkids (filter (xnamed a) ns)))"
  by (simp add: xtext_def)

lemma xhas_Cons [simp]: "xhas [a] (n # ns) \<longleftrightarrow> xnamed a n \<or> xhas [a] ns"
  by (simp add: xhas_def)

lemma xhas_Nil [simp]: "\<not> xhas [a] []"
  by (simp add: xhas_def)

lemma xhas_deep [simp]: "xhas (a # b # p) ns \<longleftrightarrow> xhas (b # p) (concat (map xkids (filter (xnamed a) ns)))"
  by (simp add: xhas_def)

subsection \<open>Tags\<close>

definition tag_node :: "string \<times> string \<Rightarrow> xnode" where
  "tag_node kv = XElem ''Tag'' [xleaf ''Key'' (fst kv), xleaf ''Value'' (snd kv)]"

definition tagging_nodes :: "(string \<times> string) list \<Rightarrow> xnode list" where
  "tagging_nodes tags = (if tags \<noteq> [] then [XElem ''TagSet'' (map tag_node tags)] else [])"

lemma tag_node_text: "xml_text (tag_node kv) = tag_xml kv"
  by (simp add: tag_node_def tag_xml_def)

lemma tagging_text: "xml_text (XElem ''Tagging'' (tagging_nodes tags)) = tagging_body tags"
  by (simp add: tagging_nodes_def tagging_body_def tag_node_text comp_def)

lemma xok_tags:
  "(\<forall>(k, v) \<in> set tags. xvalue k \<and> xvalue v) \<Longrightarrow> xok (map tag_node tags)"
  by (induction tags) (auto simp: tag_node_def name_ok_def)

lemma smap_put_last:
  "(\<forall>k' \<in> fst ` set m. k' < k) \<Longrightarrow> smap_put k v m = m @ [(k, v)]" for k :: string
  unfolding smap_put_def by (induction m) (auto dest: less_not_sym)

lemma parse_tags_nodes:
  assumes "smap_wf tags" "\<forall>(k, v) \<in> set tags. xvalue v"
  shows "parse_tags (map tag_node tags) = tags"
proof -
  have "foldl (\<lambda>m n. smap_put (xtext [''Key''] (xkids n)) (xtext [''Value''] (xkids n)) m) m (map tag_node tags) = m @ tags"
    if "smap_wf (m @ tags)" for m
    using that
  proof (induction tags arbitrary: m)
    case (Cons kv tags)
    have "\<forall>k' \<in> fst ` set m. k' < fst kv"
      using Cons.prems by (auto simp: smap_wf_def sorted_wrt_append)
    then have "smap_put (fst kv) (snd kv) m = m @ [kv]" by (simp add: smap_put_last)
    moreover have "xtext [''Key''] (xkids (tag_node kv)) = fst kv" "xtext [''Value''] (xkids (tag_node kv)) = snd kv"
      by (simp_all add: tag_node_def)
    ultimately have "smap_put (xtext [''Key''] (xkids (tag_node kv))) (xtext [''Value''] (xkids (tag_node kv))) m = m @ [kv]"
      by simp
    with Cons.IH [of "m @ [kv]"] Cons.prems show ?case by simp
  qed simp
  from this [of "[]"] assms(1) show ?thesis by (simp add: parse_tags_def)
qed

lemma tags_round_trip:
  assumes "reads_plain xml" "smap_wf tags" "\<forall>(k, v) \<in> set tags. xvalue k \<and> xvalue v"
  shows "GetBucketTagsResponse_ParseXML xml (tagging_body tags) = Inr tags"
    and "GetObjectTagsResponse_ParseXML xml (tagging_body tags) = Inr tags"
proof -
  have "xok [XElem ''Tagging'' (tagging_nodes tags)]"
    using xok_tags [OF assms(3)] by (simp add: tagging_nodes_def name_ok_def)
  from reads_plainD [OF assms(1) this]
  have read: "xml (tagging_body tags) = Some [XElem ''Tagging'' (tagging_nodes tags)]"
    by (simp only: tagging_text)
  have "parse_tags (xselect [''Tagging'', ''TagSet'', ''Tag''] [XElem ''Tagging'' (tagging_nodes tags)]) = tags"
  proof (cases "tags = []")
    case True
    then show ?thesis by (simp add: tagging_nodes_def parse_tags_def)
  next
    case False
    have "filter (xnamed ''Tag'') (map tag_node tags) = map tag_node tags" by (simp add: tag_node_def filter_id_conv)
    with False parse_tags_nodes [OF assms(2)] assms(3) show ?thesis by (auto simp: tagging_nodes_def)
  qed
  then show "GetBucketTagsResponse_ParseXML xml (tagging_body tags) = Inr tags"
    "GetObjectTagsResponse_ParseXML xml (tagging_body tags) = Inr tags"
    by (simp_all add: GetBucketTagsResponse_ParseXML_def GetObjectTagsResponse_ParseXML_def read)
qed

text \<open>Values are not escaped: a value that closes its own elements and opens others is read back
  as another tag.\<close>

definition smuggled :: "string \<Rightarrow> string \<Rightarrow> string \<Rightarrow> string" where
  "smuggled v k' v' = v @ xclose ''Value'' @ xclose ''Tag'' @ xopen ''Tag'' @ xtag ''Key'' k' @ xopen ''Value'' @ v'"

lemma tagging_smuggled: "tagging_body [(k, smuggled v k' v')] = tagging_body [(k, v), (k', v')]"
  by (simp add: tagging_body_def tag_xml_def smuggled_def xtag_def)

subsection \<open>Versioning, object locks, encryption, legal holds\<close>

definition versioning_nodes :: "bool option \<Rightarrow> bool option \<Rightarrow> xnode list" where
  "versioning_nodes status mfa =
     (case status of None \<Rightarrow> [] | Some b \<Rightarrow> [xleaf ''Status'' (if b then ''Enabled'' else ''Suspended'')])
     @ (case mfa of None \<Rightarrow> [] | Some b \<Rightarrow> [xleaf ''MFADelete'' (if b then ''Enabled'' else ''Disabled'')])"

lemma versioning_text: "xml_text (XElem ''VersioningConfiguration'' (versioning_nodes s m)) = versioning_body s m"
  by (simp add: versioning_nodes_def versioning_body_def opt_xml_def split: option.splits)

lemma xplain_words [simp]: "xplain ''Enabled''" "xplain ''Suspended''" "xplain ''Disabled''" "xplain ''GOVERNANCE''"
    "xplain ''COMPLIANCE''" "xplain ''ON''" "xplain ''OFF''"
  by (simp_all add: xplain_def)

lemma versioning_round_trip:
  assumes "reads_plain xml"
  shows "parse_versioning xml (versioning_body s m) = Inr (s, m)"
proof -
  have "xok [XElem ''VersioningConfiguration'' (versioning_nodes s m)]"
    by (auto simp: versioning_nodes_def name_ok_def xvalue_def split: option.splits)
  from load_string_plain [OF assms this]
  have read: "load_string xml (versioning_body s m) = Some [XElem ''VersioningConfiguration'' (versioning_nodes s m)]"
    by (simp only: versioning_text)
  show ?thesis
    by (simp add: parse_versioning_def read enabled_at_def versioning_nodes_def split: option.splits)
qed

definition lock_nodes :: "object_lock_config \<Rightarrow> xnode list" where
  "lock_nodes cfg = xleaf ''ObjectLockEnabled'' ''Enabled''
     # (case RetentionModeToString (olc_retention_mode cfg) of None \<Rightarrow> []
        | Some m \<Rightarrow> [XElem ''Rule'' [XElem ''DefaultRetention''
            (xleaf ''Mode'' m
             # (case olc_retention_duration_days cfg of None \<Rightarrow> [] | Some n \<Rightarrow> [xleaf ''Days'' (int_to_string n)])
             @ (case olc_retention_duration_years cfg of None \<Rightarrow> [] | Some n \<Rightarrow> [xleaf ''Years'' (int_to_string n)]))]])"

lemma lock_text: "xml_text (XElem ''ObjectLockConfiguration'' (lock_nodes cfg)) = object_lock_body cfg"
  by (cases "olc_retention_mode cfg")
    (simp_all add: lock_nodes_def object_lock_body_def opt_xml_def xtag_int_def xtag_opt_def split: option.splits)

lemma xplain_to_string [simp]: "xplain (to_string n)"
proof -
  have d: "c \<in> set (to_string n) \<Longrightarrow> is_digit c" for c by (rule to_string_digits)
  have "\<not> is_digit c" if "c \<in> {CHR ''<'', CHR ''>'', CHR ''&'', CHR 0x0D, CHR 0x00, CHR 0x09, CHR 0x0A, CHR 0x20}" for c
    using that by (auto simp: is_digit_def)
  moreover have "hd (to_string n) \<in> set (to_string n)" by simp
  ultimately show ?thesis unfolding xplain_def using d by (auto simp del: hd_in_set)
qed

definition duration_ok :: "int option \<Rightarrow> bool" where
  "duration_ok v \<longleftrightarrow> (\<forall>n. v = Some n \<longrightarrow> 0 \<le> n \<and> n < 2 ^ 31)"

lemma int_to_string_nonempty [simp]: "int_to_string n \<noteq> []"
  by (simp add: int_to_string_def)

lemma stoi_opt_int: "0 \<le> n \<Longrightarrow> n < 2 ^ 31 \<Longrightarrow> stoi_opt (int_to_string n) = Some n"
  using stoi_to_string [of "nat n"] by (simp add: stoi_opt_def int_to_string_def nat_less_iff)

lemma lock_round_trip:
  assumes "reads_plain xml" "duration_ok (olc_retention_duration_days cfg)"
    "duration_ok (olc_retention_duration_years cfg)" "ObjectLockConfig_Validate cfg = SUCCESS"
  shows "parse_object_lock xml (object_lock_body cfg) = Some (Inr cfg)"
proof -
  have ok: "xok [XElem ''ObjectLockConfiguration'' (lock_nodes cfg)]"
    using assms(2,3) by (cases "olc_retention_mode cfg")
      (auto simp: lock_nodes_def name_ok_def xvalue_def duration_ok_def int_to_string_def split: option.splits)
  have read: "load_string xml (object_lock_body cfg) = Some [XElem ''ObjectLockConfiguration'' (lock_nodes cfg)]"
    using load_string_plain [OF assms(1) ok] by (simp only: lock_text)
  show ?thesis
  proof (cases "olc_retention_mode cfg = RetentionMode_unset")
    case True
    then have "olc_retention_duration_days cfg = None" "olc_retention_duration_years cfg = None"
      using assms(4) by (auto simp: ObjectLockConfig_Validate_def SUCCESS_def split: if_splits)
    with True show ?thesis
      by (simp add: parse_object_lock_def read lock_nodes_def object_lock_config.equality)
  next
    case False
    then obtain m where m: "RetentionModeToString (olc_retention_mode cfg) = Some m" "m \<noteq> []"
      "StringToRetentionMode m = Some (olc_retention_mode cfg)"
      by (cases "olc_retention_mode cfg") (auto simp: StringToRetentionMode_def)
    have d: "olc_retention_duration_days cfg = Some n \<Longrightarrow> stoi_opt (int_to_string n) = Some n"
      "olc_retention_duration_years cfg = Some n \<Longrightarrow> stoi_opt (int_to_string n) = Some n" for n
      using assms(2,3) by (simp_all add: duration_ok_def stoi_opt_int)
    with m d show ?thesis
      by (auto intro!: object_lock_config.equality simp: parse_object_lock_def read lock_nodes_def Let_def set_if_def
          xroot_def int_to_string_nonempty split: option.splits)
  qed
qed

definition encryption_nodes :: "sse_config \<Rightarrow> xnode list" where
  "encryption_nodes cfg = [XElem ''Rule'' [XElem ''ApplyServerSideEncryptionByDefault''
     (xleaf ''SSEAlgorithm'' (sse_algorithm cfg)
      # (if kms_master_key_id cfg \<noteq> [] then [xleaf ''KMSMasterKeyID'' (kms_master_key_id cfg)] else []))]]"

lemma encryption_text:
  "xml_text (XElem ''ServerSideEncryptionConfiguration'' (encryption_nodes cfg)) = encryption_body cfg"
  by (simp add: encryption_nodes_def encryption_body_def xtag_str_def xtag_if_def)

lemma encryption_round_trip:
  assumes "reads_plain xml" "xvalue (sse_algorithm cfg)" "xvalue (kms_master_key_id cfg)"
  shows "GetBucketEncryptionResponse_ParseXML xml (encryption_body cfg) = Inr cfg"
proof -
  have "xok [XElem ''ServerSideEncryptionConfiguration'' (encryption_nodes cfg)]"
    using assms(2,3) by (auto simp: encryption_nodes_def name_ok_def)
  from reads_plainD [OF assms(1) this]
  have "xml (encryption_body cfg) = Some [XElem ''ServerSideEncryptionConfiguration'' (encryption_nodes cfg)]"
    by (simp only: encryption_text)
  then show ?thesis
    by (simp add: GetBucketEncryptionResponse_ParseXML_def encryption_nodes_def xroot_def Let_def
        sse_config.equality)
qed

lemma legal_hold_round_trip:
  assumes "reads_plain xml"
  shows "parse_legal_hold xml (legal_hold_body (if on then ''ON'' else ''OFF'')) = Inr on"
proof -
  let ?n = "XElem ''LegalHold'' [xleaf ''Status'' (if on then ''ON'' else ''OFF'')]"
  have "xok [?n]" by (simp add: name_ok_def xvalue_def)
  from load_string_plain [OF assms this]
  have "load_string xml (legal_hold_body (if on then ''ON'' else ''OFF'')) = Some [?n]"
    by (simp add: legal_hold_body_def)
  then show ?thesis by (simp add: parse_legal_hold_def)
qed

subsection \<open>Replication rules as trees\<close>

definition opt_nodes :: "('a \<Rightarrow> xnode) \<Rightarrow> 'a option \<Rightarrow> xnode list" where
  "opt_nodes f v = (case v of None \<Rightarrow> [] | Some x \<Rightarrow> [f x])"

definition str_nodes :: "string \<Rightarrow> string \<Rightarrow> xnode list" where
  "str_nodes n s = (if s \<noteq> [] then [xleaf n s] else [])"

definition status_node :: "bool \<Rightarrow> xnode" where
  "status_node b = xleaf ''Status'' (if b then ''Enabled'' else ''Disabled'')"

definition minutes_nodes :: "u32 \<Rightarrow> xnode list" where
  "minutes_nodes n = (if 0 < n then [xleaf ''Minutes'' (to_string (unat n))] else [])"

definition destination_nodes :: "destination \<Rightarrow> xnode list" where
  "destination_nodes d =
     [xleaf ''Bucket'' (d_bucket_arn d)]
     @ opt_nodes (\<lambda>owner. XElem ''AccessControlTranslation'' [xleaf ''Owner'' owner]) (d_access_control_translation d)
     @ str_nodes ''Account'' (d_account d)
     @ opt_nodes (\<lambda>key. XElem ''EncryptionConfiguration'' (str_nodes ''ReplicaKmsKeyID'' key)) (d_encryption_config d)
     @ opt_nodes (\<lambda>(n, b). XElem ''Metrics'' [XElem ''EventThreshold'' (minutes_nodes n @ [status_node b])]) (d_metrics d)
     @ opt_nodes (\<lambda>(n, b). XElem ''ReplicationTime'' [XElem ''Time'' (minutes_nodes n), status_node b]) (d_replication_time d)
     @ str_nodes ''StorageClass'' (d_storage_class d)"

definition filter_nodes :: "rule_filter \<Rightarrow> xnode list" where
  "filter_nodes f =
     (if and_operator_bool (f_and f) then [XElem ''And'' (opt_nodes (xleaf ''Prefix'') (and_prefix (f_and f))
        @ map tag_node (and_tags (f_and f)))] else [])
     @ opt_nodes (xleaf ''Prefix'') (f_prefix f) @ (if fst (f_tag f) \<noteq> [] then [tag_node (f_tag f)] else [])"

definition rule_nodes :: "replication_rule \<Rightarrow> xnode list" where
  "rule_nodes r =
     [XElem ''Destination'' (destination_nodes (rr_destination r))]
     @ opt_nodes (\<lambda>b. XElem ''DeleteMarkerReplication'' [status_node b]) (rr_delete_marker_replication_status r)
     @ opt_nodes (\<lambda>b. XElem ''ExistingObjectReplication'' [status_node b]) (rr_existing_object_replication_status r)
     @ (if rule_filter_bool (rr_filter r) then [XElem ''Filter'' (filter_nodes (rr_filter r))] else [])
     @ str_nodes ''ID'' (rr_id r) @ opt_nodes (xleaf ''Prefix'') (rr_prefix r)
     @ opt_nodes (xleaf ''Priority'') (map_option int_to_string (rr_priority r))
     @ opt_nodes (\<lambda>s. XElem ''SourceSelectionCriteria''
         (opt_nodes (\<lambda>b. XElem ''SseKmsEncryptedObjects'' [status_node b]) s)) (rr_source_selection_criteria r)
     @ opt_nodes (\<lambda>b. XElem ''DeleteReplication'' [status_node b]) (rr_delete_replication_status r)
     @ [status_node (rr_status r)]"

definition replication_nodes :: "replication_config \<Rightarrow> xnode list" where
  "replication_nodes c = str_nodes ''Role'' (rc_role c) @ map (\<lambda>r. XElem ''Rule'' (rule_nodes r)) (rc_rules c)"

lemma xml_text_elem: "xml_text (XElem n ks) = xtag n (xml_texts ks)"
  by (simp add: xml_texts_def)

lemma xml_texts_simps [simp]:
  "xml_texts [] = []" "xml_texts (n # ns) = xml_text n @ xml_texts ns" "xml_texts (ms @ ns) = xml_texts ms @ xml_texts ns"
  by (simp_all add: xml_texts_def)

lemma xml_texts_nodes:
  "xml_texts (opt_nodes f v) = opt_xml (\<lambda>x. xml_text (f x)) v" "xml_texts (str_nodes n s) = xtag_str n s"
  "xml_text (status_node b) = status_xml b" "xml_texts (minutes_nodes m) = minutes_xml m"
  "xml_texts (map f xs) = concat (map (\<lambda>x. xml_text (f x)) xs)"
  by (simp_all add: opt_nodes_def opt_xml_def str_nodes_def xtag_str_def xtag_if_def status_node_def status_xml_def
      minutes_nodes_def minutes_xml_def xml_texts_def comp_def split: option.splits)

lemma xtag_opt_xml: "xtag_opt n v = opt_xml (xtag n) v" "xtag_int n i = opt_xml (xtag n) (map_option int_to_string i)"
  by (simp_all add: xtag_opt_def opt_xml_def xtag_int_def)

lemma destination_text: "xml_text (XElem ''Destination'' (destination_nodes d)) = destination_xml d"
  by (simp only: xml_text_elem destination_nodes_def destination_xml_def xml_texts_simps xml_texts_nodes
      append_assoc append_Nil append_Nil2 xml_text_leaf case_prod_unfold append_Cons)

lemma filter_text: "xml_text (XElem ''Filter'' (filter_nodes f)) = filter_xml f"
  by (simp add: xml_text_elem filter_nodes_def filter_xml_def xml_texts_nodes xtag_if_def xtag_opt_xml tag_node_text
      del: xml_text.simps)

lemma rule_text: "xml_text (XElem ''Rule'' (rule_nodes r)) = replication_rule_xml r"
  by (simp only: xml_text_elem [of "''Rule''"] rule_nodes_def replication_rule_xml_def xml_texts_simps xml_texts_nodes
      destination_text [unfolded xml_text_elem] filter_text [unfolded xml_text_elem] xtag_opt_xml xml_text_leaf append_assoc append_Nil append_Nil2 append_Cons
      if_distrib [of xml_texts] xml_text_elem cong: if_cong)

lemma replication_text: "xml_text (XElem ''ReplicationConfiguration'' (replication_nodes c)) = ReplicationConfig_ToXML c"
  by (simp only: xml_text_elem [of "''ReplicationConfiguration''"] replication_nodes_def ReplicationConfig_ToXML_def
      xml_texts_simps xml_texts_nodes rule_text)

subsection \<open>Reading replication rules\<close>

lemma filter_nodes_named [simp]:
  "filter (xnamed a) (opt_nodes (\<lambda>x. XElem n (g x)) v) = (if n = a then opt_nodes (\<lambda>x. XElem n (g x)) v else [])"
  "filter (xnamed a) (opt_nodes (\<lambda>(x, y). XElem n (h x y)) p) = (if n = a then opt_nodes (\<lambda>(x, y). XElem n (h x y)) p else [])"
  "filter (xnamed a) (opt_nodes (xleaf n) s) = (if n = a then opt_nodes (xleaf n) s else [])"
  "filter (xnamed a) (str_nodes n t) = (if n = a then str_nodes n t else [])"
  "filter (xnamed a) (map tag_node tags) = (if a = ''Tag'' then map tag_node tags else [])"
  "xnamed a (status_node b) \<longleftrightarrow> a = ''Status''" "xnamed a (tag_node kv) \<longleftrightarrow> a = ''Tag''"
  by (auto simp: opt_nodes_def str_nodes_def status_node_def tag_node_def split: option.splits prod.splits)

lemma nodes_empty [simp]:
  "opt_nodes f v = [] \<longleftrightarrow> v = None" "str_nodes n t = [] \<longleftrightarrow> t = []"
  by (auto simp: opt_nodes_def str_nodes_def split: option.splits)

lemma opt_nodes_Some [simp]: "opt_nodes f (Some x) = [f x]" "opt_nodes f None = []"
  by (simp_all add: opt_nodes_def)

text \<open>Queries on one name see the nodes of that name only.\<close>

lemma xtext_one: "xtext [a] ns = (case xtexts (concat (map xkids (filter (xnamed a) ns))) of [] \<Rightarrow> [] | t # _ \<Rightarrow> t)"
  by (simp add: xtext_def)

lemma xhas_one: "xhas [a] ns \<longleftrightarrow> filter (xnamed a) ns \<noteq> []"
  by (simp add: xhas_def)

lemma xroot_one: "xroot [a] ns = (case filter (xnamed a) ns of [] \<Rightarrow> [] | n # _ \<Rightarrow> xkids n)"
  by (simp add: xroot_def)

lemma xtexts_str [simp]: "xtexts (concat (map xkids (str_nodes n t))) = (if t = [] then [] else [t])"
  by (simp add: str_nodes_def xkids_leaf)

lemma parse_destination_time:
  assumes "d_replication_time d \<noteq> None"
  shows "parse_destination (destination_nodes d) = None"
proof -
  obtain n b where t: "d_replication_time d = Some (n, b)" using assms by (cases "d_replication_time d") auto
  have "xhas [''ReplicationTime''] (destination_nodes d)"
    by (simp add: xhas_one destination_nodes_def t)
  moreover have "xtext [''ReplicationTime'', ''Time''] (destination_nodes d) = []"
    by (simp add: destination_nodes_def t xtext_one minutes_nodes_def xleaf_def)
  moreover have "stoul [] = None" by (simp add: stoul_def Let_def)
  ultimately show ?thesis unfolding parse_destination_def set_if_def minutes_of_def
    by (simp del: xtext_deep split: option.splits)
qed

lemma map_opt_None: "x \<in> set xs \<Longrightarrow> f x = None \<Longrightarrow> map_opt f xs = None"
  by (induction xs) (auto split: option.splits)

text \<open>The parser looks for the minutes in \<open>Time\<close> itself, and the client prints them in a child of
  \<open>Time\<close>, as the service does: reading back such a rule throws.\<close>

lemma replication_time_throws:
  assumes "reads_plain xml" "xok (replication_nodes cfg)" "r \<in> set (rc_rules cfg)"
    "d_replication_time (rr_destination r) \<noteq> None"
  shows "GetBucketReplicationResponse_ParseXML xml (ReplicationConfig_ToXML cfg) = None"
proof -
  have "xok [XElem ''ReplicationConfiguration'' (replication_nodes cfg)]"
    using assms(2) by (simp add: name_ok_def)
  from reads_plainD [OF assms(1) this]
  have read: "xml (ReplicationConfig_ToXML cfg) = Some [XElem ''ReplicationConfiguration'' (replication_nodes cfg)]"
    by (simp only: replication_text)
  have "parse_replication_rule root (XElem ''Rule'' (rule_nodes r)) = None" for root
    using parse_destination_time [OF assms(4)]
    by (simp add: parse_replication_rule_def xroot_one rule_nodes_def Let_def)
  moreover have "XElem ''Rule'' (rule_nodes r) \<in> set (xselect [''Rule''] (replication_nodes cfg))"
    using assms(3) by (simp add: replication_nodes_def)
  ultimately show ?thesis
    by (simp add: GetBucketReplicationResponse_ParseXML_def read Let_def map_opt_None del: xselect.simps xselect_one)
qed

text \<open>Every other rule is read back as it was, unless its filter has tags in \<open>And\<close>.\<close>

definition destination_ok :: "destination \<Rightarrow> bool" where
  "destination_ok d \<longleftrightarrow> d_replication_time d = None \<and> (\<forall>n b. d_metrics d = Some (n, b) \<longrightarrow> 0 < n)"

definition filter_ok :: "rule_filter \<Rightarrow> bool" where
  "filter_ok f \<longleftrightarrow> and_tags (f_and f) = [] \<and> (fst (f_tag f) = [] \<longrightarrow> snd (f_tag f) = [])
     \<and> (rule_filter_bool f \<or> \<not> and_operator_bool (f_and f) \<and> f_prefix f = None \<and> fst (f_tag f) = [])"

definition rule_ok :: "replication_rule \<Rightarrow> bool" where
  "rule_ok r \<longleftrightarrow> destination_ok (rr_destination r) \<and> filter_ok (rr_filter r) \<and> duration_ok (rr_priority r)"

lemma stoul_to_string: "n < 2 ^ 64 \<Longrightarrow> stoul (to_string n) = Some (word_of_nat n)"
proof -
  assume n: "n < 2 ^ 64"
  have d: "\<forall>c \<in> set (to_string n). is_digit c" using to_string_digits by blast
  then have "is_digit (hd (to_string n))" by simp
  from digit_not_blank [OF this] have "dropWhile is_space (to_string n) = to_string n"
    "hd (to_string n) \<noteq> CHR ''-''" "hd (to_string n) \<noteq> CHR ''+''"
    by (auto simp: dropWhile_id_iff)
  moreover have tw: "takeWhile is_digit (to_string n) = to_string n" by (rule takeWhile_eq_all_conv [THEN iffD2, OF d])
  ultimately show ?thesis using n by (simp add: stoul_def Let_def to_string_val tw)
qed

lemma minutes_read: "map_option ucast (stoul (to_string (unat (n :: u32)))) = Some n"
proof -
  have "unat n < 2 ^ 32" using unsigned_less [of n] by simp
  moreover have "(ucast (ucast n :: u64) :: u32) = n" by transfer simp
  ultimately show ?thesis by (simp add: stoul_to_string)
qed

lemma parse_destination_nodes:
  assumes "destination_ok d"
  shows "parse_destination (destination_nodes d) = Some d"
proof -
  let ?ks = "destination_nodes d"
  have m: "set_if (xhas [''Metrics''] ?ks)
      (map_option (\<lambda>n. (n, xtext [''Metrics'', ''EventThreshold'', ''Status''] ?ks = ''Enabled''))
        (minutes_of [''Metrics'', ''EventThreshold'', ''Minutes''] ?ks)) = Some (d_metrics d)"
  proof (cases "d_metrics d")
    case None
    then have "\<not> xhas [''Metrics''] ?ks" by (simp add: destination_nodes_def xhas_one)
    with None show ?thesis by (simp add: set_if_def)
  next
    case (Some nb)
    obtain n b where nb: "nb = (n, b)" by fastforce
    have "xhas [''Metrics''] ?ks" using Some nb by (simp add: destination_nodes_def xhas_one)
    moreover have "xtext [''Metrics'', ''EventThreshold'', ''Status''] ?ks = ''Enabled'' \<longleftrightarrow> b"
      using Some nb by (simp add: destination_nodes_def xtext_one minutes_nodes_def status_node_def xkids_leaf)
    moreover have "xtext [''Metrics'', ''EventThreshold'', ''Minutes''] ?ks = to_string (unat n)"
      using Some nb assms by (simp add: destination_ok_def destination_nodes_def xtext_one minutes_nodes_def xkids_leaf)
    ultimately show ?thesis using Some nb minutes_read [of n]
      by (simp add: set_if_def minutes_of_def option.map_comp comp_def del: xtext_deep)
  qed
  have t: "\<not> xhas [''ReplicationTime''] (destination_nodes d)"
    using assms by (simp add: destination_ok_def destination_nodes_def xhas_one)
  have "xtext [''Bucket''] ?ks = d_bucket_arn d" "xtext [''Account''] ?ks = d_account d"
    "xtext [''StorageClass''] ?ks = d_storage_class d"
    by (simp_all add: destination_nodes_def xtext_one xkids_leaf)
  moreover have "(if xhas [''AccessControlTranslation''] ?ks then Some (xtext [''AccessControlTranslation'', ''Owner''] ?ks)
      else None) = d_access_control_translation d"
    by (cases "d_access_control_translation d") (simp_all add: destination_nodes_def xhas_one xtext_one xkids_leaf)
  moreover have "(if xhas [''EncryptionConfiguration''] ?ks then Some (xtext [''EncryptionConfiguration'', ''ReplicaKmsKeyID''] ?ks)
      else None) = d_encryption_config d"
    by (cases "d_encryption_config d") (simp_all add: destination_nodes_def xhas_one xtext_one)
  ultimately show ?thesis
    unfolding parse_destination_def m using assms t
    by (simp add: set_if_def destination_ok_def destination.equality del: xtext_deep)
qed

lemma parse_filter_nodes:
  assumes "filter_ok f"
  shows "parse_rule_filter root (filter_nodes f) = f"
proof -
  let ?ks = "filter_nodes f"
  have p: "text_if [''Prefix''] ?ks = f_prefix f"
    by (cases "f_prefix f") (simp_all add: text_if_def filter_nodes_def xhas_one xtext_one xkids_leaf)
  have t: "(if xhas [''Tag''] ?ks then (xtext [''Tag'', ''Key''] ?ks, xtext [''Tag'', ''Value''] ?ks) else ([], []))
      = f_tag f"
    using assms by (cases "f_tag f") (simp add: filter_ok_def filter_nodes_def xhas_one tag_node_def)
  have a: "(if xhas [''And''] ?ks then \<lparr>and_prefix = text_if [''And'', ''Prefix''] ?ks, and_tags = parse_and_tags root ?ks\<rparr>
      else \<lparr>and_prefix = None, and_tags = []\<rparr>) = f_and f"
  proof (cases "and_prefix (f_and f)")
    case None
    with assms show ?thesis
      by (auto simp: filter_ok_def filter_nodes_def xhas_one and_operator_bool_def intro!: and_operator.equality)
  next
    case (Some pre)
    have "xhas [''And''] ?ks" using Some by (simp add: filter_nodes_def xhas_one and_operator_bool_def)
    moreover have "text_if [''And'', ''Prefix''] ?ks = and_prefix (f_and f)"
      using Some by (simp add: text_if_def filter_nodes_def xhas_one xtext_one and_operator_bool_def xkids_leaf)
    moreover have "parse_and_tags root ?ks = and_tags (f_and f)"
      using Some assms by (simp add: parse_and_tags_def filter_ok_def filter_nodes_def xhas_one and_operator_bool_def)
    ultimately show ?thesis by (simp add: and_operator.equality)
  qed
  show ?thesis unfolding parse_rule_filter_def a p t by (simp add: rule_filter.equality)
qed

lemma enabled_if_node:
  "filter (xnamed a) ks = opt_nodes (\<lambda>b. XElem a [status_node b]) v \<Longrightarrow> enabled_if a ks = v"
  by (cases v) (simp_all add: enabled_if_def xhas_one xtext_one status_node_def xkids_leaf)

lemma parse_rule_nodes:
  assumes "rule_ok r"
  shows "parse_replication_rule root (XElem ''Rule'' (rule_nodes r)) = Some r"
proof -
  let ?ks = "rule_nodes r"
  have d: "parse_destination (xroot [''Destination''] ?ks) = Some (rr_destination r)"
    using assms by (simp add: rule_ok_def rule_nodes_def xroot_one parse_destination_nodes)
  have f: "parse_rule_filter root (xroot [''Filter''] ?ks) = rr_filter r"
  proof (cases "rule_filter_bool (rr_filter r)")
    case True
    then have "xroot [''Filter''] ?ks = filter_nodes (rr_filter r)" by (simp add: rule_nodes_def xroot_one)
    with assms show ?thesis by (simp add: rule_ok_def parse_filter_nodes)
  next
    case False
    then have "xroot [''Filter''] ?ks = []" by (simp add: rule_nodes_def xroot_one)
    moreover have "filter_nodes (rr_filter r) = []"
      using assms False by (auto simp: rule_ok_def filter_ok_def filter_nodes_def)
    ultimately show ?thesis using assms parse_filter_nodes [of "rr_filter r" root] by (simp add: rule_ok_def)
  qed
  have p: "set_if (xhas [''Priority''] ?ks) (stoi_opt (xtext [''Priority''] ?ks)) = Some (rr_priority r)"
    using assms by (cases "rr_priority r")
      (simp_all add: rule_ok_def duration_ok_def set_if_def rule_nodes_def xhas_one xtext_one xkids_leaf stoi_opt_int)
  have e: "enabled_if ''DeleteMarkerReplication'' ?ks = rr_delete_marker_replication_status r"
    "enabled_if ''ExistingObjectReplication'' ?ks = rr_existing_object_replication_status r"
    "enabled_if ''DeleteReplication'' ?ks = rr_delete_replication_status r"
    by (rule enabled_if_node, simp add: rule_nodes_def)+
  have x: "xtext [''ID''] ?ks = rr_id r" "xtext [''Status''] ?ks = ''Enabled'' \<longleftrightarrow> rr_status r"
    by (simp_all add: rule_nodes_def xtext_one status_node_def xkids_leaf)
  have i: "text_if [''Prefix''] ?ks = rr_prefix r"
    by (cases "rr_prefix r") (simp_all add: text_if_def rule_nodes_def xhas_one xtext_one xkids_leaf)
  have s: "(if xhas [''SourceSelectionCriteria''] ?ks then
        Some (if xhas [''SourceSelectionCriteria'', ''SseKmsEncryptedObjects''] ?ks then
          Some (xtext [''SourceSelectionCriteria'', ''SseKmsEncryptedObjects'', ''Status''] ?ks = ''Enabled'') else None)
      else None) = rr_source_selection_criteria r"
    by (cases "rr_source_selection_criteria r"; cases "the (rr_source_selection_criteria r)")
      (simp_all add: rule_nodes_def xhas_one xtext_one status_node_def xkids_leaf)
  show ?thesis
    unfolding parse_replication_rule_def xkids.simps Let_def d f p e i x s by (simp add: replication_rule.equality)
qed

lemma map_opt_Some: "(\<And>x. x \<in> set xs \<Longrightarrow> f (g x) = Some x) \<Longrightarrow> map_opt f (map g xs) = Some xs"
  by (induction xs) auto

lemma replication_round_trip:
  assumes "reads_plain xml" "xok (replication_nodes cfg)" "\<forall>r \<in> set (rc_rules cfg). rule_ok r"
  shows "GetBucketReplicationResponse_ParseXML xml (ReplicationConfig_ToXML cfg) = Some (Inr cfg)"
proof -
  have "xok [XElem ''ReplicationConfiguration'' (replication_nodes cfg)]"
    using assms(2) by (simp add: name_ok_def)
  from reads_plainD [OF assms(1) this]
  have read: "xml (ReplicationConfig_ToXML cfg) = Some [XElem ''ReplicationConfiguration'' (replication_nodes cfg)]"
    by (simp only: replication_text)
  have "map_opt (parse_replication_rule root) (map (\<lambda>r. XElem ''Rule'' (rule_nodes r)) (rc_rules cfg)) = Some (rc_rules cfg)"
    for root using assms(3) parse_rule_nodes by (intro map_opt_Some) blast
  moreover have "xselect [''Rule''] (replication_nodes cfg) = map (\<lambda>r. XElem ''Rule'' (rule_nodes r)) (rc_rules cfg)"
    by (simp add: replication_nodes_def filter_id_conv)
  moreover have "xtext [''Role''] (replication_nodes cfg) = rc_role cfg"
    by (simp add: replication_nodes_def xtext_one filter_empty_conv [THEN iffD2])
  ultimately show ?thesis
    by (simp add: GetBucketReplicationResponse_ParseXML_def read Let_def replication_config.equality
        del: xselect.simps xselect_one)
qed

end
