(* ===== verification/Listing.thy ===== *)
theory Listing
  imports BucketApi ObjectApi
begin

section \<open>Results that fetch as they are read (src/client.cc and include/miniocpp/client.h)\<close>

text \<open>
  \<open>ListObjectsResult\<close> is an iterator over the pages of a listing, which fetches the next page while
  the caller reads the current one; \<open>RemoveObjectsResult\<close> is an iterator over the errors of a removal
  in batches. Both are values outside the client, so their operations take the client and return it.
  The prefetch is a thread; the model runs it when it is started, one of its schedules. An iterator
  into a list is its position. What is \<open>None\<close> in a call (the process ends, or a number in an answer
  does not parse) is \<open>None\<close> here too, although the thread catches exceptions.
\<close>

subsection \<open>Listing objects\<close>

record list_result =
  ls_args :: list_objects_args
  ls_failed :: bool
  ls_page :: list_objects_response
  ls_pos :: nat
  ls_prefetch :: "list_objects_response option"

text \<open>\<open>std::make_shared<ListObjectsResponse>()\<close> value-initializes: every member is zero or empty.\<close>

definition empty_page :: list_objects_response where
  "empty_page = \<lparr>lo_name = [], lo_encoding_type = [], lo_prefix = [], lo_delimiter = [],
     lo_is_truncated = Some False, lo_max_keys = Some 0, lo_contents = [], lo_marker = [], lo_next_marker = [],
     lo_key_count = Some 0, lo_start_after = [], lo_continuation_token = [], lo_next_continuation_token = [],
     lo_key_marker = [], lo_next_key_marker = [], lo_version_id_marker = [], lo_next_version_id_marker = []\<rparr>"

definition UpdatePaginationArgs :: "list_objects_response \<Rightarrow> list_objects_args \<Rightarrow> list_objects_args" where
  "UpdatePaginationArgs p a =
     (if l_include_versions a \<or> l_version_id_marker a \<noteq> [] then
        a\<lparr>l_key_marker := lo_next_key_marker p, l_version_id_marker := lo_next_version_id_marker p\<rparr>
      else if l_use_api_v1 a then a\<lparr>l_marker := lo_next_marker p\<rparr>
      else a\<lparr>l_start_after := lo_start_after p, l_continuation_token := lo_next_continuation_token p\<rparr>)"

text \<open>What the thread of \<open>StartPrefetch\<close> does: an error is an empty page.\<close>

definition page_args :: "string \<Rightarrow> list_objects_args \<Rightarrow> list_objects_args" where
  "page_args region a =
     a\<lparr>a_region := region,
       l_delimiter := (if l_recursive a then [] else if l_delimiter a = [] then ''/'' else l_delimiter a)\<rparr>"

definition fetch_page :: "'w client_env \<Rightarrow> list_objects_args \<Rightarrow> (list_objects_response, 'w) op" where
  "fetch_page e a =
     or_else (in_region e a (\<lambda>region.
        let a = page_args region a in
        if l_include_versions a \<or> l_version_id_marker a \<noteq> [] then ListObjectVersions e (ListObjectVersionsArgs_of a)
        else if l_use_api_v1 a then ListObjectsV1 e (ListObjectsV1Args_of a)
        else ListObjectsV2 e (ListObjectsV2Args_of a)))
      (\<lambda>err. ret empty_page)"

definition StartPrefetch :: "'w client_env \<Rightarrow> list_result \<Rightarrow> (list_result, 'w) op" where
  "StartPrefetch e r = and_then (fetch_page e (ls_args r)) (\<lambda>p. ret (r\<lparr>ls_prefetch := Some p\<rparr>))"

definition list_Populate :: "'w client_env \<Rightarrow> list_result \<Rightarrow> (list_result, 'w) op" where
  "list_Populate e r =
     (case ls_prefetch r of
        None \<Rightarrow> ret r
      | Some p \<Rightarrow>
          let r = r\<lparr>ls_page := p, ls_prefetch := None, ls_failed := (ls_failed r \<or> lo_contents p = []), ls_pos := 0\<rparr>
          in if ls_failed r then ret r
             else case lo_is_truncated p of
               None \<Rightarrow> undefined_op
             | Some False \<Rightarrow> ret r
             | Some True \<Rightarrow> StartPrefetch e (r\<lparr>ls_args := UpdatePaginationArgs p (ls_args r)\<rparr>))"

definition ListObjectsResult_err :: "list_objects_args \<Rightarrow> list_result" where
  "ListObjectsResult_err a = \<lparr>ls_args = a, ls_failed = True, ls_page = empty_page, ls_pos = 0, ls_prefetch = None\<rparr>"

definition ListObjectsResult_new :: "'w client_env \<Rightarrow> list_objects_args \<Rightarrow> (list_result, 'w) op" where
  "ListObjectsResult_new e a =
     and_then (StartPrefetch e \<lparr>ls_args = a, ls_failed = False, ls_page = empty_page, ls_pos = 0, ls_prefetch = None\<rparr>)
       (list_Populate e)"

definition ListObjects :: "'w client_env \<Rightarrow> list_objects_args \<Rightarrow> (list_result, 'w) op" where
  "ListObjects e a =
     (if is_err (BucketArgs_Validate a) then ret (ListObjectsResult_err a) else ListObjectsResult_new e a)"

text \<open>\<open>operator bool\<close>, on a result that is not constant, and \<open>operator++\<close>.\<close>

definition at_end :: "list_result \<Rightarrow> bool" where
  "at_end r \<longleftrightarrow> ls_pos r = length (lo_contents (ls_page r))"

definition list_bool :: "'w client_env \<Rightarrow> list_result \<Rightarrow> (bool \<times> list_result, 'w) op" where
  "list_bool e r =
     and_then (if ls_prefetch r \<noteq> None \<and> lo_contents (ls_page r) = [] then list_Populate e r else ret r)
       (\<lambda>r. ret (\<not> at_end r, r))"

definition list_incr :: "'w client_env \<Rightarrow> list_result \<Rightarrow> (list_result, 'w) op" where
  "list_incr e r =
     (let r = r\<lparr>ls_pos := Suc (ls_pos r)\<rparr> in
      if \<not> ls_failed r \<and> at_end r then
        (case lo_is_truncated (ls_page r) of
           None \<Rightarrow> undefined_op
         | Some False \<Rightarrow> ret r
         | Some True \<Rightarrow> list_Populate e r)
      else ret r)"

text \<open>The caller's loop \<open>for (; result; result++) { Item item = *result; ... }\<close>, with fuel for its
  rounds: a server can go on for ever.\<close>

fun list_items :: "nat \<Rightarrow> 'w client_env \<Rightarrow> list_result \<Rightarrow> (item list, 'w) op" where
  "list_items 0 e r = undefined_op"
| "list_items (Suc n) e r =
     and_then (list_bool e r) (\<lambda>(b, r).
       if \<not> b then ret []
       else and_then (list_incr e r) (\<lambda>r'.
         and_then (list_items n e r') (\<lambda>xs. ret (lo_contents (ls_page r) ! ls_pos r # xs))))"

subsection \<open>The pages of a listing\<close>

text \<open>The specification: the pages the server gives, each asked for with the marker of the one
  before; the last one is not truncated, or it is empty, as a page that could not be fetched is.\<close>

inductive pages :: "'w client_env \<Rightarrow> list_objects_args \<Rightarrow> 'w client \<Rightarrow> list_objects_response list \<Rightarrow> 'w client \<Rightarrow> bool"
  for e where
  last_page: "fetch_page e a c = Some (Inr p, c') \<Longrightarrow> lo_contents p = [] \<or> lo_is_truncated p = Some False
    \<Longrightarrow> pages e a c [p] c'"
| next_page: "fetch_page e a c = Some (Inr p, c1) \<Longrightarrow> lo_contents p \<noteq> [] \<Longrightarrow> lo_is_truncated p = Some True
    \<Longrightarrow> pages e (UpdatePaginationArgs p a) c1 ps c' \<Longrightarrow> pages e a c (p # ps) c'"

inductive_cases pages_NilE: "pages e a c [] c'"

abbreviation all_items :: "list_objects_response list \<Rightarrow> item list" where
  "all_items ps \<equiv> concat (map lo_contents ps)"

lemma and_then_Some [simp]: "m c = Some (Inr x, c1) \<Longrightarrow> and_then m f c = f x c1"
  by (simp add: and_then_def on_result_def)

lemma and_then_ret [simp]: "and_then (ret x) f = f x"
  by (rule ext) (simp add: and_then_def on_result_def ret_def)

lemma ret_Some [simp]: "ret x c = Some (Inr x, c)"
  by (simp add: ret_def)

lemma StartPrefetch_page:
  "fetch_page e (ls_args r) c = Some (Inr p, c1) \<Longrightarrow> StartPrefetch e r c = Some (Inr (r\<lparr>ls_prefetch := Some p\<rparr>), c1)"
  by (simp add: StartPrefetch_def)

text \<open>A result that is about to show page \<open>p\<close>: its successors are the rest of the pages.\<close>

definition showing :: "'w client_env \<Rightarrow> list_objects_response \<Rightarrow> list_objects_args \<Rightarrow> list_result \<Rightarrow> 'w client
    \<Rightarrow> list_objects_response list \<Rightarrow> 'w client \<Rightarrow> bool" where
  "showing e p a r c ps c' \<longleftrightarrow>
     ls_page r = p
     \<and> (if ls_failed r then lo_contents p = [] \<and> ls_prefetch r = None \<and> ps = [] \<and> c' = c
        else if lo_is_truncated p = Some False then ls_prefetch r = None \<and> ps = [] \<and> c' = c
        else lo_is_truncated p = Some True \<and> lo_contents p \<noteq> []
          \<and> (\<exists>q qs a' c0. ls_prefetch r = Some q \<and> ps = q # qs \<and> ls_args r = a' \<and> fetch_page e a' c0 = Some (Inr q, c)
            \<and> pages e a' c0 ps c'))"

text \<open>Once a page is at hand, \<open>Populate\<close> shows it.\<close>

lemma list_Populate_shows:
  assumes "pages e (ls_args r) c0 ps c'" "fetch_page e (ls_args r) c0 = Some (Inr p, c)"
    "ls_prefetch r = Some p" "\<not> ls_failed r"
  shows "\<exists>r' c1 qs. list_Populate e r c = Some (Inr r', c1) \<and> ps = p # qs \<and> ls_pos r' = 0
    \<and> showing e p (ls_args r') r' c1 qs c'"
  using assms(1)
proof cases
  case (last_page q)
  with assms(2) have q: "q = p" "c' = c" by simp_all
  show ?thesis
  proof (cases "lo_contents p = []")
    case True
    with assms(3,4) q last_page show ?thesis by (auto simp: list_Populate_def Let_def showing_def)
  next
    case False
    with assms(3,4) q last_page show ?thesis by (auto simp: list_Populate_def Let_def showing_def)
  qed
next
  case (next_page q c1 qs)
  with assms(2) have q: "q = p" "c1 = c" by simp_all
  from next_page(5) obtain p1 c2 where p1: "fetch_page e (UpdatePaginationArgs p (ls_args r)) c = Some (Inr p1, c2)"
    and qs: "\<exists>ps1. qs = p1 # ps1"
    by cases (auto simp: q)
  let ?r = "r\<lparr>ls_page := p, ls_prefetch := Some p1, ls_failed := False, ls_pos := 0,
      ls_args := UpdatePaginationArgs p (ls_args r)\<rparr>"
  have "list_Populate e r c = Some (Inr ?r, c2)"
    using assms(3,4) next_page(3,4) p1 by (simp add: list_Populate_def Let_def q StartPrefetch_def)
  moreover have "showing e p (ls_args ?r) ?r c2 qs c'"
    using next_page(3-5) p1 qs by (auto simp: showing_def q)
  ultimately show ?thesis using next_page(1) q by fastforce
qed

lemma list_bool_showing:
  "showing e p a r c ps c' \<Longrightarrow> list_bool e r c = Some (Inr (\<not> at_end r, r), c)"
  by (auto simp: list_bool_def showing_def split: if_splits)

text \<open>From position \<open>k\<close> of a page, the loop gives what is left of it and the items of the pages to
  come; at the end of a page there are none.\<close>

lemma showing_pos: "showing e p a (r\<lparr>ls_pos := k\<rparr>) c ps c' \<longleftrightarrow> showing e p a r c ps c'"
  by (simp add: showing_def)

lemma showing_more:
  "showing e p a r c (q # qs) c' \<Longrightarrow> \<not> ls_failed r \<and> lo_is_truncated p = Some True \<and> lo_contents p \<noteq> []
     \<and> ls_prefetch r = Some q \<and> (\<exists>c0. fetch_page e (ls_args r) c0 = Some (Inr q, c) \<and> pages e (ls_args r) c0 (q # qs) c')"
  by (simp add: showing_def split: if_splits)

lemma showing_last:
  "showing e p a r c [] c' \<Longrightarrow> c' = c \<and> (ls_failed r \<and> lo_contents p = [] \<or> \<not> ls_failed r \<and> lo_is_truncated p = Some False)"
  by (simp add: showing_def split: if_splits)

lemma showing_start: "showing e p a r c ps c' \<Longrightarrow> 0 < length (lo_contents p) \<or> 0 = length (lo_contents p) \<and> ps = []"
  by (cases ps) (auto dest: showing_more)

lemma list_items_showing:
  assumes "showing e p a r c ps c'" "ls_pos r < length (lo_contents p) \<or> ls_pos r = length (lo_contents p) \<and> ps = []"
    "length (lo_contents p) - ls_pos r + length (all_items ps) < n"
  shows "list_items n e r c = Some (Inr (drop (ls_pos r) (lo_contents p) @ all_items ps), c')"
  using assms
proof (induction n arbitrary: p a r c ps)
  case (Suc n)
  have page: "ls_page r = p" using Suc.prems(1) by (simp add: showing_def)
  note bool = list_bool_showing [OF Suc.prems(1)]
  show ?case
  proof (cases "ls_pos r = length (lo_contents p)")
    case True
    with Suc.prems(2) page have "at_end r" "ps = []" by (simp_all add: at_end_def)
    moreover from this Suc.prems(1) have "c' = c" using showing_last by blast
    ultimately show ?thesis using bool True by simp
  next
    case False
    with Suc.prems(2) have more: "ls_pos r < length (lo_contents p)" by simp
    let ?r = "r\<lparr>ls_pos := Suc (ls_pos r)\<rparr>"
    obtain r' c1 p1 a1 ps1 where step: "list_incr e r c = Some (Inr r', c1)" "showing e p1 a1 r' c1 ps1 c'"
      and pos: "ls_pos r' < length (lo_contents p1) \<or> ls_pos r' = length (lo_contents p1) \<and> ps1 = []"
      and rest: "drop (Suc (ls_pos r)) (lo_contents p) @ all_items ps = drop (ls_pos r') (lo_contents p1) @ all_items ps1"
    proof (cases "Suc (ls_pos r) = length (lo_contents p) \<and> ps \<noteq> []")
      case True
      then obtain q qs where ps: "ps = q # qs" by (cases ps) auto
      with Suc.prems(1) obtain c0 where q: "ls_prefetch r = Some q" "\<not> ls_failed r"
        "fetch_page e (ls_args r) c0 = Some (Inr q, c)" "pages e (ls_args r) c0 ps c'" "lo_is_truncated p = Some True"
        using showing_more by blast
      then obtain r' c1 qs' where *: "list_Populate e ?r c = Some (Inr r', c1)" "ps = q # qs'" "ls_pos r' = 0"
        "showing e q (ls_args r') r' c1 qs' c'"
        using list_Populate_shows [of e ?r c0 ps c' q c] by (auto simp: ps)
      have "list_incr e r c = Some (Inr r', c1)"
        using True q * page by (simp add: list_incr_def at_end_def)
      then show ?thesis using that [of r' c1 q "ls_args r'" qs'] * True showing_start [OF *(4)] by simp
    next
      case False
      then have "list_incr e r c = Some (Inr ?r, c)"
        using Suc.prems(1) page more showing_last [of e p a r c c'] by (cases ps) (auto simp: list_incr_def at_end_def Let_def)
      moreover have "Suc (ls_pos r) < length (lo_contents p) \<or> Suc (ls_pos r) = length (lo_contents p)"
        using more by linarith
      ultimately show ?thesis using that [of ?r c p a ps] Suc.prems(1) False by (auto simp: showing_pos)
    qed
    have len: "length (lo_contents p1) - ls_pos r' + length (all_items ps1) < n"
      using arg_cong [OF rest, of length] Suc.prems(3) more by (simp del: length_concat)
    have "list_items n e r' c1 = Some (Inr (drop (ls_pos r') (lo_contents p1) @ all_items ps1), c')"
      by (rule Suc.IH [OF step(2) pos len])
    moreover have "\<not> at_end r" using False page by (simp add: at_end_def)
    moreover have "drop (ls_pos r) (lo_contents p) = lo_contents p ! ls_pos r # drop (Suc (ls_pos r)) (lo_contents p)"
      using more by (simp add: Cons_nth_drop_Suc)
    ultimately show ?thesis using bool step(1) rest page by simp
  qed
qed simp

text \<open>The loop over a whole listing.\<close>

lemma ListObjects_items:
  assumes "BucketArgs_Validate a = SUCCESS" "pages e a c ps c'" "length (all_items ps) < n"
  shows "and_then (ListObjects e a) (list_items n e) c = Some (Inr (all_items ps), c')"
proof -
  obtain p qs c0 where p: "fetch_page e a c = Some (Inr p, c0)" "ps = p # qs"
    using assms(2) by cases auto
  let ?r = "\<lparr>ls_args = a, ls_failed = False, ls_page = empty_page, ls_pos = 0, ls_prefetch = Some p\<rparr>"
  obtain r' c1 qs' where shown: "list_Populate e ?r c0 = Some (Inr r', c1)" "ps = p # qs'" "ls_pos r' = 0"
      "showing e p (ls_args r') r' c1 qs' c'"
    using list_Populate_shows [of e ?r c ps c' p c0] assms(2) p by auto
  have "ListObjects e a c = Some (Inr r', c1)"
    using assms(1) p(1) shown(1)
    by (simp add: ListObjects_def ListObjectsResult_new_def is_err_def SUCCESS_def StartPrefetch_page)
  moreover have "list_items n e r' c1 = Some (Inr (all_items ps), c')"
    using list_items_showing [OF shown(4)] showing_start [OF shown(4)] shown(2,3) assms(3) by simp
  ultimately show ?thesis by simp
qed

text \<open>An error of the server or of the client is not shown: it looks like the end of the listing.\<close>

lemma fetch_page_hides_errors:
  assumes "fetch_page e a c = Some (r, c')"
  shows "\<exists>p. r = Inr p"
  using assms by (auto simp: fetch_page_def or_else_def on_result_def split: option.splits sum.splits prod.splits)

lemma failed_page_ends:
  assumes "in_region e a k c = Some (Inl err, c')"
    and "k = (\<lambda>region. let a = page_args region a in
        if l_include_versions a \<or> l_version_id_marker a \<noteq> [] then ListObjectVersions e (ListObjectVersionsArgs_of a)
        else if l_use_api_v1 a then ListObjectsV1 e (ListObjectsV1Args_of a)
        else ListObjectsV2 e (ListObjectsV2Args_of a))"
  shows "pages e a c [empty_page] c'"
proof (rule last_page)
  show "fetch_page e a c = Some (Inr empty_page, c')"
    using assms(1) unfolding fetch_page_def assms(2) by (simp add: or_else_def on_result_def)
qed (simp add: empty_page_def)

subsection \<open>Removing objects\<close>

record remove_result =
  rm_args :: remove_objects_args
  rm_objects :: "delete_object list"
  rm_done :: bool
  rm_resp :: remove_objects_response
  rm_pos :: nat

definition remove_resp_empty :: remove_objects_response where
  "remove_resp_empty = \<lparr>ro_objects = [], ro_errors = []\<rparr>"

text \<open>\<open>rm_objects\<close> is what the caller's function has still to yield; a batch takes a thousand of them.\<close>

definition batch_args :: "remove_objects_args \<Rightarrow> delete_object list \<Rightarrow> remove_objects_api_args" where
  "batch_args a objects =
     \<lparr>a_extra_headers = a_extra_headers a, a_extra_query_params = a_extra_query_params a, a_bucket = a_bucket a,
      a_region = a_region a, a_bypass_governance_mode = a_bypass a, a_quiet = True, a_objects = objects\<rparr>"

function remove_Populate :: "'w client_env \<Rightarrow> (string \<Rightarrow> string) \<Rightarrow> remove_result \<Rightarrow> 'w client
    \<Rightarrow> (remove_result \<times> 'w client) option" where
  "remove_Populate e enc r c =
     (if rm_done r \<or> ro_errors (rm_resp r) \<noteq> [] then Some (r, c)
      else
        let batch = take 1000 (rm_objects r) in
        if batch = [] then Some (r\<lparr>rm_done := True, rm_pos := 0\<rparr>, c)
        else case RemoveObjects e enc (batch_args (rm_args r) batch) c of
          None \<Rightarrow> None
        | Some (res, c) \<Rightarrow>
            remove_Populate e enc (r\<lparr>rm_objects := drop 1000 (rm_objects r), rm_pos := 0,
              rm_resp := (case res of Inl err \<Rightarrow> rm_resp r | Inr resp \<Rightarrow> resp)\<rparr>) c)"
  by pat_completeness auto
termination
proof (relation "measure (\<lambda>(e, enc, r, c). length (rm_objects r))", goal_cases)
  case (2 e enc r c)
  then have "rm_objects r \<noteq> []" by auto
  then have "length (drop 1000 (rm_objects r)) < length (rm_objects r)" by (cases "rm_objects r") auto
  then show ?case by simp
qed simp

declare remove_Populate.simps [simp del]

definition RemoveObjectsResult_err :: "remove_objects_args \<Rightarrow> remove_result" where
  "RemoveObjectsResult_err a = \<lparr>rm_args = a, rm_objects = [], rm_done = True, rm_resp = remove_resp_empty, rm_pos = 0\<rparr>"

definition Client_RemoveObjects :: "'w client_env \<Rightarrow> (string \<Rightarrow> string) \<Rightarrow> remove_objects_args \<Rightarrow> 'w client
    \<Rightarrow> (remove_result \<times> 'w client) option" where
  "Client_RemoveObjects e enc a c =
     (if is_err (RemoveObjectsArgs_Validate a) then Some (RemoveObjectsResult_err a, c)
      else remove_Populate e enc \<lparr>rm_args = a,
        rm_objects = (case a_delete_objects a of None \<Rightarrow> [] | Some os \<Rightarrow> os),
        rm_done = False, rm_resp = remove_resp_empty, rm_pos = 0\<rparr> c)"

definition remove_bool :: "remove_result \<Rightarrow> bool" where
  "remove_bool r \<longleftrightarrow> rm_pos r \<noteq> length (ro_errors (rm_resp r))"

definition remove_incr :: "'w client_env \<Rightarrow> (string \<Rightarrow> string) \<Rightarrow> remove_result \<Rightarrow> 'w client
    \<Rightarrow> (remove_result \<times> 'w client) option" where
  "remove_incr e enc r c =
     (let r = r\<lparr>rm_pos := Suc (rm_pos r)\<rparr> in
      if \<not> rm_done r \<and> \<not> remove_bool r then remove_Populate e enc r c else Some (r, c))"

text \<open>The caller's loop over the errors; it steps at most once for every error.\<close>

fun remove_errors :: "nat \<Rightarrow> 'w client_env \<Rightarrow> (string \<Rightarrow> string) \<Rightarrow> remove_result \<Rightarrow> 'w client
    \<Rightarrow> (delete_error list \<times> remove_result \<times> 'w client) option" where
  "remove_errors 0 e enc r c = None"
| "remove_errors (Suc n) e enc r c =
     (if \<not> remove_bool r then Some ([], r, c)
      else case remove_incr e enc r c of
        None \<Rightarrow> None
      | Some (r', c') \<Rightarrow> map_option (\<lambda>(xs, s). (ro_errors (rm_resp r) ! rm_pos r # xs, s)) (remove_errors n e enc r' c'))"

text \<open>The old errors are still there when the next batch should be sent, so none is sent.\<close>

lemma remove_incr_stuck:
  assumes "ro_errors (rm_resp r) \<noteq> []"
  shows "remove_incr e enc r c = Some (r\<lparr>rm_pos := Suc (rm_pos r)\<rparr>, c)"
  using assms by (simp add: remove_incr_def Let_def remove_Populate.simps)

lemma remove_errors_stuck:
  assumes "ro_errors (rm_resp r) \<noteq> []" "rm_pos r \<le> length (ro_errors (rm_resp r))"
    "length (ro_errors (rm_resp r)) - rm_pos r < n"
  shows "remove_errors n e enc r c = Some (drop (rm_pos r) (ro_errors (rm_resp r)),
    r\<lparr>rm_pos := length (ro_errors (rm_resp r))\<rparr>, c)"
  using assms
proof (induction n arbitrary: r)
  case (Suc n)
  show ?case
  proof (cases "rm_pos r = length (ro_errors (rm_resp r))")
    case True
    then have "r = r\<lparr>rm_pos := length (ro_errors (rm_resp r))\<rparr>" by simp
    with True show ?thesis by (simp add: remove_bool_def)
  next
    case False
    let ?r = "r\<lparr>rm_pos := Suc (rm_pos r)\<rparr>"
    have "remove_errors n e enc ?r c = Some (drop (Suc (rm_pos r)) (ro_errors (rm_resp r)),
        r\<lparr>rm_pos := length (ro_errors (rm_resp r))\<rparr>, c)"
      using Suc.IH [of ?r] Suc.prems False by simp
    moreover have "drop (rm_pos r) (ro_errors (rm_resp r))
        = ro_errors (rm_resp r) ! rm_pos r # drop (Suc (rm_pos r)) (ro_errors (rm_resp r))"
      using Suc.prems False by (simp add: Cons_nth_drop_Suc)
    ultimately show ?thesis
      using False by (simp add: remove_bool_def remove_incr_stuck [OF Suc.prems(1)])
  qed
qed simp

lemma remove_Populate_step:
  assumes "\<not> rm_done r" "ro_errors (rm_resp r) = []" "rm_objects r \<noteq> []"
    "RemoveObjects e enc (batch_args (rm_args r) (take 1000 (rm_objects r))) c = Some (res, c1)"
  shows "remove_Populate e enc r c = remove_Populate e enc (r\<lparr>rm_objects := drop 1000 (rm_objects r), rm_pos := 0,
      rm_resp := (case res of Inl err \<Rightarrow> rm_resp r | Inr resp \<Rightarrow> resp)\<rparr>) c1"
  using assms by (subst remove_Populate.simps) (simp add: Let_def)

text \<open>Without errors every object is sent, a thousand at a time; \<open>batches\<close> is the list of batches.\<close>

function batches :: "'a list \<Rightarrow> 'a list list" where
  "batches xs = (if xs = [] then [] else take 1000 xs # batches (drop 1000 xs))"
  by pat_completeness auto
termination by (relation "measure length") auto

declare batches.simps [simp del]

lemma concat_batches: "concat (batches xs) = xs"
  by (induction xs rule: batches.induct) (subst batches.simps, simp)

lemma batches_sizes: "b \<in> set (batches xs) \<Longrightarrow> b \<noteq> [] \<and> length b \<le> 1000"
  by (induction xs rule: batches.induct) (subst (asm) batches.simps, auto split: if_splits)

text \<open>Sending batches one after the other.\<close>

fun send_batches :: "'w client_env \<Rightarrow> (string \<Rightarrow> string) \<Rightarrow> remove_objects_args \<Rightarrow> delete_object list list \<Rightarrow> 'w client
    \<Rightarrow> ((error + remove_objects_response) list \<times> 'w client) option" where
  "send_batches e enc a [] c = Some ([], c)"
| "send_batches e enc a (b # bs) c =
     (case RemoveObjects e enc (batch_args a b) c of
        None \<Rightarrow> None
      | Some (res, c) \<Rightarrow> map_option (\<lambda>(rs, c). (res # rs, c)) (send_batches e enc a bs c))"

definition no_errors :: "(error + remove_objects_response) \<Rightarrow> bool" where
  "no_errors res \<longleftrightarrow> (case res of Inl err \<Rightarrow> True | Inr resp \<Rightarrow> ro_errors resp = [])"

lemma remove_Populate_all:
  assumes "send_batches e enc (rm_args r) (batches (rm_objects r)) c = Some (rs, c')" "list_all no_errors rs"
    "\<not> rm_done r" "ro_errors (rm_resp r) = []"
  shows "\<exists>r'. remove_Populate e enc r c = Some (r', c') \<and> rm_done r' \<and> rm_objects r' = [] \<and> \<not> remove_bool r'"
  using assms
proof (induction "rm_objects r" arbitrary: r c rs rule: batches.induct)
  case 1
  show ?case
  proof (cases "rm_objects r = []")
    case True
    with 1(2-) show ?thesis by (subst remove_Populate.simps) (simp add: batches.simps remove_bool_def)
  next
    case False
    have split: "batches (rm_objects r) = take 1000 (rm_objects r) # batches (drop 1000 (rm_objects r))"
      using False by (subst batches.simps) simp
    with 1(2) obtain res c1 rs' where first: "RemoveObjects e enc (batch_args (rm_args r) (take 1000 (rm_objects r))) c = Some (res, c1)"
      and rest: "send_batches e enc (rm_args r) (batches (drop 1000 (rm_objects r))) c1 = Some (rs', c')" "rs = res # rs'"
      by (auto split: option.splits)
    let ?r = "r\<lparr>rm_objects := drop 1000 (rm_objects r), rm_pos := 0,
      rm_resp := (case res of Inl err \<Rightarrow> rm_resp r | Inr resp \<Rightarrow> resp)\<rparr>"
    have "ro_errors (rm_resp ?r) = []"
      using 1(3,5) rest(2) by (simp add: no_errors_def split: sum.splits)
    then have "\<exists>r'. remove_Populate e enc ?r c1 = Some (r', c') \<and> rm_done r' \<and> rm_objects r' = [] \<and> \<not> remove_bool r'"
      using 1(1) [OF False, of ?r c1 rs'] rest 1(3,4) by simp
    with remove_Populate_step [OF 1(4,5) False first] show ?thesis by simp
  qed
qed

text \<open>The first answer with errors ends it: the batches up to there were sent, the rest are kept.\<close>

lemma batches_Cons: "batches xs = b # bs \<Longrightarrow> xs \<noteq> [] \<and> b = take 1000 xs \<and> bs = batches (drop 1000 xs)"
  by (subst (asm) batches.simps) (auto split: if_splits)

lemma remove_Populate_errors:
  assumes "batches (rm_objects r) = bs @ b # rest" "send_batches e enc (rm_args r) (bs @ [b]) c = Some (rs @ [Inr resp], c1)"
    "list_all no_errors rs" "ro_errors resp \<noteq> []" "\<not> rm_done r" "ro_errors (rm_resp r) = []"
  shows "\<exists>r'. remove_Populate e enc r c = Some (r', c1) \<and> rm_resp r' = resp \<and> rm_pos r' = 0 \<and> \<not> rm_done r'
    \<and> batches (rm_objects r') = rest"
  using assms
proof (induction bs arbitrary: r c rs)
  case Nil
  note split = batches_Cons [OF Nil(1) [simplified]]
  from Nil(2) split have first: "RemoveObjects e enc (batch_args (rm_args r) (take 1000 (rm_objects r))) c = Some (Inr resp, c1)"
    by (auto split: option.splits)
  let ?r = "r\<lparr>rm_objects := drop 1000 (rm_objects r), rm_pos := 0, rm_resp := resp\<rparr>"
  have "remove_Populate e enc ?r c1 = Some (?r, c1)" using Nil(4) by (simp add: remove_Populate.simps [of e enc ?r])
  then have "remove_Populate e enc r c = Some (?r, c1)"
    using remove_Populate_step [OF Nil(5,6) _ first] split by simp
  then show ?case using split Nil(5) by auto
next
  case (Cons b0 bs)
  note split = batches_Cons [OF Cons.prems(1) [simplified]]
  from Cons.prems(2) split obtain res c2 rs' where
    first: "RemoveObjects e enc (batch_args (rm_args r) (take 1000 (rm_objects r))) c = Some (res, c2)"
    and later: "send_batches e enc (rm_args r) (bs @ [b]) c2 = Some (rs', c1)" "rs @ [Inr resp] = res # rs'"
    by (auto split: option.splits)
  have "rs' \<noteq> []" using later(1) by (cases bs) (auto split: option.splits)
  with later(2) obtain rs1 where rs: "rs = res # rs1" "rs' = rs1 @ [Inr resp]" by (cases rs) auto
  let ?r = "r\<lparr>rm_objects := drop 1000 (rm_objects r), rm_pos := 0,
      rm_resp := (case res of Inl err \<Rightarrow> rm_resp r | Inr resp \<Rightarrow> resp)\<rparr>"
  have "ro_errors (rm_resp ?r) = []"
    using Cons.prems(3,6) rs(1) by (simp add: no_errors_def split: sum.splits)
  then have "\<exists>r'. remove_Populate e enc ?r c2 = Some (r', c1) \<and> rm_resp r' = resp \<and> rm_pos r' = 0 \<and> \<not> rm_done r'
      \<and> batches (rm_objects r') = rest"
    using Cons.IH [of ?r c2 rs1] later(1) rs Cons.prems(3-5) split by simp
  with remove_Populate_step [OF Cons.prems(5,6) _ first] split show ?case by simp
qed

lemma first_errors_end_removal:
  assumes "RemoveObjectsArgs_Validate a = SUCCESS" "a_delete_objects a = Some os" "batches os = bs @ b # rest"
    "send_batches e enc a (bs @ [b]) c = Some (rs @ [Inr resp], c1)" "list_all no_errors rs" "ro_errors resp \<noteq> []"
    "length (ro_errors resp) < n"
  shows "\<exists>r r'. Client_RemoveObjects e enc a c = Some (r, c1)
    \<and> remove_errors n e enc r c1 = Some (ro_errors resp, r', c1)
    \<and> rm_objects r' = concat rest \<and> \<not> remove_bool r'"
proof -
  let ?r = "\<lparr>rm_args = a, rm_objects = os, rm_done = False, rm_resp = remove_resp_empty, rm_pos = 0\<rparr>"
  have "Client_RemoveObjects e enc a c = remove_Populate e enc ?r c"
    using assms(1,2) by (simp add: Client_RemoveObjects_def is_err_def SUCCESS_def)
  moreover obtain r where r: "remove_Populate e enc ?r c = Some (r, c1)" "rm_resp r = resp" "rm_pos r = 0"
    "batches (rm_objects r) = rest"
    using remove_Populate_errors [of ?r bs b rest e enc c rs resp c1] assms(3-6) by (auto simp: remove_resp_empty_def)
  moreover have "remove_errors n e enc r c1
      = Some (ro_errors resp, r\<lparr>rm_pos := length (ro_errors resp)\<rparr>, c1)"
    using remove_errors_stuck [of r n e enc c1] assms(6,7) r by simp
  moreover have "rm_objects r = concat rest" using r(4) concat_batches by metis
  ultimately show ?thesis using r(2) by (auto simp: remove_bool_def)
qed

end
