(* ===== verification/Uploads.thy ===== *)
theory Uploads
  imports ObjectApi
begin

section \<open>Uploading a stream (src/client.cc: PutObject, UploadObject)\<close>

text \<open>
  The sequential upload: the stream is read part by part, the first read decides between one \<open>PutObject\<close>
  and a multipart upload, and a failed multipart upload is aborted. A stream is the bytes still in it, a
  part buffer the bytes read into it; \<open>alloc n size\<close> tells whether \<open>n\<close> page-aligned buffers of a size can
  be had. Progress functions are not modelled, nor the RDMA paths of \<open>MINIO_CPP_RDMA\<close>.
\<close>

subsection \<open>What the two uploads send\<close>

text \<open>The headers of the object, with its type.\<close>

definition upload_headers :: "int \<Rightarrow> put_object_args \<Rightarrow> multimap option" where
  "upload_headers tz a =
     map_option (\<lambda>hs. if mm_Contains ''Content-Type'' hs then hs
         else if a_content_type a = [] then Add ''Content-Type'' ''application/octet-stream'' hs
         else Add ''Content-Type'' (a_content_type a) hs)
       (ObjectWriteArgs_Headers tz a)"

definition single_put_args :: "put_object_args \<Rightarrow> multimap \<Rightarrow> string \<Rightarrow> put_object_api_args" where
  "single_put_args a hs data =
     \<lparr>a_extra_headers = mm_empty, a_extra_query_params = a_extra_query_params a, a_bucket = a_bucket a,
      a_region = a_region a, a_object = a_object a, a_headers = hs, a_user_metadata = mm_empty, a_sse = None,
      a_tags = [], a_retention = None, a_legal_hold = False, a_object_size = None, a_part_size = 0,
      a_part_count = None, a_content_type = [], a_data = data, a_query_params = mm_empty\<rparr>"

definition create_upload_args :: "'b object_write_args_scheme \<Rightarrow> multimap \<Rightarrow> create_multipart_upload_args" where
  "create_upload_args a hs =
     \<lparr>a_extra_headers = mm_empty, a_extra_query_params = a_extra_query_params a, a_bucket = a_bucket a,
      a_region = a_region a, a_object = a_object a, a_create_headers = hs\<rparr>"

text \<open>The headers of a customer key go with every part.\<close>

definition customer_key_headers :: "'b object_write_args_scheme \<Rightarrow> multimap" where
  "customer_key_headers a =
     (case a_sse a of None \<Rightarrow> mm_empty | Some s \<Rightarrow> if sse_is_customer_key s then sse_headers s else mm_empty)"

definition part_args :: "put_object_args \<Rightarrow> multimap \<Rightarrow> string \<Rightarrow> u32 \<Rightarrow> string \<Rightarrow> upload_part_args" where
  "part_args a hs upload_id n data =
     (let up = (if mm_Contains ''x-amz-content-sha256'' hs
            then Add ''x-amz-content-sha256'' (GetFront ''x-amz-content-sha256'' hs) mm_empty else mm_empty);
          up = AddAll (customer_key_headers a) up
      in \<lparr>a_extra_headers = mm_empty, a_extra_query_params = mm_empty, a_bucket = a_bucket a,
        a_region = a_region a, a_object = a_object a, a_headers = up, a_user_metadata = mm_empty, a_sse = None,
        a_tags = [], a_retention = None, a_legal_hold = False, a_part_upload_id = upload_id, a_part_number = n,
        a_part_data = data\<rparr>)"

definition uploaded_part :: "u32 \<Rightarrow> put_object_response \<Rightarrow> part" where
  "uploaded_part n resp = \<lparr>part_number = n, part_etag = po_etag resp, part_checksum_crc64nvme = []\<rparr>"

definition complete_args :: "'b object_args_scheme \<Rightarrow> string \<Rightarrow> part list \<Rightarrow> complete_multipart_upload_args" where
  "complete_args a upload_id parts =
     \<lparr>a_extra_headers = mm_empty, a_extra_query_params = mm_empty, a_bucket = a_bucket a, a_region = a_region a,
      a_object = a_object a, a_upload_id = upload_id, a_parts = parts\<rparr>"

definition abort_args :: "'b object_args_scheme \<Rightarrow> string \<Rightarrow> abort_multipart_upload_args" where
  "abort_args a upload_id =
     \<lparr>a_extra_headers = mm_empty, a_extra_query_params = mm_empty, a_bucket = a_bucket a, a_region = a_region a,
      a_object = a_object a, a_upload_id = upload_id\<rparr>"

text \<open>\<open>if (upload_id.empty()) ... CreateMultipartUpload(cmu_args) ...\<close>\<close>

definition start_upload :: "'w client_env \<Rightarrow> put_object_args \<Rightarrow> multimap \<Rightarrow> string \<Rightarrow> (string, 'w) op" where
  "start_upload e a hs upload_id =
     (if upload_id = [] then CreateMultipartUpload e (create_upload_args a hs) else ret upload_id)"

definition complete_upload :: "'w client_env \<Rightarrow> put_object_args \<Rightarrow> string \<Rightarrow> part list \<Rightarrow> (put_object_response, 'w) op" where
  "complete_upload e a upload_id parts =
     and_then (CompleteMultipartUpload e (complete_args a upload_id parts)) (\<lambda>resp. ret (put_of_complete resp))"

text \<open>An error of the abort is ignored.\<close>

definition abort_upload :: "'w client_env \<Rightarrow> 'b object_args_scheme \<Rightarrow> string \<Rightarrow> error \<Rightarrow> ('a, 'w) op" where
  "abort_upload e a upload_id err =
     (if upload_id = [] then fail err
      else on_result (AbortMultipartUpload e (abort_args a upload_id)) (\<lambda>_. fail err) (\<lambda>_. fail err))"

subsection \<open>Reading parts\<close>

text \<open>\<open>None\<close>: a stream that is set to throw does so when it ends too early.\<close>

definition ReadPart :: "bool \<Rightarrow> string \<Rightarrow> nat \<Rightarrow> (string \<times> string) option" where
  "ReadPart throws stream n =
     (if throws \<and> length stream < n then None else Some (take n stream, drop n stream))"

text \<open>The variables that the lambda \<open>read_part_data\<close> of both loops captures.\<close>

record part_reader =
  pr_stream :: string
  pr_throws :: bool
  pr_part_size :: u64
  pr_part_count :: "u64 option"
  pr_part_number :: u32
  pr_uploaded :: u64
  pr_one_byte :: string
  pr_stop :: bool

definition reader_new :: "put_object_args \<Rightarrow> istream \<Rightarrow> part_reader" where
  "reader_new a stream =
     \<lparr>pr_stream = is_bytes stream, pr_throws = is_throws stream, pr_part_size = a_part_size a, pr_part_count = a_part_count a, pr_part_number = 0,
      pr_uploaded = 0, pr_one_byte = [], pr_stop = False\<rparr>"

text \<open>With a known number of parts: a part is read whole.\<close>

definition read_exactly :: "part_reader \<Rightarrow> (error \<times> string \<times> part_reader) option" where
  "read_exactly r =
     (let n = unat (pr_part_size r) in
      case ReadPart (pr_throws r) (pr_stream r) n of
        None \<Rightarrow> None
      | Some (data, rest) \<Rightarrow>
          let r = r\<lparr>pr_stream := rest\<rparr> in
          if length data \<noteq> n then
            Some (''not enough data in the stream; expected: '' @ to_string n @ '', got: ''
              @ to_string (length data) @ '' bytes'', data, r)
          else Some (SUCCESS, data, r))"

text \<open>With an unknown one: a byte more is read, and kept for the next part.\<close>

definition read_ahead :: "part_reader \<Rightarrow> (error \<times> string \<times> part_reader) option" where
  "read_ahead r =
     (let n = unat (pr_part_size r);
          kept = take 1 (pr_one_byte r);
          size = (if kept \<noteq> [] then pr_part_size r + 1 - 1 else pr_part_size r + 1)
      in case ReadPart (pr_throws r) (pr_stream r) (unat size) of
        None \<Rightarrow> None
      | Some (b, rest) \<Rightarrow>
          let data = kept @ b;
              r = r\<lparr>pr_stream := rest, pr_one_byte := []\<rparr>
          in if length data \<le> n then
               Some (SUCCESS, data, r\<lparr>pr_part_count := Some (ucast (pr_part_number r)),
                  pr_part_size := word_of_nat (length data), pr_stop := True\<rparr>)
             else Some (SUCCESS, data, r\<lparr>pr_one_byte := [data ! n]\<rparr>))"

text \<open>\<open>None\<close> also when the size is dereferenced and is not there.\<close>

definition read_part_data :: "u64 option \<Rightarrow> part_reader \<Rightarrow> (error \<times> string \<times> part_reader) option" where
  "read_part_data object_size r =
     (case pr_part_count r of
        None \<Rightarrow> read_ahead r
      | Some cnt \<Rightarrow>
          if ucast (pr_part_number r) = cnt then
            (case object_size of
               None \<Rightarrow> None
             | Some n \<Rightarrow> read_exactly (r\<lparr>pr_part_size := n - pr_uploaded r, pr_stop := True\<rparr>))
          else read_exactly r)"

text \<open>What a round of either loop reads; then the part is \<open>std::string_view(buf, part_size)\<close>.\<close>

definition next_part :: "u64 option \<Rightarrow> part_reader \<Rightarrow> (error \<times> string \<times> part_reader) option" where
  "next_part object_size r =
     (case read_part_data object_size (r\<lparr>pr_part_number := pr_part_number r + 1\<rparr>) of
        None \<Rightarrow> None
      | Some (err, data, r) \<Rightarrow>
          Some (err, data, if is_err err then r else r\<lparr>pr_uploaded := pr_uploaded r + pr_part_size r\<rparr>))"

subsection \<open>The sequential upload\<close>

text \<open>The loop may go on for ever, or end the process: \<open>None\<close>. It gives the upload ID with an error too.\<close>

definition keep_id :: "string \<Rightarrow> ('a, 'w) op \<Rightarrow> 'w client \<Rightarrow> ((error + 'a) \<times> string \<times> 'w client) option" where
  "keep_id upload_id m c = map_option (\<lambda>(r, c). (r, upload_id, c)) (m c)"

partial_function (option) put_parts :: "'w client_env \<Rightarrow> put_object_args \<Rightarrow> multimap \<Rightarrow> part_reader \<Rightarrow> part list
    \<Rightarrow> string \<Rightarrow> 'w client \<Rightarrow> ((error + put_object_response) \<times> string \<times> 'w client) option" where
  "put_parts e a hs r parts upload_id c =
     (if pr_stop r then keep_id upload_id (complete_upload e a upload_id parts) c
      else case next_part (a_object_size a) r of
        None \<Rightarrow> None
      | Some (err, buf, r) \<Rightarrow>
          if is_err err then Some (Inl err, upload_id, c)
          else if pr_part_count r = Some 1 then
            keep_id upload_id (ObjectApi.PutObject e (single_put_args a hs (take (unat (pr_part_size r)) buf))) c
          else case start_upload e a hs upload_id c of
            None \<Rightarrow> None
          | Some (Inl err, c) \<Rightarrow> Some (Inl err, upload_id, c)
          | Some (Inr upload_id, c) \<Rightarrow>
              (case UploadPart e (part_args a hs upload_id (pr_part_number r) (take (unat (pr_part_size r)) buf)) c of
                 None \<Rightarrow> None
               | Some (Inl err, c) \<Rightarrow> Some (Inl err, upload_id, c)
               | Some (Inr resp, c) \<Rightarrow>
                   put_parts e a hs r (parts @ [uploaded_part (pr_part_number r) resp]) upload_id c))"

text \<open>The size of a part buffer.\<close>

definition buffer_size :: "put_object_args \<Rightarrow> u64" where
  "buffer_size a = (case a_part_count a of
     Some cnt \<Rightarrow> if 0 < cnt then a_part_size a else a_part_size a + 1 | None \<Rightarrow> a_part_size a + 1)"

text \<open>Without a stream (a caller's buffer) the loop reads from a null pointer.\<close>

definition put_sequential :: "(nat \<Rightarrow> nat \<Rightarrow> bool) \<Rightarrow> 'w client_env \<Rightarrow> put_object_args \<Rightarrow> (put_object_response, 'w) op" where
  "put_sequential alloc e a c =
     (if \<not> alloc 1 (unat (buffer_size a)) then fail ''unable to allocate system memory with alignment'' c
      else case (upload_headers (timezone (ce_crypto e)) a, a_stream a) of
        (Some hs, Some stream) \<Rightarrow>
          (case put_parts e a hs (reader_new a stream) [] [] c of
             None \<Rightarrow> None
           | Some (Inl err, upload_id, c) \<Rightarrow> abort_upload e a upload_id err c
           | Some (Inr resp, upload_id, c) \<Rightarrow> ret resp c)
      | _ \<Rightarrow> None)"

subsection \<open>The pieces of an object\<close>

text \<open>The specification of reading: an object is cut into pieces of the part size; only the last may be
  shorter, and only the piece of an empty object is empty.\<close>

function split_every :: "nat \<Rightarrow> 'a list \<Rightarrow> 'a list list" where
  "split_every p s = (if p = 0 \<or> length s \<le> p then [s] else take p s # split_every p (drop p s))"
  by pat_completeness auto
termination by (relation "measure (\<lambda>(p, s). length s)") auto

declare split_every.simps [simp del]

lemma concat_chunks: "concat (split_every p s) = s"
  by (induction p s rule: split_every.induct) (subst split_every.simps, simp)

lemma split_every_last: "length s \<le> p \<Longrightarrow> split_every p s = [s]"
  by (simp add: split_every.simps)

lemma split_every_more: "0 < p \<Longrightarrow> p < length s \<Longrightarrow> split_every p s = take p s # split_every p (drop p s)"
  by (subst split_every.simps) simp

lemma split_every_not_Nil [simp]: "split_every p s \<noteq> []"
  by (subst split_every.simps) simp

lemma split_every_length: "0 < p \<Longrightarrow> length (split_every p s) \<le> Suc (length s div p)"
proof (induction p s rule: split_every.induct)
  case (1 p s)
  show ?case
  proof (cases "length s \<le> p")
    case False
    with 1 have "length (split_every p (drop p s)) \<le> Suc ((length s - p) div p)" by simp
    moreover have "length s div p = Suc ((length s - p) div p)"
      using 1(2) False by (simp add: le_div_geq)
    ultimately show ?thesis using 1(2) False by (simp add: split_every_more)
  qed (simp add: split_every_last)
qed

text \<open>A reader that delivers the pieces \<open>ps\<close>, each in a buffer of \<open>b\<close> bytes.\<close>

fun delivers :: "nat \<Rightarrow> u64 option \<Rightarrow> part_reader \<Rightarrow> string list \<Rightarrow> bool" where
  "delivers b n r [] \<longleftrightarrow> pr_stop r"
| "delivers b n r (p # ps) \<longleftrightarrow> \<not> pr_stop r \<and> (\<exists>buf r'. next_part n r = Some (SUCCESS, buf, r')
     \<and> take (unat (pr_part_size r')) buf = p \<and> unat (pr_part_size r') \<le> length buf \<and> length buf \<le> b
     \<and> pr_part_number r' = pr_part_number r + 1
     \<and> (pr_part_count r' = Some 1 \<longleftrightarrow> pr_part_number r' = 1 \<and> ps = []) \<and> delivers b n r' ps)"

lemma SUCCESS_no_err [simp]: "\<not> is_err SUCCESS"
  by (simp add: is_err_def SUCCESS_def)

lemma unat_u64: "unat (n :: u64) < 2 ^ 64"
  by (rule order_less_le_trans [OF unsigned_less]) simp

lemma unat_u32: "unat (m :: u32) < 2 ^ 32"
  by (rule order_less_le_trans [OF unsigned_less]) simp

lemma unat_part_number [simp]: "unat (ucast (m :: u32) :: u64) = unat m"
proof -
  have "unat m < 2 ^ 64" using unat_u32 [of m] by simp
  then show ?thesis by (simp add: unsigned_ucast_eq take_bit_eq_mod)
qed

lemma part_number_is: "k < 2 ^ 32 \<Longrightarrow> ucast (word_of_nat k :: u32) = (cnt :: u64) \<longleftrightarrow> k = unat cnt"
  by (simp add: word_unat_eq_iff unat_of_nat)

lemma ucast_one: "ucast (m :: u32) = (1 :: u64) \<longleftrightarrow> m = 1"
  by (simp add: word_unat_eq_iff)

text \<open>A known size: \<open>k\<close> parts are read, and the last one is what is left.\<close>

definition known_reader :: "bool \<Rightarrow> string \<Rightarrow> u64 \<Rightarrow> u64 \<Rightarrow> nat \<Rightarrow> part_reader" where
  "known_reader th s psz cnt k = \<lparr>pr_stream = drop (k * unat psz) s,
     pr_throws = th, pr_part_size = psz, pr_part_count = Some cnt,
     pr_part_number = word_of_nat k, pr_uploaded = word_of_nat (k * unat psz), pr_one_byte = [], pr_stop = False\<rparr>"

lemma read_exactly_ok:
  "unat (pr_part_size r) \<le> length (pr_stream r) \<Longrightarrow> read_exactly r
     = Some (SUCCESS, take (unat (pr_part_size r)) (pr_stream r), r\<lparr>pr_stream := drop (unat (pr_part_size r)) (pr_stream r)\<rparr>)"
  by (simp add: read_exactly_def ReadPart_def Let_def)

lemma known_reader_next:
  "word_of_nat k + 1 = (word_of_nat (Suc k) :: u32)"
  "word_of_nat (k * unat psz) + psz = (word_of_nat (Suc k * unat psz) :: u64)"
  by simp_all

lemma known_reader_number:
  "pr_part_number (known_reader th s psz cnt k) = word_of_nat k" "\<not> pr_stop (known_reader th s psz cnt k)"
  "pr_part_count (known_reader th s psz cnt k) = Some cnt" "pr_part_size (known_reader th s psz cnt k) = psz"
  "word_of_nat (Suc k) = (word_of_nat k + 1 :: u32)"
  by (simp_all add: known_reader_def)

lemma next_known:
  assumes "Suc k < unat cnt" "unat cnt \<le> 10000" "Suc k * unat psz \<le> length s"
  shows "next_part (Some n) (known_reader th s psz cnt k)
    = Some (SUCCESS, take (unat psz) (drop (k * unat psz) s), known_reader th s psz cnt (Suc k))"
proof -
  have "ucast (word_of_nat (Suc k) :: u32) \<noteq> cnt" using assms(1,2) by (subst part_number_is) simp_all
  moreover have "unat psz \<le> length s - k * unat psz" using assms(3) by simp
  moreover have "drop (unat psz) (drop (k * unat psz) s) = drop (Suc k * unat psz) s" by simp
  ultimately show ?thesis
    by (simp add: next_part_def read_part_data_def read_exactly_ok known_reader_def known_reader_next
        del: of_nat_Suc of_nat_mult mult_Suc drop_drop)
qed

lemma next_known_last:
  assumes "Suc k = unat cnt" "unat cnt \<le> 10000" "k * unat psz \<le> unat n" "unat n \<le> length s"
  shows "\<exists>r'. next_part (Some n) (known_reader th s psz cnt k)
      = Some (SUCCESS, drop (k * unat psz) (take (unat n) s), r')
    \<and> unat (pr_part_size r') = unat n - k * unat psz \<and> pr_part_count r' = Some cnt
    \<and> pr_part_number r' = word_of_nat (Suc k) \<and> pr_stop r'"
proof -
  have "unat (word_of_nat (k * unat psz) :: u64) = k * unat psz"
    using assms(3) unat_u64 [of n] by (simp add: unat_of_nat del: of_nat_mult)
  then have "unat (n - word_of_nat (k * unat psz)) = unat n - k * unat psz"
    using assms(3) by (simp add: unat_sub word_le_nat_alt del: of_nat_mult)
  moreover have "ucast (word_of_nat (Suc k) :: u32) = cnt" using assms(1,2) by (subst part_number_is) simp_all
  ultimately show ?thesis
    using assms(4) by (simp add: next_part_def read_part_data_def read_exactly_ok known_reader_def
        known_reader_next drop_take del: of_nat_Suc of_nat_mult mult_Suc)
qed

lemma known_delivers:
  assumes plan: "unat cnt \<le> 10000" "unat n \<le> unat cnt * unat psz" "n = 0 \<and> cnt = 1 \<or> (unat cnt - 1) * unat psz < unat n"
      "unat psz \<le> unat n" "unat n \<le> length s"
    and k: "k < unat cnt"
  shows "delivers (unat psz) (Some n) (known_reader th s psz cnt k)
    (split_every (unat psz) (drop (k * unat psz) (take (unat n) s)))"
  using k
proof (induction "unat cnt - k" arbitrary: k)
  case (Suc d)
  let ?p = "unat psz" and ?N = "unat n"
  let ?rest = "drop (k * ?p) (take ?N s)"
  have len: "length ?rest = ?N - k * ?p" using plan(5) by simp
  have upto: "k * ?p \<le> ?N"
  proof (cases "n = 0")
    case False
    have "k * ?p \<le> (unat cnt - 1) * ?p" using Suc.prems by (intro mult_le_mono1) linarith
    with False plan(3) show ?thesis by linarith
  qed (use plan(4) in simp)
  show ?case
  proof (cases "Suc k = unat cnt")
    case True
    then have "?N \<le> k * ?p + ?p" using plan(2) by (metis add.commute mult_Suc)
    then have last: "length ?rest \<le> ?p" "?N - k * ?p \<le> ?p" using len by simp_all
    moreover have "cnt = 1 \<longleftrightarrow> word_of_nat (Suc k) = (1 :: u32)"
      using part_number_is [of "Suc k" cnt] True plan(1) ucast_one by fastforce
    moreover obtain r' where r': "next_part (Some n) (known_reader th s psz cnt k) = Some (SUCCESS, ?rest, r')"
      "unat (pr_part_size r') = ?N - k * ?p" "pr_part_count r' = Some cnt" "pr_part_number r' = word_of_nat (Suc k)"
      "pr_stop r'"
      using next_known_last [OF True plan(1) upto plan(5)] by blast
    ultimately show ?thesis
      using len by (simp add: split_every_last known_reader_number del: of_nat_Suc)
  next
    case False
    then have more: "Suc k < unat cnt" using Suc.prems by simp
    then have "Suc k * ?p \<le> (unat cnt - 1) * ?p" by (intro mult_le_mono1) linarith
    moreover have "0 < ?p" "n \<noteq> 0"
    proof -
      show "n \<noteq> 0" using plan(3) more by auto
      then show "0 < ?p" using plan(2) by (cases "?p = 0") (auto simp: unat_eq_zero unat_gt_0)
    qed
    ultimately have "Suc k * ?p < ?N" using plan(3) by linarith
    then have "split_every ?p ?rest = take ?p ?rest # split_every ?p (drop (Suc k * ?p) (take ?N s))"
      using len \<open>0 < ?p\<close> by (subst split_every_more) (simp_all add: ac_simps)
    moreover have "delivers ?p (Some n) (known_reader th s psz cnt (Suc k)) (split_every ?p (drop (Suc k * ?p) (take ?N s)))"
      using Suc.hyps(2) more by (intro Suc.hyps(1)) simp_all
    moreover have "take ?p ?rest = take ?p (drop (k * ?p) s)"
      using \<open>Suc k * ?p < ?N\<close> by (simp add: drop_take min_def)
    moreover have "cnt \<noteq> 1" using more by auto
    ultimately show ?thesis
      using next_known [OF more plan(1), of psz s n] \<open>Suc k * ?p < ?N\<close> plan(5)
      by (simp add: known_reader_number del: of_nat_Suc)
  qed
qed simp

text \<open>An unknown size: the kept byte and the stream are what is left.\<close>

lemma read_ahead_eq:
  assumes "unat (pr_part_size r) + 1 < 2 ^ 64" "length (pr_one_byte r) \<le> 1" "\<not> pr_throws r"
  shows "read_ahead r =
    (let n = unat (pr_part_size r); left = pr_one_byte r @ pr_stream r in
     if length left \<le> n then
       Some (SUCCESS, left, r\<lparr>pr_stream := [], pr_one_byte := [], pr_part_count := Some (ucast (pr_part_number r)),
          pr_part_size := word_of_nat (length left), pr_stop := True\<rparr>)
     else Some (SUCCESS, take (Suc n) left, r\<lparr>pr_stream := drop (Suc n) left, pr_one_byte := [left ! n]\<rparr>))"
proof -
  have size: "unat (pr_part_size r + 1) = Suc (unat (pr_part_size r))"
    using assms(1) by (simp add: unat_word_ariths)
  have "pr_one_byte r = [] \<or> (\<exists>x. pr_one_byte r = [x])"
    using assms(2) by (cases "pr_one_byte r") auto
  then show ?thesis
    using assms(3) by (auto simp: read_ahead_def ReadPart_def Let_def size nth_Cons')
qed

lemma unknown_delivers:
  assumes "pr_part_count r = None" "\<not> pr_stop r" "length (pr_one_byte r) \<le> 1"
    and size: "0 < unat (pr_part_size r)" "unat (pr_part_size r) + 1 < 2 ^ 64"
    and "pr_part_number r = word_of_nat k"
      "k + length (split_every (unat (pr_part_size r)) (pr_one_byte r @ pr_stream r)) < 2 ^ 32"
      "\<not> pr_throws r"
  shows "delivers (Suc (unat (pr_part_size r))) n r (split_every (unat (pr_part_size r)) (pr_one_byte r @ pr_stream r))"
  using assms
proof (induction "length (pr_one_byte r @ pr_stream r)" arbitrary: r k rule: less_induct)
  case less
  let ?p = "unat (pr_part_size r)" and ?left = "pr_one_byte r @ pr_stream r"
  define m where "m = pr_part_number r + 1"
  let ?r = "r\<lparr>pr_part_number := m\<rparr>"
  have step: "next_part n r = (case read_ahead ?r of None \<Rightarrow> None | Some (err, buf, r') \<Rightarrow>
      Some (err, buf, if is_err err then r' else r'\<lparr>pr_uploaded := pr_uploaded r' + pr_part_size r'\<rparr>))"
    using less.prems(1) by (simp add: next_part_def read_part_data_def m_def)
  note read = read_ahead_eq [of ?r, unfolded Let_def, simplified, OF less.prems(5,3,8) [simplified]]
  have number: "m = word_of_nat (Suc k)" using less.prems(6) by (simp add: m_def)
  show ?case
  proof (cases "length ?left \<le> ?p")
    case True
    then have "unat (word_of_nat (length ?left) :: u64) = length ?left"
      using less.prems(5) by (simp add: unat_of_nat del: length_append)
    with True less.prems(2) show ?thesis
      by (simp add: split_every_last step read ucast_one m_def [symmetric])
  next
    case False
    then have split: "split_every ?p ?left = take ?p ?left # split_every ?p (drop ?p ?left)"
      using less.prems(4) by (simp add: split_every_more)
    let ?r' = "r\<lparr>pr_part_number := m, pr_stream := drop (Suc ?p) ?left, pr_one_byte := [?left ! ?p],
        pr_uploaded := pr_uploaded r + pr_part_size r\<rparr>"
    have left: "pr_one_byte ?r' @ pr_stream ?r' = drop ?p ?left"
      using False Cons_nth_drop_Suc [of ?p ?left] by simp
    have "delivers (Suc (unat (pr_part_size ?r'))) n ?r' (split_every (unat (pr_part_size ?r')) (pr_one_byte ?r' @ pr_stream ?r'))"
    proof (rule less.hyps [of ?r' "Suc k"])
      show "length (pr_one_byte ?r' @ pr_stream ?r') < length ?left"
        using False less.prems(4) unfolding left by simp
      show "Suc k + length (split_every (unat (pr_part_size ?r')) (pr_one_byte ?r' @ pr_stream ?r')) < 2 ^ 32"
        using less.prems(7) unfolding left split by simp
      show "pr_part_number ?r' = word_of_nat (Suc k)" using number by simp
    qed (use less.prems in simp_all)
    then have "delivers (Suc ?p) n ?r' (split_every ?p (drop ?p ?left))" unfolding left by simp
    moreover have "next_part n r = Some (SUCCESS, take (Suc ?p) ?left, ?r')"
      using False by (simp add: step read)
    moreover have "take (unat (pr_part_size ?r')) (take (Suc ?p) ?left) = take ?p ?left"
      unfolding take_take by (simp add: min_def)
    moreover have "unat (pr_part_size ?r') \<le> length (take (Suc ?p) ?left)" "length (take (Suc ?p) ?left) \<le> Suc ?p"
      using False by simp_all
    moreover have "pr_part_number ?r' = pr_part_number r + 1" "pr_part_count ?r' \<noteq> Some 1"
      using less.prems(1) by (simp_all add: m_def)
    ultimately show ?thesis
      unfolding split delivers.simps using less.prems(2) split_every_not_Nil by blast
  qed
qed

subsection \<open>An upload stores the pieces of its object\<close>

text \<open>The specification: one piece is put, several are a multipart upload.\<close>

fun upload_rest :: "'w client_env \<Rightarrow> put_object_args \<Rightarrow> multimap \<Rightarrow> string \<Rightarrow> u32 \<Rightarrow> string list \<Rightarrow> part list
    \<Rightarrow> (put_object_response, 'w) op" where
  "upload_rest e a hs upload_id n [] parts = complete_upload e a upload_id parts"
| "upload_rest e a hs upload_id n (p # ps) parts =
     and_then (UploadPart e (part_args a hs upload_id (n + 1) p))
       (\<lambda>resp. upload_rest e a hs upload_id (n + 1) ps (parts @ [uploaded_part (n + 1) resp]))"

definition put_pieces :: "'w client_env \<Rightarrow> put_object_args \<Rightarrow> multimap \<Rightarrow> string list \<Rightarrow> (put_object_response, 'w) op" where
  "put_pieces e a hs ps =
     (if length ps = 1 then ObjectApi.PutObject e (single_put_args a hs (hd ps))
      else and_then (CreateMultipartUpload e (create_upload_args a hs))
        (\<lambda>i. or_else (upload_rest e a hs i 0 ps []) (abort_upload e a i)))"

lemma UploadPart_id: "UploadPart e (part_args a hs i n data) c = Some (Inr resp, c') \<Longrightarrow> i \<noteq> []"
  by (auto simp: UploadPart_def check_def is_err_def UploadPartArgs_Validate_def part_args_def Let_def
      err_then_def upload_id_check_def CheckNonEmptyString_def Trim_def fail_def split: if_splits)

lemma put_parts_rest:
  assumes "delivers b (a_object_size a) r ps" "upload_id \<noteq> []" "1 \<le> unat (pr_part_number r)"
    "unat (pr_part_number r) + length ps < 2 ^ 32"
  shows "put_parts e a hs r parts upload_id c
    = keep_id upload_id (upload_rest e a hs upload_id (pr_part_number r) ps parts) c"
  using assms
proof (induction ps arbitrary: r parts c)
  case Nil
  then show ?case by (subst put_parts.simps) simp
next
  case (Cons p ps)
  then obtain buf r' where r': "next_part (a_object_size a) r = Some (SUCCESS, buf, r')"
    "take (unat (pr_part_size r')) buf = p" "pr_part_number r' = pr_part_number r + 1" "\<not> pr_stop r"
    "pr_part_count r' = Some 1 \<longleftrightarrow> pr_part_number r' = 1 \<and> ps = []" "delivers b (a_object_size a) r' ps"
    unfolding delivers.simps by blast
  have number: "unat (pr_part_number r + 1) = Suc (unat (pr_part_number r))"
    using Cons.prems(4) by (simp add: unat_word_ariths)
  have IH: "put_parts e a hs r' parts upload_id c
    = keep_id upload_id (upload_rest e a hs upload_id (pr_part_number r') ps parts) c" for parts c
    using Cons.IH [OF r'(6)] Cons.prems number r'(3) by simp
  have more: "pr_part_count r' \<noteq> Some 1"
    using r'(3,5) number Cons.prems(3) by auto
  show ?case
    using r' Cons.prems(2) more IH
    by (subst put_parts.simps)
      (auto simp: start_upload_def ret_def and_then_def on_result_def keep_id_def fail_def
        split: option.splits sum.splits)
qed

lemma put_sequential_pieces:
  assumes "alloc 1 (unat (buffer_size a))" "upload_headers (timezone (ce_crypto e)) a = Some hs" "a_stream a = Some s"
    "delivers b (a_object_size a) (reader_new a s) ps" "ps \<noteq> []" "length ps < 2 ^ 32"
  shows "put_sequential alloc e a c = put_pieces e a hs ps c"
proof -
  let ?r = "reader_new a s"
  have 0: "pr_part_number ?r = 0" by (simp add: reader_new_def)
  obtain p qs where ps: "ps = p # qs" using assms(5) by (cases ps) auto
  then obtain buf r' where r': "next_part (a_object_size a) ?r = Some (SUCCESS, buf, r')"
    "take (unat (pr_part_size r')) buf = p" "pr_part_number r' = pr_part_number ?r + 1" "\<not> pr_stop ?r"
    "pr_part_count r' = Some 1 \<longleftrightarrow> pr_part_number r' = 1 \<and> qs = []" "delivers b (a_object_size a) r' qs"
    using assms(4) unfolding ps delivers.simps by blast
  have rest: "upload_id \<noteq> [] \<Longrightarrow> put_parts e a hs r' parts upload_id c
    = keep_id upload_id (upload_rest e a hs upload_id 1 qs parts) c" for upload_id parts c
    using put_parts_rest [OF r'(6)] r'(3) 0 ps assms(6) by simp
  show ?thesis
  proof (cases "qs = []")
    case True
    then have "put_parts e a hs ?r [] [] c
        = keep_id [] (ObjectApi.PutObject e (single_put_args a hs p)) c"
      using r' 0 by (subst put_parts.simps) simp
    then show ?thesis
      using assms(1-3) ps True
      by (auto simp: put_sequential_def put_pieces_def keep_id_def abort_upload_def fail_def ret_def
          split: option.splits sum.splits)
  next
    case False
    have first: "put_parts e a hs ?r [] [] c
      = (case CreateMultipartUpload e (create_upload_args a hs) c of
            None \<Rightarrow> None
          | Some (Inl err, c) \<Rightarrow> Some (Inl err, [], c)
          | Some (Inr i, c) \<Rightarrow> keep_id i (upload_rest e a hs i 0 ps []) c)" for c
      using r' 0 False rest
      by (subst put_parts.simps)
        (auto simp: start_upload_def ps and_then_def on_result_def keep_id_def fail_def
          split: option.splits sum.splits dest: UploadPart_id)
    show ?thesis
      using assms(1-3) False
      by (auto simp: put_sequential_def put_pieces_def first ps keep_id_def abort_upload_def and_then_def or_else_def
          on_result_def fail_def ret_def split: option.splits sum.splits)
  qed
qed

text \<open>What \<open>Validate\<close> accepts delivers the pieces of the object.\<close>

definition object_bytes :: "put_object_args \<Rightarrow> istream \<Rightarrow> string" where
  "object_bytes a s = (case a_object_size a of None \<Rightarrow> is_bytes s | Some n \<Rightarrow> take (unat n) (is_bytes s))"

definition object_pieces :: "put_object_args \<Rightarrow> istream \<Rightarrow> string list" where
  "object_pieces a s = split_every (unat (a_part_size a)) (object_bytes a s)"

text \<open>Enough bytes for a known size, not too many parts for an unknown one.\<close>

definition stream_fits :: "put_object_args \<Rightarrow> istream \<Rightarrow> bool" where
  "stream_fits a s \<longleftrightarrow> (case a_object_size a of None \<Rightarrow> \<not> is_throws s \<and> length (is_bytes s) < 2 ^ 54
     | Some n \<Rightarrow> unat n \<le> length (is_bytes s))"

lemma plan_parts_None:
  assumes "plan_parts a = (SUCCESS, a')" "a_object_size a = None"
  shows "a_object_size a' = None \<and> a_part_count a' = None \<and> 5242880 \<le> unat (a_part_size a') \<and> unat (a_part_size a') \<le> 2 ^ 30"
  using assms by (auto simp: plan_parts_def CalcPartInfo_def SUCCESS_def word_less_nat_alt word_neq_0_conv limits
      not_less split: if_splits)

lemma plan_parts_Some:
  assumes "plan_parts a = (SUCCESS, a')" "a_object_size a = Some n"
  shows "\<exists>cnt. a_part_count a' = Some cnt \<and> a_object_size a' = Some n \<and> 1 \<le> unat cnt \<and> unat cnt \<le> 10000
    \<and> unat n \<le> unat cnt * unat (a_part_size a') \<and> unat (a_part_size a') \<le> unat n
    \<and> (n = 0 \<and> cnt = 1 \<or> (unat cnt - 1) * unat (a_part_size a') < unat n)"
proof -
  obtain psz pcnt where C: "CalcPartInfo (Some n) (a_part_size a) (a_part_count a) = (SUCCESS, psz, pcnt)"
    and a': "a' = a\<lparr>a_part_size := psz, a_part_count := pcnt\<rparr>"
    using assms by (auto simp: plan_parts_def split: prod.splits)
  then obtain cnt where cnt: "pcnt = Some cnt" by (auto simp: CalcPartInfo_Some_iff)
  note P = CalcPartInfo_parts [OF C [unfolded cnt]]
  have "unat psz \<le> unat n" using P(2) by (simp add: min_def word_le_nat_alt)
  moreover have "n = 0 \<Longrightarrow> cnt = 1" using P(2,3) by (simp add: min_def)
  ultimately show ?thesis using CalcPartInfo_sound [OF C [unfolded cnt]] assms(2) cnt by (auto simp: a')
qed

lemma validated_stream:
  assumes "PutObjectArgs_Validate a0 = (SUCCESS, a)" "a_stream a = Some s"
  shows "plan_parts a0 = (SUCCESS, a)" "a_stream a0 = Some s"
proof -
  note V = PutObjectArgs_SUCCESS [OF assms(1)]
  have "a_stream a0 = a_stream a" using V(5) by (auto simp: plan_parts_def split: prod.splits if_splits)
  then show "a_stream a0 = Some s" using assms(2) by simp
  then show "plan_parts a0 = (SUCCESS, a)" using V(2,5) by simp
qed

lemma validated_delivers:
  assumes "PutObjectArgs_Validate a0 = (SUCCESS, a)" "a_stream a = Some s" "stream_fits a s"
  shows "delivers (unat (buffer_size a)) (a_object_size a) (reader_new a s) (object_pieces a s)"
    and "length (object_pieces a s) < 2 ^ 32"
proof -
  note plan = validated_stream(1) [OF assms(1,2)]
  have "length (object_pieces a s) < 2 ^ 32
    \<and> delivers (unat (buffer_size a)) (a_object_size a) (reader_new a s) (object_pieces a s)"
  proof (cases "a_object_size a0")
    case None
    note P = plan_parts_None [OF plan None]
    let ?p = "unat (a_part_size a)"
    have "unat (buffer_size a) = Suc ?p" using P by (simp add: buffer_size_def unat_word_ariths)
    moreover have few: "length (split_every ?p (is_bytes s)) < 2 ^ 32"
    proof -
      have "length (is_bytes s) div ?p \<le> length (is_bytes s) div 5242880" using P by (intro div_le_mono2) simp_all
      moreover have "length (is_bytes s) < 2 ^ 54" using assms(3) P by (simp add: stream_fits_def)
      ultimately show ?thesis using split_every_length [of ?p "is_bytes s"] P by simp
    qed
    moreover have "delivers (Suc ?p) None (reader_new a s) (split_every ?p (is_bytes s))"
    proof -
      have "\<not> is_throws s" using assms(3) P by (simp add: stream_fits_def)
      then show ?thesis
        using unknown_delivers [of "reader_new a s" 0 None] P few by (simp add: reader_new_def)
    qed
    ultimately show ?thesis using P by (simp add: object_pieces_def object_bytes_def)
  next
    case (Some n)
    then obtain cnt where P: "a_part_count a = Some cnt" "a_object_size a = Some n" "1 \<le> unat cnt" "unat cnt \<le> 10000"
      "unat n \<le> unat cnt * unat (a_part_size a)" "unat (a_part_size a) \<le> unat n"
      "n = 0 \<and> cnt = 1 \<or> (unat cnt - 1) * unat (a_part_size a) < unat n"
      using plan_parts_Some [OF plan] by blast
    let ?p = "unat (a_part_size a)"
    have "unat (buffer_size a) = ?p" using P by (simp add: buffer_size_def word_less_nat_alt)
    moreover have "reader_new a s = known_reader (is_throws s) (is_bytes s) (a_part_size a) cnt 0"
      using P by (simp add: reader_new_def known_reader_def)
    moreover have "length (split_every ?p (take (unat n) (is_bytes s))) < 2 ^ 32"
    proof (cases "?p = 0")
      case False
      have "unat n div ?p \<le> unat cnt * ?p div ?p" using P(5) by (rule div_le_mono)
      also have "\<dots> = unat cnt" using False by simp
      finally show ?thesis
        using split_every_length [of ?p "take (unat n) (is_bytes s)"] False P(4) div_le_mono [of "min (length (is_bytes s)) (unat n)" "unat n" ?p]
        by simp
    qed (simp add: split_every.simps)
    ultimately show ?thesis
      using known_delivers [OF P(4,5,7,6), of "is_bytes s" 0 "is_throws s"] assms(3) P(1-3)
      by (simp add: object_pieces_def object_bytes_def stream_fits_def)
  qed
  then show "length (object_pieces a s) < 2 ^ 32"
    "delivers (unat (buffer_size a)) (a_object_size a) (reader_new a s) (object_pieces a s)" by blast+
qed

text \<open>The upload of a validated call stores the pieces of its object.\<close>

lemma validated_upload:
  assumes "PutObjectArgs_Validate a0 = (SUCCESS, a)" "a_stream a = Some s" "stream_fits a s"
    "alloc 1 (unat (buffer_size a))" "upload_headers (timezone (ce_crypto e)) a = Some hs"
  shows "put_sequential alloc e a c = put_pieces e a hs (object_pieces a s) c"
  using put_sequential_pieces [of alloc a e hs s, OF assms(4,5,2) validated_delivers(1) [OF assms(1-3)]]
    validated_delivers(2) [OF assms(1-3)] by (simp add: object_pieces_def)

lemma object_pieces_concat: "concat (object_pieces a s) = object_bytes a s"
  by (simp add: object_pieces_def concat_chunks)

text \<open>A stream with fewer bytes than the announced size is never stored.\<close>

lemma read_exactly_short:
  "length (pr_stream r) < unat (pr_part_size r) \<Longrightarrow> read_exactly r = None
     \<or> (\<exists>err data r'. read_exactly r = Some (err, data, r') \<and> is_err err)"
  by (simp add: read_exactly_def ReadPart_def Let_def is_err_def)

text \<open>\<open>short_reader n r\<close>: the reader of a stream that ends before \<open>n\<close> bytes, between two parts.\<close>

definition short_reader :: "u64 \<Rightarrow> part_reader \<Rightarrow> bool" where
  "short_reader n r \<longleftrightarrow> (\<exists>th s psz cnt k. r = known_reader th s psz cnt k \<and> unat cnt \<le> 10000
     \<and> (n = 0 \<and> cnt = 1 \<or> (unat cnt - 1) * unat psz < unat n) \<and> length s < unat n
     \<and> k < unat cnt \<and> k * unat psz \<le> length s)"

lemma short_reader_goes_on: "short_reader n r \<Longrightarrow> \<not> pr_stop r"
  by (auto simp: short_reader_def known_reader_number)

text \<open>It comes to the error: a part that can be read is not the last.\<close>

lemma short_reader_next:
  assumes "short_reader n r" "next_part (Some n) r = Some (err, data, r')"
  shows "is_err err \<or> short_reader n r' \<and> pr_part_count r' \<noteq> Some 1
    \<and> unat (pr_part_number r) < unat (pr_part_number r') \<and> unat (pr_part_number r') \<le> 10000"
proof -
  from assms(1) obtain th s psz cnt k where r: "r = known_reader th s psz cnt k" and cnt: "unat cnt \<le> 10000"
    and plan: "n = 0 \<and> cnt = 1 \<or> (unat cnt - 1) * unat psz < unat n" and short: "length s < unat n"
    and k: "k < unat cnt" "k * unat psz \<le> length s" by (auto simp: short_reader_def)
  let ?p = "unat psz"
  define m where "m = (word_of_nat (Suc k) :: u32)"
  define left where "left = (n - word_of_nat (k * ?p) :: u64)"
  consider (last) "Suc k = unat cnt" | (short) "Suc k \<noteq> unat cnt" "length s < Suc k * ?p"
    | (more) "Suc k < unat cnt" "Suc k * ?p \<le> length s" using k(1) by linarith
  then show ?thesis
  proof cases
    case last
    have "unat (word_of_nat (k * ?p) :: u64) = k * ?p"
      using k(2) short unat_u64 [of n] by (simp add: unat_of_nat del: of_nat_mult)
    then have "unat left = unat n - k * ?p"
      using k(2) short by (simp add: left_def unat_sub word_le_nat_alt del: of_nat_mult)
    moreover have "ucast m = cnt" unfolding m_def using last cnt by (subst part_number_is) simp_all
    ultimately show ?thesis
      using assms(2) diff_less_mono [OF short k(2)]
        read_exactly_short [of "r\<lparr>pr_part_number := m, pr_part_size := left, pr_stop := True\<rparr>"]
      by (auto simp: r next_part_def read_part_data_def known_reader_def known_reader_next m_def [symmetric]
          left_def [symmetric] simp del: of_nat_Suc of_nat_mult)
  next
    case short
    then have "ucast m \<noteq> cnt" unfolding m_def using cnt k(1) by (subst part_number_is) simp_all
    moreover have "length s - k * ?p < ?p" using short k(2) by simp
    ultimately show ?thesis
      using assms(2) read_exactly_short [of "r\<lparr>pr_part_number := m\<rparr>"]
      by (auto simp: r next_part_def read_part_data_def known_reader_def known_reader_next m_def [symmetric]
          simp del: of_nat_Suc of_nat_mult)
  next
    case more
    have r': "r' = known_reader th s psz cnt (Suc k)"
      using assms(2) next_known [OF more(1) cnt more(2), of n th] by (simp add: r)
    have "short_reader n r'" using cnt plan short more unfolding r' short_reader_def by blast
    moreover have num: "unat (word_of_nat i :: u32) = i" if "i \<le> 10000" for i
      using that by (simp add: unat_of_nat)
    have "unat (pr_part_number r) = k" "unat (pr_part_number r') = Suc k"
      using num [of k] num [of "Suc k"] more(1) cnt
      by (simp_all only: r r' known_reader_def part_reader.select_convs)
    moreover have "cnt \<noteq> 1" using more(1) by auto
    ultimately show ?thesis using more(1) cnt by (simp add: r' known_reader_number del: of_nat_Suc)
  qed
qed

text \<open>What a call may do to the server without storing an object: multipart uploads are started, parts
  of them sent, and uploads aborted. None of them is completed, and no object is put whole.\<close>

inductive uncommitted :: "'w client_env \<Rightarrow> 'w client \<Rightarrow> 'w client \<Rightarrow> bool" for e c where
  "uncommitted e c c"
| "uncommitted e c c1 \<Longrightarrow> CreateMultipartUpload e args c1 = Some (r1, c2) \<Longrightarrow> uncommitted e c c2"
| "uncommitted e c c1 \<Longrightarrow> UploadPart e part c1 = Some (r2, c2) \<Longrightarrow> uncommitted e c c2"
| "uncommitted e c c1 \<Longrightarrow> AbortMultipartUpload e ids c1 = Some (r3, c2) \<Longrightarrow> uncommitted e c c2"

lemma uncommitted_start: "uncommitted e c c1 \<Longrightarrow> start_upload e a hs i c1 = Some (r, c2) \<Longrightarrow> uncommitted e c c2"
  by (auto simp: start_upload_def ret_def intro: uncommitted.intros split: if_splits)

lemma uncommitted_abort:
  "uncommitted e c c1 \<Longrightarrow> abort_upload e a i err c1 = Some (r, c2) \<Longrightarrow> r = Inl err \<and> uncommitted e c c2"
  by (auto simp: abort_upload_def fail_def on_result_def intro: uncommitted.intros
      split: if_splits option.splits sum.splits)

lemma short_put_parts:
  assumes "a_object_size a = Some n" "short_reader n r"
    "put_parts e a hs r parts i c1 = Some (res, i', c')" "uncommitted e c c1"
  shows "(\<exists>err. res = Inl err) \<and> uncommitted e c c'"
  using assms(2-)
proof (induction "10000 - unat (pr_part_number r)" arbitrary: r parts i c1 rule: less_induct)
  case less
  from less.prems(2) short_reader_goes_on [OF less.prems(1)] assms(1) obtain err data r' where
    next_part: "next_part (Some n) r = Some (err, data, r')"
    by (subst (asm) put_parts.simps) (auto split: option.splits)
  show ?case
  proof (cases "is_err err")
    case True
    then show ?thesis
      using less.prems next_part short_reader_goes_on [OF less.prems(1)] assms(1)
      by (subst (asm) put_parts.simps) auto
  next
    case False
    with short_reader_next [OF less.prems(1) next_part] have r': "short_reader n r'" "pr_part_count r' \<noteq> Some 1"
      "10000 - unat (pr_part_number r') < 10000 - unat (pr_part_number r)" by auto
    from less.prems(2) next_part short_reader_goes_on [OF less.prems(1)] assms(1) False r'(2)
    obtain r1 c2 where start: "start_upload e a hs i c1 = Some (r1, c2)"
      and rest: "case r1 of Inl err \<Rightarrow> (res, i', c') = (Inl err, i, c2)
        | Inr i \<Rightarrow> \<exists>r2 c3. UploadPart e (part_args a hs i (pr_part_number r') (take (unat (pr_part_size r')) data)) c2
            = Some (r2, c3) \<and> (case r2 of Inl err \<Rightarrow> (res, i', c') = (Inl err, i, c3)
              | Inr p \<Rightarrow> put_parts e a hs r' (parts @ [uploaded_part (pr_part_number r') p]) i c3 = Some (res, i', c'))"
      by (subst (asm) put_parts.simps) (auto split: option.splits sum.splits)
    note c2 = uncommitted_start [OF less.prems(3) start]
    show ?thesis
    proof (cases r1)
      case (Inl err)
      with rest c2 show ?thesis by simp
    next
      case (Inr id)
      with rest obtain r2 c3 where part: "UploadPart e (part_args a hs id (pr_part_number r')
          (take (unat (pr_part_size r')) data)) c2 = Some (r2, c3)"
        and next_round: "case r2 of Inl err \<Rightarrow> (res, i', c') = (Inl err, id, c3)
          | Inr p \<Rightarrow> put_parts e a hs r' (parts @ [uploaded_part (pr_part_number r') p]) id c3 = Some (res, i', c')"
        by auto
      note c3 = uncommitted.intros(3) [OF c2 part]
      show ?thesis
      proof (cases r2)
        case (Inl err)
        with next_round c3 show ?thesis by simp
      next
        case (Inr p)
        with next_round less.hyps [OF r'(3,1) _ c3] show ?thesis by simp
      qed
    qed
  qed
qed

text \<open>The reader of a call whose stream is too short.\<close>

lemma short_reader_new:
  assumes "PutObjectArgs_Validate a0 = (SUCCESS, a)" "a_stream a = Some s" "a_object_size a = Some n"
    "length (is_bytes s) < unat n"
  shows "short_reader n (reader_new a s)"
proof -
  note plan = validated_stream(1) [OF assms(1,2)]
  have size: "a_object_size a0 = Some n" using plan assms(3) by (auto simp: plan_parts_def split: prod.splits)
  obtain cnt where P: "a_part_count a = Some cnt" "1 \<le> unat cnt" "unat cnt \<le> 10000"
    "n = 0 \<and> cnt = 1 \<or> (unat cnt - 1) * unat (a_part_size a) < unat n"
    using plan_parts_Some [OF plan size] by blast
  have "reader_new a s = known_reader (is_throws s) (is_bytes s) (a_part_size a) cnt 0"
    using P by (simp add: reader_new_def known_reader_def)
  moreover have "0 < unat cnt \<and> 0 * unat (a_part_size a) \<le> length (is_bytes s)" using P(2) by simp
  ultimately show ?thesis using P(3,4) assms(4) unfolding short_reader_def by blast
qed

lemma short_sequential:
  assumes "short_reader n (reader_new a s)" "a_stream a = Some s" "a_object_size a = Some n"
    "put_sequential alloc e a c = Some (r, c')"
  shows "(\<exists>err. r = Inl err) \<and> uncommitted e c c'"
proof (cases "alloc 1 (unat (buffer_size a))")
  case False
  then show ?thesis using assms(4) by (auto simp: put_sequential_def fail_def intro: uncommitted.intros)
next
  case True
  with assms(2,4) obtain hs res i c1 where run: "put_parts e a hs (reader_new a s) [] [] c = Some (res, i, c1)"
    and result: "(case res of Inl err \<Rightarrow> abort_upload e a i err c1 | Inr resp \<Rightarrow> ret resp c1) = Some (r, c')"
    by (auto simp: put_sequential_def split: option.splits sum.splits)
  from short_put_parts [OF assms(3,1) run uncommitted.intros(1)] obtain err where
    "res = Inl err" "uncommitted e c c1" by blast
  with result uncommitted_abort show ?thesis by fastforce
qed

end
