(* ===== verification/ParallelUpload.thy ===== *)
theory ParallelUpload
  imports Uploads
begin

section \<open>Uploading parts at the same time (src/client.cc: PutObject, UploadObject)\<close>

text \<open>
  With \<open>max_inflight_parts\<close> above one, the main thread reads part after part into a pool of buffers
  and hands each to a thread; before it uses a buffer again it waits for the oldest thread. The model is
  a machine with one step of the main thread (a round of its loop, the taking of one finished part while
  it drains, the end) or of one worker (its whole call). A schedule is a list of choices of a thread; a
  thread that cannot go on does nothing. A thread sends what its view of the buffer shows when it runs.
  A buffer holds the bytes written to it so far.
\<close>

subsection \<open>The machine\<close>

record job =
  j_number :: u32
  j_slot :: nat
  j_size :: u64
  j_args :: upload_part_args
  j_result :: "(error + put_object_response) option"

datatype phase = Reading | Draining | Returned "error + put_object_response"

record par_state =
  ps_reader :: part_reader
  ps_pool :: "string list"
  ps_buf_idx :: nat
  ps_inflight :: "job list"
  ps_parts :: "part list"
  ps_upload_id :: string
  ps_first_err :: error
  ps_phase :: phase

text \<open>A step of the main thread, with what \<open>std::async\<close> throws if it starts a thread in it; the call
  of the thread that is at an index of the queue.\<close>

datatype choice = Main "string option" | Worker nat

definition par_new :: "put_object_args \<Rightarrow> istream \<Rightarrow> nat \<Rightarrow> par_state" where
  "par_new a stream m =
     \<lparr>ps_reader = reader_new a stream, ps_pool = replicate m [], ps_buf_idx = 0, ps_inflight = [], ps_parts = [],
      ps_upload_id = [], ps_first_err = SUCCESS, ps_phase = Reading\<rparr>"

definition overwrite :: "string \<Rightarrow> string \<Rightarrow> string" where
  "overwrite data buf = data @ drop (length data) buf"

definition job_view :: "string list \<Rightarrow> job \<Rightarrow> string" where
  "job_view pool j = take (unat (j_size j)) (pool ! j_slot j)"

definition run_worker :: "'w client_env \<Rightarrow> nat \<Rightarrow> par_state \<Rightarrow> 'w client \<Rightarrow> (par_state \<times> 'w client) option" where
  "run_worker e i st c =
     (if i < length (ps_inflight st) \<and> j_result (ps_inflight st ! i) = None then
        let j = ps_inflight st ! i in
        map_option (\<lambda>(r, c). (st\<lparr>ps_inflight := (ps_inflight st)[i := j\<lparr>j_result := Some r\<rparr>]\<rparr>, c))
          (UploadPart e ((j_args j)\<lparr>a_part_data := job_view (ps_pool st) j\<rparr>) c)
      else Some (st, c))"

text \<open>Taking the oldest part from the queue. \<open>None\<close>: its thread still runs, the main thread waits.\<close>

definition take_part :: "(error \<Rightarrow> par_state \<Rightarrow> par_state) \<Rightarrow> par_state \<Rightarrow> par_state option" where
  "take_part on_err st =
     (case ps_inflight st of
        [] \<Rightarrow> Some st
      | j # js \<Rightarrow>
          (case j_result j of
             None \<Rightarrow> None
           | Some (Inl err) \<Rightarrow> Some (on_err err (st\<lparr>ps_inflight := js\<rparr>))
           | Some (Inr resp) \<Rightarrow>
               Some (st\<lparr>ps_inflight := js, ps_parts := ps_parts st @ [uploaded_part (j_number j) resp]\<rparr>)))"

definition await_slot :: "nat \<Rightarrow> par_state \<Rightarrow> par_state option" where
  "await_slot m st =
     (if length (ps_inflight st) < m then Some st
      else take_part (\<lambda>err st. st\<lparr>ps_first_err := err, ps_phase := Draining\<rparr>) st)"

definition dispatch :: "nat \<Rightarrow> put_object_args \<Rightarrow> multimap \<Rightarrow> string \<Rightarrow> par_state \<Rightarrow> par_state" where
  "dispatch m a hs upload_id st =
     (let r = ps_reader st in
      st\<lparr>ps_upload_id := upload_id,
        ps_inflight := ps_inflight st @
          [\<lparr>j_number = pr_part_number r, j_slot = ps_buf_idx st, j_size = pr_part_size r,
            j_args = part_args a hs upload_id (pr_part_number r) [], j_result = None\<rparr>],
        ps_buf_idx := (ps_buf_idx st + 1) mod m\<rparr>)"

definition par_round :: "nat \<Rightarrow> 'w client_env \<Rightarrow> put_object_args \<Rightarrow> multimap \<Rightarrow> string option \<Rightarrow> par_state \<Rightarrow> 'w client
    \<Rightarrow> (par_state \<times> 'w client) option" where
  "par_round m e a hs no_thread st c =
     (if pr_stop (ps_reader st) \<or> is_err (ps_first_err st) then Some (st\<lparr>ps_phase := Draining\<rparr>, c)
      else case await_slot m st of
        None \<Rightarrow> Some (st, c)
      | Some st \<Rightarrow>
          if ps_phase st = Draining then Some (st, c)
          else case next_part (a_object_size a) (ps_reader st) of
            None \<Rightarrow> None
          | Some (err, data, r) \<Rightarrow>
              let buf = overwrite data (ps_pool st ! ps_buf_idx st);
                  st = st\<lparr>ps_reader := r, ps_pool := (ps_pool st)[ps_buf_idx st := buf]\<rparr>
              in if is_err err then Some (st\<lparr>ps_first_err := err, ps_phase := Draining\<rparr>, c)
                 else if pr_part_count r = Some 1 then
                   map_option (\<lambda>(res, c). (st\<lparr>ps_phase := Returned res\<rparr>, c))
                     (ObjectApi.PutObject e (single_put_args a hs (take (unat (pr_part_size r)) buf)) c)
                 else case start_upload e a hs (ps_upload_id st) c of
                   None \<Rightarrow> None
                 | Some (Inl err, c) \<Rightarrow> Some (st\<lparr>ps_first_err := err, ps_phase := Draining\<rparr>, c)
                 | Some (Inr i, c) \<Rightarrow>
                     (case no_thread of
                        Some what \<Rightarrow> Some (st\<lparr>ps_upload_id := i, ps_first_err := ''unable to create thread: '' @ what,
                          ps_phase := Draining\<rparr>, c)
                      | None \<Rightarrow> Some (dispatch m a hs i st, c)))"

definition par_finish :: "'w client_env \<Rightarrow> put_object_args \<Rightarrow> par_state \<Rightarrow> 'w client \<Rightarrow> (par_state \<times> 'w client) option" where
  "par_finish e a st c =
     map_option (\<lambda>(res, c). (st\<lparr>ps_phase := Returned res\<rparr>, c))
       ((if is_err (ps_first_err st) then abort_upload e a (ps_upload_id st) (ps_first_err st)
         else or_else (complete_upload e a (ps_upload_id st) (ps_parts st)) (abort_upload e a (ps_upload_id st))) c)"

text \<open>While it drains, only the first error is kept.\<close>

definition par_drain :: "'w client_env \<Rightarrow> put_object_args \<Rightarrow> par_state \<Rightarrow> 'w client \<Rightarrow> (par_state \<times> 'w client) option" where
  "par_drain e a st c =
     (if ps_inflight st = [] then par_finish e a st c
      else case take_part (\<lambda>err st. if is_err (ps_first_err st) then st else st\<lparr>ps_first_err := err\<rparr>) st of
        None \<Rightarrow> Some (st, c) | Some st \<Rightarrow> Some (st, c))"

definition par_step :: "nat \<Rightarrow> 'w client_env \<Rightarrow> put_object_args \<Rightarrow> multimap \<Rightarrow> choice \<Rightarrow> par_state \<Rightarrow> 'w client
    \<Rightarrow> (par_state \<times> 'w client) option" where
  "par_step m e a hs ch st c =
     (case ch of
        Worker i \<Rightarrow> run_worker e i st c
      | Main no_thread \<Rightarrow>
          (case ps_phase st of
             Reading \<Rightarrow> par_round m e a hs no_thread st c
           | Draining \<Rightarrow> par_drain e a st c
           | Returned _ \<Rightarrow> Some (st, c)))"

fun par_run :: "nat \<Rightarrow> 'w client_env \<Rightarrow> put_object_args \<Rightarrow> multimap \<Rightarrow> choice list \<Rightarrow> par_state \<Rightarrow> 'w client
    \<Rightarrow> (par_state \<times> 'w client) option" where
  "par_run m e a hs [] st c = Some (st, c)"
| "par_run m e a hs (ch # chs) st c =
     (case par_step m e a hs ch st c of None \<Rightarrow> None | Some (st, c) \<Rightarrow> par_run m e a hs chs st c)"

subsection \<open>The whole call\<close>

definition inflight_wanted :: "put_object_args \<Rightarrow> u32" where
  "inflight_wanted a =
     (if a_part_count a = Some 1 then 1 else case a_max_inflight_parts a of None \<Rightarrow> 1 | Some m \<Rightarrow> m)"

definition inflight_limit :: "put_object_args \<Rightarrow> u32" where
  "inflight_limit a =
     (let m = min (inflight_wanted a) 100 in
      case a_part_count a of
        None \<Rightarrow> m
      | Some cnt \<Rightarrow> if 0 < cnt \<and> cnt < ucast m then ucast cnt else m)"

text \<open>\<open>None\<close> also when the schedule ends before the call returns.\<close>

definition put_parallel :: "(nat \<Rightarrow> nat \<Rightarrow> bool) \<Rightarrow> choice list \<Rightarrow> 'w client_env \<Rightarrow> put_object_args
    \<Rightarrow> (put_object_response, 'w) op" where
  "put_parallel alloc sched e a c =
     (let m = unat (inflight_limit a) in
      if \<not> alloc m (unat (buffer_size a)) then fail ''unable to allocate aligned buffer'' c
      else case (upload_headers (timezone (ce_crypto e)) a, a_stream a) of
        (Some hs, Some stream) \<Rightarrow>
          (case par_run m e a hs sched (par_new a stream m) c of
             None \<Rightarrow> None
           | Some (st, c) \<Rightarrow> (case ps_phase st of Returned res \<Rightarrow> Some (res, c) | _ \<Rightarrow> None))
      | _ \<Rightarrow> None)"

definition check_tls :: "'b object_write_args_scheme \<Rightarrow> ('a, 'w) op \<Rightarrow> ('a, 'w) op" where
  "check_tls a m = with_client (\<lambda>c.
     if (case a_sse a of None \<Rightarrow> False | Some s \<Rightarrow> sse_tls_required s) \<and> \<not> b_https (cl_base_url c) then
       fail ''SSE operation must be performed over a secure connection''
     else m)"

definition Client_PutObject :: "(nat \<Rightarrow> nat \<Rightarrow> bool) \<Rightarrow> choice list \<Rightarrow> 'w client_env \<Rightarrow> put_object_args
    \<Rightarrow> (put_object_response, 'w) op" where
  "Client_PutObject alloc sched e a =
     (case PutObjectArgs_Validate a of
        (err, a) \<Rightarrow> check err (check_tls a
          (if 1 < inflight_wanted a then put_parallel alloc sched e a else put_sequential alloc e a)))"

text \<open>A file is opened, or the text of an error; its stream throws when it ends too early. The part size
  that \<open>Validate\<close> has computed is not handed on.\<close>

definition upload_put_args :: "upload_object_args \<Rightarrow> string \<Rightarrow> put_object_args" where
  "upload_put_args a contents =
     \<lparr>a_extra_headers = a_extra_headers a, a_extra_query_params = a_extra_query_params a, a_bucket = a_bucket a,
      a_region = a_region a, a_object = a_object a, a_headers = a_headers a, a_user_metadata = a_user_metadata a,
      a_sse = a_sse a, a_tags = a_tags a, a_retention = a_retention a, a_legal_hold = a_legal_hold a,
      a_object_size = a_object_size a, a_part_size = 0, a_part_count = None, a_content_type = a_content_type a,
      a_stream = Some \<lparr>is_bytes = contents, is_throws = True\<rparr>, a_put_buf = None, a_size = None,
      a_checksum_crc64nvme = [], a_max_inflight_parts = None\<rparr>"

definition UploadObject :: "(nat \<Rightarrow> nat \<Rightarrow> bool) \<Rightarrow> file_system \<Rightarrow> (string \<Rightarrow> error + string) \<Rightarrow> 'w client_env
    \<Rightarrow> upload_object_args \<Rightarrow> (put_object_response, 'w) op" where
  "UploadObject alloc fs open_file e a =
     (case UploadObjectArgs_Validate fs a of
        (err, a) \<Rightarrow> check err
          (case open_file (a_upload_filename a) of
             Inl what \<Rightarrow> fail (''unable to open file '' @ a_upload_filename a @ ''; '' @ what)
           | Inr contents \<Rightarrow> Client_PutObject alloc [] e (upload_put_args a contents)))"

subsection \<open>Errors have a text\<close>

text \<open>An empty error would be taken for success: \<open>first_err\<close> would not be set.\<close>

definition named_errors :: "('a, 'w) op \<Rightarrow> bool" where
  "named_errors m \<longleftrightarrow> (\<forall>c err c'. m c = Some (Inl err, c') \<longrightarrow> err \<noteq> [])"

lemma named_errors_basic:
  "named_errors (ret x)" "err \<noteq> [] \<Longrightarrow> named_errors (fail err)" "named_errors m \<Longrightarrow> named_errors (check err m)"
  "r \<noteq> Inl [] \<Longrightarrow> named_errors (lift_result r)" "named_errors (modify g x)"
  "(\<And>c. named_errors (f c)) \<Longrightarrow> named_errors (with_client f)"
  by (auto simp: named_errors_def ret_def fail_def check_def is_err_def lift_result_def modify_def with_client_def)

lemma named_errors_and_then: "named_errors m \<Longrightarrow> (\<And>x. named_errors (f x)) \<Longrightarrow> named_errors (and_then m f)"
  by (auto simp: named_errors_def and_then_def on_result_def fail_def split: option.splits sum.splits)

lemma named_errors_send: "named_errors (send_request e q)"
proof -
  have "r \<noteq> Inl []" if "Execute e q () c = Some (r, q', s', c')" for r q' s' c c'
  proof -
    from that obtain r1 q1 s1 c1 where x: "execute e q () c = Some (r1, q1, s1, c1)"
      and "(r, c') = (r1, c1) \<or> execute e q1 s1 c1 = Some (r, q', s', c')"
      unfolding Execute_def by (auto split: option.splits sum.splits if_splits)
    then show ?thesis using execute_cases(3) [OF x] by (auto dest: execute_cases(3))
  qed
  then show ?thesis by (auto simp: named_errors_def send_request_def)
qed

lemma named_errors_region: "(\<And>x. named_errors (k x)) \<Longrightarrow> named_errors (in_region e a k)"
  unfolding in_region_def GetRegion_def fetch_region_def Let_def
  by (intro named_errors_and_then named_errors_basic named_errors_send)
    (auto intro!: named_errors_and_then named_errors_basic named_errors_send split: option.splits)

lemma named_errors_UploadPart: "named_errors (UploadPart e a)"
  unfolding UploadPart_def ObjectApi.PutObject_def
  by (intro named_errors_and_then named_errors_basic named_errors_send named_errors_region)

lemma named_errors_Create: "named_errors (CreateMultipartUpload e a)"
  unfolding CreateMultipartUpload_def Let_def
  by (intro named_errors_and_then named_errors_basic named_errors_send named_errors_region) simp

subsection \<open>Every thread sends its own piece\<close>

text \<open>The \<open>k\<close>-th piece is read into the buffer \<open>k mod m\<close>, whose last user was taken from the queue before.\<close>

definition job_ok :: "nat \<Rightarrow> string list \<Rightarrow> string list \<Rightarrow> nat \<Rightarrow> job \<Rightarrow> bool" where
  "job_ok m ps pool k j \<longleftrightarrow> k < length ps \<and> j_number j = word_of_nat (Suc k) \<and> j_slot j = k mod m
     \<and> job_view pool j = ps ! k \<and> (\<forall>err. j_result j = Some (Inl err) \<longrightarrow> err \<noteq> [])"

fun jobs_ok :: "nat \<Rightarrow> string list \<Rightarrow> string list \<Rightarrow> nat \<Rightarrow> job list \<Rightarrow> bool" where
  "jobs_ok m ps pool k [] \<longleftrightarrow> True"
| "jobs_ok m ps pool k (j # js) \<longleftrightarrow> job_ok m ps pool k j \<and> jobs_ok m ps pool (Suc k) js"

lemma jobs_ok_nth: "jobs_ok m ps pool k js \<longleftrightarrow> (\<forall>i < length js. job_ok m ps pool (k + i) (js ! i))"
  by (induction js arbitrary: k) (auto simp: nth_Cons split: nat.splits)

lemma jobs_ok_snoc: "jobs_ok m ps pool k (js @ [j]) \<longleftrightarrow> jobs_ok m ps pool k js \<and> job_ok m ps pool (k + length js) j"
  by (induction js arbitrary: k) auto

text \<open>The buffer that is written is not in use.\<close>

lemma other_slot:
  assumes "i < l" "l < m"
  shows "(k + i) mod m \<noteq> (k + l) mod (m :: nat)"
proof
  assume "(k + i) mod m = (k + l) mod m"
  then have "m dvd (k + l) - (k + i)" by (subst mod_eq_dvd_iff_nat [symmetric]) (use assms in simp_all)
  then have "m \<le> l - i" using assms by (intro dvd_imp_le) simp_all
  with assms show False by simp
qed

lemma jobs_ok_write:
  assumes "jobs_ok m ps pool k js" "length js < m"
  shows "jobs_ok m ps (pool[(k + length js) mod m := buf]) k js"
  unfolding jobs_ok_nth
proof (intro allI impI)
  fix i assume i: "i < length js"
  with assms(1) have "job_ok m ps pool (k + i) (js ! i)" by (simp add: jobs_ok_nth)
  then show "job_ok m ps (pool[(k + length js) mod m := buf]) (k + i) (js ! i)"
    using other_slot [OF i assms(2), of k] by (auto simp: job_ok_def job_view_def)
qed

definition numbers :: "nat \<Rightarrow> u32 list" where
  "numbers k = map (\<lambda>i. word_of_nat (Suc i)) [0..<k]"

lemma numbers_Suc: "numbers (Suc k) = numbers k @ [word_of_nat (Suc k)]"
  by (simp add: numbers_def)

text \<open>The invariant: \<open>k\<close> parts are taken from the queue, those that are in it follow.\<close>

definition par_inv :: "nat \<Rightarrow> nat \<Rightarrow> u64 option \<Rightarrow> string list \<Rightarrow> nat \<Rightarrow> par_state \<Rightarrow> bool" where
  "par_inv b m n ps k st \<longleftrightarrow>
     (let l = length (ps_inflight st) in
      l \<le> m \<and> length (ps_pool st) = m \<and> k + l \<le> length ps \<and> jobs_ok m ps (ps_pool st) k (ps_inflight st)
      \<and> (ps_phase st = Reading \<longrightarrow> delivers b n (ps_reader st) (drop (k + l) ps) \<and> ps_first_err st = SUCCESS
          \<and> pr_part_number (ps_reader st) = word_of_nat (k + l) \<and> ps_buf_idx st = (k + l) mod m)
      \<and> (ps_first_err st = SUCCESS \<longrightarrow> map part_number (ps_parts st) = numbers k)
      \<and> (ps_phase st \<noteq> Reading \<longrightarrow> ps_first_err st = SUCCESS \<longrightarrow> k + l = length ps)
      \<and> (\<forall>res. ps_phase st = Returned res \<longrightarrow> ps_inflight st = []
          \<and> (\<forall>resp. res = Inr resp \<longrightarrow> ps_first_err st = SUCCESS)))"

lemma par_inv_new: "delivers b (a_object_size a) (reader_new a s) ps \<Longrightarrow> par_inv b m (a_object_size a) ps 0 (par_new a s m)"
  by (simp add: par_inv_def par_new_def numbers_def SUCCESS_def reader_new_def)

lemma UploadPart_error: "UploadPart e a c = Some (Inl err, c') \<Longrightarrow> err \<noteq> []"
  using named_errors_UploadPart [of e a] unfolding named_errors_def by blast

lemma par_inv_worker:
  assumes "par_inv b m n ps k st" "run_worker e i st c = Some (st', c')"
  shows "par_inv b m n ps k st'"
proof (cases "i < length (ps_inflight st) \<and> j_result (ps_inflight st ! i) = None")
  case True
  let ?j = "ps_inflight st ! i"
  from True assms(2) obtain r where r: "st' = st\<lparr>ps_inflight := (ps_inflight st)[i := ?j\<lparr>j_result := Some r\<rparr>]\<rparr>"
    "UploadPart e ((j_args ?j)\<lparr>a_part_data := job_view (ps_pool st) ?j\<rparr>) c = Some (r, c')"
    by (auto simp: run_worker_def Let_def)
  have "jobs_ok m ps (ps_pool st) k ((ps_inflight st)[i := ?j\<lparr>j_result := Some r\<rparr>])"
    unfolding jobs_ok_nth
  proof (intro allI impI)
    fix i' assume "i' < length ((ps_inflight st)[i := ?j\<lparr>j_result := Some r\<rparr>])"
    then have "job_ok m ps (ps_pool st) (k + i') (ps_inflight st ! i')"
      using assms(1) by (simp add: par_inv_def Let_def jobs_ok_nth)
    then show "job_ok m ps (ps_pool st) (k + i') ((ps_inflight st)[i := ?j\<lparr>j_result := Some r\<rparr>] ! i')"
      using r(2) True by (cases "i' = i") (auto simp: job_ok_def job_view_def dest: UploadPart_error)
  qed
  with assms(1) True show ?thesis by (auto simp: par_inv_def Let_def r(1))
qed (use assms in \<open>auto simp: run_worker_def\<close>)

text \<open>Taking a part, by the loop and while draining.\<close>

lemma par_inv_take:
  assumes "par_inv b m n ps k st" "take_part f st = Some st'" "ps_inflight st \<noteq> []"
    and f: "\<And>err js. err \<noteq> [] \<Longrightarrow> \<exists>x. f err (st\<lparr>ps_inflight := js\<rparr>)
      = st\<lparr>ps_inflight := js, ps_first_err := x, ps_phase := Draining\<rparr> \<and> x \<noteq> SUCCESS"
  shows "par_inv b m n ps (Suc k) st' \<and> (ps_phase st' = Draining \<or> ps_phase st' = ps_phase st)
    \<and> length (ps_inflight st) = Suc (length (ps_inflight st'))"
proof -
  obtain j js where js: "ps_inflight st = j # js" using assms(3) by (cases "ps_inflight st") auto
  with assms(1) have j: "job_ok m ps (ps_pool st) k j" "jobs_ok m ps (ps_pool st) (Suc k) js"
    by (auto simp: par_inv_def Let_def)
  have phase: "ps_phase st \<noteq> Returned res" for res using assms(1) js by (auto simp: par_inv_def Let_def)
  from assms(2) js obtain res where res: "j_result j = Some res" by (auto simp: take_part_def split: option.splits)
  show ?thesis
  proof (cases res)
    case (Inl err)
    then have "err \<noteq> []" using j(1) res by (simp add: job_ok_def)
    with f [of err js] assms(2) js res Inl
    obtain x where "st' = st\<lparr>ps_inflight := js, ps_first_err := x, ps_phase := Draining\<rparr>" "x \<noteq> SUCCESS"
      by (auto simp: take_part_def)
    then show ?thesis using assms(1) js j by (auto simp: par_inv_def Let_def)
  next
    case (Inr resp)
    with assms(2) js res have "st' = st\<lparr>ps_inflight := js, ps_parts := ps_parts st @ [uploaded_part (j_number j) resp]\<rparr>"
      by (simp add: take_part_def)
    then show ?thesis
      using assms(1) js j phase by (auto simp: par_inv_def Let_def numbers_Suc job_ok_def uploaded_part_def)
  qed
qed

lemma par_inv_read:
  assumes "par_inv b m n ps k st" "ps_phase st = Reading" "length (ps_inflight st) < m"
    "drop (k + length (ps_inflight st)) ps = p # rest"
  obtains data r where "next_part n (ps_reader st) = Some (SUCCESS, data, r)" "delivers b n r rest"
    "take (unat (pr_part_size r)) (overwrite data buf) = p"
    "pr_part_number r = word_of_nat (Suc (k + length (ps_inflight st)))"
    "pr_part_count r = Some 1 \<Longrightarrow> pr_part_number r = 1 \<and> rest = []"
proof -
  have "delivers b n (ps_reader st) (p # rest)" "pr_part_number (ps_reader st) = word_of_nat (k + length (ps_inflight st))"
    using assms by (simp_all add: par_inv_def Let_def del: delivers.simps of_nat_add)
  then obtain data r where r: "next_part n (ps_reader st) = Some (SUCCESS, data, r)" "delivers b n r rest"
    "take (unat (pr_part_size r)) data = p" "unat (pr_part_size r) \<le> length data"
    "pr_part_number r = pr_part_number (ps_reader st) + 1"
    "pr_part_count r = Some 1 \<longleftrightarrow> pr_part_number r = 1 \<and> rest = []"
    unfolding delivers.simps by blast
  moreover have "pr_part_number r = word_of_nat (Suc (k + length (ps_inflight st)))"
    using r(5) \<open>pr_part_number (ps_reader st) = _\<close> by simp
  ultimately show ?thesis using that [of data r] by (simp add: overwrite_def)
qed

text \<open>A round that has read a piece goes on in two ways: the loop is left, or the part is handed over.\<close>

lemma par_inv_leave:
  assumes "par_inv b m n ps k st" "ps_phase st = Reading" "length (ps_inflight st) < m" "err \<noteq> SUCCESS"
  shows "par_inv b m n ps k (st\<lparr>ps_reader := r, ps_pool := (ps_pool st)[ps_buf_idx st := buf],
      ps_first_err := err, ps_phase := Draining\<rparr>)"
    and "par_inv b m n ps k (st\<lparr>ps_reader := r, ps_pool := (ps_pool st)[ps_buf_idx st := buf], ps_upload_id := i,
      ps_first_err := err, ps_phase := Draining\<rparr>)"
  using assms jobs_ok_write [of m ps "ps_pool st" k "ps_inflight st" buf] by (simp_all add: par_inv_def Let_def)

lemma par_inv_dispatch:
  assumes "par_inv b m n ps k st" "ps_phase st = Reading" "length (ps_inflight st) < m"
    "drop (k + length (ps_inflight st)) ps = p # rest" "delivers b n r rest"
    "take (unat (pr_part_size r)) buf = p" "pr_part_number r = word_of_nat (Suc (k + length (ps_inflight st)))"
  shows "par_inv b m n ps k (dispatch m a hs i (st\<lparr>ps_reader := r, ps_pool := (ps_pool st)[ps_buf_idx st := buf]\<rparr>))"
proof -
  let ?k = "k + length (ps_inflight st)"
  have k: "?k < length ps" using assms(4) by (metis drop_all list.distinct(1) not_less)
  then have p: "ps ! ?k = p" "drop (Suc ?k) ps = rest"
    using assms(4) by (metis Cons_nth_drop_Suc list.inject)+
  have "?k mod m < m" using assms(3) by (intro mod_less_divisor) simp
  then show ?thesis
    using assms jobs_ok_write [of m ps "ps_pool st" k "ps_inflight st" buf] k p
    by (simp add: par_inv_def Let_def dispatch_def jobs_ok_snoc job_ok_def job_view_def mod_Suc_eq)
qed

lemma par_inv_await:
  assumes "par_inv b m n ps k st" "await_slot m st = Some st'" "ps_phase st = Reading" "0 < m"
  shows "\<exists>k'. par_inv b m n ps k' st' \<and> (ps_phase st' = Draining \<or> ps_phase st' = Reading \<and> length (ps_inflight st') < m)
    \<and> k' + length (ps_inflight st') = k + length (ps_inflight st)"
proof (cases "length (ps_inflight st) < m")
  case True
  with assms show ?thesis by (auto simp: await_slot_def)
next
  case False
  with assms(4) have some: "ps_inflight st \<noteq> []" by auto
  have take: "take_part (\<lambda>err st. st\<lparr>ps_first_err := err, ps_phase := Draining\<rparr>) st = Some st'"
    using assms(2) False by (simp add: await_slot_def)
  have "par_inv b m n ps (Suc k) st' \<and> (ps_phase st' = Draining \<or> ps_phase st' = ps_phase st)
      \<and> length (ps_inflight st) = Suc (length (ps_inflight st'))"
    by (rule par_inv_take [OF assms(1) take some], intro exI conjI, rule refl, simp add: SUCCESS_def)
  moreover have "length (ps_inflight st) \<le> m" using assms(1) by (simp add: par_inv_def Let_def)
  ultimately show ?thesis using assms(3) by (intro exI [of _ "Suc k"]) simp
qed

lemma par_inv_drain:
  assumes "par_inv b m n ps k st" "ps_phase st = Draining" "ps_inflight st \<noteq> []"
    "take_part (\<lambda>err st. if is_err (ps_first_err st) then st else st\<lparr>ps_first_err := err\<rparr>) st = Some st'"
  shows "par_inv b m n ps (Suc k) st' \<and> ps_phase st' = Draining \<and> length (ps_inflight st) = Suc (length (ps_inflight st'))"
proof -
  have "\<exists>x. (if is_err (ps_first_err (st\<lparr>ps_inflight := js\<rparr>)) then st\<lparr>ps_inflight := js\<rparr>
        else st\<lparr>ps_inflight := js, ps_first_err := err\<rparr>)
      = st\<lparr>ps_inflight := js, ps_first_err := x, ps_phase := Draining\<rparr> \<and> x \<noteq> SUCCESS" if "err \<noteq> []" for err js
  proof (cases "is_err (ps_first_err st)")
    case True
    then show ?thesis using assms(2) by (intro exI [of _ "ps_first_err st"]) (auto simp: is_err_def SUCCESS_def)
  next
    case False
    then show ?thesis using assms(2) that by (intro exI [of _ err]) (auto simp: SUCCESS_def)
  qed
  with par_inv_take [OF assms(1,4,3)] assms(2) show ?thesis by simp
qed

lemma par_inv_finish:
  assumes "par_inv b m n ps k st" "ps_phase st = Draining" "ps_inflight st = []" "par_finish e a st c = Some (st', c')"
  shows "par_inv b m n ps k st' \<and> (\<exists>res. ps_phase st' = Returned res)"
proof -
  from assms(4) obtain res where st': "st' = st\<lparr>ps_phase := Returned res\<rparr>"
    and "is_err (ps_first_err st) \<Longrightarrow> \<exists>c1 c2. abort_upload e a (ps_upload_id st) (ps_first_err st) c1 = Some (res, c2)"
    by (auto simp: par_finish_def split: if_splits)
  moreover have "abort_upload e a i err c1 = Some (res, c2) \<Longrightarrow> res = Inl err" for i err c1 c2
    by (auto simp: abort_upload_def fail_def on_result_def split: if_splits option.splits sum.splits)
  ultimately have "\<forall>resp. res = Inr resp \<longrightarrow> \<not> is_err (ps_first_err st)" by blast
  then show ?thesis using assms(1-3) by (auto simp: par_inv_def Let_def st' is_err_def SUCCESS_def)
qed

text \<open>What is left to do for the main thread.\<close>

definition par_left :: "nat \<Rightarrow> string list \<Rightarrow> nat \<Rightarrow> par_state \<Rightarrow> nat" where
  "par_left m ps k st =
     (case ps_phase st of
        Reading \<Rightarrow> (length ps - (k + length (ps_inflight st))) + m + 2
      | Draining \<Rightarrow> length (ps_inflight st) + 1
      | Returned _ \<Rightarrow> 0)"

definition front_done :: "par_state \<Rightarrow> bool" where
  "front_done st \<longleftrightarrow> (case ps_inflight st of [] \<Rightarrow> True | j # js \<Rightarrow> j_result j \<noteq> None)"

lemma take_part_waits: "take_part f st = None \<Longrightarrow> \<not> front_done st"
  by (auto simp: take_part_def front_done_def split: list.splits option.splits sum.splits)

lemma par_inv_drained: "par_inv b m n ps k st \<Longrightarrow> ps_phase st = Reading \<Longrightarrow> par_left m ps k' st' < par_left m ps k st"
  if "par_inv b m n ps k' st'" "ps_phase st' = Draining" for st'
  using that by (auto simp: par_inv_def par_left_def Let_def)

lemma start_upload_error: "start_upload e a hs i c = Some (Inl err, c') \<Longrightarrow> err \<noteq> []"
  using named_errors_Create [of e "create_upload_args a hs"]
  by (auto simp: start_upload_def ret_def named_errors_def split: if_splits)

lemma par_round_inv:
  assumes inv: "par_inv b m (a_object_size a) ps k st" "ps_phase st = Reading" "0 < m" "2 \<le> length ps" "length ps < 2 ^ 32"
    and step: "par_round m e a hs no_thread st c = Some (st', c')"
  shows "\<exists>k'. par_inv b m (a_object_size a) ps k' st' \<and> (ps_phase st' = Draining \<or> ps_phase st' = Reading)
    \<and> (par_left m ps k' st' < par_left m ps k st \<or> \<not> front_done st \<and> st' = st \<and> k' = k)"
proof -
  let ?n = "a_object_size a"
  have drains: "\<exists>k'. par_inv b m ?n ps k' st' \<and> (ps_phase st' = Draining \<or> ps_phase st' = Reading) \<and> (par_left m ps k' st' < par_left m ps k st \<or> \<not> front_done st \<and> st' = st \<and> k' = k)"
    if "par_inv b m ?n ps k1 st'" "ps_phase st' = Draining" for k1
    using that par_inv_drained [OF that inv(1,2)] by blast
  have no_err: "\<not> is_err (ps_first_err st)" using inv by (simp add: par_inv_def Let_def)
  show ?thesis
  proof (cases "pr_stop (ps_reader st)")
    case True
    have "drop (k + length (ps_inflight st)) ps = []"
      using inv(1,2) True by (cases "drop (k + length (ps_inflight st)) ps") (auto simp: par_inv_def Let_def)
    then have "par_inv b m ?n ps k st'" "ps_phase st' = Draining"
      using inv(1,2) True step by (auto simp: par_round_def par_inv_def Let_def)
    then show ?thesis by (rule drains)
  next
    case False
    show ?thesis
    proof (cases "await_slot m st")
      case None
      then have "\<not> front_done st" by (auto simp: await_slot_def dest: take_part_waits split: if_splits)
      with None False no_err step inv(1,2) show ?thesis by (auto simp: par_round_def)
    next
      case (Some st1)
      from par_inv_await [OF inv(1) Some inv(2,3)] obtain k1 where k1: "par_inv b m ?n ps k1 st1"
        "ps_phase st1 = Draining \<or> ps_phase st1 = Reading \<and> length (ps_inflight st1) < m"
        "k1 + length (ps_inflight st1) = k + length (ps_inflight st)" by blast
      show ?thesis
      proof (cases "ps_phase st1 = Draining")
        case True
        with Some False no_err step have "st' = st1" by (simp add: par_round_def)
        with drains k1 True show ?thesis by blast
      next
        case reading: False
        with k1(2) have r1: "ps_phase st1 = Reading" "length (ps_inflight st1) < m" by auto
        obtain p rest where rest: "drop (k1 + length (ps_inflight st1)) ps = p # rest"
          using inv(1,2) False k1(3) by (cases "drop (k + length (ps_inflight st)) ps") (auto simp: par_inv_def Let_def)
        let ?k = "k1 + length (ps_inflight st1)" and ?buf = "ps_pool st1 ! ps_buf_idx st1"
        have k: "?k < length ps" using rest by (metis drop_all list.distinct(1) not_less)
        obtain data r where r: "next_part ?n (ps_reader st1) = Some (SUCCESS, data, r)" "delivers b ?n r rest"
          "take (unat (pr_part_size r)) (overwrite data ?buf) = p" "pr_part_number r = word_of_nat (Suc ?k)"
          "pr_part_count r = Some 1 \<Longrightarrow> pr_part_number r = 1 \<and> rest = []"
          using par_inv_read [OF k1(1) r1 rest] by metis
        have "pr_part_count r \<noteq> Some 1"
        proof
          assume "pr_part_count r = Some 1"
          then have "word_of_nat (Suc ?k) = (1 :: u32)" "rest = []" using r(4,5) by auto
          then have "Suc ?k = 1" using part_number_is [of "Suc ?k" 1] k inv(5) by (simp add: ucast_one del: of_nat_Suc)
          then show False using rest \<open>rest = []\<close> inv(4) by auto
        qed
        let ?st = "st1\<lparr>ps_reader := r, ps_pool := (ps_pool st1)[ps_buf_idx st1 := overwrite data ?buf]\<rparr>"
        have "par_round m e a hs no_thread st c =
          (case start_upload e a hs (ps_upload_id st1) c of
             None \<Rightarrow> None
           | Some (Inl err, c) \<Rightarrow> Some (?st\<lparr>ps_first_err := err, ps_phase := Draining\<rparr>, c)
           | Some (Inr i, c) \<Rightarrow>
               (case no_thread of
                  Some what \<Rightarrow> Some (?st\<lparr>ps_upload_id := i, ps_first_err := ''unable to create thread: '' @ what,
                    ps_phase := Draining\<rparr>, c)
                | None \<Rightarrow> Some (dispatch m a hs i ?st, c)))"
          unfolding par_round_def using Some False no_err reading r(1) \<open>pr_part_count r \<noteq> Some 1\<close>
          by (simp add: Let_def)
        note round = this [unfolded step]
        then obtain res c1 where start: "start_upload e a hs (ps_upload_id st1) c = Some (res, c1)"
          by (auto split: option.splits)
        show ?thesis
        proof (cases res)
          case (Inl err)
          with start have "err \<noteq> SUCCESS" by (auto simp: SUCCESS_def dest: start_upload_error)
          from round start Inl have st': "st' = ?st\<lparr>ps_first_err := err, ps_phase := Draining\<rparr>" by simp
          have "par_inv b m ?n ps k1 st'"
            unfolding st' using par_inv_leave(1) [OF k1(1) r1 \<open>err \<noteq> SUCCESS\<close>] by simp
          then show ?thesis by (rule drains) (simp add: st')
        next
          case (Inr i)
          show ?thesis
          proof (cases no_thread)
            case (Some what)
            have "''unable to create thread: '' @ what \<noteq> SUCCESS" by (simp add: SUCCESS_def)
            then have inv': "par_inv b m ?n ps k1 (?st\<lparr>ps_upload_id := i,
                ps_first_err := ''unable to create thread: '' @ what, ps_phase := Draining\<rparr>)"
              using par_inv_leave(2) [OF k1(1) r1] by simp
            from round start Inr Some have st': "st' = ?st\<lparr>ps_upload_id := i,
                ps_first_err := ''unable to create thread: '' @ what, ps_phase := Draining\<rparr>" by simp
            show ?thesis by (rule drains [OF inv' [folded st']]) (simp add: st')
          next
            case None
            then have st': "st' = dispatch m a hs i ?st" using round start Inr by simp
            have "par_inv b m ?n ps k1 st'"
              unfolding st' by (rule par_inv_dispatch [OF k1(1) r1 rest r(2-4)])
            moreover have "par_left m ps k1 st' < par_left m ps k st" "ps_phase st' = Reading"
              using k inv(2) r1(1) k1(3) by (simp_all add: par_left_def st' dispatch_def Let_def)
            ultimately show ?thesis by blast
          qed
        qed
      qed
    qed
  qed
qed

text \<open>The ways in which a round goes.\<close>

lemma par_round_cases [consumes 1, case_names stop wait failed short put refused thread sent]:
  assumes "par_round m e a hs t st c = Some (st', c')"
  obtains "pr_stop (ps_reader st) \<or> is_err (ps_first_err st)" "st' = st\<lparr>ps_phase := Draining\<rparr>" "c' = c"
  | "st' = st" "c' = c"
  | "await_slot m st = Some st'" "ps_phase st' = Draining" "c' = c"
  | st1 err data r pool where "await_slot m st = Some st1" "next_part (a_object_size a) (ps_reader st1) = Some (err, data, r)"
      "is_err err" "st' = st1\<lparr>ps_reader := r, ps_pool := pool, ps_first_err := err, ps_phase := Draining\<rparr>" "c' = c"
  | st1 err data r pool piece res where "await_slot m st = Some st1"
      "next_part (a_object_size a) (ps_reader st1) = Some (err, data, r)"
      "\<not> is_err err" "pr_part_count r = Some 1" "ObjectApi.PutObject e (single_put_args a hs piece) c = Some (res, c')"
      "st' = st1\<lparr>ps_reader := r, ps_pool := pool, ps_phase := Returned res\<rparr>"
  | st1 err data r pool err' where "await_slot m st = Some st1"
      "next_part (a_object_size a) (ps_reader st1) = Some (err, data, r)"
      "start_upload e a hs (ps_upload_id st1) c = Some (Inl err', c')"
      "st' = st1\<lparr>ps_reader := r, ps_pool := pool, ps_first_err := err', ps_phase := Draining\<rparr>"
  | st1 err data r pool i what where "await_slot m st = Some st1"
      "next_part (a_object_size a) (ps_reader st1) = Some (err, data, r)"
      "start_upload e a hs (ps_upload_id st1) c = Some (Inr i, c')"
      "st' = st1\<lparr>ps_reader := r, ps_pool := pool, ps_upload_id := i,
         ps_first_err := ''unable to create thread: '' @ what, ps_phase := Draining\<rparr>"
  | st1 err data r pool i where "await_slot m st = Some st1" "ps_phase st1 \<noteq> Draining"
      "\<not> is_err (ps_first_err st)" "next_part (a_object_size a) (ps_reader st1) = Some (err, data, r)" "\<not> is_err err"
      "start_upload e a hs (ps_upload_id st1) c = Some (Inr i, c')"
      "st' = dispatch m a hs i (st1\<lparr>ps_reader := r, ps_pool := pool\<rparr>)"
  using assms unfolding par_round_def Let_def
  by (auto split: if_splits option.splits sum.splits prod.splits)

lemma par_step_inv:
  assumes inv: "par_inv b m (a_object_size a) ps k st" "0 < m" "2 \<le> length ps" "length ps < 2 ^ 32"
    and step: "par_step m e a hs ch st c = Some (st', c')"
  shows "\<exists>k'. par_inv b m (a_object_size a) ps k' st'"
proof (cases ch)
  case (Worker i)
  with step have "run_worker e i st c = Some (st', c')" by (simp add: par_step_def)
  then show ?thesis using par_inv_worker [OF inv(1)] by blast
next
  case (Main no_thread)
  show ?thesis
  proof (cases "ps_phase st")
    case Reading
    with step Main have "par_round m e a hs no_thread st c = Some (st', c')" by (simp add: par_step_def)
    then show ?thesis using par_round_inv [OF inv(1) Reading inv(2-4)] by blast
  next
    case Draining
    with step Main have drain: "par_drain e a st c = Some (st', c')" by (simp add: par_step_def)
    show ?thesis
    proof (cases "ps_inflight st = []")
      case True
      with drain have "par_finish e a st c = Some (st', c')" by (simp add: par_drain_def)
      then show ?thesis using par_inv_finish [OF inv(1) Draining True] by blast
    next
      case False
      with drain par_inv_drain [OF inv(1) Draining False] inv(1) show ?thesis
        by (auto simp: par_drain_def split: option.splits)
    qed
  next
    case (Returned res)
    with step Main inv(1) show ?thesis by (auto simp: par_step_def)
  qed
qed

lemma par_run_inv:
  assumes "par_inv b m (a_object_size a) ps k st" "0 < m" "2 \<le> length ps" "length ps < 2 ^ 32"
    "par_run m e a hs sched st c = Some (st', c')"
  shows "\<exists>k'. par_inv b m (a_object_size a) ps k' st'"
  using assms(1,5)
proof (induction sched arbitrary: k st c)
  case (Cons ch sched)
  then obtain st1 c1 where step: "par_step m e a hs ch st c = Some (st1, c1)"
    "par_run m e a hs sched st1 c1 = Some (st', c')" by (auto split: option.splits)
  with par_step_inv [OF Cons.prems(1) assms(2-4)] Cons.IH show ?case by blast
qed auto

text \<open>When the oldest thread has ended, the main thread goes on.\<close>

lemma main_progress:
  assumes inv: "par_inv b m (a_object_size a) ps k st" "0 < m" "2 \<le> length ps" "length ps < 2 ^ 32"
    and step: "par_step m e a hs (Main t) st c = Some (st', c')"
    and front: "front_done st"
  shows "\<exists>k'. par_inv b m (a_object_size a) ps k' st'
    \<and> (par_left m ps k' st' < par_left m ps k st \<or> par_left m ps k' st' = 0 \<and> par_left m ps k st = 0)"
proof (cases "ps_phase st")
  case Reading
  with step have "par_round m e a hs t st c = Some (st', c')" by (simp add: par_step_def)
  then show ?thesis using par_round_inv [OF inv(1) Reading inv(2-4)] front by blast
next
  case Draining
  with step have drain: "par_drain e a st c = Some (st', c')" by (simp add: par_step_def)
  show ?thesis
  proof (cases "ps_inflight st = []")
    case True
    with drain have "par_finish e a st c = Some (st', c')" by (simp add: par_drain_def)
    with par_inv_finish [OF inv(1) Draining True] have "par_inv b m (a_object_size a) ps k st'"
      "\<exists>res. ps_phase st' = Returned res" by blast+
    then show ?thesis using Draining by (auto simp: par_left_def)
  next
    case False
    with drain par_inv_drain [OF inv(1) Draining False] take_part_waits front Draining show ?thesis
      by (intro exI [of _ "Suc k"]) (fastforce simp: par_drain_def par_left_def split: option.splits)
  qed
next
  case (Returned res)
  with step have "st' = st" by (simp add: par_step_def)
  with inv(1) Returned show ?thesis by (auto simp: par_left_def)
qed

lemma worker_makes_done:
  assumes "run_worker e 0 st c = Some (st', c')"
  shows "front_done st' \<and> par_left m ps k st' = par_left m ps k st"
  using assms by (cases "ps_inflight st") (auto simp: run_worker_def front_done_def par_left_def Let_def split: if_splits phase.splits)

definition fair_rounds :: "nat \<Rightarrow> choice list" where
  "fair_rounds n = concat (replicate n [Worker 0, Main None])"

lemma fair_rounds_return:
  assumes "par_inv b m (a_object_size a) ps k st" "0 < m" "2 \<le> length ps" "length ps < 2 ^ 32"
    "par_run m e a hs (fair_rounds n) st c = Some (st', c')" "par_left m ps k st \<le> n"
  shows "\<exists>res. ps_phase st' = Returned res"
  using assms(1,5,6)
proof (induction n arbitrary: k st c)
  case 0
  then show ?case by (cases "ps_phase st") (auto simp: fair_rounds_def par_left_def)
next
  case (Suc n)
  obtain st1 c1 st2 c2 where w: "run_worker e 0 st c = Some (st1, c1)"
    and main: "par_step m e a hs (Main None) st1 c1 = Some (st2, c2)"
    and rest: "par_run m e a hs (fair_rounds n) st2 c2 = Some (st', c')"
    using Suc.prems(2) by (auto simp: fair_rounds_def par_step_def split: option.splits)
  note at_front = worker_makes_done [OF w, of m ps k]
  obtain k' where "par_inv b m (a_object_size a) ps k' st2"
    "par_left m ps k' st2 < par_left m ps k st \<or> par_left m ps k' st2 = 0"
    using main_progress [OF par_inv_worker [OF Suc.prems(1) w] assms(2-4) main] at_front by auto
  with Suc.IH rest Suc.prems(3) show ?case by fastforce
qed

lemma inflight_limit_bounds: "1 < inflight_wanted a \<Longrightarrow> 1 \<le> unat (inflight_limit a)"
  "unat (inflight_limit a) \<le> 100"
proof -
  let ?m = "min (inflight_wanted a) 100"
  have m: "unat ?m \<le> 100" by (simp add: min_def word_le_nat_alt)
  have cnt: "unat (ucast cnt :: u32) = unat cnt" if "(cnt :: u64) < ucast ?m" for cnt
  proof -
    have "unat cnt < unat ?m" using that by (simp add: word_less_nat_alt)
    then have "unat cnt < 2 ^ 32" using m by simp
    then show ?thesis by (simp add: unsigned_ucast_eq take_bit_eq_mod)
  qed
  show "unat (inflight_limit a) \<le> 100"
    using m cnt by (auto simp: inflight_limit_def Let_def word_less_nat_alt split: option.split)
  assume "1 < inflight_wanted a"
  then have "1 \<le> unat ?m" by (auto simp: min_def word_less_nat_alt)
  then show "1 \<le> unat (inflight_limit a)"
    using cnt by (auto simp: inflight_limit_def Let_def word_less_nat_alt split: option.split)
qed

text \<open>The machine of a validated call, started and run by any schedule.\<close>

definition par_reaches :: "'w client_env \<Rightarrow> put_object_args \<Rightarrow> istream \<Rightarrow> 'w client \<Rightarrow> par_state \<Rightarrow> 'w client \<Rightarrow> bool" where
  "par_reaches e a s c st c' \<longleftrightarrow>
     (\<exists>hs sched. upload_headers (timezone (ce_crypto e)) a = Some hs
        \<and> par_run (unat (inflight_limit a)) e a hs sched (par_new a s (unat (inflight_limit a))) c = Some (st, c'))"

definition par_call :: "put_object_args \<Rightarrow> put_object_args \<Rightarrow> istream \<Rightarrow> bool" where
  "par_call a0 a s \<longleftrightarrow> PutObjectArgs_Validate a0 = (SUCCESS, a) \<and> a_stream a = Some s \<and> stream_fits a s
     \<and> 1 < inflight_wanted a \<and> 2 \<le> length (object_pieces a s)"

lemma par_reaches_inv:
  assumes "par_call a0 a s" "par_reaches e a s c st c'"
  shows "\<exists>k. par_inv (unat (buffer_size a)) (unat (inflight_limit a)) (a_object_size a) (object_pieces a s) k st"
proof -
  have call: "PutObjectArgs_Validate a0 = (SUCCESS, a)" "a_stream a = Some s" "stream_fits a s"
    "1 < inflight_wanted a" "2 \<le> length (object_pieces a s)"
    using assms(1) by (simp_all add: par_call_def)
  obtain hs sched where run: "par_run (unat (inflight_limit a)) e a hs sched
      (par_new a s (unat (inflight_limit a))) c = Some (st, c')"
    using assms(2) by (auto simp: par_reaches_def)
  have pos: "0 < unat (inflight_limit a)" using inflight_limit_bounds(1) [OF call(4)] by simp
  show ?thesis
    by (rule par_run_inv [OF par_inv_new [OF validated_delivers(1) [OF call(1-3)]] pos call(5)
          validated_delivers(2) [OF call(1-3)] run])
qed

text \<open>Threads never share a buffer, and each sends its own piece.\<close>

lemma par_inv_views:
  assumes "par_inv b m n ps k st" "length ps < 2 ^ 32" "j \<in> set (ps_inflight st)"
  shows "1 \<le> unat (j_number j) \<and> unat (j_number j) \<le> length ps \<and> job_view (ps_pool st) j = ps ! (unat (j_number j) - 1)"
proof -
  obtain i where "i < length (ps_inflight st)" "ps_inflight st ! i = j" using assms(3) by (auto simp: in_set_conv_nth)
  with assms(1) have "job_ok m ps (ps_pool st) (k + i) j" by (auto simp: par_inv_def Let_def jobs_ok_nth)
  moreover from this assms(2) have "unat (word_of_nat (Suc (k + i)) :: u32) = Suc (k + i)"
    by (simp add: job_ok_def unat_of_nat del: of_nat_Suc of_nat_add)
  ultimately show ?thesis by (simp add: job_ok_def del: of_nat_Suc)
qed

lemma par_inv_slots:
  assumes "par_inv b m n ps k st"
  shows "distinct (map j_slot (ps_inflight st))" "length (ps_inflight st) \<le> m"
proof -
  let ?js = "ps_inflight st"
  show len: "length ?js \<le> m" using assms by (simp add: par_inv_def Let_def)
  have slot: "j_slot (?js ! i) = (k + i) mod m" if "i < length ?js" for i
    using assms that by (auto simp: par_inv_def Let_def jobs_ok_nth job_ok_def)
  have "j_slot (?js ! i) \<noteq> j_slot (?js ! i')" if "i < i'" "i' < length ?js" for i i'
    using other_slot [OF that(1), of m k] that len by (simp add: slot)
  then show "distinct (map j_slot ?js)"
    by (simp add: distinct_conv_nth) (metis linorder_neqE_nat)
qed

text \<open>Success means that every part was uploaded and listed, in order.\<close>

lemma par_inv_success:
  assumes "par_inv b m n ps k st" "ps_phase st = Returned (Inr resp)"
  shows "map part_number (ps_parts st) = numbers (length ps)"
  using assms by (auto simp: par_inv_def Let_def)

text \<open>The number of rounds that is enough from any state.\<close>

lemma par_left_bound: "par_inv b m n ps k st \<Longrightarrow> par_left m ps k st \<le> length ps + m + 2"
  by (auto simp: par_left_def par_inv_def Let_def split: phase.splits)

lemma par_run_append:
  "par_run m e a hs (xs @ ys) st c = (case par_run m e a hs xs st c of None \<Rightarrow> None | Some (st, c) \<Rightarrow> par_run m e a hs ys st c)"
  by (induction xs arbitrary: st c) (auto split: option.splits)

subsection \<open>Calls that return\<close>

text \<open>With a plain endpoint, whose URLs can always be built, no call ends the process.\<close>

definition returns :: "('a, 'w) op \<Rightarrow> bool" where
  "returns m \<longleftrightarrow> (\<forall>c. plain_endpoint (cl_base_url c)
     \<longrightarrow> (\<exists>r c'. m c = Some (r, c') \<and> plain_endpoint (cl_base_url c')))"

named_theorems return_intros \<open>how operations return\<close>

lemma returns_basic [return_intros]:
  "returns (ret x)" "returns (fail err)" "returns (lift_result r)" "returns (modify (set_region bucket region) x)"
  "(err = SUCCESS \<Longrightarrow> returns m) \<Longrightarrow> returns (check err m)"
  "(\<And>c. returns (f c)) \<Longrightarrow> returns (with_client f)"
  by (auto simp: returns_def ret_def fail_def lift_result_def modify_def set_region_def check_def with_client_def
      is_err_def SUCCESS_def)

lemma returns_if [return_intros]: "(b \<Longrightarrow> returns m) \<Longrightarrow> (\<not> b \<Longrightarrow> returns m') \<Longrightarrow> returns (if b then m else m')"
  by simp

lemma returns_on_result:
  assumes "returns m" "\<And>err. returns (f err)" "\<And>x. returns (g x)"
  shows "returns (on_result m f g)"
  unfolding returns_def
proof (intro allI impI)
  fix c :: "'a client" assume "plain_endpoint (cl_base_url c)"
  then obtain r c1 where m: "m c = Some (r, c1)" "plain_endpoint (cl_base_url c1)"
    using assms(1) by (auto simp: returns_def)
  with assms(2,3) show "\<exists>r c'. on_result m f g c = Some (r, c') \<and> plain_endpoint (cl_base_url c')"
    by (cases r) (auto simp: on_result_def returns_def)
qed

lemma returns_and_then [return_intros]: "returns m \<Longrightarrow> (\<And>x. returns (f x)) \<Longrightarrow> returns (and_then m f)"
  unfolding and_then_def by (intro returns_on_result return_intros)

lemma returns_or_else [return_intros]: "returns m \<Longrightarrow> (\<And>err. returns (f err)) \<Longrightarrow> returns (or_else m f)"
  unfolding or_else_def by (intro returns_on_result return_intros)

lemma returns_send [return_intros]:
  assumes q: "q_bucket_name q \<noteq> [] \<or> q_object_name q = []"
  shows "returns (send_request e q)"
  unfolding returns_def
proof (intro allI impI)
  fix c :: "'a client" assume c: "plain_endpoint (cl_base_url c)"
  obtain r c' where "send_request e q c = Some (r, c')" using send_total [OF c q] by blast
  with send_same [OF this] c show "\<exists>r c'. send_request e q c = Some (r, c') \<and> plain_endpoint (cl_base_url c')"
    by (auto simp: same_client_def)
qed

lemma returns_region [return_intros]: "(\<And>x. returns (k x)) \<Longrightarrow> returns (in_region e a k)"
  unfolding in_region_def GetRegion_def fetch_region_def Let_def
  by (intro return_intros) (auto intro!: return_intros simp: location_request_def with_param_def Request_new_def
      split: option.splits)

lemma bucket_not_empty: "BucketArgs_Validate a = SUCCESS \<Longrightarrow> a_bucket a \<noteq> []"
  and object_bucket_not_empty: "ObjectArgs_Validate a = SUCCESS \<Longrightarrow> a_bucket a \<noteq> []"
proof -
  have "CheckBucketName [] False \<noteq> SUCCESS" by code_simp
  then show "BucketArgs_Validate a = SUCCESS \<Longrightarrow> a_bucket a \<noteq> []" by (auto simp: BucketArgs_Validate_def)
  then show "ObjectArgs_Validate a = SUCCESS \<Longrightarrow> a_bucket a \<noteq> []" by (simp add: err_simps)
qed

lemma request_names [simp]:
  "q_bucket_name (object_request m region a) = a_bucket a" "q_bucket_name (with_param k v q) = q_bucket_name q"
  "q_bucket_name (with_params ps q) = q_bucket_name q" "q_bucket_name (with_headers hs q) = q_bucket_name q"
  by (simp_all add: object_request_def bucket_request_def with_param_def with_params_def with_headers_def)

lemma returns_PutObject [return_intros]: "returns (ObjectApi.PutObject e a)"
  unfolding ObjectApi.PutObject_def by (intro return_intros) (simp add: put_object_request_def object_bucket_not_empty)

lemma returns_UploadPart [return_intros]: "returns (UploadPart e a)"
  unfolding UploadPart_def by (intro return_intros)

lemma returns_Create [return_intros]: "returns (CreateMultipartUpload e a)"
  unfolding CreateMultipartUpload_def Let_def by (intro return_intros) (simp add: object_bucket_not_empty)

lemma returns_Complete [return_intros]: "returns (CompleteMultipartUpload e a)"
  unfolding CompleteMultipartUpload_def Let_def
  by (intro return_intros) (auto simp: CompleteMultipartUploadArgs_Validate_def err_simps dest: bucket_not_empty)

lemma returns_Abort: "returns (AbortMultipartUpload e a)"
  unfolding AbortMultipartUpload_def
  by (intro return_intros) (auto simp: AbortMultipartUploadArgs_Validate_def err_simps dest: bucket_not_empty)

lemma returns_upload [return_intros]:
  "returns (start_upload e a hs i)" "returns (complete_upload e a i parts)" "returns (abort_upload e a' i err)"
  unfolding start_upload_def complete_upload_def abort_upload_def
  by (intro return_intros returns_on_result returns_Abort)+

lemma worker_total:
  assumes "plain_endpoint (cl_base_url c)"
  shows "\<exists>st' c'. run_worker e i st c = Some (st', c') \<and> plain_endpoint (cl_base_url c')"
  using assms returns_UploadPart by (fastforce simp: run_worker_def returns_def Let_def)

lemma round_total:
  assumes inv: "par_inv b m (a_object_size a) ps k st" "ps_phase st = Reading" "0 < m"
    and c: "plain_endpoint (cl_base_url c)"
  shows "\<exists>st' c'. par_round m e a hs t st c = Some (st', c') \<and> plain_endpoint (cl_base_url c')"
proof (cases "pr_stop (ps_reader st) \<or> is_err (ps_first_err st)")
  case True
  with c show ?thesis by (auto simp: par_round_def)
next
  case False
  show ?thesis
  proof (cases "await_slot m st")
    case None
    with False c show ?thesis by (auto simp: par_round_def)
  next
    case (Some st1)
    from par_inv_await [OF inv(1) Some inv(2,3)] obtain k1 where k1: "par_inv b m (a_object_size a) ps k1 st1"
      "ps_phase st1 = Draining \<or> ps_phase st1 = Reading \<and> length (ps_inflight st1) < m"
      "k1 + length (ps_inflight st1) = k + length (ps_inflight st)" by blast
    show ?thesis
    proof (cases "ps_phase st1 = Draining")
      case True
      with Some False c show ?thesis by (auto simp: par_round_def)
    next
      case reading: False
      with k1(2) have r1: "ps_phase st1 = Reading" "length (ps_inflight st1) < m" by auto
      obtain p rest where rest: "drop (k1 + length (ps_inflight st1)) ps = p # rest"
        using inv(1,2) False k1(3) by (cases "drop (k + length (ps_inflight st)) ps") (auto simp: par_inv_def Let_def)
      obtain data r where r: "next_part (a_object_size a) (ps_reader st1) = Some (SUCCESS, data, r)"
        using par_inv_read [OF k1(1) r1 rest] by metis
      obtain r1 c1 where p: "ObjectApi.PutObject e (single_put_args a hs
          (take (unat (pr_part_size r)) (overwrite data (ps_pool st1 ! ps_buf_idx st1)))) c = Some (r1, c1)"
        "plain_endpoint (cl_base_url c1)"
        using returns_PutObject c unfolding returns_def by blast
      obtain r2 c2 where u: "start_upload e a hs (ps_upload_id st1) c = Some (r2, c2)" "plain_endpoint (cl_base_url c2)"
        using returns_upload(1) c unfolding returns_def by blast
      show ?thesis
        using Some False reading r p u by (cases r2) (auto simp: par_round_def Let_def split: option.splits)
    qed
  qed
qed

lemma step_total:
  assumes "par_inv b m (a_object_size a) ps k st" "0 < m" "plain_endpoint (cl_base_url c)"
  shows "\<exists>st' c'. par_step m e a hs ch st c = Some (st', c') \<and> plain_endpoint (cl_base_url c')"
proof (cases ch)
  case (Worker i)
  then show ?thesis using worker_total [OF assms(3)] by (simp add: par_step_def)
next
  case (Main t)
  show ?thesis
  proof (cases "ps_phase st")
    case Reading
    then show ?thesis using Main round_total [OF assms(1) Reading assms(2,3)] by (simp add: par_step_def)
  next
    case Draining
    let ?m = "if is_err (ps_first_err st) then abort_upload e a (ps_upload_id st) (ps_first_err st)
      else or_else (complete_upload e a (ps_upload_id st) (ps_parts st)) (abort_upload e a (ps_upload_id st))"
    have "returns ?m" by (intro return_intros)
    then obtain r c1 where "?m c = Some (r, c1)" "plain_endpoint (cl_base_url c1)"
      using assms(3) unfolding returns_def by blast
    then show ?thesis using Main Draining assms(3)
      by (auto simp: par_step_def par_drain_def par_finish_def split: option.splits)
  qed (use Main assms(3) in \<open>simp add: par_step_def\<close>)
qed

lemma run_total:
  assumes "par_inv b m (a_object_size a) ps k st" "0 < m" "2 \<le> length ps" "length ps < 2 ^ 32"
    "plain_endpoint (cl_base_url c)"
  shows "\<exists>st' c'. par_run m e a hs sched st c = Some (st', c') \<and> plain_endpoint (cl_base_url c')"
  using assms(1,5)
proof (induction sched arbitrary: k st c)
  case (Cons ch sched)
  obtain st1 c1 where step: "par_step m e a hs ch st c = Some (st1, c1)" "plain_endpoint (cl_base_url c1)"
    using step_total [OF Cons.prems(1) assms(2) Cons.prems(2)] by blast
  with par_step_inv [OF Cons.prems(1) assms(2-4) step(1)] Cons.IH show ?case by fastforce
qed simp

lemma par_call_returns:
  assumes "par_call a0 a s" "par_reaches e a s c st c1" "plain_endpoint (cl_base_url c)"
    "length (object_pieces a s) + unat (inflight_limit a) + 2 \<le> n"
  shows "\<exists>st' c' res. par_run (unat (inflight_limit a)) e a hs (fair_rounds n) st c1 = Some (st', c')
    \<and> ps_phase st' = Returned res"
proof -
  let ?m = "unat (inflight_limit a)" and ?ps = "object_pieces a s"
  have call: "PutObjectArgs_Validate a0 = (SUCCESS, a)" "a_stream a = Some s" "stream_fits a s"
    "1 < inflight_wanted a" "2 \<le> length ?ps"
    using assms(1) by (simp_all add: par_call_def)
  have pos: "0 < ?m" using inflight_limit_bounds(1) [OF call(4)] by simp
  note few = validated_delivers(2) [OF call(1-3)]
  obtain hs0 sched where run: "par_run ?m e a hs0 sched (par_new a s ?m) c = Some (st, c1)"
    using assms(2) by (auto simp: par_reaches_def)
  have c1: "plain_endpoint (cl_base_url c1)"
    using run_total [OF par_inv_new [OF validated_delivers(1) [OF call(1-3)]] pos call(5) few assms(3), of e hs0 sched] run
    by simp
  obtain k where inv: "par_inv (unat (buffer_size a)) ?m (a_object_size a) ?ps k st"
    using par_reaches_inv [OF assms(1,2)] by blast
  obtain st' c' where end_run: "par_run ?m e a hs (fair_rounds n) st c1 = Some (st', c')"
    using run_total [OF inv pos call(5) few c1] by blast
  moreover have "par_left ?m ?ps k st \<le> n" using par_left_bound [OF inv] assms(4) by linarith
  ultimately show ?thesis using fair_rounds_return [OF inv pos call(5) few end_run] by blast
qed

end
