(* ===== verification/UploadHistory.thy ===== *)
theory UploadHistory
  imports ParallelUpload
begin

section \<open>What a parallel upload has done on the server (src/client.cc: PutObject)\<close>

text \<open>
  Two accounts of the runs of the machine of \<open>ParallelUpload\<close>. A run that returns success has sent each
  piece of the object in a call of one of its threads, has got an ETag for it, and has then completed the
  upload with exactly these parts. A run whose stream is too short ends in an error, and all that it did
  was to start uploads, send parts and abort uploads.
\<close>

subsection \<open>A thread has run\<close>

text \<open>\<open>uploaded_in e a hs m s c sched i k p\<close>: in the run of \<open>sched\<close> a thread has sent the \<open>k\<close>-th piece of the
  object, under the upload ID \<open>i\<close>, and has got the answer \<open>p\<close>.\<close>

definition uploaded_in :: "'w client_env \<Rightarrow> put_object_args \<Rightarrow> multimap \<Rightarrow> nat \<Rightarrow> istream \<Rightarrow> 'w client
    \<Rightarrow> choice list \<Rightarrow> string \<Rightarrow> nat \<Rightarrow> put_object_response \<Rightarrow> bool" where
  "uploaded_in e a hs m s c sched i k p \<longleftrightarrow>
     (\<exists>before w rest st1 c1 st2 c2. sched = before @ Worker w # rest
        \<and> par_run m e a hs before (par_new a s m) c = Some (st1, c1)
        \<and> par_run m e a hs (before @ [Worker w]) (par_new a s m) c = Some (st2, c2)
        \<and> UploadPart e (part_args a hs i (word_of_nat (Suc k)) (object_pieces a s ! k)) c1 = Some (Inr p, c2))"

lemma uploaded_in_append: "uploaded_in e a hs m s c xs i k p \<Longrightarrow> uploaded_in e a hs m s c (xs @ ys) i k p"
  unfolding uploaded_in_def by (metis append.assoc append_Cons)

lemma uploaded_in_id: "uploaded_in e a hs m s c xs i k p \<Longrightarrow> i \<noteq> []"
  unfolding uploaded_in_def by (metis UploadPart_id)

lemma part_args_data: "(part_args a hs i n [])\<lparr>a_part_data := d\<rparr> = part_args a hs i n d"
  by (simp add: part_args_def Let_def)

text \<open>What has been uploaded, \<open>U\<close>, accounts for the results in the queue and for the list of parts.\<close>

definition accounts :: "put_object_args \<Rightarrow> multimap \<Rightarrow> (string \<Rightarrow> u32 \<Rightarrow> put_object_response \<Rightarrow> bool) \<Rightarrow> par_state \<Rightarrow> bool" where
  "accounts a hs U st \<longleftrightarrow>
     (\<forall>j \<in> set (ps_inflight st). \<exists>i. j_args j = part_args a hs i (j_number j) []
        \<and> (i \<noteq> [] \<longrightarrow> i = ps_upload_id st) \<and> (\<forall>p. j_result j = Some (Inr p) \<longrightarrow> U i (j_number j) p))
     \<and> (\<forall>q \<in> set (ps_parts st). \<exists>p. q = uploaded_part (part_number q) p \<and> U (ps_upload_id st) (part_number q) p)"

lemma accounts_mono: "accounts a hs U st \<Longrightarrow> (\<And>i n p. U i n p \<Longrightarrow> V i n p) \<Longrightarrow> accounts a hs V st"
  unfolding accounts_def by meson

lemma accounts_same:
  "ps_inflight st' = ps_inflight st \<Longrightarrow> ps_parts st' = ps_parts st \<Longrightarrow> ps_upload_id st' = ps_upload_id st \<Longrightarrow>
     accounts a hs U st' = accounts a hs U st"
  by (simp add: accounts_def)

lemma accounts_take:
  assumes "accounts a hs U st" "take_part f st = Some st'" "\<And>i n p. U i n p \<Longrightarrow> i \<noteq> []"
    and f: "\<And>err st. ps_inflight (f err st) = ps_inflight st \<and> ps_parts (f err st) = ps_parts st
      \<and> ps_upload_id (f err st) = ps_upload_id st"
  shows "accounts a hs U st'"
proof (cases "ps_inflight st")
  case Nil
  with assms(1,2) show ?thesis by (simp add: take_part_def)
next
  case (Cons j js)
  with assms(2) obtain res where res: "j_result j = Some res" by (auto simp: take_part_def split: option.splits)
  obtain i where i: "i \<noteq> [] \<longrightarrow> i = ps_upload_id st" "\<forall>p. j_result j = Some (Inr p) \<longrightarrow> U i (j_number j) p"
    using assms(1) Cons by (auto simp: accounts_def)
  show ?thesis
  proof (cases res)
    case (Inl err)
    with res assms(2) Cons f have "ps_inflight st' = js" "ps_parts st' = ps_parts st" "ps_upload_id st' = ps_upload_id st"
      by (auto simp: take_part_def)
    with assms(1) Cons show ?thesis by (simp add: accounts_def)
  next
    case (Inr p)
    with res i assms(3) have "U (ps_upload_id st) (j_number j) p" by blast
    then have "\<exists>p'. uploaded_part (j_number j) p = uploaded_part (part_number (uploaded_part (j_number j) p)) p'
        \<and> U (ps_upload_id st) (part_number (uploaded_part (j_number j) p)) p'"
      by (auto simp: uploaded_part_def)
    with res Inr assms(1,2) Cons show ?thesis by (auto simp: take_part_def accounts_def)
  qed
qed

lemma accounts_await:
  assumes "accounts a hs U st" "await_slot m st = Some st'" "\<And>i n p. U i n p \<Longrightarrow> i \<noteq> []"
  shows "accounts a hs U st'"
  using assms accounts_take [OF assms(1) _ assms(3)] by (auto simp: await_slot_def split: if_splits)

text \<open>A new upload ID is only asked for when there was none; nothing was uploaded under the empty one.\<close>

lemma accounts_id:
  assumes "accounts a hs U st" "start_upload e a hs (ps_upload_id st) c = Some (Inr i, c')" "\<And>i n p. U i n p \<Longrightarrow> i \<noteq> []"
  shows "accounts a hs U (st\<lparr>ps_upload_id := i\<rparr>)"
proof (cases "ps_upload_id st = []")
  case True
  then have "ps_parts st = []" using assms(1,3) by (cases "ps_parts st") (auto simp: accounts_def)
  with assms(1) True show ?thesis by (fastforce simp: accounts_def)
next
  case False
  then have "i = ps_upload_id st" using assms(2) by (simp add: start_upload_def ret_def)
  with assms(1) show ?thesis by (simp add: accounts_def)
qed

lemma accounts_round:
  assumes "par_round m e a hs t st c = Some (st', c')" "accounts a hs U st" "\<And>i n p. U i n p \<Longrightarrow> i \<noteq> []"
  shows "accounts a hs U st'"
  using assms(1)
proof (cases rule: par_round_cases)
  case (thread st1 err data r pool i what)
  from accounts_id [OF accounts_await [OF assms(2) thread(1) assms(3)] thread(3) assms(3)] show ?thesis
    by (simp add: thread(4) accounts_def)
next
  case (sent st1 err data r pool i)
  from accounts_id [OF accounts_await [OF assms(2) sent(1) assms(3)] sent(6) assms(3)] show ?thesis
    by (auto simp: sent(7) accounts_def dispatch_def Let_def)
qed (use assms(2) accounts_await [OF assms(2) _ assms(3)] in \<open>auto simp: accounts_def\<close>)

lemma accounts_worker:
  assumes "run_worker e i st c = Some (st', c')" "accounts a hs U st"
    and U: "\<And>j id p. j \<in> set (ps_inflight st) \<Longrightarrow>
      UploadPart e (part_args a hs id (j_number j) (job_view (ps_pool st) j)) c = Some (Inr p, c') \<Longrightarrow> U id (j_number j) p"
  shows "accounts a hs U st'"
proof (cases "i < length (ps_inflight st) \<and> j_result (ps_inflight st ! i) = None")
  case True
  let ?j = "ps_inflight st ! i"
  have j: "?j \<in> set (ps_inflight st)" using True by simp
  then obtain id where id: "j_args ?j = part_args a hs id (j_number ?j) []" "id \<noteq> [] \<longrightarrow> id = ps_upload_id st"
    using assms(2) j unfolding accounts_def by meson
  from True assms(1) obtain r where st': "st' = st\<lparr>ps_inflight := (ps_inflight st)[i := ?j\<lparr>j_result := Some r\<rparr>]\<rparr>"
    and r: "UploadPart e (part_args a hs id (j_number ?j) (job_view (ps_pool st) ?j)) c = Some (r, c')"
    by (auto simp: run_worker_def Let_def id(1) part_args_data)
  have "\<exists>id. j_args j = part_args a hs id (j_number j) [] \<and> (id \<noteq> [] \<longrightarrow> id = ps_upload_id st)
      \<and> (\<forall>p. j_result j = Some (Inr p) \<longrightarrow> U id (j_number j) p)"
    if "j \<in> set ((ps_inflight st)[i := ?j\<lparr>j_result := Some r\<rparr>])" for j
  proof (cases "j = ?j\<lparr>j_result := Some r\<rparr>")
    case True
    with id r U [OF j, of id] show ?thesis by auto
  next
    case False
    with that have "j \<in> set (ps_inflight st)" by (auto dest: set_update_subset_insert [THEN subsetD])
    with assms(2) show ?thesis by (simp add: accounts_def)
  qed
  with assms(2) show ?thesis by (simp add: st' accounts_def)
qed (use assms in \<open>auto simp: run_worker_def\<close>)

lemma accounts_drain:
  assumes "par_drain e a st c = Some (st', c')" "accounts a hs U st" "\<And>i n p. U i n p \<Longrightarrow> i \<noteq> []"
  shows "accounts a hs U st'"
proof (cases "ps_inflight st = []")
  case True
  with assms(1,2) show ?thesis by (auto simp: par_drain_def par_finish_def accounts_def)
next
  case False
  with assms(1) have "st' = st \<or> take_part (\<lambda>err st. if is_err (ps_first_err st) then st
      else st\<lparr>ps_first_err := err\<rparr>) st = Some st'"
    by (auto simp: par_drain_def split: option.splits)
  with accounts_take [OF assms(2) _ assms(3)] assms(2) show ?thesis by auto
qed

lemma accounts_step:
  assumes "par_step m e a hs ch st c = Some (st', c')" "accounts a hs U st" "\<And>i n p. U i n p \<Longrightarrow> i \<noteq> []"
    and "\<And>w j id p. ch = Worker w \<Longrightarrow> j \<in> set (ps_inflight st) \<Longrightarrow>
      UploadPart e (part_args a hs id (j_number j) (job_view (ps_pool st) j)) c = Some (Inr p, c') \<Longrightarrow> U id (j_number j) p"
  shows "accounts a hs U st'"
proof (cases ch)
  case (Worker w)
  with assms(1) have "run_worker e w st c = Some (st', c')" by (simp add: par_step_def)
  from accounts_worker [OF this assms(2) assms(4) [OF Worker]] show ?thesis .
next
  case (Main t)
  with assms(1-3) accounts_round [OF _ assms(2,3)] accounts_drain [OF _ assms(2,3)] show ?thesis
    by (auto simp: par_step_def split: phase.splits)
qed

subsection \<open>Success\<close>

text \<open>The account of a whole run, and the invariant of the machine beside it.\<close>

abbreviation sent_under :: "'w client_env \<Rightarrow> put_object_args \<Rightarrow> multimap \<Rightarrow> nat \<Rightarrow> istream \<Rightarrow> 'w client
    \<Rightarrow> choice list \<Rightarrow> string \<Rightarrow> u32 \<Rightarrow> put_object_response \<Rightarrow> bool" where
  "sent_under e a hs m s c sched \<equiv> \<lambda>i n p. 1 \<le> unat n \<and> unat n \<le> length (object_pieces a s)
     \<and> uploaded_in e a hs m s c sched i (unat n - 1) p"

lemma par_run_snoc:
  "par_run m e a hs (xs @ [ch]) st c = Some (st', c') \<longleftrightarrow>
     (\<exists>st1 c1. par_run m e a hs xs st c = Some (st1, c1) \<and> par_step m e a hs ch st1 c1 = Some (st', c'))"
  by (auto simp: par_run_append split: option.splits)

text \<open>A call that can be made in parallel, and its machine.\<close>

lemma par_call_facts:
  assumes "par_call a0 a s"
  shows "0 < unat (inflight_limit a)" "2 \<le> length (object_pieces a s)" "length (object_pieces a s) < 2 ^ 32"
    "delivers (unat (buffer_size a)) (a_object_size a) (reader_new a s) (object_pieces a s)"
  using assms inflight_limit_bounds(1) [of a] validated_delivers [of a0 a s] by (auto simp: par_call_def)

lemma par_call_inv:
  assumes "par_call a0 a s" "m = unat (inflight_limit a)" "par_run m e a hs sched (par_new a s m) c = Some (st, c')"
  shows "\<exists>k. par_inv (unat (buffer_size a)) m (a_object_size a) (object_pieces a s) k st"
  using par_run_inv [OF par_inv_new [OF par_call_facts(4) [OF assms(1)]] _ par_call_facts(2,3) [OF assms(1)] assms(3)]
    par_call_facts(1) [OF assms(1)] assms(2) by simp

lemma run_accounts:
  assumes "par_call a0 a s" "m = unat (inflight_limit a)"
  shows "par_run m e a hs sched (par_new a s m) c = Some (st, c') \<Longrightarrow>
    accounts a hs (sent_under e a hs m s c sched) st"
proof (induction sched arbitrary: st c' rule: rev_induct)
  case Nil
  then show ?case by (auto simp: accounts_def par_new_def)
next
  case (snoc ch sched)
  then obtain st1 c1 where run: "par_run m e a hs sched (par_new a s m) c = Some (st1, c1)"
    and step: "par_step m e a hs ch st1 c1 = Some (st, c')" by (auto simp: par_run_snoc)
  let ?U = "sent_under e a hs m s c (sched @ [ch])"
  obtain k where inv: "par_inv (unat (buffer_size a)) m (a_object_size a) (object_pieces a s) k st1"
    using par_call_inv [OF assms run] by blast
  have "accounts a hs ?U st1"
    using snoc.IH [OF run] by (rule accounts_mono) (auto intro: uploaded_in_append)
  then show ?case
  proof (rule accounts_step [OF step])
    show "?U i n p \<Longrightarrow> i \<noteq> []" for i n p by (auto dest: uploaded_in_id)
    fix w j i p
    assume w: "ch = Worker w" and j: "j \<in> set (ps_inflight st1)"
      and call: "UploadPart e (part_args a hs i (j_number j) (job_view (ps_pool st1) j)) c1 = Some (Inr p, c')"
    note view = par_inv_views [OF inv par_call_facts(3) [OF assms(1)] j]
    then have "word_of_nat (Suc (unat (j_number j) - 1)) = j_number j" by (simp del: of_nat_Suc)
    with call view have "UploadPart e (part_args a hs i (word_of_nat (Suc (unat (j_number j) - 1)))
        (object_pieces a s ! (unat (j_number j) - 1))) c1 = Some (Inr p, c')" by simp
    with run snoc.prems have "uploaded_in e a hs m s c (sched @ [ch]) i (unat (j_number j) - 1) p"
      unfolding uploaded_in_def w by blast
    with view show "?U i (j_number j) p" by blast
  qed
qed

text \<open>The step that returns success is the completion of the upload.\<close>

lemma success_step:
  assumes "par_inv b m (a_object_size a) ps k st" "0 < m" "2 \<le> length ps" "length ps < 2 ^ 32"
    "par_step m e a hs ch st c = Some (st', c')" "ps_phase st' = Returned (Inr resp)"
  shows "st' = st \<and> c' = c \<or> (\<exists>cresp. CompleteMultipartUpload e (complete_args a (ps_upload_id st) (ps_parts st)) c
      = Some (Inr cresp, c') \<and> resp = put_of_complete cresp \<and> ps_parts st' = ps_parts st \<and> ps_inflight st = [])"
proof (cases ch)
  case (Worker w)
  with assms(5) have run: "run_worker e w st c = Some (st', c')" by (simp add: par_step_def)
  then have "ps_phase st = Returned (Inr resp)" using assms(6) by (auto simp: run_worker_def Let_def split: if_splits)
  then have "ps_inflight st = []" using assms(1) by (simp add: par_inv_def Let_def)
  with run show ?thesis by (simp add: run_worker_def)
next
  case (Main t)
  show ?thesis
  proof (cases "ps_phase st")
    case Reading
    with Main assms(5) have "par_round m e a hs t st c = Some (st', c')" by (simp add: par_step_def)
    from par_round_inv [OF assms(1) Reading assms(2-4) this] assms(6) show ?thesis by auto
  next
    case Draining
    with Main assms(5) have drain: "par_drain e a st c = Some (st', c')" by (simp add: par_step_def)
    show ?thesis
    proof (cases "ps_inflight st = []")
      case True
      with drain assms(6) show ?thesis
        by (auto simp: par_drain_def par_finish_def complete_upload_def or_else_def on_result_def and_then_def
            abort_upload_def fail_def ret_def split: if_splits option.splits sum.splits)
    next
      case False
      with drain par_inv_drain [OF assms(1) Draining False] assms(6) Draining show ?thesis
        by (auto simp: par_drain_def split: option.splits)
    qed
  next
    case (Returned res)
    with Main assms(5) show ?thesis by (auto simp: par_step_def)
  qed
qed

text \<open>What the server has been told when a run returns success: \<open>parts\<close>, in order and each of them the
  answer to the upload of its piece, and the completion with these parts.\<close>

definition completed_with :: "'w client_env \<Rightarrow> put_object_args \<Rightarrow> multimap \<Rightarrow> nat \<Rightarrow> istream \<Rightarrow> 'w client
    \<Rightarrow> choice list \<Rightarrow> put_object_response \<Rightarrow> 'w client \<Rightarrow> bool" where
  "completed_with e a hs m s c sched resp c' \<longleftrightarrow>
     (\<exists>before rest st1 c1 i parts cresp. sched = before @ rest
        \<and> par_run m e a hs before (par_new a s m) c = Some (st1, c1)
        \<and> CompleteMultipartUpload e (complete_args a i parts) c1 = Some (Inr cresp, c') \<and> resp = put_of_complete cresp
        \<and> length parts = length (object_pieces a s)
        \<and> (\<forall>k < length parts. \<exists>p. parts ! k = uploaded_part (word_of_nat (Suc k)) p
             \<and> uploaded_in e a hs m s c before i k p))"

lemma run_completed:
  assumes "par_call a0 a s" "m = unat (inflight_limit a)"
  shows "par_run m e a hs sched (par_new a s m) c = Some (st, c') \<Longrightarrow> ps_phase st = Returned (Inr resp) \<Longrightarrow>
    completed_with e a hs m s c sched resp c'"
proof (induction sched arbitrary: st c' rule: rev_induct)
  case Nil
  then show ?case by (auto simp: par_new_def)
next
  case (snoc ch sched)
  let ?ps = "object_pieces a s"
  obtain st1 c1 where run: "par_run m e a hs sched (par_new a s m) c = Some (st1, c1)"
    and step: "par_step m e a hs ch st1 c1 = Some (st, c')" using snoc.prems(1) by (auto simp: par_run_snoc)
  note facts = par_call_facts [OF assms(1), folded assms(2)]
  obtain k where inv: "par_inv (unat (buffer_size a)) m (a_object_size a) ?ps k st1"
    using par_call_inv [OF assms run] by blast
  obtain k' where inv': "par_inv (unat (buffer_size a)) m (a_object_size a) ?ps k' st"
    using par_call_inv [OF assms snoc.prems(1)] by blast
  from success_step [OF inv facts(1-3) step snoc.prems(2)] show ?case
  proof
    assume "st = st1 \<and> c' = c1"
    with snoc.IH run snoc.prems(2) have "completed_with e a hs m s c sched resp c'" by simp
    then show ?thesis unfolding completed_with_def by (metis append.assoc)
  next
    assume "\<exists>cresp. CompleteMultipartUpload e (complete_args a (ps_upload_id st1) (ps_parts st1)) c1 = Some (Inr cresp, c')
        \<and> resp = put_of_complete cresp \<and> ps_parts st = ps_parts st1 \<and> ps_inflight st1 = []"
    then obtain cresp where call: "CompleteMultipartUpload e (complete_args a (ps_upload_id st1) (ps_parts st1)) c1
        = Some (Inr cresp, c')" "resp = put_of_complete cresp" and parts: "ps_parts st = ps_parts st1" by blast
    have nums: "map part_number (ps_parts st1) = numbers (length ?ps)"
      using par_inv_success [OF inv' snoc.prems(2)] by (simp add: parts)
    have len: "length (ps_parts st1) = length ?ps" using arg_cong [OF nums, of length] by (simp add: numbers_def)
    have "\<exists>p. ps_parts st1 ! i = uploaded_part (word_of_nat (Suc i)) p
        \<and> uploaded_in e a hs m s c sched (ps_upload_id st1) i p" if i: "i < length (ps_parts st1)" for i
    proof -
      have n: "part_number (ps_parts st1 ! i) = word_of_nat (Suc i)"
        using arg_cong [OF nums, of "\<lambda>xs. xs ! i"] i len by (simp add: numbers_def del: of_nat_Suc)
      have u: "unat (word_of_nat (Suc i) :: u32) = Suc i"
        using i len facts(3) by (simp add: unat_of_nat del: of_nat_Suc)
      have "ps_parts st1 ! i \<in> set (ps_parts st1)" using i by simp
      with run_accounts [OF assms run] obtain p where "ps_parts st1 ! i = uploaded_part (part_number (ps_parts st1 ! i)) p"
        "uploaded_in e a hs m s c sched (ps_upload_id st1) (unat (part_number (ps_parts st1 ! i)) - 1) p"
        unfolding accounts_def by blast
      then show ?thesis unfolding n u by auto
    qed
    with run call len show ?thesis unfolding completed_with_def by blast
  qed
qed

text \<open>The run behind a public call.\<close>

lemma parallel_runs:
  assumes "par_call a0 a s" "Client_PutObject alloc sched e a0 c = Some (Inr resp, c')"
  shows "\<exists>hs st. upload_headers (timezone (ce_crypto e)) a = Some hs
    \<and> par_run (unat (inflight_limit a)) e a hs sched (par_new a s (unat (inflight_limit a))) c = Some (st, c')
    \<and> ps_phase st = Returned (Inr resp)"
  using assms
  by (auto simp: par_call_def Client_PutObject_def check_def check_tls_def with_client_def fail_def put_parallel_def
      Let_def split: if_splits option.splits phase.splits)

subsection \<open>A stream that is too short\<close>

definition short_state :: "u64 \<Rightarrow> par_state \<Rightarrow> bool" where
  "short_state n st \<longleftrightarrow> (ps_phase st = Reading \<longrightarrow> short_reader n (ps_reader st))
     \<and> (ps_phase st = Draining \<longrightarrow> is_err (ps_first_err st)) \<and> (\<forall>p. ps_phase st \<noteq> Returned (Inr p))
     \<and> (\<forall>j \<in> set (ps_inflight st). j_result j \<noteq> Some (Inl []))"

lemma is_err_text: "is_err err \<longleftrightarrow> err \<noteq> []"
  by (simp add: is_err_def SUCCESS_def)

lemma short_await:
  assumes "short_state n st" "ps_phase st = Reading" "await_slot m st = Some st'"
  shows "ps_reader st' = ps_reader st" "ps_phase st' = Reading \<or> ps_phase st' = Draining \<and> is_err (ps_first_err st')"
    "\<forall>j \<in> set (ps_inflight st'). j_result j \<noteq> Some (Inl [])"
  using assms
  by (auto simp: short_state_def await_slot_def take_part_def is_err_text
      split: if_splits list.splits option.splits sum.splits)

lemma short_round:
  assumes "par_round m e a hs t st c = Some (st', c')" "short_state n st" "ps_phase st = Reading"
    "a_object_size a = Some n" "uncommitted e c0 c"
  shows "short_state n st' \<and> uncommitted e c0 c'"
proof -
  have reader: "short_reader n (ps_reader st)" using assms(2,3) by (simp add: short_state_def)
  from assms(1) show ?thesis
  proof (cases rule: par_round_cases)
    case stop
    with assms(2,5) short_reader_goes_on [OF reader] show ?thesis by (simp add: short_state_def)
  next
    case (failed)
    with short_await [OF assms(2,3) failed(1)] assms(5) show ?thesis by (simp add: short_state_def)
  next
    case (short st1 err data r pool)
    with short_await [OF assms(2,3) short(1)] assms(5) show ?thesis by (simp add: short_state_def)
  next
    case (put st1 err data r pool piece res)
    with short_await(1) [OF assms(2,3) put(1)] short_reader_next [OF reader, of err data r] assms(4) show ?thesis by simp
  next
    case (refused st1 err data r pool err')
    with short_await [OF assms(2,3) refused(1)] uncommitted_start [OF assms(5) refused(3)]
      start_upload_error [OF refused(3)] show ?thesis by (simp add: short_state_def is_err_text)
  next
    case (thread st1 err data r pool i what)
    with short_await [OF assms(2,3) thread(1)] uncommitted_start [OF assms(5) thread(3)]
    show ?thesis by (simp add: short_state_def is_err_text)
  next
    case (sent st1 err data r pool i)
    have "short_reader n r"
      using short_await(1) [OF assms(2,3) sent(1)] short_reader_next [OF reader, of err data r] assms(4) sent(4,5) by simp
    with short_await [OF assms(2,3) sent(1)] uncommitted_start [OF assms(5) sent(6)] sent(2)
    show ?thesis by (auto simp: short_state_def sent(7) dispatch_def Let_def)
  qed (use assms in simp)
qed

lemma short_drain:
  assumes "par_drain e a st c = Some (st', c')" "short_state n st" "ps_phase st = Draining" "uncommitted e c0 c"
  shows "short_state n st' \<and> uncommitted e c0 c'"
proof (cases "ps_inflight st = []")
  case True
  have "is_err (ps_first_err st)" using assms(2,3) by (simp add: short_state_def)
  with True assms(1) obtain res where "abort_upload e a (ps_upload_id st) (ps_first_err st) c = Some (res, c')"
    "st' = st\<lparr>ps_phase := Returned res\<rparr>" by (auto simp: par_drain_def par_finish_def)
  with uncommitted_abort [OF assms(4)] True show ?thesis by (fastforce simp: short_state_def)
next
  case False
  with assms show ?thesis
    by (auto simp: par_drain_def take_part_def short_state_def split: list.splits option.splits sum.splits)
qed

lemma short_worker:
  assumes "run_worker e i st c = Some (st', c')" "short_state n st" "uncommitted e c0 c"
  shows "short_state n st' \<and> uncommitted e c0 c'"
proof (cases "i < length (ps_inflight st) \<and> j_result (ps_inflight st ! i) = None")
  case True
  let ?j = "ps_inflight st ! i"
  from True assms(1) obtain r where st': "st' = st\<lparr>ps_inflight := (ps_inflight st)[i := ?j\<lparr>j_result := Some r\<rparr>]\<rparr>"
    and r: "UploadPart e ((j_args ?j)\<lparr>a_part_data := job_view (ps_pool st) ?j\<rparr>) c = Some (r, c')"
    by (auto simp: run_worker_def Let_def)
  have "r \<noteq> Inl []" using r by (auto dest: UploadPart_error)
  then have "\<forall>j \<in> set (ps_inflight st'). j_result j \<noteq> Some (Inl [])"
    using assms(2) by (auto simp: st' short_state_def dest!: set_update_subset_insert [THEN subsetD])
  with assms(2) uncommitted.intros(3) [OF assms(3) r] show ?thesis by (simp add: st' short_state_def)
qed (use assms in \<open>auto simp: run_worker_def\<close>)

lemma short_run:
  assumes "a_object_size a = Some n"
  shows "short_state n st \<Longrightarrow> uncommitted e c0 c \<Longrightarrow> par_run m e a hs sched st c = Some (st', c') \<Longrightarrow>
    short_state n st' \<and> uncommitted e c0 c'"
proof (induction sched arbitrary: st c)
  case (Cons ch sched)
  then obtain st1 c1 where step: "par_step m e a hs ch st c = Some (st1, c1)"
    "par_run m e a hs sched st1 c1 = Some (st', c')" by (auto split: option.splits)
  have "short_state n st1 \<and> uncommitted e c0 c1"
    using step(1) Cons.prems(1,2) short_round [OF _ Cons.prems(1) _ assms Cons.prems(2)]
      short_drain [OF _ Cons.prems(1) _ Cons.prems(2)] short_worker [OF _ Cons.prems(1,2)]
    by (auto simp: par_step_def split: choice.splits phase.splits)
  with Cons.IH step(2) show ?case by blast
qed simp

text \<open>A whole call.\<close>

lemma short_call:
  assumes "PutObjectArgs_Validate a0 = (SUCCESS, a)" "a_stream a = Some s" "a_object_size a = Some n"
    "length (is_bytes s) < unat n" "Client_PutObject alloc sched e a0 c = Some (r, c')"
  shows "(\<exists>err. r = Inl err) \<and> uncommitted e c c'"
proof -
  note reader = short_reader_new [OF assms(1-4)]
  have par: "(\<exists>err. r = Inl err) \<and> uncommitted e c c'" if "put_parallel alloc sched e a c = Some (r, c')"
  proof (cases "alloc (unat (inflight_limit a)) (unat (buffer_size a))")
    case False
    with that show ?thesis by (auto simp: put_parallel_def fail_def Let_def intro: uncommitted.intros)
  next
    case True
    let ?m = "unat (inflight_limit a)"
    from True that assms(2) obtain hs st where run: "par_run ?m e a hs sched (par_new a s ?m) c = Some (st, c')"
      and ret: "ps_phase st = Returned r"
      by (auto simp: put_parallel_def Let_def split: option.splits phase.splits)
    have "short_state n (par_new a s ?m)" using reader by (simp add: short_state_def par_new_def)
    from short_run [OF assms(3) this uncommitted.intros(1) run] ret show ?thesis
      by (cases r) (auto simp: short_state_def)
  qed
  from assms(1,5) consider "put_parallel alloc sched e a c = Some (r, c')" | "put_sequential alloc e a c = Some (r, c')"
    | "\<exists>err. r = Inl err" "c' = c"
    by (auto simp: Client_PutObject_def check_def check_tls_def with_client_def fail_def split: if_splits)
  then show ?thesis
  proof cases
    case 2
    then show ?thesis by (rule short_sequential [OF reader assms(2,3)])
  qed (use par in \<open>auto intro: uncommitted.intros\<close>)
qed

end
