(* ===== verification/Transfers.thy ===== *)
theory Transfers
  imports ParallelUpload
begin

section \<open>Composing, copying, downloading (src/client.cc)\<close>

text \<open>
  Objects made on the server from others, part by part, and objects fetched into a file.
  \<open>CopyObject\<close> and \<open>ComposeObject\<close> call each other; \<open>None\<close> after \<open>n\<close> nested calls. The files a download
  touches are a map from names to contents; \<open>disk\<close> tells what becomes of the calls of the file system.
\<close>

subsection \<open>Counting the parts of a composition\<close>

definition with_length :: "compose_source \<Rightarrow> u64 \<Rightarrow> u64" where
  "with_length s sz =
     (case a_length s of Some l \<Rightarrow> l | None \<Rightarrow> (case a_offset s of Some off \<Rightarrow> sz - off | None \<Rightarrow> sz))"

text \<open>One source; \<open>n\<close> is the number of sources, \<open>i\<close> counts from one. The counts so far are the last two
  arguments and the result.\<close>

definition count_source :: "nat \<Rightarrow> nat \<Rightarrow> compose_source \<Rightarrow> u64 \<Rightarrow> u64 \<Rightarrow> u64 \<Rightarrow> error + u64 \<times> u64" where
  "count_source n i s sz part_count object_size =
     (let text = (\<lambda>w. to_string (unat (w :: u64)));
          inner = (n \<noteq> 1 \<and> i \<noteq> n);
          sz = with_length s sz;
          object_size = object_size + sz
      in if sz < ucast kMinPartSize \<and> inner then
           Inl (source_text s @ ''size '' @ text sz @ '' must be greater than '' @ to_string (unat kMinPartSize))
         else if kMaxObjectSize < object_size then
           Inl (''destination object size must be less than '' @ text kMaxObjectSize)
         else
           let count = sz div kMaxPartSize;
               last_size = sz - count * kMaxPartSize;
               (count, last_size) = (if 0 < last_size then (count + 1, last_size) else (count, kMaxPartSize))
           in if kMaxPartSize < sz \<and> last_size < ucast kMinPartSize \<and> inner then
                Inl (source_text s @ ''size '' @ text sz @ '' for multipart split upload of '' @ text sz
                  @ '', last part size is less than '' @ to_string (unat kMinPartSize))
              else
                let part_count = (if kMaxPartSize < sz then part_count + count else part_count + 1)
                in if ucast kMaxMultipartCount < part_count then
                     Inl (''Compose sources create more than allowed multipart count ''
                       @ to_string (unat kMaxMultipartCount))
                   else Inr (part_count, object_size))"

text \<open>The sources are copies: what \<open>BuildHeaders\<close> stores in them is lost.\<close>

fun count_sources :: "'w client_env \<Rightarrow> nat \<Rightarrow> nat \<Rightarrow> compose_source list \<Rightarrow> u64 \<Rightarrow> u64 \<Rightarrow> (u64, 'w) op" where
  "count_sources e n i [] part_count object_size = ret part_count"
| "count_sources e n i (s # ss) part_count object_size = with_client (\<lambda>c.
     check (if a_ssec s \<noteq> None \<and> \<not> b_https (cl_base_url c)
         then source_text s @ ''SSE-C operation must be performed over a secure connection'' else SUCCESS)
       (and_then (StatObject e (object_conditional_read_args.truncate s)) (\<lambda>resp.
          check (fst (ComposeSource_BuildHeaders (timezone (ce_crypto e)) s (so_size resp) (so_etag resp)))
            (and_then (lift_result (count_source n (Suc i) s (so_size resp) part_count object_size))
              (\<lambda>(part_count, object_size). count_sources e n (Suc i) ss part_count object_size)))))"

definition CalculatePartCount :: "'w client_env \<Rightarrow> compose_source list \<Rightarrow> (u64, 'w) op" where
  "CalculatePartCount e sources = count_sources e (length sources) 0 sources 0 0"

subsection \<open>Composing\<close>

definition copy_part_args :: "compose_object_args \<Rightarrow> string \<Rightarrow> u32 \<Rightarrow> multimap \<Rightarrow> upload_part_copy_args" where
  "copy_part_args a upload_id n hs =
     \<lparr>a_extra_headers = mm_empty, a_extra_query_params = mm_empty, a_bucket = a_bucket a, a_region = a_region a,
      a_object = a_object a, a_headers = mm_empty, a_user_metadata = mm_empty, a_sse = None, a_tags = [],
      a_retention = None, a_legal_hold = False, a_copy_upload_id = upload_id, a_copy_part_number = n,
      a_copy_headers = hs\<rparr>"

definition copy_range :: "u64 \<Rightarrow> u64 \<Rightarrow> string" where
  "copy_range lo hi = ''bytes='' @ to_string (unat lo) @ ''-'' @ to_string (unat hi)"

definition copy_part :: "'w client_env \<Rightarrow> compose_object_args \<Rightarrow> string \<Rightarrow> u32 \<Rightarrow> multimap \<Rightarrow> part list
    \<Rightarrow> (part list, 'w) op" where
  "copy_part e a upload_id n hs parts =
     and_then (UploadPartCopy e (copy_part_args a upload_id n hs)) (\<lambda>resp. ret (parts @ [uploaded_part n resp]))"

text \<open>A source longer than a part is copied in ranges. The number of the last part and the parts so far are
  passed on.\<close>

lemma copy_loop_less:
  assumes "sz \<noteq> 0"
  shows "unat (sz - (if kMaxPartSize < sz then kMaxPartSize else sz)) < unat sz"
proof (cases "kMaxPartSize < sz")
  case True
  then have "unat (sz - kMaxPartSize) = unat sz - 2 ^ 30"
    by (simp add: unat_sub word_less_nat_alt word_le_nat_alt limits)
  with True show ?thesis by (simp add: word_less_nat_alt limits)
qed (use assms in \<open>simp add: unat_gt_0\<close>)

function copy_loop :: "'w client_env \<Rightarrow> compose_object_args \<Rightarrow> string \<Rightarrow> multimap \<Rightarrow> u64 \<Rightarrow> u64 \<Rightarrow> u32 \<Rightarrow> part list
    \<Rightarrow> (u32 \<times> part list, 'w) op" where
  "copy_loop e a upload_id hs offset sz n parts =
     (if sz = 0 then ret (n, parts)
      else
        let len = (if kMaxPartSize < sz then kMaxPartSize else sz);
            hi = offset + len - 1;
            hs' = Add ''x-amz-copy-source-range'' (copy_range offset hi) (AddAll hs mm_empty)
        in and_then (copy_part e a upload_id (n + 1) hs' parts) (\<lambda>parts.
             copy_loop e a upload_id hs (offset + len) (sz - len) (n + 1) parts))"
  by pat_completeness auto
termination
  by (relation "measure (\<lambda>(e, a, i, hs, offset, sz, n, parts). unat sz)") (auto simp: copy_loop_less)

declare copy_loop.simps [simp del]

text \<open>\<open>None\<close>: \<open>ObjectSize\<close> or \<open>Headers\<close> ends the process, as \<open>BuildHeaders\<close> was not called.\<close>

definition copy_source_parts :: "'w client_env \<Rightarrow> compose_object_args \<Rightarrow> string \<Rightarrow> compose_source \<Rightarrow> u32 \<Rightarrow> part list
    \<Rightarrow> (u32 \<times> part list, 'w) op" where
  "copy_source_parts e a upload_id s n parts =
     (case (ComposeSource_ObjectSize s, ComposeSource_Headers s) of
        (Some sz, Some source_headers) \<Rightarrow>
          (let sz = with_length s sz;
               offset = (case a_offset s of Some off \<Rightarrow> off | None \<Rightarrow> 0);
               hs = AddAll (customer_key_headers a) (AddAll source_headers mm_empty)
           in if sz \<le> kMaxPartSize then
                let hs = (case a_length s of
                      Some l \<Rightarrow> Add ''x-amz-copy-source-range'' (copy_range offset (offset + l - 1)) hs
                    | None \<Rightarrow> if a_offset s \<noteq> None
                        then Add ''x-amz-copy-source-range'' (copy_range offset (offset + sz - 1)) hs else hs)
                in and_then (copy_part e a upload_id (n + 1) hs parts) (\<lambda>parts. ret (n + 1, parts))
              else copy_loop e a upload_id hs offset sz n parts)
      | _ \<Rightarrow> undefined_op)"

text \<open>The sources in order; the number and the parts go from one to the next.\<close>

fun copy_sources :: "'w client_env \<Rightarrow> compose_object_args \<Rightarrow> string \<Rightarrow> compose_source list \<Rightarrow> u32 \<Rightarrow> part list
    \<Rightarrow> (part list, 'w) op" where
  "copy_sources e a upload_id [] n parts = ret parts"
| "copy_sources e a upload_id (s # ss) n parts =
     and_then (copy_source_parts e a upload_id s n parts) (\<lambda>(n, parts). copy_sources e a upload_id ss n parts)"

definition compose_copy_args :: "compose_object_args \<Rightarrow> compose_source \<Rightarrow> copy_object_args" where
  "compose_copy_args a s =
     \<lparr>a_extra_headers = a_extra_headers a, a_extra_query_params = a_extra_query_params a, a_bucket = a_bucket a,
      a_region = a_region a, a_object = a_object a, a_headers = mm_empty, a_user_metadata = mm_empty,
      a_sse = a_sse a, a_tags = [], a_retention = None, a_legal_hold = False,
      a_source = object_conditional_read_args.truncate s, a_metadata_directive = None, a_tagging_directive = None\<rparr>"

text \<open>The private \<open>ComposeObject\<close>: the upload ID is an output, also with an error. \<open>copy\<close> is \<open>CopyObject\<close>.\<close>

definition compose_parts :: "'w client_env \<Rightarrow> (copy_object_args \<Rightarrow> (put_object_response, 'w) op) \<Rightarrow> compose_object_args
    \<Rightarrow> 'w client \<Rightarrow> ((error + put_object_response) \<times> string \<times> 'w client) option" where
  "compose_parts e copy a c =
     (case CalculatePartCount e (a_sources a) c of
        None \<Rightarrow> None
      | Some (Inl err, c) \<Rightarrow> Some (Inl err, [], c)
      | Some (Inr part_count, c) \<Rightarrow>
          (case a_sources a of
             [] \<Rightarrow> None
           | s # ss \<Rightarrow>
               if part_count = 1 \<and> a_offset s = None \<and> a_length s = None then
                 keep_id [] (copy (compose_copy_args a s)) c
               else case ObjectWriteArgs_Headers (timezone (ce_crypto e)) a of
                 None \<Rightarrow> None
               | Some hs \<Rightarrow>
                   (case CreateMultipartUpload e (create_upload_args a hs) c of
                      None \<Rightarrow> None
                    | Some (Inl err, c) \<Rightarrow> Some (Inl err, [], c)
                    | Some (Inr upload_id, c) \<Rightarrow>
                        keep_id upload_id
                          (and_then (copy_sources e a upload_id (a_sources a) 0 []) (\<lambda>parts.
                             and_then (CompleteMultipartUpload e (complete_args a upload_id parts))
                               (\<lambda>resp. ret (put_of_complete resp)))) c)))"

definition compose_with :: "'w client_env \<Rightarrow> (copy_object_args \<Rightarrow> (put_object_response, 'w) op) \<Rightarrow> compose_object_args
    \<Rightarrow> (put_object_response, 'w) op" where
  "compose_with e copy a = check (ComposeObjectArgs_Validate a) (check_tls a (\<lambda>c.
     case compose_parts e copy a c of
       None \<Rightarrow> None
     | Some (Inl err, upload_id, c) \<Rightarrow> abort_upload e a upload_id err c
     | Some (Inr resp, upload_id, c) \<Rightarrow> ret resp c))"

subsection \<open>Copying\<close>

text \<open>The version of the source is not copied.\<close>

definition copy_compose_args :: "copy_object_args \<Rightarrow> compose_object_args" where
  "copy_compose_args a =
     (let s = a_source a in
      \<lparr>a_extra_headers = a_extra_headers a, a_extra_query_params = a_extra_query_params a, a_bucket = a_bucket a,
       a_region = a_region a, a_object = a_object a, a_headers = mm_empty, a_user_metadata = mm_empty,
       a_sse = a_sse a, a_tags = [], a_retention = None, a_legal_hold = False,
       a_sources = [\<lparr>a_extra_headers = a_extra_headers s, a_extra_query_params = a_extra_query_params s,
         a_bucket = a_bucket s, a_region = a_region s, a_object = a_object s, a_version_id = [], a_ssec = a_ssec s,
         a_offset = a_offset s, a_length = a_length s, a_match_etag = a_match_etag s,
         a_not_match_etag = a_not_match_etag s, a_modified_since = a_modified_since s,
         a_unmodified_since = a_unmodified_since s, cs_object_size = None, cs_headers = mm_empty\<rparr>]\<rparr>)"

definition copy_request :: "int \<Rightarrow> copy_object_args \<Rightarrow> multimap \<Rightarrow> string \<Rightarrow> 's s3_request" where
  "copy_request tz a write_headers region =
     (let hs = AddAll (a_extra_headers a) mm_empty;
          hs = AddAll write_headers hs;
          hs = (case a_metadata_directive a of None \<Rightarrow> hs
            | Some d \<Rightarrow> Add ''x-amz-metadata-directive'' (DirectiveToString d) hs);
          hs = (case a_tagging_directive a of None \<Rightarrow> hs
            | Some d \<Rightarrow> Add ''x-amz-tagging-directive'' (DirectiveToString d) hs);
          hs = AddAll (ObjectConditionalReadArgs_CopyHeaders tz (a_source a)) hs
      in with_headers hs (object_request kPut region a))"

definition copy_response :: "response \<Rightarrow> put_object_response" where
  "copy_response r = (put_object_response_of Response_new)\<lparr>po_etag := Trim (GetFront ''etag'' (rs_headers r)) (CHR 0x22),
     po_version_id := GetFront ''x-amz-version-id'' (rs_headers r)\<rparr>"

definition copy_with :: "'w client_env \<Rightarrow> (compose_object_args \<Rightarrow> (put_object_response, 'w) op) \<Rightarrow> copy_object_args
    \<Rightarrow> (put_object_response, 'w) op" where
  "copy_with e compose a = check (CopyObjectArgs_Validate a) (check_tls a (check_ssec (a_ssec (a_source a))
     (and_then (StatObject e (a_source a)) (\<lambda>stat.
        if a_offset (a_source a) \<noteq> None \<or> a_length (a_source a) \<noteq> None \<or> kMaxPartSize < so_size stat then
          (if a_metadata_directive a = Some kCopy then
             fail ''COPY metadata directive is not applicable to source object size greater than 5 GiB''
           else if a_tagging_directive a = Some kCopy then
             fail ''COPY tagging directive is not applicable to source object size greater than 5 GiB''
           else compose (copy_compose_args a))
        else case ObjectWriteArgs_Headers (timezone (ce_crypto e)) a of
          None \<Rightarrow> undefined_op
        | Some hs \<Rightarrow> in_region e a (\<lambda>region.
            and_then (send_request e (copy_request (timezone (ce_crypto e)) a hs region))
              (\<lambda>r. ret (copy_response r)))))))"

primrec CopyObject :: "nat \<Rightarrow> 'w client_env \<Rightarrow> copy_object_args \<Rightarrow> (put_object_response, 'w) op" where
  "CopyObject 0 e = (\<lambda>a. undefined_op)"
| "CopyObject (Suc n) e = copy_with e (compose_with e (CopyObject n e))"

definition ComposeObject :: "nat \<Rightarrow> 'w client_env \<Rightarrow> compose_object_args \<Rightarrow> (put_object_response, 'w) op" where
  "ComposeObject n e = compose_with e (CopyObject n e)"

subsection \<open>Downloading\<close>

definition part_filename :: "string \<Rightarrow> string \<Rightarrow> string" where
  "part_filename filename etag = filename @ ''.'' @ UriEncode etag @ ''.part.minio''"

definition download_stat_args :: "download_object_args \<Rightarrow> object_conditional_read_args" where
  "download_stat_args a =
     \<lparr>a_extra_headers = mm_empty, a_extra_query_params = mm_empty, a_bucket = a_bucket a, a_region = a_region a,
      a_object = a_object a, a_version_id = a_version_id a, a_ssec = a_ssec a, a_offset = None, a_length = None,
      a_match_etag = [], a_not_match_etag = [], a_modified_since = utc_default, a_unmodified_since = utc_default\<rparr>"

text \<open>The state behind the data function is what was written to the file so far.\<close>

definition download_request :: "download_object_args \<Rightarrow> string \<Rightarrow> string s3_request" where
  "download_request a region =
     (version_request kGet region a)\<lparr>q_datafunc := Some (\<lambda>written _ chunk. (True, written @ chunk))\<rparr>"

text \<open>The file system under a download: whether a file can be opened, what it holds at the end when some bytes
  were written to it (all of them, or fewer when a write fails), whether the renaming succeeds. The code does
  not look at the state of its \<open>std::ofstream\<close>; a renaming that fails throws, \<open>None\<close>.\<close>

record disk =
  dk_opens :: "string \<Rightarrow> bool"
  dk_keeps :: "string \<Rightarrow> string \<Rightarrow> string"
  dk_renames :: "string \<Rightarrow> string \<Rightarrow> bool"

definition DownloadObject :: "file_system \<Rightarrow> disk \<Rightarrow> 'w client_env \<Rightarrow> download_object_args
    \<Rightarrow> (string \<rightharpoonup> string) \<Rightarrow> 'w client \<Rightarrow> ((error + response) \<times> (string \<rightharpoonup> string) \<times> 'w client) option" where
  "DownloadObject fs d e a files c =
     (case check (DownloadObjectArgs_Validate fs a)
             (check_ssec (a_ssec a) (StatObject e (download_stat_args a))) c of
        None \<Rightarrow> None
      | Some (Inl err, c) \<Rightarrow> Some (Inl err, files, c)
      | Some (Inr stat, c) \<Rightarrow>
          let temp = part_filename (a_filename a) (so_etag stat) in
          if \<not> dk_opens d temp then Some (Inl (''unable to open file '' @ temp), files, c)
          else
            let files = files(temp \<mapsto> []) in
            case stream_call e (GetRegion e (a_bucket a) (a_region a)) (download_request a) [] c of
              None \<Rightarrow> None
            | Some (Inl err, written, c) \<Rightarrow> Some (Inl err, files(temp \<mapsto> dk_keeps d temp written), c)
            | Some (Inr r, written, c) \<Rightarrow>
                if dk_renames d temp (a_filename a) then
                  Some (Inr r, files(temp := None, a_filename a \<mapsto> dk_keeps d temp written), c)
                else None)"

text \<open>\<open>Client::GetObject\<close> hides the method of the base class; it checks the arguments once more.\<close>

definition Client_GetObject :: "'w client_env \<Rightarrow> 's get_object_args \<Rightarrow> 's \<Rightarrow> 'w client
    \<Rightarrow> ((error + response) \<times> 's \<times> 'w client) option" where
  "Client_GetObject e a s c =
     (let err = GetObjectArgs_Validate a in
      if is_err err then Some (Inl err, s, c) else GetObject e a s c)"

subsection \<open>What a composition needs\<close>

text \<open>Every source makes a part, and the count does not wrap.\<close>

lemma count_source_counts:
  assumes "count_source n i s sz pc os = Inr (pc', os')" "unat pc \<le> 10000"
  shows "unat pc + 1 \<le> unat pc' \<and> unat pc' \<le> 10000"
proof -
  let ?sz = "with_length s sz"
  define c where "c = ?sz div kMaxPartSize"
  have big: "1 \<le> unat c" if "kMaxPartSize < ?sz"
    using that by (simp add: c_def unat_div word_less_nat_alt limits)
  have small: "unat c + 1 \<le> 2 ^ 34 + 1"
    using unat_u64 [of ?sz] by (simp add: c_def unat_div limits)
  have max: "pc' \<le> ucast kMaxMultipartCount" "pc' = pc + 1 \<or> kMaxPartSize < ?sz \<and> (pc' = pc + c \<or> pc' = pc + (c + 1))"
    using assms(1) by (auto simp: count_source_def Let_def c_def split: if_splits prod.splits)
  have "unat pc' = unat pc + unat (pc' - pc)" if "unat (pc' - pc) \<le> 2 ^ 34 + 1"
    using that assms(2) unat_plus_if' [of pc "pc' - pc"] by simp
  moreover have "unat (pc' - pc) \<le> 2 ^ 34 + 1" "1 \<le> unat (pc' - pc)"
  proof -
    have "unat (c + 1) = unat c + 1" using small by (simp add: unat_plus_if')
    then show "unat (pc' - pc) \<le> 2 ^ 34 + 1" "1 \<le> unat (pc' - pc)" using max(2) big small by auto
  qed
  ultimately show ?thesis using max(1) by (simp add: word_le_nat_alt limits)
qed

lemma count_sources_counts:
  "count_sources e n i ss pc os c = Some (Inr pc', c') \<Longrightarrow> unat pc \<le> 10000 \<Longrightarrow> unat pc + length ss \<le> unat pc'"
proof (induction ss arbitrary: i pc os c)
  case Nil
  then show ?case by (simp add: ret_def)
next
  case (Cons s ss)
  from Cons.prems(1) obtain sz pc1 os1 i1 c1 where "count_source n i1 s sz pc os = Inr (pc1, os1)"
    "count_sources e n i1 ss pc1 os1 c1 = Some (Inr pc', c')"
    by (fastforce simp: with_client_def check_def and_then_def on_result_def lift_result_def fail_def
        split: if_splits option.splits sum.splits prod.splits)
  with Cons.IH count_source_counts [of n i1 s sz pc os pc1 os1] Cons.prems(2) show ?case by fastforce
qed

text \<open>A source on which \<open>BuildHeaders\<close> was never called ends the process when its part is to be copied.\<close>

lemma fresh_source_ends:
  "cs_object_size s = None \<Longrightarrow> copy_source_parts e a i s n parts c = None"
  by (simp add: copy_source_parts_def ComposeSource_ObjectSize_def undefined_op_def)

lemma compose_parts_fresh:
  assumes "compose_parts e copy a c = Some (Inr resp, i, c')" "a_sources a = s # ss" "cs_object_size s = None"
  shows "ss = [] \<and> a_offset s = None \<and> a_length s = None
    \<and> (\<exists>c0. copy (compose_copy_args a s) c0 = Some (Inr resp, c'))"
proof -
  from assms(1,2) obtain pc c1 where pc: "CalculatePartCount e (s # ss) c = Some (Inr pc, c1)"
    by (auto simp: compose_parts_def split: option.splits sum.splits prod.splits)
  then have "Suc (length ss) \<le> unat pc"
    using count_sources_counts [of e _ 0 "s # ss" 0 0] by (fastforce simp: CalculatePartCount_def)
  moreover have whole: "pc = 1 \<and> a_offset s = None \<and> a_length s = None"
  proof (rule ccontr)
    assume "\<not> (pc = 1 \<and> a_offset s = None \<and> a_length s = None)"
    then show False
      using assms pc
      by (auto simp: fresh_source_ends compose_parts_def keep_id_def and_then_def on_result_def split: option.splits sum.splits)
  qed
  ultimately show ?thesis
    using assms(1,2) pc by (auto simp: compose_parts_def keep_id_def)
qed

lemma compose_with_fresh:
  assumes "compose_with e copy a c = Some (Inr resp, c')" "\<forall>s \<in> set (a_sources a). cs_object_size s = None"
  shows "\<exists>s. a_sources a = [s] \<and> a_offset s = None \<and> a_length s = None"
proof -
  from assms(1) obtain i c1 c2 where run: "compose_parts e copy a c1 = Some (Inr resp, i, c2)"
    by (auto simp: compose_with_def check_def check_tls_def with_client_def fail_def ret_def abort_upload_def on_result_def
        split: if_splits option.splits sum.splits prod.splits)
  obtain s ss where "a_sources a = s # ss"
    using run by (cases "a_sources a") (auto simp: compose_parts_def split: option.splits sum.splits prod.splits)
  with compose_parts_fresh [OF run this] assms(2) show ?thesis by auto
qed

text \<open>So a copy that succeeds is one of a whole object: with an offset, a length or a source above the part
  limit, the sources of the composition are fresh.\<close>

lemma copy_of_range_never_succeeds:
  assumes "CopyObject n e a c = Some (Inr resp, c')"
  shows "a_offset (a_source a) = None \<and> a_length (a_source a) = None"
proof (rule ccontr)
  assume range: "\<not> (a_offset (a_source a) = None \<and> a_length (a_source a) = None)"
  obtain k where "n = Suc k" using assms by (cases n) (auto simp: undefined_op_def)
  with assms range obtain c1 where "compose_with e (CopyObject k e) (copy_compose_args a) c1 = Some (Inr resp, c')"
    by (auto simp: copy_with_def check_def check_tls_def check_ssec_def with_client_def fail_def and_then_def on_result_def
        split: if_splits option.splits sum.splits prod.splits)
  from compose_with_fresh [OF this] range show False by (auto simp: copy_compose_args_def Let_def)
qed

subsection \<open>The ranges of a copy tile the source\<close>

text \<open>The specification of the loop: first and last byte of each range.\<close>

function copy_spans :: "u64 \<Rightarrow> u64 \<Rightarrow> (u64 \<times> u64) list" where
  "copy_spans offset sz =
     (if sz = 0 then []
      else let len = (if kMaxPartSize < sz then kMaxPartSize else sz)
        in (offset, offset + len - 1) # copy_spans (offset + len) (sz - len))"
  by pat_completeness auto
termination
  by (relation "measure (\<lambda>(offset, sz). unat sz)") (auto simp: copy_loop_less)

declare copy_spans.simps [simp del]

fun copy_all :: "'w client_env \<Rightarrow> compose_object_args \<Rightarrow> string \<Rightarrow> multimap \<Rightarrow> (u64 \<times> u64) list \<Rightarrow> u32 \<Rightarrow> part list
    \<Rightarrow> (u32 \<times> part list, 'w) op" where
  "copy_all e a i hs [] n parts = ret (n, parts)"
| "copy_all e a i hs ((lo, hi) # spans) n parts =
     and_then (copy_part e a i (n + 1) (Add ''x-amz-copy-source-range'' (copy_range lo hi) (AddAll hs mm_empty)) parts)
       (\<lambda>parts. copy_all e a i hs spans (n + 1) parts)"

lemma copy_loop_spans: "copy_loop e a i hs offset sz n parts = copy_all e a i hs (copy_spans offset sz) n parts"
proof (induction offset sz arbitrary: n parts rule: copy_spans.induct)
  case (1 offset sz)
  show ?case
  proof (cases "sz = 0")
    case True
    then show ?thesis by (simp add: copy_loop.simps copy_spans.simps)
  next
    case False
    define len where "len = (if kMaxPartSize < sz then kMaxPartSize else sz)"
    have "copy_loop e a i hs (offset + len) (sz - len) (n + 1)
        = copy_all e a i hs (copy_spans (offset + len) (sz - len)) (n + 1)"
      by (rule ext) (rule 1 [OF False len_def])
    with False show ?thesis
      by (subst copy_loop.simps, subst copy_spans.simps) (simp add: Let_def len_def [symmetric])
  qed
qed

lemma span_step:
  assumes "sz \<noteq> 0" "unat offset + unat sz < 2 ^ 64" "len = (if kMaxPartSize < sz then kMaxPartSize else sz)"
  shows "unat (offset + len) = unat offset + unat len" "unat (sz - len) = unat sz - unat len" "unat len \<le> unat sz"
    "0 < unat len" "Suc (unat (offset + len - 1)) = unat offset + unat len" "unat len \<le> 2 ^ 30"
proof -
  show le: "unat len \<le> unat sz" using assms(3) by (simp add: word_less_nat_alt)
  have "unat kMaxPartSize \<noteq> 0" by (simp add: limits)
  then show pos: "0 < unat len" using assms(1,3) by (auto simp: unat_gt_0 unat_eq_zero)
  show sum: "unat (offset + len) = unat offset + unat len" using le assms(2) by (simp add: unat_plus_if')
  show "unat (sz - len) = unat sz - unat len" using le by (simp add: unat_sub word_le_nat_alt)
  have "1 \<le> offset + len" using sum pos by (simp add: word_le_nat_alt)
  then show "Suc (unat (offset + len - 1)) = unat offset + unat len" using sum pos by (simp add: unat_sub)
  show "unat len \<le> 2 ^ 30" using assms(3) by (auto simp: limits word_less_nat_alt)
qed

lemma copy_spans_rec:
  "sz \<noteq> 0 \<Longrightarrow> len = (if kMaxPartSize < sz then kMaxPartSize else sz)
    \<Longrightarrow> copy_spans offset sz = (offset, offset + len - 1) # copy_spans (offset + len) (sz - len)"
  by (subst copy_spans.simps) (simp add: Let_def)

lemma copy_spans_tile:
  assumes "unat offset + unat sz < 2 ^ 64"
  shows "concat (map (\<lambda>(lo, hi). [unat lo..<Suc (unat hi)]) (copy_spans offset sz)) = [unat offset..<unat offset + unat sz]
    \<and> (\<forall>(lo, hi) \<in> set (copy_spans offset sz). unat hi - unat lo < 2 ^ 30)"
  using assms
proof (induction offset sz rule: copy_spans.induct)
  case (1 offset sz)
  define len where "len = (if kMaxPartSize < sz then kMaxPartSize else sz)"
  show ?case
  proof (cases "sz = 0")
    case False
    note step = span_step [OF False 1(2) len_def]
    have "concat (map (\<lambda>(lo, hi). [unat lo..<Suc (unat hi)]) (copy_spans (offset + len) (sz - len)))
        = [unat offset + unat len..<unat offset + unat sz]
      \<and> (\<forall>(lo, hi) \<in> set (copy_spans (offset + len) (sz - len)). unat hi - unat lo < 2 ^ 30)"
      using 1(1) [OF False len_def] step 1(2) by simp
    moreover have "[unat offset..<unat offset + unat len] @ [unat offset + unat len..<unat offset + unat sz]
        = [unat offset..<unat offset + unat sz]"
      using step(3) upt_add_eq_append [of "unat offset" "unat offset + unat len" "unat sz - unat len"] by simp
    moreover have "unat (offset + len - 1) - unat offset < 2 ^ 30" using step(4-6) by simp
    ultimately show ?thesis
      using step(5) by (simp add: copy_spans_rec [OF False len_def] del: upt_Suc)
  qed (simp add: copy_spans.simps)
qed

subsection \<open>More calls are enough when some are\<close>

definition op_le :: "('a, 'w) op \<Rightarrow> ('a, 'w) op \<Rightarrow> bool" where
  "op_le m m' \<longleftrightarrow> (\<forall>c r. m c = Some r \<longrightarrow> m' c = Some r)"

lemma op_le_refl: "op_le m m"
  by (simp add: op_le_def)

lemma op_le_check: "op_le m m' \<Longrightarrow> op_le (check err m) (check err m')"
  by (simp add: op_le_def check_def)

lemma op_le_with_client: "(\<And>c. op_le (f c) (f' c)) \<Longrightarrow> op_le (with_client f) (with_client f')"
  by (simp add: op_le_def with_client_def)

lemma op_le_if: "op_le m m1 \<Longrightarrow> op_le m' m1' \<Longrightarrow> op_le (if b then m else m') (if b then m1 else m1')"
  by simp

lemma op_le_and_then: "(\<And>x. op_le (f x) (f' x)) \<Longrightarrow> op_le (and_then m f) (and_then m f')"
  by (auto simp: op_le_def and_then_def on_result_def split: option.splits sum.splits)

lemmas op_le_intros = op_le_refl op_le_check op_le_with_client op_le_if op_le_and_then

lemma compose_parts_mono:
  assumes "\<And>a. op_le (copy a) (copy' a)" "compose_parts e copy a c = Some r"
  shows "compose_parts e copy' a c = Some r"
proof -
  from assms(2) obtain res c1 where count: "CalculatePartCount e (a_sources a) c = Some (res, c1)"
    by (auto simp: compose_parts_def split: option.splits)
  show ?thesis
  proof (cases "\<exists>s ss. res = Inr 1 \<and> a_sources a = s # ss \<and> a_offset s = None \<and> a_length s = None")
    case True
    then obtain s ss where s: "res = Inr 1" "a_sources a = s # ss" "a_offset s = None" "a_length s = None" by auto
    with assms(2) count obtain r1 c2 where "copy (compose_copy_args a s) c1 = Some (r1, c2)" "r = (r1, [], c2)"
      by (auto simp: compose_parts_def keep_id_def)
    with s count assms(1) [of "compose_copy_args a s"] show ?thesis
      by (simp add: compose_parts_def keep_id_def op_le_def)
  next
    case False
    with count have "compose_parts e copy a c = compose_parts e copy' a c"
      by (cases res; cases "a_sources a") (auto simp: compose_parts_def)
    with assms(2) show ?thesis by simp
  qed
qed

lemma compose_with_mono: "(\<And>a. op_le (copy a) (copy' a)) \<Longrightarrow> op_le (compose_with e copy a) (compose_with e copy' a)"
  unfolding compose_with_def check_tls_def
proof (intro op_le_check op_le_with_client op_le_if op_le_refl)
  assume "\<And>a. op_le (copy a) (copy' a)"
  note parts = compose_parts_mono [OF this]
  show "op_le (\<lambda>c. case compose_parts e copy a c of None \<Rightarrow> None
       | Some (Inl err, i, c) \<Rightarrow> abort_upload e a i err c | Some (Inr resp, i, c) \<Rightarrow> ret resp c)
     (\<lambda>c. case compose_parts e copy' a c of None \<Rightarrow> None
       | Some (Inl err, i, c) \<Rightarrow> abort_upload e a i err c | Some (Inr resp, i, c) \<Rightarrow> ret resp c)"
    unfolding op_le_def
  proof (intro allI impI)
    fix c r
    assume run: "(case compose_parts e copy a c of None \<Rightarrow> None
       | Some (Inl err, i, c) \<Rightarrow> abort_upload e a i err c | Some (Inr resp, i, c) \<Rightarrow> ret resp c) = Some r"
    then obtain x where "compose_parts e copy a c = Some x" by (cases "compose_parts e copy a c") auto
    with parts [OF this] run show "(case compose_parts e copy' a c of None \<Rightarrow> None
       | Some (Inl err, i, c) \<Rightarrow> abort_upload e a i err c | Some (Inr resp, i, c) \<Rightarrow> ret resp c) = Some r"
      by simp
  qed
qed

lemma copy_with_mono: "(\<And>a. op_le (compose a) (compose' a)) \<Longrightarrow> op_le (copy_with e compose a) (copy_with e compose' a)"
  unfolding copy_with_def check_tls_def check_ssec_def by (intro op_le_intros) simp

lemma CopyObject_mono: "op_le (CopyObject n e a) (CopyObject (n + k) e a)"
proof (induction n arbitrary: a)
  case 0
  then show ?case by (simp add: op_le_def undefined_op_def)
next
  case (Suc n)
  then show ?case by (simp add: copy_with_mono compose_with_mono)
qed

subsection \<open>What a download leaves on disk\<close>

lemma part_filename_differs: "part_filename f etag \<noteq> f" "f \<noteq> part_filename f etag"
  by (simp_all add: part_filename_def)

lemma download_failed:
  assumes "DownloadObject fs d e a files c = Some (Inl err, files', c')"
  shows "files' (a_filename a) = files (a_filename a)"
  using assms
  by (auto simp: DownloadObject_def Let_def part_filename_differs split: option.splits sum.splits if_splits prod.splits)

lemma download_succeeded:
  assumes "DownloadObject fs d e a files c = Some (Inr r, files', c')"
  shows "\<exists>etag region q written c1. Execute e (download_request a region) [] c1 = Some (Inr r, q, written, c')
    \<and> files' = files(part_filename (a_filename a) etag := None,
        a_filename a \<mapsto> dk_keeps d (part_filename (a_filename a) etag) written)"
  using assms
  by (fastforce simp: DownloadObject_def Let_def stream_call_def split: option.splits sum.splits if_splits prod.splits)

text \<open>The data function of a download writes every chunk, and a request that is not a \<open>HEAD\<close> is not sent
  twice; so what is written is the body of one answer. \<open>httplib\<close> gives each of its failures a text.\<close>

definition named_failures :: "'w client_env \<Rightarrow> bool" where
  "named_failures e \<longleftrightarrow> plain_failures e \<and> (\<forall>w call. x_failure (fst (ce_send e w call)) \<noteq> Some [])"

lemma receive_writes:
  "receive True (\<lambda>written _ chunk. (True, written @ chunk)) cs resp s = (False, resp, s @ concat cs)"
  by (induction cs arbitrary: s) auto

lemma receive_skips: "receive False f cs resp s = (False, resp\<lparr>resp_body := resp_body resp @ concat cs\<rparr>, s)"
  by (induction cs arbitrary: resp) auto

lemma http_execute_writes:
  assumes "http_execute (\<lambda>_. x) r s = (h, s')" "resp_bool h" "rq_method r = kGet"
    "rq_datafunc r = Some (\<lambda>written _ chunk. (True, written @ chunk))" "x_failure x \<noteq> Some []"
  shows "x_failure x = None \<and> 200 \<le> x_status x \<and> x_status x \<le> 299 \<and> s' = s @ concat (x_chunks x)"
proof (cases "x_valid x \<and> 200 \<le> x_status x \<and> x_status x \<le> 299")
  case True
  with assms show ?thesis
    by (auto simp: http_execute_def Let_def receive_writes resp_bool_def response_empty_def split: option.splits)
next
  case False
  then have "x_valid x \<Longrightarrow> (200 \<le> x_status x \<and> x_status x \<le> 299) = False" by blast
  with assms show ?thesis
    by (cases "x_valid x") (auto simp: http_execute_def Let_def receive_skips resp_bool_def response_empty_def split: option.splits)
qed

lemma execute_not_retried:
  assumes "plain_failures e" "execute e q s c = Some (Inl err, q', s', c')" "q_method q \<noteq> kHead"
  shows "err \<noteq> ''RetryHead''"
proof -
  from execute_exchanged [OF assms(2)] obtain hr x h
    where ex: "exchanged e q s c (Inl err, q', s', c') hr x h" by blast
  then obtain w0 w where x: "ce_send e w0 (call_of hr) = (x, w)" "http_execute (\<lambda>_. x) hr s = (h, s')"
    and err: "exchange_error e q h (c\<lparr>cl_world := w\<rparr>) = err"
    by (auto simp: exchanged_def Let_def split: if_splits)
  from x(1) assms(1) have "x_failure x \<noteq> Some ''RetryHead''" by (metis fst_conv plain_failures_def)
  with http_execute_error_text [OF x(2)] have "resp_error h \<noteq> ''RetryHead''" by auto
  with GetErrorResponse_RetryHead assms(3) err show ?thesis unfolding exchange_error_def by blast
qed

lemma Execute_writes:
  assumes "named_failures e" "Execute e q [] c = Some (Inr r, q', written, c')" "q_method q = kGet"
    "q_datafunc q = Some (\<lambda>written _ chunk. (True, written @ chunk))"
  shows "\<exists>w call. let x = fst (ce_send e w call) in
    x_failure x = None \<and> 200 \<le> x_status x \<and> x_status x \<le> 299 \<and> written = concat (x_chunks x)"
proof -
  have "plain_failures e" using assms(1) by (simp add: named_failures_def)
  then have "execute e q [] c = Some (Inr r, q', written, c')"
    using assms(2,3) execute_not_retried [of e q "[]" c] by (auto simp: Execute_def split: option.splits sum.splits if_splits)
  from execute_exchanged [OF this] obtain hr x h
    where ex: "exchanged e q [] c (Inr r, q', written, c') hr x h" by blast
  then obtain creds w0 w where t: "ToHttpRequest (ce_crypto e) (ce_now e (cl_world c)) (cl_base_url c) creds
        (q\<lparr>q_user_agent := cl_user_agent c\<rparr>) = Some (hr, q')"
    and x: "ce_send e w0 (call_of hr) = (x, w)" "http_execute (\<lambda>_. x) hr [] = (h, written)" "resp_bool h"
    by (auto simp: exchanged_def Let_def split: if_splits)
  have "rq_method hr = kGet" "rq_datafunc hr = Some (\<lambda>written _ chunk. (True, written @ chunk))"
    using t assms(3,4) by (auto simp: ToHttpRequest_def BuildHeaders_def Let_def split: prod.splits option.splits if_splits)
  moreover have "x_failure x \<noteq> Some []" using x(1) assms(1) by (metis fst_conv named_failures_def)
  ultimately show ?thesis
    using http_execute_writes [OF x(2,3)] x(1) by (intro exI [of _ w0] exI [of _ "call_of hr"]) simp
qed

lemma download_request_simps [simp]:
  "q_method (download_request a region) = kGet"
  "q_datafunc (download_request a region) = Some (\<lambda>written _ chunk. (True, written @ chunk))"
  by (simp_all add: download_request_def version_request_def with_param_def object_request_def bucket_request_def Request_new_def)

end
