(* ===== verification/Rdma.thy ===== *)
theory Rdma
  imports Transfers
begin

section \<open>Transfers over RDMA (rdma.h, rdma_client.h; built with MINIO_CPP_RDMA)\<close>

text \<open>
  The control plane of a transfer over RDMA: a token that describes the caller's buffer goes with a signed
  HTTP request without a body, and the server moves the bytes. What pins buffers and mints tokens is the
  library \<open>libs3rdma\<close>, which is a parameter: functions on the same world as the HTTP library, on buffers
  given by their addresses. The bytes that the server moves are not modelled. The interface that the HTTP
  socket is bound to is computed (\<open>parseClientNICFromToken\<close>) but does not change what is sent. A number of
  bytes or a code (\<open>ssize_t\<close>) is an \<open>int\<close>.
\<close>

subsection \<open>The client of the library (rdma_client.h)\<close>

record 'w rdma_lib =
  rl_handle :: bool
  rl_init_error :: string
  rl_ready :: "'w \<Rightarrow> bool"
  rl_register :: "u64 \<Rightarrow> u64 \<Rightarrow> 'w \<Rightarrow> bool \<times> 'w"
  rl_deregister :: "u64 \<Rightarrow> 'w \<Rightarrow> bool \<times> 'w"
  rl_get_token :: "u64 \<Rightarrow> u64 \<Rightarrow> 'w \<Rightarrow> string option \<times> 'w"
  rl_free_token :: "string \<Rightarrow> 'w \<Rightarrow> 'w"
  rl_report :: "string \<Rightarrow> 'w \<Rightarrow> 'w"
  rl_nic_count :: "'w \<Rightarrow> int"
  rl_healthy_nic_count :: "'w \<Rightarrow> int"
  rl_system_memory :: "u64 \<Rightarrow> bool"

definition InitError :: "'w rdma_lib \<Rightarrow> string" where
  "InitError L = (if rl_handle L then [] else rl_init_error L)"

definition Ready :: "'w rdma_lib \<Rightarrow> 'w \<Rightarrow> bool" where
  "Ready L w \<longleftrightarrow> rl_handle L \<and> rl_ready L w"

definition Register :: "'w rdma_lib \<Rightarrow> u64 \<Rightarrow> u64 \<Rightarrow> 'w \<Rightarrow> bool \<times> 'w" where
  "Register L buf sz w = (if rl_handle L then rl_register L buf sz w else (False, w))"

definition Deregister :: "'w rdma_lib \<Rightarrow> u64 \<Rightarrow> 'w \<Rightarrow> bool \<times> 'w" where
  "Deregister L buf w = (if rl_handle L then rl_deregister L buf w else (False, w))"

definition GetToken :: "'w rdma_lib \<Rightarrow> u64 \<Rightarrow> u64 \<Rightarrow> 'w \<Rightarrow> string option \<times> 'w" where
  "GetToken L buf sz w = (if rl_handle L then rl_get_token L buf sz w else (None, w))"

definition ReportTokenFailure :: "'w rdma_lib \<Rightarrow> string \<Rightarrow> 'w \<Rightarrow> 'w" where
  "ReportTokenFailure L token w = (if rl_handle L then rl_report L token w else w)"

definition NicCount :: "'w rdma_lib \<Rightarrow> 'w \<Rightarrow> int" where
  "NicCount L w = (if rl_handle L then rl_nic_count L w else 0)"

definition HealthyNicCount :: "'w rdma_lib \<Rightarrow> 'w \<Rightarrow> int" where
  "HealthyNicCount L w = (if rl_handle L then rl_healthy_nic_count L w else 0)"

text \<open>A null pointer is no device memory.\<close>

definition IsDeviceBuffer :: "'w rdma_lib \<Rightarrow> u64 \<Rightarrow> bool" where
  "IsDeviceBuffer L buf \<longleftrightarrow> buf \<noteq> 0 \<and> \<not> rl_system_memory L buf"

text \<open>Something done to the world of a client.\<close>

definition in_world :: "('w \<Rightarrow> 'w) \<Rightarrow> 'w client \<Rightarrow> 'w client" where
  "in_world f c = c\<lparr>cl_world := f (cl_world c)\<rparr>"

subsection \<open>The address in a token\<close>

text \<open>\<open>sscanf\<close> with \<open>%2x\<close>: blanks are skipped, then at most two characters are read that start an optional
  sign, an optional \<open>0x\<close> and digits; without a digit it fails. The value is an \<open>unsigned int\<close>.\<close>

definition scan_2x :: "string \<Rightarrow> (u32 \<times> string) option" where
  "scan_2x s =
     (case dropWhile is_space s of
        [] \<Rightarrow> None
      | c # cs \<Rightarrow>
          if c = CHR ''-'' \<or> c = CHR ''+'' then
            (case cs of
               [] \<Rightarrow> None
             | d # ds \<Rightarrow> if isxdigit d then
                 Some (if c = CHR ''-'' then - word_of_nat (hex_value d) else word_of_nat (hex_value d), ds) else None)
          else if \<not> isxdigit c then None
          else (case cs of
             [] \<Rightarrow> Some (word_of_nat (hex_value c), [])
           | d # ds \<Rightarrow>
               if isxdigit d then Some (word_of_nat (16 * hex_value c + hex_value d), ds)
               else if c = CHR ''0'' \<and> (d = CHR ''x'' \<or> d = CHR ''X'') then None
               else Some (word_of_nat (hex_value c), cs)))"

fun scan_bytes :: "nat \<Rightarrow> string \<Rightarrow> u32 list option" where
  "scan_bytes 0 s = Some []"
| "scan_bytes (Suc n) s =
     (case scan_2x s of None \<Rightarrow> None | Some (v, s) \<Rightarrow> map_option (\<lambda>vs. v # vs) (scan_bytes n s))"

text \<open>\<open>snprintf\<close> into 16 bytes keeps 15 characters.\<close>

definition parseClientNICFromToken :: "string \<Rightarrow> string" where
  "parseClientNICFromToken token =
     (if length token < 32 then []
      else
        let tail = drop (length token - 32) token in
        if take 20 tail \<noteq> replicate 20 (CHR ''0'') then []
        else if take 4 (drop 20 tail) \<noteq> ''ffff'' then []
        else case scan_bytes 4 (drop 24 tail) of
          None \<Rightarrow> []
        | Some vs \<Rightarrow> take 15 (Join (map (\<lambda>v. to_string (unat v)) vs) ''.''))"

subsection \<open>One transfer\<close>

record client_ctx =
  x_bucket :: string
  x_object :: string
  x_upload_id :: string
  x_part_number :: "u64 option"
  x_etag :: string
  x_region :: string
  x_checksum :: string

definition kUnsignedPayload :: string where
  "kUnsignedPayload = ''UNSIGNED-PAYLOAD''"

definition kRDMANotSupported :: int where
  "kRDMANotSupported = - 2"

definition kRDMALocalError :: int where
  "kRDMALocalError = - 3"

definition kRDMAMaxMemoryRegSize :: u64 where
  "kRDMAMaxMemoryRegSize = 0xFFFFFFFF"

definition parseRDMAReply :: "string \<Rightarrow> int" where
  "parseRDMAReply reply =
     (if reply = [] \<or> reply = ''501'' then kRDMANotSupported
      else case stoi reply of Stoi n \<Rightarrow> n | _ \<Rightarrow> 0)"

definition rdma_headers :: "crypto \<Rightarrow> utc_time \<Rightarrow> url \<Rightarrow> string \<Rightarrow> multimap" where
  "rdma_headers cr date u token =
     Add ''x-amz-rdma-token'' token (Add ''x-amz-content-sha256'' kUnsignedPayload
       (Add ''x-amz-date'' (ToAmzDate (timezone cr) date) (Add ''Host'' (HostHeaderValue u) mm_empty)))"

definition rdma_sign :: "crypto \<Rightarrow> utc_time \<Rightarrow> credentials \<Rightarrow> http_method \<Rightarrow> url \<Rightarrow> string \<Rightarrow> multimap \<Rightarrow> multimap
    \<Rightarrow> unit http_request" where
  "rdma_sign cr date creds m u region params hs =
     (let hs = (if session_token creds \<noteq> [] then Add ''X-Amz-Security-Token'' (session_token creds) hs else hs)
      in \<lparr>rq_method = m, rq_url = u,
          rq_headers = SignV4S3 cr m (path u) region hs params (access_key creds) (secret_key creds)
            kUnsignedPayload date,
          rq_body = [], rq_datafunc = None\<rparr>)"

text \<open>The request of \<open>rdmaPut\<close>; \<open>None\<close> is \<open>kRDMALocalError\<close>.\<close>

definition put_params :: "client_ctx \<Rightarrow> multimap option" where
  "put_params x =
     (if x_upload_id x = [] then Some mm_empty
      else case x_part_number x of
        None \<Rightarrow> None
      | Some n \<Rightarrow> if n = 0 \<or> 10000 < n then None
          else Some (Add ''partNumber'' (to_string (unat n)) (Add ''uploadId'' (x_upload_id x) mm_empty)))"

definition rdma_put_request :: "crypto \<Rightarrow> utc_time \<Rightarrow> base_url \<Rightarrow> credentials \<Rightarrow> client_ctx \<Rightarrow> string
    \<Rightarrow> unit http_request option" where
  "rdma_put_request cr date b creds x token =
     (case put_params x of
        None \<Rightarrow> None
      | Some params \<Rightarrow>
          (case BuildUrl b url_empty kPut (x_region x) params (x_bucket x) (x_object x) of
             (err, u) \<Rightarrow>
               if is_err err then None
               else
                 let hs = Add ''Content-Length'' ''0'' (Add ''Content-Type'' ''application/octet-stream''
                       (rdma_headers cr date u token));
                     hs = (if x_checksum x \<noteq> [] then Add ''x-amz-checksum-crc64nvme'' (x_checksum x) hs else hs);
                     r = rdma_sign cr date creds kPut u (x_region x) params hs
                 in Some (r\<lparr>rq_url := u\<lparr>query_string := ToQueryString params\<rparr>\<rparr>)))"

text \<open>Printing the range is on 64-bit signed integers; an overflow is undefined.\<close>

definition rdma_get_request :: "crypto \<Rightarrow> utc_time \<Rightarrow> base_url \<Rightarrow> credentials \<Rightarrow> client_ctx \<Rightarrow> string \<Rightarrow> u64 \<Rightarrow> int
    \<Rightarrow> unit http_request option" where
  "rdma_get_request cr date b creds x token sz range_offset =
     (case BuildUrl b url_empty kGet (x_region x) mm_empty (x_bucket x) (x_object x) of
        (err, u) \<Rightarrow>
          if is_err err then None
          else if 0 \<le> range_offset \<and> sz = 0 then None
          else
            let hs = rdma_headers cr date u token;
                hs = (if 0 \<le> range_offset then
                    Add ''Range'' (''bytes='' @ int_to_string range_offset @ ''-''
                      @ int_to_string (range_offset + sint sz - 1)) hs
                  else hs)
            in Some (rdma_sign cr date creds kGet u (x_region x) mm_empty hs))"

text \<open>The exchange. The clock is read, the provider is asked (a null provider ends the process), and the
  request is sent if there is one.\<close>

definition rdma_exchange :: "'w client_env \<Rightarrow> (utc_time \<Rightarrow> credentials \<Rightarrow> unit http_request option) \<Rightarrow> 'w client
    \<Rightarrow> (http_response option \<times> 'w client) option" where
  "rdma_exchange e req c =
     (case ce_fetch e of
        None \<Rightarrow> None
      | Some fetch \<Rightarrow>
          (case fetch (cl_world c) of
             (creds, w) \<Rightarrow>
               (case req (ce_now e (cl_world c)) creds of
                  None \<Rightarrow> Some (None, c\<lparr>cl_world := w\<rparr>)
                | Some r \<Rightarrow>
                    (case ce_send e w (call_of r) of
                       (x, w) \<Rightarrow> Some (Some (fst (http_execute (\<lambda>_. x) r ())), c\<lparr>cl_world := w\<rparr>)))))"

definition put_outcome :: "u64 \<Rightarrow> client_ctx \<Rightarrow> http_response \<Rightarrow> int \<times> client_ctx" where
  "put_outcome sz x h =
     (let hs = resp_headers h; etag = GetFront ''etag'' hs in
      if resp_error h \<noteq> [] then (- 1, x)
      else if status_code h = 200 \<and> etag \<noteq> [] then (sint sz, x\<lparr>x_etag := Trim etag (CHR 0x22)\<rparr>)
      else
        let code = parseRDMAReply (GetFront ''x-amz-rdma-reply'' hs) in
        if code = kRDMANotSupported then (kRDMANotSupported, x)
        else if code \<noteq> 200 \<and> code \<noteq> 204 then (- 1, x)
        else
          let sum = GetFront ''x-amz-checksum-crc64nvme'' hs;
              x = (if sum \<noteq> [] then x\<lparr>x_checksum := sum\<rparr> else x)
          in (sint sz, x\<lparr>x_etag := Trim etag (CHR 0x22)\<rparr>))"

definition get_outcome :: "u64 \<Rightarrow> http_response \<Rightarrow> int" where
  "get_outcome sz h =
     (let hs = resp_headers h in
      if resp_error h \<noteq> [] then - 1
      else
        let code = parseRDMAReply (GetFront ''x-amz-rdma-reply'' hs) in
        if code = kRDMANotSupported then kRDMANotSupported
        else if code \<noteq> 200 \<and> code \<noteq> 206 then - 1
        else case opt_stoll (GetFront ''x-amz-rdma-bytes-transferred'' hs) of
          Inl _ \<Rightarrow> - 1
        | Inr None \<Rightarrow> sint sz
        | Inr (Some n) \<Rightarrow> if n < 0 then - 1 else n)"

definition rdmaPut :: "'w client_env \<Rightarrow> string \<Rightarrow> u64 \<Rightarrow> client_ctx \<Rightarrow> 'w client \<Rightarrow> (int \<times> client_ctx \<times> 'w client) option" where
  "rdmaPut e token sz x c =
     map_option (\<lambda>(h, c). case h of
         None \<Rightarrow> (kRDMALocalError, x, c)
       | Some h \<Rightarrow> (case put_outcome sz x h of (n, x) \<Rightarrow> (n, x, c)))
       (rdma_exchange e (\<lambda>date creds. rdma_put_request (ce_crypto e) date (cl_base_url c) creds x token) c)"

definition rdmaGet :: "'w client_env \<Rightarrow> string \<Rightarrow> u64 \<Rightarrow> int \<Rightarrow> client_ctx \<Rightarrow> 'w client
    \<Rightarrow> (int \<times> client_ctx \<times> 'w client) option" where
  "rdmaGet e token sz range_offset x c =
     map_option (\<lambda>(h, c). case h of
         None \<Rightarrow> (kRDMALocalError, x, c) | Some h \<Rightarrow> (get_outcome sz h, x, c))
       (rdma_exchange e
         (\<lambda>date creds. rdma_get_request (ce_crypto e) date (cl_base_url c) creds x token sz range_offset) c)"

subsection \<open>Attempts\<close>

definition kRDMAMaxAttempts :: nat where
  "kRDMAMaxAttempts = 2"

definition settled :: "int \<Rightarrow> bool" where
  "settled n \<longleftrightarrow> 0 < n \<or> n = kRDMANotSupported \<or> n = kRDMALocalError"

text \<open>The loop that both functions share; \<open>n\<close> is the number of attempts left and \<open>t\<close> the transfer. The
  token goes out of scope at the end of each attempt.\<close>

fun rdma_attempts :: "nat \<Rightarrow> 'w rdma_lib \<Rightarrow> u64 \<Rightarrow> u64
    \<Rightarrow> (string \<Rightarrow> client_ctx \<Rightarrow> 'w client \<Rightarrow> (int \<times> client_ctx \<times> 'w client) option)
    \<Rightarrow> int \<Rightarrow> client_ctx \<Rightarrow> 'w client \<Rightarrow> (int \<times> client_ctx \<times> 'w client) option" where
  "rdma_attempts 0 L buf sz t res x c = Some (res, x, c)"
| "rdma_attempts (Suc n) L buf sz t res x c =
     (case GetToken L buf sz (cl_world c) of
        (None, w) \<Rightarrow> Some (- 1, x, c\<lparr>cl_world := w\<rparr>)
      | (Some token, w) \<Rightarrow>
          (case t token x (c\<lparr>cl_world := w\<rparr>) of
             None \<Rightarrow> None
           | Some (res, x, c) \<Rightarrow>
               if settled res then Some (res, x, in_world (rl_free_token L token) c)
               else rdma_attempts n L buf sz t res x
                 (in_world (rl_free_token L token) (in_world (ReportTokenFailure L token) c))))"

definition rdmaPutWithRetry :: "'w rdma_lib \<Rightarrow> 'w client_env \<Rightarrow> u64 \<Rightarrow> u64 \<Rightarrow> client_ctx \<Rightarrow> 'w client
    \<Rightarrow> (int \<times> client_ctx \<times> 'w client) option" where
  "rdmaPutWithRetry L e buf sz x =
     rdma_attempts kRDMAMaxAttempts L buf sz (\<lambda>token. rdmaPut e token sz) (- 1) x"

definition rdmaGetWithRetry :: "'w rdma_lib \<Rightarrow> 'w client_env \<Rightarrow> u64 \<Rightarrow> u64 \<Rightarrow> int \<Rightarrow> client_ctx \<Rightarrow> 'w client
    \<Rightarrow> (int \<times> client_ctx \<times> 'w client) option" where
  "rdmaGetWithRetry L e buf sz range_offset x =
     rdma_attempts kRDMAMaxAttempts L buf sz (\<lambda>token. rdmaGet e token sz range_offset) (- 1) x"

subsection \<open>What an operation does to the world\<close>

text \<open>A relation that the provider and the HTTP library respect is respected by the requests of a client.\<close>

locale world_frame =
  fixes rel :: "'w \<Rightarrow> 'w \<Rightarrow> bool" and env :: "'w client_env"
  assumes rel_refl: "rel w w"
    and rel_trans: "rel w w1 \<Longrightarrow> rel w1 w2 \<Longrightarrow> rel w w2"
    and rel_fetch: "ce_fetch env = Some f \<Longrightarrow> f w = (creds, w1) \<Longrightarrow> rel w w1"
    and rel_send: "ce_send env w call = (x, w1) \<Longrightarrow> rel w w1"
begin

lemma fetch_creds_rel: "fetch_creds env w = (creds, w1) \<Longrightarrow> rel w w1"
  using rel_fetch rel_refl by (fastforce simp: fetch_creds_def split: option.splits prod.splits)

lemma execute_rel:
  assumes "execute env q s c = Some (r, q', s', c')"
  shows "rel (cl_world c) (cl_world c')"
proof -
  from execute_exchanged [OF assms] obtain hr x h
    where "exchanged env q s c (r, q', s', c') hr x h" by blast
  then obtain creds w0 w where "fetch_creds env (cl_world c) = (creds, w0)" "ce_send env w0 (call_of hr) = (x, w)"
    "cl_world c' = w"
    by (auto simp: exchanged_def forget_def Let_def split: if_splits)
  then show ?thesis using fetch_creds_rel rel_send rel_trans by blast
qed

lemma Execute_rel:
  assumes "Execute env q s c = Some (r, q', s', c')"
  shows "rel (cl_world c) (cl_world c')"
proof -
  from assms obtain r1 q1 s1 c1 where x: "execute env q s c = Some (r1, q1, s1, c1)"
    and "c' = c1 \<or> execute env q1 s1 c1 = Some (r, q', s', c')"
    unfolding Execute_def by (auto split: option.splits sum.splits if_splits)
  then show ?thesis using execute_rel [OF x] execute_rel rel_trans by metis
qed

lemma send_request_rel: "send_request env q c = Some (r, c') \<Longrightarrow> rel (cl_world c) (cl_world c')"
  using Execute_rel by (auto simp: send_request_def)

lemma and_then_rel:
  assumes "and_then m f c = Some (r, c')" "\<And>r c c'. m c = Some (r, c') \<Longrightarrow> rel (cl_world c) (cl_world c')"
    "\<And>x r c c'. f x c = Some (r, c') \<Longrightarrow> rel (cl_world c) (cl_world c')"
  shows "rel (cl_world c) (cl_world c')"
  using assms rel_trans by (fastforce simp: and_then_def on_result_def fail_def split: option.splits sum.splits prod.splits)

lemma GetRegion_rel: "GetRegion env bucket region c = Some (r, c') \<Longrightarrow> rel (cl_world c) (cl_world c')"
proof -
  have quiet: "rel (cl_world c) (cl_world c')" if "ret x c = Some (r, c') \<or> fail err c = Some (r, c')
      \<or> lift_result res c = Some (r, c') \<or> modify (set_region b v) x c = Some (r, c')"
    for x :: string and err res b v r and c c' :: "'w client"
    using that rel_refl by (auto simp: ret_def fail_def lift_result_def modify_def set_region_def)
  assume "GetRegion env bucket region c = Some (r, c')"
  then show ?thesis
    unfolding GetRegion_def fetch_region_def Let_def with_client_def
    by (auto split: if_splits option.splits intro: quiet elim!: and_then_rel send_request_rel)
qed

lemma in_region_rel:
  "in_region env a k c = Some (r, c') \<Longrightarrow> (\<And>region r c c'. k region c = Some (r, c') \<Longrightarrow> rel (cl_world c) (cl_world c'))
    \<Longrightarrow> rel (cl_world c) (cl_world c')"
  unfolding in_region_def by (erule and_then_rel) (auto intro: GetRegion_rel)

lemma check_rel:
  "check err m c = Some (r, c') \<Longrightarrow> (\<And>r c'. m c = Some (r, c') \<Longrightarrow> rel (cl_world c) (cl_world c'))
    \<Longrightarrow> rel (cl_world c) (cl_world c')"
  using rel_refl by (auto simp: check_def fail_def split: if_splits)

lemma PutObject_rel: "ObjectApi.PutObject env a c = Some (r, c') \<Longrightarrow> rel (cl_world c) (cl_world c')"
  unfolding ObjectApi.PutObject_def
  by (erule check_rel, erule in_region_rel, erule and_then_rel) (auto intro: send_request_rel rel_refl simp: ret_def)

lemma GetObject_rel:
  assumes "GetObject env a s c = Some (r, s', c')"
  shows "rel (cl_world c) (cl_world c')"
proof -
  from assms obtain res c1 where pre: "check (GetObjectArgs_Validate a) (check_ssec (a_ssec a)
      (GetRegion env (a_bucket a) (a_region a))) c = Some (res, c1)"
    and rest: "c' = c1 \<or> (\<exists>region q'. Execute env (get_object_request (timezone (ce_crypto env)) a region) s c1
        = Some (r, q', s', c'))"
    by (auto simp: GetObject_def stream_call_def split: option.splits sum.splits) blast
  have "rel (cl_world c) (cl_world c1)"
    using pre by (rule check_rel)
      (auto simp: check_ssec_def with_client_def fail_def rel_refl GetRegion_rel split: if_splits)
  with rest show ?thesis using Execute_rel rel_trans by metis
qed

end

subsection \<open>The protocol of tokens\<close>

text \<open>What the library and the HTTP library are asked, in order.\<close>

datatype rdma_event = Sent http_call | Pinned u64 | Unpinned u64 | Minted string | Reported string | Freed string

definition traced_env :: "'w client_env \<Rightarrow> ('w \<times> rdma_event list) client_env" where
  "traced_env e = \<lparr>ce_crypto = ce_crypto e, ce_now = (\<lambda>(w, l). ce_now e w),
     ce_fetch = map_option (\<lambda>f (w, l). case f w of (cr, w) \<Rightarrow> (cr, (w, l))) (ce_fetch e),
     ce_send = (\<lambda>(w, l) call. case ce_send e w call of (x, w) \<Rightarrow> (x, (w, l @ [Sent call]))),
     ce_xml = ce_xml e\<rparr>"

definition traced_lib :: "'w rdma_lib \<Rightarrow> ('w \<times> rdma_event list) rdma_lib" where
  "traced_lib L =
     \<lparr>rl_handle = rl_handle L, rl_init_error = rl_init_error L, rl_ready = (\<lambda>(w, l). rl_ready L w),
      rl_register = (\<lambda>buf sz (w, l). case rl_register L buf sz w of
        (ok, w) \<Rightarrow> (ok, (w, if ok then l @ [Pinned buf] else l))),
      rl_deregister = (\<lambda>buf (w, l). case rl_deregister L buf w of (ok, w) \<Rightarrow> (ok, (w, l @ [Unpinned buf]))),
      rl_get_token = (\<lambda>buf sz (w, l). case rl_get_token L buf sz w of
        (t, w) \<Rightarrow> (t, (w, case t of None \<Rightarrow> l | Some t \<Rightarrow> l @ [Minted t]))),
      rl_free_token = (\<lambda>t (w, l). (rl_free_token L t w, l @ [Freed t])),
      rl_report = (\<lambda>t (w, l). (rl_report L t w, l @ [Reported t])),
      rl_nic_count = (\<lambda>(w, l). rl_nic_count L w), rl_healthy_nic_count = (\<lambda>(w, l). rl_healthy_nic_count L w),
      rl_system_memory = rl_system_memory L\<rparr>"

text \<open>
  A buffer is pinned while tokens for it are minted, one at a time. A token is sent in one request at most,
  a failure is charged to it only after it was sent and while it is not freed, and it is freed before the
  next one is minted and before the buffer is released. Ordinary requests go out when no buffer is pinned.
\<close>

datatype rail = Idle | Held u64 | Live u64 string | Used u64 string | Charged u64 string

inductive rail_step :: "rail \<Rightarrow> rdma_event \<Rightarrow> rail \<Rightarrow> bool" where
  plain: "rail_step Idle (Sent call) Idle"
| pin: "rail_step Idle (Pinned b) (Held b)"
| mint: "rail_step (Held b) (Minted t) (Live b t)"
| use_token: "(''x-amz-rdma-token'', t) \<in> set (c_headers call) \<Longrightarrow> rail_step (Live b t) (Sent call) (Used b t)"
| charge: "rail_step (Used b t) (Reported t) (Charged b t)"
| drop_unused: "rail_step (Live b t) (Freed t) (Held b)"
| drop_used: "rail_step (Used b t) (Freed t) (Held b)"
| drop_charged: "rail_step (Charged b t) (Freed t) (Held b)"
| unpin: "rail_step (Held b) (Unpinned b) Idle"

inductive rail_run :: "rail \<Rightarrow> rdma_event list \<Rightarrow> rail \<Rightarrow> bool" where
  stay: "rail_run r [] r"
| go_on: "rail_step r ev r' \<Longrightarrow> rail_run r' evs r'' \<Longrightarrow> rail_run r (ev # evs) r''"

inductive_simps rail_run_Nil: "rail_run r [] r'"
inductive_simps rail_run_Cons: "rail_run r (ev # evs) r'"

lemma rail_run_append: "rail_run r xs r' \<Longrightarrow> rail_run r' ys r'' \<Longrightarrow> rail_run r (xs @ ys) r''"
  by (induction rule: rail_run.induct) (auto intro: rail_run.intros)

lemma rail_run_plain: "list_all (\<lambda>ev. \<exists>call. ev = Sent call) evs \<Longrightarrow> rail_run Idle evs Idle"
  by (induction evs) (auto intro: rail_run.intros rail_step.intros)

definition mints :: "rdma_event list \<Rightarrow> nat" where
  "mints evs = length (filter (\<lambda>ev. case ev of Minted _ \<Rightarrow> True | _ \<Rightarrow> False) evs)"

lemma mints_simps [simp]: "mints [] = 0" "mints (ev # evs) = (case ev of Minted _ \<Rightarrow> 1 | _ \<Rightarrow> 0) + mints evs"
  "mints (xs @ ys) = mints xs + mints ys"
  by (auto simp: mints_def split: rdma_event.splits)

text \<open>Ordinary requests extend the trace by requests.\<close>

interpretation traced: world_frame
  "\<lambda>(w, l) (w', l'). \<exists>evs. l' = l @ evs \<and> list_all (\<lambda>ev. \<exists>call. ev = Sent call) evs" "traced_env e" for e
  by unfold_locales (auto simp: traced_env_def split: prod.splits)

subsection \<open>The signed request\<close>

lemma rdma_names [simp]:
  "ToLower ''x-amz-rdma-token'' = ''x-amz-rdma-token''" "ToLower ''Range'' = ''range''"
  "ToLower ''x-amz-checksum-crc64nvme'' = ''x-amz-checksum-crc64nvme''"
  by code_simp+

lemma rdma_header_words [simp]:
  "header_word ''x-amz-rdma-token''" "header_word ''Range''" "header_word ''x-amz-checksum-crc64nvme''"
  by (simp_all add: header_word_def)

text \<open>Headers that can be signed, with one date, the hash of an unsigned payload and the token; the names in
  \<open>free\<close> are not set.\<close>

definition rdma_ready :: "string set \<Rightarrow> crypto \<Rightarrow> utc_time \<Rightarrow> string \<Rightarrow> multimap \<Rightarrow> bool" where
  "rdma_ready free cr date token hs \<longleftrightarrow> signable hs \<and> Get ''x-amz-date'' hs = [ToAmzDate (timezone cr) date]
     \<and> Get ''x-amz-content-sha256'' hs = [kUnsignedPayload] \<and> token \<in> mm_vals hs ''x-amz-rdma-token''
     \<and> (\<forall>k \<in> free. mm_vals hs k = {})"

lemma signable_wf: "signable m \<Longrightarrow> mm_wf m"
  by (simp add: signable_def)

lemma rdma_ready_Add:
  assumes "rdma_ready free cr date token hs" "k \<in> free" "header_word k"
    "ToLower k \<notin> {''x-amz-date'', ''x-amz-content-sha256''}" "\<forall>k' \<in> free'. k' \<in> free \<and> ToLower k' \<noteq> ToLower k"
  shows "rdma_ready free' cr date token (Add k v hs)"
proof -
  have wf: "mm_wf hs" using assms(1) by (simp add: rdma_ready_def signable_def)
  show ?thesis
    using assms wf unfolding rdma_ready_def
    by (auto simp: signable_Add signable_vals_Add Get_Add_other)
qed

lemma rdma_headers_ready:
  "rdma_ready {''Content-Type'', ''Content-Length'', ''Range'', ''x-amz-checksum-crc64nvme'', ''X-Amz-Security-Token''}
     cr date token (rdma_headers cr date u token)"
proof -
  have s0: "signable mm_empty" by (simp add: signable_def one_spelling_def) (simp add: mm_empty_def)
  define h1 where "h1 = Add ''Host'' (HostHeaderValue u) mm_empty"
  have s1: "signable h1" "mm_vals h1 k = (if ToLower k = ''host'' then {HostHeaderValue u} else {})" for k
    using s0 by (auto simp: h1_def signable_Add signable_vals_Add)
  define h2 where "h2 = Add ''x-amz-date'' (ToAmzDate (timezone cr) date) h1"
  have s2: "signable h2" "mm_vals h2 k = (if ToLower k = ''x-amz-date'' then {ToAmzDate (timezone cr) date} else {})
      \<union> mm_vals h1 k" "Get ''x-amz-date'' h2 = [ToAmzDate (timezone cr) date]" for k
    using s1 signable_wf [OF s1(1)] by (auto simp: h2_def signable_Add signable_vals_Add Get_Add_new)
  define h3 where "h3 = Add ''x-amz-content-sha256'' kUnsignedPayload h2"
  have s3: "signable h3" "mm_vals h3 k = (if ToLower k = ''x-amz-content-sha256'' then {kUnsignedPayload} else {})
      \<union> mm_vals h2 k" "Get ''x-amz-content-sha256'' h3 = [kUnsignedPayload]"
      "Get ''x-amz-date'' h3 = [ToAmzDate (timezone cr) date]" for k
    using s1(2) s2 signable_wf [OF s2(1)]
    by (auto simp: h3_def signable_Add signable_vals_Add Get_Add_new Get_Add_other)
  show ?thesis
    unfolding rdma_headers_def h1_def [symmetric] h2_def [symmetric] h3_def [symmetric] rdma_ready_def
    using s1(2) s2(2) s3 signable_wf [OF s3(1)] by (auto simp: signable_Add signable_vals_Add Get_Add_other)
qed

text \<open>Before a session token is added, the names of the headers are in the order a server sorts them in.\<close>

definition rdma_keys :: "string list" where
  "rdma_keys = [''Host'', ''x-amz-date'', ''x-amz-content-sha256'', ''x-amz-rdma-token'', ''Content-Type'', ''Content-Length'',
     ''Range'', ''x-amz-checksum-crc64nvme'']"

definition rdma_spelled :: "multimap \<Rightarrow> bool" where
  "rdma_spelled hs \<longleftrightarrow> fst ` set (map_m hs) \<subseteq> set rdma_keys \<and> ''x-amz-date'' \<in> fst ` set (map_m hs)"

lemma rdma_keys_in_order: "spelled_in_order (set rdma_keys)"
proof -
  have "list_all (\<lambda>k. list_all (\<lambda>k'. k < k' \<longrightarrow> ToLower k \<le> ToLower k') rdma_keys) rdma_keys" by code_simp
  then show ?thesis by (simp only: spelled_in_order_def list_all_iff)
qed

lemma rdma_spelled_Add: "rdma_spelled hs \<Longrightarrow> k \<in> set rdma_keys \<Longrightarrow> rdma_spelled (Add k v hs)"
  by (simp add: rdma_spelled_def Add_keys)

lemma rdma_headers_spelled: "rdma_spelled (rdma_headers cr date u token)"
proof -
  have keys: "fst ` set (map_m (rdma_headers cr date u token))
      = set [''x-amz-rdma-token'', ''x-amz-content-sha256'', ''x-amz-date'', ''Host'']"
    by (simp add: rdma_headers_def Add_keys mm_empty_def)
  have "list_all (\<lambda>k. k \<in> set rdma_keys) [''x-amz-rdma-token'', ''x-amz-content-sha256'', ''x-amz-date'', ''Host'']"
    by code_simp
  then show ?thesis unfolding rdma_spelled_def keys by (simp add: list_all_iff subset_iff)
qed

lemma rdma_spelled_order:
  assumes "rdma_spelled h" "mm_wf h"
  shows "names_in_order h" "\<not> names_in_order (Add ''X-Amz-Security-Token'' v h)"
proof -
  show "names_in_order h"
  proof (rule names_in_order_keys [OF assms(2) _ rdma_keys_in_order])
    show "fst ` set (signed_entries h) \<subseteq> set rdma_keys"
      using assms(1) by (auto simp only: rdma_spelled_def signed_entries_def set_filter)
  qed
  let ?h = "Add ''X-Amz-Security-Token'' v h"
  have entry: "k \<in> fst ` S \<Longrightarrow> \<exists>v. (k, v) \<in> S" for k :: string and S :: "(string \<times> string list) set" by force
  have keys: "''X-Amz-Security-Token'' \<in> fst ` set (map_m ?h)" "''x-amz-date'' \<in> fst ` set (map_m ?h)"
    unfolding Add_keys using assms(1) by (simp_all only: rdma_spelled_def insertI1 insertI2)
  obtain t where t: "(''X-Amz-Security-Token'', t) \<in> set (map_m ?h)" using entry [OF keys(1)] ..
  obtain d where d: "(''x-amz-date'', d) \<in> set (map_m ?h)" using entry [OF keys(2)] ..
  from t d have "(''X-Amz-Security-Token'', t) \<in> set (signed_entries ?h)" "(''x-amz-date'', d) \<in> set (signed_entries ?h)"
    by (simp_all add: signed_entries_def)
  note out = names_out_of_order [OF mm_wf_Add [OF assms(2)] this, unfolded fst_conv own_names, OF token_order]
  show "\<not> names_in_order ?h" by (rule out)
qed

text \<open>What both requests have in common.\<close>

definition rdma_signed :: "crypto \<Rightarrow> utc_time \<Rightarrow> credentials \<Rightarrow> string \<Rightarrow> string \<Rightarrow> unit http_request \<Rightarrow> bool" where
  "rdma_signed cr date creds region token r \<longleftrightarrow>
     rq_body r = [] \<and> rq_datafunc r = None \<and>
     (\<exists>h hs params. rdma_spelled h \<and> mm_wf h
        \<and> hs = (if session_token creds \<noteq> [] then Add ''X-Amz-Security-Token'' (session_token creds) h else h)
        \<and> rdma_ready {} cr date token hs \<and> query_string (rq_url r) = GetCanonicalQueryString params
        \<and> rq_headers r = SignV4 cr ''s3'' (rq_method r) (path (rq_url r)) region hs params (access_key creds)
            (secret_key creds) kUnsignedPayload date)"

lemma rdma_sign_ready:
  assumes "rdma_ready {''X-Amz-Security-Token''} cr date token hs"
    "r = rdma_sign cr date creds m u region params hs" "query_string u' = GetCanonicalQueryString params"
    "path u' = path u" "rdma_spelled hs"
  shows "rdma_signed cr date creds region token (r\<lparr>rq_url := u'\<rparr>)"
proof -
  define hs' where "hs' = (if session_token creds \<noteq> [] then Add ''X-Amz-Security-Token'' (session_token creds) hs else hs)"
  have "rdma_ready {} cr date token hs'"
    using assms(1) rdma_ready_Add [OF assms(1), of "''X-Amz-Security-Token''" "{}"]
    by (auto simp: hs'_def rdma_ready_def)
  then show ?thesis
    using assms unfolding rdma_signed_def rdma_sign_def SignV4S3_def Let_def hs'_def [symmetric]
    by (intro conjI exI [of _ hs] exI [of _ hs'] exI [of _ params]) (simp_all add: hs'_def rdma_ready_def signable_wf)
qed

lemma rdma_put_signed:
  assumes "rdma_put_request cr date b creds x token = Some r"
  shows "rdma_signed cr date creds (x_region x) token r \<and> rq_method r = kPut"
proof -
  from assms obtain params u where p: "put_params x = Some params"
    "BuildUrl b url_empty kPut (x_region x) params (x_bucket x) (x_object x) = (SUCCESS, u)"
    by (auto simp: rdma_put_request_def not_is_err_iff split: option.splits prod.splits if_splits)
  define h1 where "h1 = Add ''Content-Length'' ''0'' (Add ''Content-Type'' ''application/octet-stream''
    (rdma_headers cr date u token))"
  let ?rest = "{''x-amz-checksum-crc64nvme'', ''X-Amz-Security-Token''}"
  have "rdma_ready (insert ''Content-Length'' ?rest) cr date token
      (Add ''Content-Type'' ''application/octet-stream'' (rdma_headers cr date u token))"
    by (rule rdma_ready_Add [OF rdma_headers_ready]) auto
  then have h1: "rdma_ready ?rest cr date token h1" unfolding h1_def by (rule rdma_ready_Add) auto
  define h2 where "h2 = (if x_checksum x \<noteq> [] then Add ''x-amz-checksum-crc64nvme'' (x_checksum x) h1 else h1)"
  have h2: "rdma_ready {''X-Amz-Security-Token''} cr date token h2"
    using h1 rdma_ready_Add [OF h1, of "''x-amz-checksum-crc64nvme''" "{''X-Amz-Security-Token''}"]
    by (auto simp: h2_def rdma_ready_def)
  have spelled: "rdma_spelled h2"
    unfolding h2_def h1_def using rdma_headers_spelled [of cr date u token]
    by (auto intro!: rdma_spelled_Add simp: rdma_keys_def)
  have r: "r = (rdma_sign cr date creds kPut u (x_region x) params h2)\<lparr>rq_url := u\<lparr>query_string := ToQueryString params\<rparr>\<rparr>"
    using assms p by (auto simp: rdma_put_request_def h1_def h2_def Let_def is_err_def SUCCESS_def split: if_splits)
  show ?thesis
    unfolding r by (intro conjI rdma_sign_ready [OF h2 refl _ _ spelled]) (simp_all add: ToQueryString_def rdma_sign_def Let_def)
qed

lemma rdma_get_signed:
  assumes "rdma_get_request cr date b creds x token sz range_offset = Some r"
  shows "rdma_signed cr date creds (x_region x) token r \<and> rq_method r = kGet"
proof -
  from assms obtain u where u: "BuildUrl b url_empty kGet (x_region x) mm_empty (x_bucket x) (x_object x) = (SUCCESS, u)"
    by (auto simp: rdma_get_request_def not_is_err_iff split: prod.splits if_splits)
  moreover from u have "\<not> is_err (b_err b)" by (auto simp: BuildUrl_def is_err_def SUCCESS_def split: if_splits)
  ultimately have q: "query_string u = GetCanonicalQueryString mm_empty"
    using BuildUrl_query unfolding ToQueryString_def by metis
  have h0: "rdma_ready {''Range'', ''X-Amz-Security-Token''} cr date token (rdma_headers cr date u token)"
    using rdma_headers_ready [of cr date token u] by (auto simp: rdma_ready_def)
  define h2 where "h2 = (if 0 \<le> range_offset then Add ''Range'' (''bytes='' @ int_to_string range_offset @ ''-''
    @ int_to_string (range_offset + sint sz - 1)) (rdma_headers cr date u token) else rdma_headers cr date u token)"
  have h2: "rdma_ready {''X-Amz-Security-Token''} cr date token h2"
    using h0 rdma_ready_Add [OF h0, of "''Range''" "{''X-Amz-Security-Token''}"]
    by (auto simp: h2_def rdma_ready_def)
  have spelled: "rdma_spelled h2"
    unfolding h2_def using rdma_headers_spelled [of cr date u token]
    by (auto intro!: rdma_spelled_Add simp: rdma_keys_def)
  have r: "r = rdma_sign cr date creds kGet u (x_region x) mm_empty h2"
    using assms u by (auto simp: rdma_get_request_def h2_def Let_def is_err_def SUCCESS_def split: if_splits)
  then have "rdma_signed cr date creds (x_region x) token (r\<lparr>rq_url := u\<rparr>)" by (rule rdma_sign_ready [OF h2 _ q refl spelled])
  then show ?thesis by (simp add: r rdma_sign_def Let_def)
qed

text \<open>The token is in a header of its own, and the signature covers it.\<close>

lemma rdma_signed_token:
  assumes "rdma_signed cr date creds region token r"
  shows "(''x-amz-rdma-token'', token) \<in> set (c_headers (call_of r))"
proof -
  from assms obtain hs a where "rdma_ready {} cr date token hs" and h: "rq_headers r = Add ''Authorization'' a hs"
    unfolding rdma_signed_def using SignV4_adds by metis
  then have "mm_wf hs" "token \<in> mm_vals hs ''x-amz-rdma-token''" by (auto simp: rdma_ready_def signable_def)
  then show ?thesis by (simp add: call_of_def h request_headers_iff mm_wf_Add mm_vals_Add)
qed

lemma rdma_signed_verified:
  assumes "rdma_signed cr date creds region token r" "year_ok (timezone cr) date"
    "credential_word (access_key creds)" "credential_word region" "secret_of (access_key creds) = secret_key creds"
  shows "session_token creds = [] \<Longrightarrow> verify_headers cr secret_of (MethodToString (rq_method r)) (path (rq_url r))
      (query_string (rq_url r)) (rq_headers r) (GetFront ''x-amz-content-sha256'' (rq_headers r))"
    and "session_token creds \<noteq> [] \<Longrightarrow> collision_free cr \<Longrightarrow>
      \<not> verify_headers cr secret_of (MethodToString (rq_method r)) (path (rq_url r)) (query_string (rq_url r))
        (rq_headers r) (GetFront ''x-amz-content-sha256'' (rq_headers r))"
proof -
  from assms(1) obtain h0 hs params where h0: "rdma_spelled h0" "mm_wf h0"
      "hs = (if session_token creds \<noteq> [] then Add ''X-Amz-Security-Token'' (session_token creds) h0 else h0)"
    and ready: "rdma_ready {} cr date token hs"
    and q: "query_string (rq_url r) = GetCanonicalQueryString params"
    and h: "rq_headers r = SignV4 cr ''s3'' (rq_method r) (path (rq_url r)) region hs params (access_key creds)
      (secret_key creds) kUnsignedPayload date"
    unfolding rdma_signed_def by blast
  have hs: "signable hs" "Get ''x-amz-date'' hs = [ToAmzDate (timezone cr) date]" "mm_wf hs"
    "Get ''x-amz-content-sha256'' hs = [kUnsignedPayload]"
    using ready by (auto simp: rdma_ready_def signable_def)
  obtain a where a: "rq_headers r = Add ''Authorization'' a hs" unfolding h using SignV4_adds by blast
  have sha: "GetFront ''x-amz-content-sha256'' (rq_headers r) = kUnsignedPayload"
    using hs(4) Get_Add_other [OF hs(3), of "''x-amz-content-sha256''" "''Authorization''" a]
    unfolding a GetFront_def by simp
  have s3: "credential_word ''s3''" by (simp add: credential_word_def)
  show "verify_headers cr secret_of (MethodToString (rq_method r)) (path (rq_url r)) (query_string (rq_url r))
      (rq_headers r) (GetFront ''x-amz-content-sha256'' (rq_headers r))" if "session_token creds = []"
  proof -
    have "names_in_order hs" using h0 that rdma_spelled_order(1) by simp
    from SignV4_accepted [OF hs(1,2) assms(2,3,4) s3, of secret_of, OF assms(5) this] sha q h show ?thesis by simp
  qed
  show "\<not> verify_headers cr secret_of (MethodToString (rq_method r)) (path (rq_url r)) (query_string (rq_url r))
      (rq_headers r) (GetFront ''x-amz-content-sha256'' (rq_headers r))" if "session_token creds \<noteq> []" "collision_free cr"
  proof -
    have "\<not> names_in_order hs" unfolding h0(3) using that(1) rdma_spelled_order(2) [OF h0(1,2)] by (simp only: if_True simp_thms)
    from SignV4_refused [OF hs(1,2) assms(2,3,4) s3, of secret_of, OF assms(5) this that(2)] sha q h show ?thesis by simp
  qed
qed

text \<open>The signature covers the token: its header is among the signed ones.\<close>

lemma rdma_signed_covers:
  assumes "rdma_signed cr date creds region token r"
  shows "\<exists>scope names signature. Get ''Authorization'' (rq_headers r)
      = [GetAuthorization (access_key creds) scope names signature]
    \<and> ''x-amz-rdma-token'' \<in> set (tokens (CHR '';'') names)"
proof -
  from assms obtain hs params where ready: "rdma_ready {} cr date token hs"
    and h: "rq_headers r = SignV4 cr ''s3'' (rq_method r) (path (rq_url r)) region hs params (access_key creds)
      (secret_key creds) kUnsignedPayload date"
    by (auto simp: rdma_signed_def)
  obtain sh ch where H: "GetCanonicalHeaders hs = (sh, ch)" by fastforce
  obtain scope sig where r: "rq_headers r = Add ''Authorization'' (GetAuthorization (access_key creds) scope sh sig) hs"
    unfolding h SignV4_def H Let_def by auto
  have hs: "signable hs" "mm_wf hs" "token \<in> mm_vals hs ''x-amz-rdma-token''"
    using ready by (auto simp: rdma_ready_def signable_def)
  have "mm_vals hs ''Authorization'' = {}"
    using hs(1) mm_vals_lower [of "''Authorization''" "''authorization''" hs] by (simp add: signable_def)
  then have a: "Get ''Authorization'' (rq_headers r) = [GetAuthorization (access_key creds) scope sh sig]"
    unfolding r by (rule Get_Add_new [OF hs(2)])
  from hs(3) obtain k vs where k: "(k, vs) \<in> set (map_m hs)" "ToLower k = ''x-amz-rdma-token''"
    by (auto simp: mm_vals_def old_vals_def split: option.splits) (metis map_of_SomeD)
  have ne: "[] \<notin> fst ` set (map_m hs)" using hs(1) by (auto simp: signable_def)
  have "\<forall>w \<in> set (map header_name (signed_entries hs)). w \<noteq> [] \<and> CHR '';'' \<notin> set w"
    using hs(1) by (force simp: signable_def signed_entries_def header_name_def ToLower_def)
  then have "tokens (CHR '';'') sh = map header_name (signed_entries hs)"
    using H unfolding GetCanonicalHeaders_eq [OF ne] by (auto simp: tokens_Join)
  moreover have "(k, vs) \<in> set (signed_entries hs)" using k by (simp add: signed_entries_def)
  ultimately have "''x-amz-rdma-token'' \<in> set (tokens (CHR '';'') sh)" using k(2) by (force simp: header_name_def)
  with a show ?thesis by blast
qed

subsection \<open>Tokens follow the protocol\<close>

text \<open>A transfer fails before it asks anyone, or sends one request that carries its token.\<close>

definition carries :: "(string \<Rightarrow> client_ctx \<Rightarrow> ('w \<times> rdma_event list) client
    \<Rightarrow> (int \<times> client_ctx \<times> ('w \<times> rdma_event list) client) option) \<Rightarrow> bool" where
  "carries t \<longleftrightarrow> (\<forall>token x c res x' c'. t token x c = Some (res, x', c') \<longrightarrow>
     res = kRDMALocalError \<and> snd (cl_world c') = snd (cl_world c)
     \<or> (\<exists>call. (''x-amz-rdma-token'', token) \<in> set (c_headers call)
          \<and> snd (cl_world c') = snd (cl_world c) @ [Sent call]))"

lemma rdma_exchange_log:
  assumes "rdma_exchange (traced_env e) req c = Some (h, c')"
    "\<And>date creds r. req date creds = Some r \<Longrightarrow> (''x-amz-rdma-token'', token) \<in> set (c_headers (call_of r))"
  shows "h = None \<and> snd (cl_world c') = snd (cl_world c)
    \<or> (\<exists>call. (''x-amz-rdma-token'', token) \<in> set (c_headers call) \<and> snd (cl_world c') = snd (cl_world c) @ [Sent call])"
  using assms by (cases "cl_world c") (auto simp: rdma_exchange_def traced_env_def split: option.splits prod.splits)

lemma rdmaPut_carries:
  fixes e :: "'w client_env"
  shows "carries (\<lambda>token. rdmaPut (traced_env e) token sz)"
  unfolding carries_def
proof (intro allI impI)
  fix token x res x' and c c' :: "('w \<times> rdma_event list) client"
  let ?req = "\<lambda>date creds. rdma_put_request (ce_crypto (traced_env e)) date (cl_base_url c) creds x token"
  assume "rdmaPut (traced_env e) token sz x c = Some (res, x', c')"
  then obtain h where h: "rdma_exchange (traced_env e) ?req c = Some (h, c')" "h = None \<Longrightarrow> res = kRDMALocalError"
    unfolding rdmaPut_def map_option_eq_Some by (fastforce split: option.splits prod.splits)
  have "h = None \<and> snd (cl_world c') = snd (cl_world c)
      \<or> (\<exists>call. (''x-amz-rdma-token'', token) \<in> set (c_headers call) \<and> snd (cl_world c') = snd (cl_world c) @ [Sent call])"
    by (rule rdma_exchange_log [OF h(1)], rule rdma_signed_token, drule rdma_put_signed, erule conjunct1)
  with h(2) show "res = kRDMALocalError \<and> snd (cl_world c') = snd (cl_world c)
      \<or> (\<exists>call. (''x-amz-rdma-token'', token) \<in> set (c_headers call) \<and> snd (cl_world c') = snd (cl_world c) @ [Sent call])"
    by blast
qed

lemma rdmaGet_carries:
  fixes e :: "'w client_env"
  shows "carries (\<lambda>token. rdmaGet (traced_env e) token sz range_offset)"
  unfolding carries_def
proof (intro allI impI)
  fix token x res x' and c c' :: "('w \<times> rdma_event list) client"
  let ?req = "\<lambda>date creds. rdma_get_request (ce_crypto (traced_env e)) date (cl_base_url c) creds x token sz range_offset"
  assume "rdmaGet (traced_env e) token sz range_offset x c = Some (res, x', c')"
  then obtain h where h: "rdma_exchange (traced_env e) ?req c = Some (h, c')" "h = None \<Longrightarrow> res = kRDMALocalError"
    unfolding rdmaGet_def map_option_eq_Some by (fastforce split: option.splits prod.splits)
  have "h = None \<and> snd (cl_world c') = snd (cl_world c)
      \<or> (\<exists>call. (''x-amz-rdma-token'', token) \<in> set (c_headers call) \<and> snd (cl_world c') = snd (cl_world c) @ [Sent call])"
    by (rule rdma_exchange_log [OF h(1)], rule rdma_signed_token, drule rdma_get_signed, erule conjunct1)
  with h(2) show "res = kRDMALocalError \<and> snd (cl_world c') = snd (cl_world c)
      \<or> (\<exists>call. (''x-amz-rdma-token'', token) \<in> set (c_headers call) \<and> snd (cl_world c') = snd (cl_world c) @ [Sent call])"
    by blast
qed

lemma GetToken_traced:
  assumes "GetToken (traced_lib L) buf sz w = (t, w')"
  shows "(case t of None \<Rightarrow> snd w' = snd w | Some t \<Rightarrow> rl_handle L \<and> snd w' = snd w @ [Minted t])"
  using assms by (cases w) (auto simp: GetToken_def traced_lib_def split: if_splits prod.splits option.splits)

lemma free_token_traced: "snd (rl_free_token (traced_lib L) t w) = snd w @ [Freed t]"
  by (cases w) (simp add: traced_lib_def)

lemma report_traced: "rl_handle L \<Longrightarrow> snd (ReportTokenFailure (traced_lib L) t w) = snd w @ [Reported t]"
  by (cases w) (simp add: traced_lib_def ReportTokenFailure_def)

lemma in_world_world [simp]: "cl_world (in_world f c) = f (cl_world c)"
  by (simp add: in_world_def)

lemma attempts_protocol:
  assumes "carries t" "rdma_attempts n (traced_lib L) buf sz t res x c = Some (res', x', c')"
  shows "\<exists>evs. snd (cl_world c') = snd (cl_world c) @ evs \<and> rail_run (Held b) evs (Held b) \<and> mints evs \<le> n"
  using assms(2)
proof (induction n arbitrary: res x c)
  case 0
  then show ?case by (auto intro: exI [of _ "[]"] stay)
next
  case (Suc n)
  obtain tok w where tok: "GetToken (traced_lib L) buf sz (cl_world c) = (tok, w)"
    by (cases "GetToken (traced_lib L) buf sz (cl_world c)")
  show ?case
  proof (cases tok)
    case None
    then show ?thesis using Suc.prems GetToken_traced [OF tok] tok by (auto intro: exI [of _ "[]"] stay)
  next
    case (Some token)
    from GetToken_traced [OF tok] Some have h: "rl_handle L" and w: "snd w = snd (cl_world c) @ [Minted token]" by auto
    from Suc.prems tok Some obtain r1 x1 c1 where t: "t token x (c\<lparr>cl_world := w\<rparr>) = Some (r1, x1, c1)"
      and rest: "if settled r1 then (res', x', c') = (r1, x1, in_world (rl_free_token (traced_lib L) token) c1)
        else rdma_attempts n (traced_lib L) buf sz t r1 x1 (in_world (rl_free_token (traced_lib L) token)
          (in_world (ReportTokenFailure (traced_lib L) token) c1)) = Some (res', x', c')"
      by (auto split: option.splits if_splits)
    from assms(1) t consider (local) "r1 = kRDMALocalError" "snd (cl_world c1) = snd w"
      | (sent) call where "(''x-amz-rdma-token'', token) \<in> set (c_headers call)" "snd (cl_world c1) = snd w @ [Sent call]"
      unfolding carries_def by fastforce
    then show ?thesis
    proof cases
      case local
      then have "snd (cl_world c') = snd (cl_world c) @ [Minted token, Freed token]"
        using rest w by (simp add: settled_def kRDMALocalError_def free_token_traced)
      then show ?thesis by (auto simp: rail_run_Cons rail_run_Nil intro!: exI rail_step.intros)
    next
      case sent
      show ?thesis
      proof (cases "settled r1")
        case True
        then have "snd (cl_world c') = snd (cl_world c) @ [Minted token, Sent call, Freed token]"
          using rest w sent by (simp add: free_token_traced)
        then show ?thesis using sent(1) by (auto simp: rail_run_Cons rail_run_Nil intro!: exI rail_step.intros)
      next
        case False
        let ?c = "in_world (rl_free_token (traced_lib L) token) (in_world (ReportTokenFailure (traced_lib L) token) c1)"
        from Suc.IH [of r1 x1 ?c] False rest obtain evs where evs: "snd (cl_world c') = snd (cl_world ?c) @ evs"
          "rail_run (Held b) evs (Held b)" "mints evs \<le> n" by auto
        have "snd (cl_world c') = snd (cl_world c) @ [Minted token, Sent call, Reported token, Freed token] @ evs"
          using evs(1) w sent(2) h by (simp add: free_token_traced report_traced)
        moreover have "rail_run (Held b) ([Minted token, Sent call, Reported token, Freed token] @ evs) (Held b)"
          by (rule rail_run_append [OF _ evs(2)])
            (use sent(1) in \<open>auto simp: rail_run_Cons rail_run_Nil intro!: exI rail_step.intros\<close>)
        ultimately show ?thesis using evs(3)
          by (intro exI [of _ "[Minted token, Sent call, Reported token, Freed token] @ evs"]) simp
      qed
    qed
  qed
qed

subsection \<open>The address of a token\<close>

text \<open>A GID that is an IPv4 address mapped into IPv6, and the address printed as \<open>%u.%u.%u.%u\<close>.\<close>

definition ipv4_mapped :: "string \<Rightarrow> bool" where
  "ipv4_mapped gid \<longleftrightarrow> take 10 gid = replicate 10 (CHR 0x00) \<and> take 2 (drop 10 gid) = [CHR 0xFF, CHR 0xFF]"

definition dotted :: "string \<Rightarrow> string" where
  "dotted addr = Join (map (\<lambda>b. to_string (byte b)) addr) ''.''"

lemma hex_encode_take: "take (2 * n) (hex_encode d) = hex_encode (take n d)"
proof (induction d arbitrary: n)
  case (Cons b d)
  then show ?case by (cases n) (simp_all add: hex_encode_def hex_byte_eq)
qed (simp add: hex_encode_def)

lemma hex_encode_drop: "drop (2 * n) (hex_encode d) = hex_encode (drop n d)"
proof (induction d arbitrary: n)
  case (Cons b d)
  then show ?case by (cases n) (simp_all add: hex_encode_def hex_byte_eq)
qed (simp add: hex_encode_def)

lemma hex_lower_scanned:
  assumes "n < 16"
  shows "isxdigit (hex_lower n) \<and> \<not> is_space (hex_lower n) \<and> hex_lower n \<noteq> CHR ''-'' \<and> hex_lower n \<noteq> CHR ''+''"
proof -
  have "list_all (\<lambda>n. isxdigit (hex_lower n) \<and> \<not> is_space (hex_lower n) \<and> hex_lower n \<noteq> CHR ''-''
    \<and> hex_lower n \<noteq> CHR ''+'') [0..<16]" by code_simp
  then show ?thesis using assms by (simp add: list_all_iff)
qed

lemma scan_2x_byte: "scan_2x (hex_byte b @ s) = Some (word_of_nat (byte b), s)"
proof -
  have "byte b div 16 < 16" "byte b mod 16 < 16" using byte_less [of b] by simp_all
  then show ?thesis
    using hex_lower_scanned hex_lower_value by (simp add: scan_2x_def hex_byte_eq)
qed

lemma scan_bytes_encode: "length d = n \<Longrightarrow> scan_bytes n (hex_encode d @ s) = Some (map (\<lambda>b. word_of_nat (byte b)) d)"
proof (induction n arbitrary: d)
  case (Suc n)
  then obtain b d' where "d = b # d'" "length d' = n" by (cases d) auto
  with Suc.IH show ?case by (simp add: hex_encode_def scan_2x_byte)
qed simp

lemma to_string_byte: "length (to_string (byte b)) \<le> 3"
proof -
  have "byte b div 100 < 10" using byte_less [of b] by arith
  then show ?thesis
    by (simp add: to_string.simps [of "byte b"] to_string.simps [of "byte b div 10"]
      to_string.simps [of "byte b div 100"] div_mult2_eq [symmetric])
qed

lemma dotted_four:
  assumes "length addr = 4"
  shows "length (dotted addr) \<le> 15" "dotted addr \<noteq> []"
proof -
  from assms obtain p q r s where a: "addr = [p, q, r, s]" by (auto simp: numeral_eq_Suc length_Suc_conv)
  have "dotted addr = to_string (byte p) @ ''.'' @ to_string (byte q) @ ''.'' @ to_string (byte r) @ ''.'' @ to_string (byte s)"
    by (simp add: a dotted_def Join_eq)
  then show "length (dotted addr) \<le> 15" "dotted addr \<noteq> []"
    using to_string_byte [of p] to_string_byte [of q] to_string_byte [of r] to_string_byte [of s] by auto
qed

lemma client_nic:
  assumes "length gid = 16"
  shows "parseClientNICFromToken (pre @ hex_encode gid) = (if ipv4_mapped gid then dotted (drop 12 gid) else [])"
proof -
  have zeros: "hex_encode (replicate 10 (CHR 0x00)) = replicate 20 (CHR ''0'')"
    and ffs: "hex_encode [CHR 0xFF, CHR 0xFF] = ''ffff''" by code_simp+
  have "take 20 (hex_encode gid) = hex_encode (take 10 gid)" using hex_encode_take [of 10 gid] by simp
  then have a: "take 20 (hex_encode gid) = replicate 20 (CHR ''0'') \<longleftrightarrow> take 10 gid = replicate 10 (CHR 0x00)"
    unfolding zeros [symmetric] by (simp add: hex_encode_inj)
  have "take 4 (drop 20 (hex_encode gid)) = hex_encode (take 2 (drop 10 gid))"
    using hex_encode_drop [of 10 gid] hex_encode_take [of 2 "drop 10 gid"] by simp
  then have b: "take 4 (drop 20 (hex_encode gid)) = ''ffff'' \<longleftrightarrow> take 2 (drop 10 gid) = [CHR 0xFF, CHR 0xFF]"
    unfolding ffs [symmetric] by (simp add: hex_encode_inj)
  have "drop 24 (hex_encode gid) = hex_encode (drop 12 gid)" using hex_encode_drop [of 12 gid] by simp
  then have c: "scan_bytes 4 (drop 24 (hex_encode gid)) = Some (map (\<lambda>b. word_of_nat (byte b)) (drop 12 gid))"
    using scan_bytes_encode [of "drop 12 gid" 4 "[]"] assms by simp
  have low: "unat (word_of_nat (byte b) :: u32) = byte b" for b
    using order.strict_trans [OF byte_less [of b], of "2 ^ 32"] by (simp add: unat_of_nat)
  show ?thesis
    using assms dotted_four(1) [of "drop 12 gid"] a b
    by (simp add: parseClientNICFromToken_def Let_def c low ipv4_mapped_def comp_def dotted_def [symmetric])
qed

end
