(* ===== verification/RdmaClient.thy ===== *)
theory RdmaClient
  imports Rdma ParallelUpload
begin

section \<open>Buffers of the caller (the MINIO_CPP_RDMA blocks of client.cc and baseclient.cc)\<close>

text \<open>
  A \<open>PutObject\<close> or \<open>GetObject\<close> with a buffer pins it, tries the transfer over RDMA, releases it, and
  otherwise goes over HTTP; device memory is copied through host memory then, on a CUDA context that is
  borrowed for the copy. The CUDA driver is a parameter, functions on the same world; so is the memory of
  the process that the buffers are in. Warnings on \<open>stderr\<close> are not modelled.
\<close>

subsection \<open>CUDA contexts\<close>

text \<open>A context is a pointer, 0 when there is none; \<open>None\<close> is an error code. \<open>cu_loaded\<close>: the library and
  all its functions were found.\<close>

record 'w cuda_lib =
  cu_loaded :: bool
  cu_ctx_get :: "'w \<Rightarrow> u64 option \<times> 'w"
  cu_ctx_set :: "u64 \<Rightarrow> 'w \<Rightarrow> bool \<times> 'w"
  cu_ctx_retain :: "int \<Rightarrow> 'w \<Rightarrow> u64 option \<times> 'w"
  cu_ctx_release :: "int \<Rightarrow> 'w \<Rightarrow> bool \<times> 'w"
  cu_ptr_ordinal :: "u64 \<Rightarrow> 'w \<Rightarrow> int option \<times> 'w"
  cu_dtoh :: "u64 \<Rightarrow> u64 \<Rightarrow> 'w \<Rightarrow> string option \<times> 'w"
  cu_htod :: "u64 \<Rightarrow> string \<Rightarrow> 'w \<Rightarrow> bool \<times> 'w"

record cuda_scope =
  cs_retained :: "int option"
  cs_ok :: bool

definition cuda_Release :: "'w cuda_lib \<Rightarrow> int \<Rightarrow> 'w \<Rightarrow> 'w" where
  "cuda_Release cu ordinal w = snd (cu_ctx_release cu ordinal w)"

definition cuda_Retain :: "'w cuda_lib \<Rightarrow> int \<Rightarrow> cuda_scope \<Rightarrow> 'w \<Rightarrow> bool \<times> cuda_scope \<times> 'w" where
  "cuda_Retain cu ordinal sc w =
     (case cu_ctx_retain cu ordinal w of
        (None, w) \<Rightarrow> (False, sc, w)
      | (Some ctx, w) \<Rightarrow>
          (case cu_ctx_set cu ctx w of
             (False, w) \<Rightarrow> (False, sc, cuda_Release cu ordinal w)
           | (True, w) \<Rightarrow> (True, sc\<lparr>cs_retained := Some ordinal\<rparr>, w)))"

definition ScopedCudaContext_new :: "'w cuda_lib \<Rightarrow> u64 \<Rightarrow> 'w \<Rightarrow> cuda_scope \<times> 'w" where
  "ScopedCudaContext_new cu devptr w =
     (let sc = \<lparr>cs_retained = None, cs_ok = False\<rparr> in
      case cu_ctx_get cu w of
        (None, w) \<Rightarrow> (sc, w)
      | (Some current, w) \<Rightarrow>
          if current \<noteq> 0 then (sc\<lparr>cs_ok := True\<rparr>, w)
          else case cuda_Retain cu 0 sc w of
            (False, sc, w) \<Rightarrow> (sc, w)
          | (True, sc, w) \<Rightarrow>
              (case cu_ptr_ordinal cu devptr w of
                 (None, w) \<Rightarrow> (sc, w)
               | (Some ordinal, w) \<Rightarrow>
                   if ordinal = 0 then (sc\<lparr>cs_ok := True\<rparr>, w)
                   else
                     let bootstrap = the (cs_retained sc) in
                     case cuda_Retain cu ordinal (sc\<lparr>cs_retained := None\<rparr>) w of
                       (False, sc, w) \<Rightarrow> (sc, cuda_Release cu bootstrap w)
                     | (True, sc, w) \<Rightarrow> (sc\<lparr>cs_ok := True\<rparr>, cuda_Release cu bootstrap w)))"

definition ScopedCudaContext_delete :: "'w cuda_lib \<Rightarrow> cuda_scope \<Rightarrow> 'w \<Rightarrow> 'w" where
  "ScopedCudaContext_delete cu sc w =
     (case cs_retained sc of
        None \<Rightarrow> w
      | Some ordinal \<Rightarrow> cuda_Release cu ordinal (snd (cu_ctx_set cu 0 w)))"

text \<open>A copy between device and host memory, on a context that is there for its time.\<close>

definition on_device :: "'w cuda_lib \<Rightarrow> u64 \<Rightarrow> error \<Rightarrow> ('w \<Rightarrow> (error + 'a) \<times> 'w) \<Rightarrow> ('a, 'w) op" where
  "on_device cu buf no_context copy c =
     (case ScopedCudaContext_new cu buf (cl_world c) of
        (sc, w) \<Rightarrow>
          (case (if cs_ok sc then copy w else (Inl no_context, w)) of
             (res, w) \<Rightarrow> Some (res, c\<lparr>cl_world := ScopedCudaContext_delete cu sc w\<rparr>)))"

subsection \<open>A pinned buffer\<close>

record 'w host_memory =
  hm_load :: "u64 \<Rightarrow> u64 \<Rightarrow> 'w \<Rightarrow> string"
  hm_store :: "u64 \<Rightarrow> string \<Rightarrow> 'w \<Rightarrow> 'w"

text \<open>\<open>ScopedRDMARegistration\<close> around a transfer. A number that is not positive sends the caller to HTTP,
  also when the buffer is too long or cannot be pinned.\<close>

definition registered :: "'w rdma_lib \<Rightarrow> u64 \<Rightarrow> u64
    \<Rightarrow> (client_ctx \<Rightarrow> 'w client \<Rightarrow> (int \<times> client_ctx \<times> 'w client) option)
    \<Rightarrow> client_ctx \<Rightarrow> 'w client \<Rightarrow> (int \<times> client_ctx \<times> 'w client) option" where
  "registered L buf sz t x c =
     (if kRDMAMaxMemoryRegSize < sz then Some (- 1, x, c)
      else case Register L buf sz (cl_world c) of
        (False, w) \<Rightarrow> Some (- 1, x, c\<lparr>cl_world := w\<rparr>)
      | (True, w) \<Rightarrow>
          map_option (\<lambda>(n, x, c). (n, x, in_world (\<lambda>w. snd (Deregister L buf w)) c)) (t x (c\<lparr>cl_world := w\<rparr>)))"

definition object_ctx :: "'b object_args_scheme \<Rightarrow> string \<Rightarrow> client_ctx" where
  "object_ctx a region =
     \<lparr>x_bucket = a_bucket a, x_object = a_object a, x_upload_id = [], x_part_number = None, x_etag = [],
      x_region = region, x_checksum = []\<rparr>"

subsection \<open>Uploading a buffer\<close>

definition stage_out :: "'w rdma_lib \<Rightarrow> 'w cuda_lib \<Rightarrow> 'w host_memory \<Rightarrow> u64 \<Rightarrow> u64 \<Rightarrow> (string, 'w) op" where
  "stage_out L cu mem buf sz =
     (if \<not> IsDeviceBuffer L buf then with_client (\<lambda>c. ret (hm_load mem buf sz (cl_world c)))
      else if \<not> cu_loaded cu then
        fail (''RDMA PUT failed and the HTTP fallback cannot reach device memory: ''
          @ ''libcuda.so.1 is unavailable'')
      else on_device cu buf ''unable to establish a CUDA context for the HTTP fallback copy''
        (\<lambda>w. case cu_dtoh cu buf sz w of
            (None, w) \<Rightarrow> (Inl ''unable to stage device memory to host for the HTTP fallback'', w)
          | (Some data, w) \<Rightarrow> (Inr data, w)))"

definition buffer_api_args :: "'b object_args_scheme \<Rightarrow> string \<Rightarrow> string \<Rightarrow> put_object_api_args" where
  "buffer_api_args a region data =
     \<lparr>a_extra_headers = mm_empty, a_extra_query_params = mm_empty, a_bucket = a_bucket a, a_region = region,
      a_object = a_object a, a_headers = Add ''x-amz-content-sha256'' ''UNSIGNED-PAYLOAD'' mm_empty,
      a_user_metadata = mm_empty, a_sse = None, a_tags = [], a_retention = None, a_legal_hold = False,
      a_object_size = None, a_part_size = 0, a_part_count = None, a_content_type = [], a_data = data,
      a_query_params = mm_empty\<rparr>"

definition put_buffer :: "'w rdma_lib \<Rightarrow> 'w cuda_lib \<Rightarrow> 'w host_memory \<Rightarrow> 'w client_env \<Rightarrow> u64 \<Rightarrow> u64
    \<Rightarrow> 'b object_args_scheme \<Rightarrow> (put_object_response, 'w) op" where
  "put_buffer L cu mem e buf sz a = in_region e a (\<lambda>region c.
     case registered L buf sz (rdmaPutWithRetry L e buf sz) (object_ctx a region) c of
       None \<Rightarrow> None
     | Some (n, x, c) \<Rightarrow>
         if 0 < n then Some (Inr ((put_object_response_of Response_new)\<lparr>po_etag := x_etag x\<rparr>), c)
         else and_then (stage_out L cu mem buf sz)
           (\<lambda>data. ObjectApi.PutObject e (buffer_api_args a region data)) c)"

text \<open>\<open>Client::PutObject\<close> for arguments with a buffer, whose address is \<open>buf\<close>.\<close>

definition Client_PutObject_buffer :: "'w rdma_lib \<Rightarrow> 'w cuda_lib \<Rightarrow> 'w host_memory \<Rightarrow> 'w client_env \<Rightarrow> u64
    \<Rightarrow> put_object_args \<Rightarrow> (put_object_response, 'w) op" where
  "Client_PutObject_buffer L cu mem e buf a =
     (case PutObjectArgs_Validate a of
        (err, a) \<Rightarrow> check err (check_tls a
          (case a_size a of None \<Rightarrow> undefined_op | Some sz \<Rightarrow> put_buffer L cu mem e buf sz a)))"

subsection \<open>Downloading into a buffer\<close>

definition buffer_offset :: "'b object_conditional_read_args_scheme \<Rightarrow> int" where
  "buffer_offset a = (case a_offset a of None \<Rightarrow> - 1 | Some v \<Rightarrow> sint v)"

definition fallback_get_args :: "'b object_args_scheme \<Rightarrow> string \<Rightarrow> int \<Rightarrow> u64 \<Rightarrow> string get_object_args" where
  "fallback_get_args a region range_offset sz =
     \<lparr>a_extra_headers = mm_empty, a_extra_query_params = mm_empty, a_bucket = a_bucket a, a_region = region,
      a_object = a_object a, a_version_id = [], a_ssec = None,
      a_offset = (if 0 \<le> range_offset then Some (word_of_int range_offset) else None),
      a_length = (if 0 \<le> range_offset then Some sz else None), a_match_etag = [], a_not_match_etag = [],
      a_modified_since = utc_default, a_unmodified_since = utc_default,
      a_datafunc = Some (\<lambda>written _ chunk. (True, written @ chunk)), a_buf = None\<rparr>"

text \<open>The bytes go through a string stream whose buffer is the sink (\<open>pubsetbuf\<close>, as in libstdc++): what is
  more than it holds goes elsewhere. What came before an error is in it, too. The staging area starts as zeros
  and is copied as a whole.\<close>

definition http_into_buffer :: "'w rdma_lib \<Rightarrow> 'w cuda_lib \<Rightarrow> 'w host_memory \<Rightarrow> 'w client_env \<Rightarrow> u64 \<Rightarrow> u64
    \<Rightarrow> string get_object_args \<Rightarrow> (response, 'w) op" where
  "http_into_buffer L cu mem e buf sz a c =
     (if \<not> IsDeviceBuffer L buf then
        map_option (\<lambda>(res, written, c). (res, in_world (hm_store mem buf (take (unat sz) written)) c))
          (GetObject e a [] c)
      else if \<not> cu_loaded cu then
        fail (''RDMA GET failed and the HTTP fallback cannot reach device memory: ''
          @ ''libcuda.so.1 is unavailable'') c
      else case GetObject e a [] c of
        None \<Rightarrow> None
      | Some (Inl err, written, c) \<Rightarrow> Some (Inl err, c)
      | Some (Inr r, written, c) \<Rightarrow>
          let data = take (unat sz) written; stage = data @ replicate (unat sz - length data) (CHR 0x00)
          in on_device cu buf ''unable to establish a CUDA context for the HTTP fallback copy''
               (\<lambda>w. case cu_htod cu buf stage w of
                   (False, w) \<Rightarrow> (Inl ''unable to copy the staged HTTP body into device memory'', w)
                 | (True, w) \<Rightarrow> (Inr r, w)) c)"

definition get_buffer :: "'w rdma_lib \<Rightarrow> 'w cuda_lib \<Rightarrow> 'w host_memory \<Rightarrow> 'w client_env \<Rightarrow> u64 \<Rightarrow> u64 \<Rightarrow> int
    \<Rightarrow> 'b object_args_scheme \<Rightarrow> (response, 'w) op" where
  "get_buffer L cu mem e buf sz range_offset a = in_region e a (\<lambda>region c.
     case registered L buf sz (rdmaGetWithRetry L e buf sz range_offset) (object_ctx a region) c of
       None \<Rightarrow> None
     | Some (n, x, c) \<Rightarrow>
         if 0 < n then Some (Inr Response_new, c)
         else http_into_buffer L cu mem e buf sz (fallback_get_args a region range_offset sz) c)"

text \<open>\<open>Client::GetObject\<close> for arguments with a buffer; an accepted one has a size. Its response has no ETag:
  a transfer over RDMA does not read one.\<close>

definition Client_GetObject_buffer :: "'w rdma_lib \<Rightarrow> 'w cuda_lib \<Rightarrow> 'w host_memory \<Rightarrow> 'w client_env \<Rightarrow> u64
    \<Rightarrow> 's get_object_args \<Rightarrow> (response, 'w) op" where
  "Client_GetObject_buffer L cu mem e buf a =
     check (GetObjectArgs_Validate a)
       (case a_buf a of
          Some (Some sz) \<Rightarrow> get_buffer L cu mem e buf sz (buffer_offset a) a
        | _ \<Rightarrow> undefined_op)"

subsection \<open>Parts and whole objects of the base client\<close>

text \<open>The buffer is pinned by the caller. \<open>http\<close> is what follows when the client is not ready or declines.\<close>

definition try_rdma :: "'w rdma_lib \<Rightarrow> 'w client_env \<Rightarrow> u64 \<Rightarrow> u64 \<Rightarrow> client_ctx \<Rightarrow> (put_object_response, 'w) op
    \<Rightarrow> (put_object_response, 'w) op" where
  "try_rdma L e buf sz x http c =
     (case rdmaPutWithRetry L e buf sz x c of
        None \<Rightarrow> None
      | Some (n, x, c) \<Rightarrow>
          if 0 < n then
            Some (Inr ((put_object_response_of Response_new)\<lparr>po_etag := x_etag x,
              po_checksum_crc64nvme := x_checksum x\<rparr>), c)
          else http c)"

definition PutObject_rdma :: "'w rdma_lib \<Rightarrow> 'w client_env \<Rightarrow> u64 \<Rightarrow> u64 \<Rightarrow> put_object_api_args
    \<Rightarrow> (put_object_response, 'w) op" where
  "PutObject_rdma L e buf sz a = check (ObjectArgs_Validate a) (in_region e a (\<lambda>region.
     let http = and_then (send_request e (put_object_request a region)) (\<lambda>r. ret (put_response r))
     in with_client (\<lambda>c. if Ready L (cl_world c) then try_rdma L e buf sz (object_ctx a region) http else http)))"

definition part_ctx :: "upload_part_args \<Rightarrow> string \<Rightarrow> string \<Rightarrow> client_ctx" where
  "part_ctx a checksum region =
     (object_ctx a region)\<lparr>x_upload_id := a_part_upload_id a, x_part_number := Some (ucast (a_part_number a)),
       x_checksum := checksum\<rparr>"

definition UploadPart_rdma :: "'w rdma_lib \<Rightarrow> 'w client_env \<Rightarrow> u64 \<Rightarrow> u64 \<Rightarrow> string \<Rightarrow> upload_part_args
    \<Rightarrow> (put_object_response, 'w) op" where
  "UploadPart_rdma L e buf part_size checksum a = check (UploadPartArgs_Validate a) (with_client (\<lambda>c.
     let http = ObjectApi.PutObject e (upload_part_api_args a)
     in if Ready L (cl_world c) then in_region e a (\<lambda>region. try_rdma L e buf part_size (part_ctx a checksum region) http)
        else http))"

subsection \<open>Buffers follow the protocol of tokens\<close>

definition traced_cuda :: "'w cuda_lib \<Rightarrow> ('w \<times> 'e list) cuda_lib" where
  "traced_cuda cu =
     \<lparr>cu_loaded = cu_loaded cu,
      cu_ctx_get = (\<lambda>(w, l). case cu_ctx_get cu w of (x, w) \<Rightarrow> (x, (w, l))),
      cu_ctx_set = (\<lambda>ctx (w, l). case cu_ctx_set cu ctx w of (x, w) \<Rightarrow> (x, (w, l))),
      cu_ctx_retain = (\<lambda>n (w, l). case cu_ctx_retain cu n w of (x, w) \<Rightarrow> (x, (w, l))),
      cu_ctx_release = (\<lambda>n (w, l). case cu_ctx_release cu n w of (x, w) \<Rightarrow> (x, (w, l))),
      cu_ptr_ordinal = (\<lambda>p (w, l). case cu_ptr_ordinal cu p w of (x, w) \<Rightarrow> (x, (w, l))),
      cu_dtoh = (\<lambda>p n (w, l). case cu_dtoh cu p n w of (x, w) \<Rightarrow> (x, (w, l))),
      cu_htod = (\<lambda>p s (w, l). case cu_htod cu p s w of (x, w) \<Rightarrow> (x, (w, l)))\<rparr>"

definition traced_memory :: "'w host_memory \<Rightarrow> ('w \<times> 'e list) host_memory" where
  "traced_memory mem = \<lparr>hm_load = (\<lambda>p n (w, l). hm_load mem p n w), hm_store = (\<lambda>p s (w, l). (hm_store mem p s w, l))\<rparr>"

text \<open>The driver and the memory leave the trace alone.\<close>

lemma traced_log:
  "cu_ctx_get (traced_cuda cu) w = (v1, w') \<Longrightarrow> snd w' = snd w"
  "cu_ctx_set (traced_cuda cu) ctx w = (v2, w') \<Longrightarrow> snd w' = snd w"
  "cu_ctx_retain (traced_cuda cu) n w = (v3, w') \<Longrightarrow> snd w' = snd w"
  "cu_ctx_release (traced_cuda cu) n w = (v4, w') \<Longrightarrow> snd w' = snd w"
  "cu_ptr_ordinal (traced_cuda cu) p w = (v5, w') \<Longrightarrow> snd w' = snd w"
  "cu_dtoh (traced_cuda cu) p k w = (v6, w') \<Longrightarrow> snd w' = snd w"
  "cu_htod (traced_cuda cu) p s w = (v7, w') \<Longrightarrow> snd w' = snd w"
  by (cases w; auto simp: traced_cuda_def split: prod.splits)+

lemma traced_store_log [simp]: "snd (hm_store (traced_memory mem) p s w) = snd w"
  by (cases w) (simp add: traced_memory_def)

lemma cuda_Release_log [simp]: "snd (cuda_Release (traced_cuda cu) n w) = snd w"
  using traced_log(4) [of cu n w] by (simp add: cuda_Release_def prod_eq_iff)

lemma cuda_Retain_log: "cuda_Retain (traced_cuda cu) n sc w = (ok, sc', w') \<Longrightarrow> snd w' = snd w"
  by (auto simp: cuda_Retain_def split: prod.splits option.splits bool.splits dest!: traced_log(2,3))

lemma ScopedCudaContext_log:
  "ScopedCudaContext_new (traced_cuda cu) p w = (sc, w') \<Longrightarrow> snd w' = snd w"
  "snd (ScopedCudaContext_delete (traced_cuda cu) sc w) = snd w"
  by (auto simp: ScopedCudaContext_new_def Let_def split: prod.splits option.splits bool.splits if_splits
      dest!: cuda_Retain_log traced_log(1,5))
    (use traced_log(2) [of cu 0 w] in \<open>simp add: ScopedCudaContext_delete_def prod_eq_iff split: option.splits\<close>)

lemma on_device_log:
  assumes "on_device (traced_cuda cu) buf err copy c = Some (r, c')" "\<And>w v w'. copy w = (v, w') \<Longrightarrow> snd w' = snd w"
  shows "snd (cl_world c') = snd (cl_world c)"
  using assms
  by (auto simp: on_device_def ScopedCudaContext_log split: prod.splits if_splits dest!: ScopedCudaContext_log(1))

lemma registered_protocol:
  assumes "registered (traced_lib L) buf sz t x c = Some (n, x', c')"
    "\<And>x c n x' c'. t x c = Some (n, x', c') \<Longrightarrow>
      \<exists>evs. snd (cl_world c') = snd (cl_world c) @ evs \<and> rail_run (Held buf) evs (Held buf) \<and> mints evs \<le> k"
  shows "\<exists>evs. snd (cl_world c') = snd (cl_world c) @ evs \<and> rail_run Idle evs Idle \<and> mints evs \<le> k"
proof -
  obtain ok w where reg: "Register (traced_lib L) buf sz (cl_world c) = (ok, w)"
    by (cases "Register (traced_lib L) buf sz (cl_world c)")
  then have w: "snd w = (if ok then snd (cl_world c) @ [Pinned buf] else snd (cl_world c))" "ok \<Longrightarrow> rl_handle L"
    by (cases "cl_world c"; auto simp: Register_def traced_lib_def split: prod.splits if_splits)+
  show ?thesis
  proof (cases "kRDMAMaxMemoryRegSize < sz \<or> \<not> ok")
    case True
    then have "snd (cl_world c') = snd (cl_world c)" using assms(1) w(1) reg by (auto simp: registered_def split: if_splits)
    then show ?thesis by (auto intro: exI [of _ "[]"] stay)
  next
    case False
    then obtain c1 where t: "t x (c\<lparr>cl_world := w\<rparr>) = Some (n, x', c1)"
      and c': "c' = in_world (\<lambda>w. snd (Deregister (traced_lib L) buf w)) c1"
      using assms(1) reg by (auto simp: registered_def split: bool.splits)
    from assms(2) [OF t] obtain evs where evs: "snd (cl_world c1) = snd w @ evs" "rail_run (Held buf) evs (Held buf)" "mints evs \<le> k"
      by auto
    have "snd (cl_world c') = snd (cl_world c1) @ [Unpinned buf]"
      using False w(2) c' by (cases "cl_world c1") (auto simp: Deregister_def traced_lib_def split: prod.splits)
    then have "snd (cl_world c') = snd (cl_world c) @ ([Pinned buf] @ (evs @ [Unpinned buf]))" using evs(1) w(1) False by simp
    moreover have "rail_run Idle ([Pinned buf] @ (evs @ [Unpinned buf])) Idle"
      by (intro rail_run_append [of _ _ "Held buf"] evs(2)) (auto simp: rail_run_Cons rail_run_Nil intro!: rail_step.intros)
    ultimately show ?thesis using evs(3) by (intro exI [of _ "[Pinned buf] @ (evs @ [Unpinned buf])"]) simp
  qed
qed

text \<open>What a step of a call adds to the trace, when it starts and ends without a pinned buffer.\<close>

definition lawful :: "nat \<Rightarrow> ('w \<times> rdma_event list) client \<Rightarrow> ('w \<times> rdma_event list) client \<Rightarrow> bool" where
  "lawful k c c' \<longleftrightarrow> (\<exists>evs. snd (cl_world c') = snd (cl_world c) @ evs \<and> rail_run Idle evs Idle \<and> mints evs \<le> k)"

lemma lawful_quiet: "snd (cl_world c') = snd (cl_world c) \<Longrightarrow> lawful k c c'"
  by (auto simp: lawful_def intro: exI [of _ "[]"] stay)

lemma lawful_trans: "lawful j c c1 \<Longrightarrow> lawful k c1 c' \<Longrightarrow> lawful (j + k) c c'"
  unfolding lawful_def by (metis add_mono append_assoc mints_simps(3) rail_run_append)

lemma lawful_mono: "lawful j c c' \<Longrightarrow> j \<le> k \<Longrightarrow> lawful k c c'"
  unfolding lawful_def by (meson order.trans)

lemma plain_mints: "list_all (\<lambda>ev. \<exists>call. ev = Sent call) evs \<Longrightarrow> mints evs = 0"
  by (induction evs) auto

lemma lawful_plain:
  assumes "case (cl_world c, cl_world c') of ((w, l), (w', l')) \<Rightarrow>
    \<exists>evs. l' = l @ evs \<and> list_all (\<lambda>ev. \<exists>call. ev = Sent call) evs"
  shows "lawful 0 c c'"
  using assms rail_run_plain plain_mints unfolding lawful_def by (cases "cl_world c"; cases "cl_world c'") fastforce

lemma lawful_registered_put:
  "registered (traced_lib L) buf sz (rdmaPutWithRetry (traced_lib L) (traced_env e) buf sz) x c = Some (n, x', c')
    \<Longrightarrow> lawful 2 c c'"
  unfolding lawful_def
  by (erule registered_protocol)
    (simp add: rdmaPutWithRetry_def kRDMAMaxAttempts_def attempts_protocol [OF rdmaPut_carries])

lemma lawful_registered_get:
  "registered (traced_lib L) buf sz (rdmaGetWithRetry (traced_lib L) (traced_env e) buf sz range_offset) x c = Some (n, x', c')
    \<Longrightarrow> lawful 2 c c'"
  unfolding lawful_def
  by (erule registered_protocol)
    (simp add: rdmaGetWithRetry_def kRDMAMaxAttempts_def attempts_protocol [OF rdmaGet_carries])

lemma stage_out_log:
  assumes "stage_out (traced_lib L) (traced_cuda cu) (traced_memory mem) buf sz c = Some (r, c')"
  shows "snd (cl_world c') = snd (cl_world c)"
proof -
  have "snd (cl_world c') = snd (cl_world c)"
    if "on_device (traced_cuda cu) buf err (\<lambda>w. case cu_dtoh (traced_cuda cu) buf sz w of
        (None, w) \<Rightarrow> (Inl msg, w) | (Some data, w) \<Rightarrow> (Inr data, w)) c = Some (r, c')" for err msg
    using that by (rule on_device_log) (auto split: prod.splits option.splits dest: traced_log(6))
  then show ?thesis
    using assms by (auto simp: stage_out_def with_client_def ret_def fail_def split: if_splits)
qed

lemma lawful_GetRegion: "GetRegion (traced_env e) b r c = Some (res, c') \<Longrightarrow> lawful 0 c c'"
  by (rule lawful_plain) (use traced.GetRegion_rel [of e b r c res c'] in \<open>simp add: split_def\<close>)

lemma lawful_PutObject: "ObjectApi.PutObject (traced_env e) a c = Some (res, c') \<Longrightarrow> lawful 0 c c'"
  by (rule lawful_plain) (use traced.PutObject_rel [of e a c res c'] in \<open>simp add: split_def\<close>)

lemma lawful_GetObject: "GetObject (traced_env e) a s c = Some (res, s', c') \<Longrightarrow> lawful 0 c c'"
  by (rule lawful_plain) (use traced.GetObject_rel [of e a s c res s' c'] in \<open>simp add: split_def\<close>)

lemma lawful_and_then:
  assumes "and_then m f c = Some (r, c')" "\<And>r c c'. m c = Some (r, c') \<Longrightarrow> lawful j c c'"
    "\<And>x r c c'. f x c = Some (r, c') \<Longrightarrow> lawful k c c'"
  shows "lawful (j + k) c c'"
  using assms lawful_trans lawful_mono [of j c c' "j + k"]
  by (fastforce simp: and_then_def on_result_def fail_def split: option.splits sum.splits prod.splits)

lemma put_buffer_lawful:
  assumes "put_buffer (traced_lib L) (traced_cuda cu) (traced_memory mem) (traced_env e) buf sz a c = Some (r, c')"
  shows "lawful 2 c c'"
proof -
  have "lawful (0 + 2) c c'"
    using assms unfolding put_buffer_def in_region_def
  proof (rule lawful_and_then)
    fix region r c c'
    assume run: "(case registered (traced_lib L) buf sz (rdmaPutWithRetry (traced_lib L) (traced_env e) buf sz)
        (object_ctx a region) c of
      None \<Rightarrow> None
    | Some (n, x, c) \<Rightarrow>
        if 0 < n then Some (Inr ((put_object_response_of Response_new)\<lparr>po_etag := x_etag x\<rparr>), c)
        else and_then (stage_out (traced_lib L) (traced_cuda cu) (traced_memory mem) buf sz)
          (\<lambda>data. ObjectApi.PutObject (traced_env e) (buffer_api_args a region data)) c) = Some (r, c')"
    then obtain n x c1 where reg: "registered (traced_lib L) buf sz
        (rdmaPutWithRetry (traced_lib L) (traced_env e) buf sz) (object_ctx a region) c = Some (n, x, c1)"
      by (auto split: option.splits)
    from lawful_registered_put [OF reg] have one: "lawful 2 c c1" .
    have "lawful 0 c1 c'"
    proof (cases "0 < n")
      case True
      with run reg show ?thesis by (auto intro: lawful_quiet)
    next
      case False
      with run reg have "and_then (stage_out (traced_lib L) (traced_cuda cu) (traced_memory mem) buf sz)
          (\<lambda>data. ObjectApi.PutObject (traced_env e) (buffer_api_args a region data)) c1 = Some (r, c')" by simp
      then have "lawful (0 + 0) c1 c'"
        by (rule lawful_and_then) (auto intro: lawful_quiet stage_out_log lawful_PutObject)
      then show ?thesis by simp
    qed
    from lawful_trans [OF one this] show "lawful 2 c c'" by (simp only: add_0_right)
  qed (rule lawful_GetRegion)
  then show ?thesis by (simp only: add_0)
qed

lemma http_into_buffer_lawful:
  assumes "http_into_buffer (traced_lib L) (traced_cuda cu) (traced_memory mem) (traced_env e) buf sz a c = Some (r, c')"
  shows "lawful 0 c c'"
proof (cases "GetObject (traced_env e) a [] c")
  case None
  with assms have "c' = c" by (auto simp: http_into_buffer_def fail_def split: if_splits)
  then show ?thesis by (simp add: lawful_quiet)
next
  case (Some x)
  then obtain res written c1 where get: "GetObject (traced_env e) a [] c = Some (res, written, c1)" by (cases x) auto
  have copied: "snd (cl_world c') = snd (cl_world c1)"
    if "on_device (traced_cuda cu) buf err (\<lambda>w. case cu_htod (traced_cuda cu) buf stage w of
        (False, w) \<Rightarrow> (Inl msg, w) | (True, w) \<Rightarrow> (Inr rr, w)) c1 = Some (r, c')" for err msg stage rr
    using that by (rule on_device_log) (auto split: prod.splits bool.splits dest: traced_log(7))
  have "snd (cl_world c') = snd (cl_world c1) \<or> c' = c"
    using assms get copied
    by (auto simp: http_into_buffer_def Let_def fail_def split: if_splits sum.splits)
  moreover have "lawful 0 c c1" using get by (rule lawful_GetObject)
  ultimately show ?thesis using lawful_trans [of 0 c c1 0 c'] lawful_quiet [of c' c1 0] lawful_quiet [of c' c 0] by auto
qed

lemma get_buffer_lawful:
  assumes "get_buffer (traced_lib L) (traced_cuda cu) (traced_memory mem) (traced_env e) buf sz range_offset a c = Some (r, c')"
  shows "lawful 2 c c'"
proof -
  have "lawful (0 + 2) c c'"
    using assms unfolding get_buffer_def in_region_def
  proof (rule lawful_and_then)
    fix region r c c'
    assume run: "(case registered (traced_lib L) buf sz (rdmaGetWithRetry (traced_lib L) (traced_env e) buf sz range_offset)
        (object_ctx a region) c of
      None \<Rightarrow> None
    | Some (n, x, c) \<Rightarrow>
        if 0 < n then Some (Inr Response_new, c)
        else http_into_buffer (traced_lib L) (traced_cuda cu) (traced_memory mem) (traced_env e) buf sz
          (fallback_get_args a region range_offset sz) c) = Some (r, c')"
    then obtain n x c1 where reg: "registered (traced_lib L) buf sz
        (rdmaGetWithRetry (traced_lib L) (traced_env e) buf sz range_offset) (object_ctx a region) c = Some (n, x, c1)"
      by (auto split: option.splits)
    from lawful_registered_get [OF reg] have one: "lawful 2 c c1" .
    have "lawful 0 c1 c'"
      using run reg by (auto split: if_splits intro: lawful_quiet http_into_buffer_lawful)
    from lawful_trans [OF one this] show "lawful 2 c c'" by (simp only: add_0_right)
  qed (rule lawful_GetRegion)
  then show ?thesis by (simp only: add_0)
qed

lemma check_lawful:
  "check err m c = Some (r, c') \<Longrightarrow> (\<And>r c'. m c = Some (r, c') \<Longrightarrow> lawful k c c') \<Longrightarrow> lawful k c c'"
  by (auto simp: check_def fail_def intro: lawful_quiet split: if_splits)

lemma PutObject_buffer_lawful:
  assumes "Client_PutObject_buffer (traced_lib L) (traced_cuda cu) (traced_memory mem) (traced_env e) buf a c = Some (r, c')"
  shows "lawful 2 c c'"
proof -
  obtain err a' where v: "PutObjectArgs_Validate a = (err, a')" by fastforce
  show ?thesis
    using assms unfolding Client_PutObject_buffer_def v prod.case
    by (rule check_lawful)
      (auto simp: check_tls_def with_client_def fail_def undefined_op_def split: if_splits option.splits
        intro: lawful_quiet put_buffer_lawful)
qed

lemma GetObject_buffer_lawful:
  assumes "Client_GetObject_buffer (traced_lib L) (traced_cuda cu) (traced_memory mem) (traced_env e) buf a c = Some (r, c')"
  shows "lawful 2 c c'"
  using assms unfolding Client_GetObject_buffer_def
  by (rule check_lawful) (auto simp: undefined_op_def split: option.splits intro: get_buffer_lawful)

subsection \<open>What a buffer holds after a download\<close>

text \<open>The server has said that it moved the bytes.\<close>

definition moved :: "http_response \<Rightarrow> bool" where
  "moved h \<longleftrightarrow> resp_error h = [] \<and> parseRDMAReply (GetFront ''x-amz-rdma-reply'' (resp_headers h)) \<in> {200, 206}"

lemma get_outcome_moved: "0 < get_outcome sz h \<Longrightarrow> moved h"
  by (auto simp: get_outcome_def moved_def Let_def kRDMANotSupported_def split: if_splits)

lemma rdmaGet_moved:
  assumes "rdmaGet e token sz range_offset x c = Some (n, x', c')" "0 < n"
  shows "\<exists>w r. moved (fst (http_execute (\<lambda>_. fst (ce_send e w (call_of r))) r ()))"
proof -
  from assms obtain h where ex: "rdma_exchange e (\<lambda>date creds. rdma_get_request (ce_crypto e) date (cl_base_url c) creds x
      token sz range_offset) c = Some (Some h, c')" and "n = get_outcome sz h"
    unfolding rdmaGet_def map_option_eq_Some by (fastforce simp: kRDMALocalError_def split: option.splits)
  with assms(2) have "moved h" by (simp add: get_outcome_moved)
  moreover obtain w r where "h = fst (http_execute (\<lambda>_. fst (ce_send e w (call_of r))) r ())"
    using ex by (auto simp: rdma_exchange_def split: option.splits prod.splits) (metis fst_conv)
  ultimately show ?thesis by blast
qed

lemma attempts_settled:
  assumes "rdma_attempts n L buf sz t res x c = Some (res', x', c')" "0 < res'" "res \<le> 0"
  shows "\<exists>token x c c'. t token x c = Some (res', x', c')"
  using assms
proof (induction n arbitrary: res x c)
  case (Suc n)
  from Suc.prems(1) consider "res' = - 1"
    | token w r1 x1 c1 where "t token x (c\<lparr>cl_world := w\<rparr>) = Some (r1, x1, c1)" "settled r1" "res' = r1" "x' = x1"
    | c2 r1 x1 where "rdma_attempts n L buf sz t r1 x1 c2 = Some (res', x', c')" "\<not> settled r1"
    by (auto split: prod.splits option.splits if_splits)
  then show ?case
  proof cases
    case 3
    then show ?thesis using Suc.IH [of r1 x1 c2] Suc.prems(2) by (auto simp: settled_def)
  qed (use Suc.prems(2) in auto)
qed simp

lemma registered_moved:
  assumes "registered L buf sz (rdmaGetWithRetry L e buf sz range_offset) x c = Some (n, x', c')" "0 < n"
  shows "\<exists>w r. moved (fst (http_execute (\<lambda>_. fst (ce_send e w (call_of r))) r ()))"
proof -
  from assms obtain c0 c1 where "rdmaGetWithRetry L e buf sz range_offset x c0 = Some (n, x', c1)"
    by (auto simp: registered_def split: if_splits prod.splits bool.splits)
  then show ?thesis
    using attempts_settled [of kRDMAMaxAttempts L buf sz "\<lambda>token. rdmaGet e token sz range_offset" "- 1" x c0 n x' c1] assms(2)
      rdmaGet_moved unfolding rdmaGetWithRetry_def by (metis neg_le_0_iff_le zero_le_one)
qed

lemma fallback_request [simp]:
  "q_method (get_object_request tz (fallback_get_args a region off sz) r) = kGet"
  "q_datafunc (get_object_request tz (fallback_get_args a region off sz) r) = Some (\<lambda>written _ chunk. (True, written @ chunk))"
  by (simp_all add: get_object_request_def version_request_def fallback_get_args_def with_headers_def
      object_request_def bucket_request_def Request_new_def)

text \<open>A host buffer holds the start of the body of one answer.\<close>

lemma http_into_buffer_stores:
  assumes "named_failures e" "\<not> IsDeviceBuffer L buf"
    "http_into_buffer L cu mem e buf sz (fallback_get_args a region off sz) c = Some (Inr r, c')"
  shows "\<exists>w call w0. let x = fst (ce_send e w call) in
    x_failure x = None \<and> 200 \<le> x_status x \<and> x_status x \<le> 299
    \<and> cl_world c' = hm_store mem buf (take (unat sz) (concat (x_chunks x))) w0"
proof -
  from assms(2,3) obtain written c1 where get: "GetObject e (fallback_get_args a region off sz) [] c = Some (Inr r, written, c1)"
    and c': "c' = in_world (hm_store mem buf (take (unat sz) written)) c1"
    by (auto simp: http_into_buffer_def)
  from get obtain region' q c2 where
    "Execute e (get_object_request (timezone (ce_crypto e)) (fallback_get_args a region off sz) region') [] c2 = Some (Inr r, q, written, c1)"
    by (auto simp: GetObject_def stream_call_def split: option.splits sum.splits prod.splits)
  from Execute_writes [OF assms(1) this] c' show ?thesis by (auto simp: Let_def)
qed

subsection \<open>Contexts are given back\<close>

datatype cuda_event = Retained int | Released int

definition counted_cuda :: "'w cuda_lib \<Rightarrow> ('w \<times> cuda_event list) cuda_lib" where
  "counted_cuda cu = (traced_cuda cu)\<lparr>
     cu_ctx_retain := (\<lambda>n (w, l). case cu_ctx_retain cu n w of
       (x, w) \<Rightarrow> (x, (w, if x = None then l else l @ [Retained n]))),
     cu_ctx_release := (\<lambda>n (w, l). case cu_ctx_release cu n w of (x, w) \<Rightarrow> (x, (w, l @ [Released n])))\<rparr>"

text \<open>What is held after some events: how often each context was retained more than released.\<close>

definition held :: "cuda_event list \<Rightarrow> int \<Rightarrow> int" where
  "held evs n = int (count_list evs (Retained n)) - int (count_list evs (Released n))"

lemma held_simps [simp]: "held [] n = 0" "held (xs @ ys) n = held xs n + held ys n"
  "held [Retained m] n = (if n = m then 1 else 0)" "held [Released m] n = (if n = m then - 1 else 0)"
  by (auto simp: held_def)

lemma counted_log:
  "cu_ctx_get (counted_cuda cu) w = (v1, w') \<Longrightarrow> snd w' = snd w"
  "cu_ctx_set (counted_cuda cu) ctx w = (v2, w') \<Longrightarrow> snd w' = snd w"
  "cu_ctx_retain (counted_cuda cu) m w = (v3, w') \<Longrightarrow> held (snd w') n = held (snd w) n + (if v3 \<noteq> None \<and> n = m then 1 else 0)"
  "cu_ptr_ordinal (counted_cuda cu) p w = (v5, w') \<Longrightarrow> snd w' = snd w"
  by (cases w; auto simp: counted_cuda_def traced_cuda_def split: prod.splits if_splits)+

lemma counted_Release: "held (snd (cuda_Release (counted_cuda cu) m w)) n = held (snd w) n - (if n = m then 1 else 0)"
  by (cases w) (auto simp: counted_cuda_def cuda_Release_def split: prod.splits)

lemma counted_Retain:
  assumes "cuda_Retain (counted_cuda cu) m sc w = (ok, sc', w')"
  shows "held (snd w') n = held (snd w) n + (if ok \<and> n = m then 1 else 0)"
    "sc' = (if ok then sc\<lparr>cs_retained := Some m\<rparr> else sc)"
proof -
  obtain v w1 where r: "cu_ctx_retain (counted_cuda cu) m w = (v, w1)" by (cases "cu_ctx_retain (counted_cuda cu) m w")
  note held1 = counted_log(3) [OF r, of n]
  have "held (snd w') n = held (snd w) n + (if ok \<and> n = m then 1 else 0)
      \<and> sc' = (if ok then sc\<lparr>cs_retained := Some m\<rparr> else sc)"
  proof (cases v)
    case None
    with assms r held1 show ?thesis by (simp add: cuda_Retain_def)
  next
    case (Some ctx)
    obtain set_ok w2 where t: "cu_ctx_set (counted_cuda cu) ctx w1 = (set_ok, w2)" by (cases "cu_ctx_set (counted_cuda cu) ctx w1")
    show ?thesis
      using assms r t held1 Some counted_log(2) [OF t] counted_Release [of cu m w2 n]
      by (cases set_ok) (auto simp: cuda_Retain_def)
  qed
  then show "held (snd w') n = held (snd w) n + (if ok \<and> n = m then 1 else 0)"
    "sc' = (if ok then sc\<lparr>cs_retained := Some m\<rparr> else sc)" by blast+
qed

lemma scope_holds:
  assumes "ScopedCudaContext_new (counted_cuda cu) p w = (sc, w')"
  shows "held (snd w') n = held (snd w) n + (if cs_retained sc = Some n then 1 else 0)"
proof -
  let ?sc0 = "\<lparr>cs_retained = None, cs_ok = False\<rparr>"
  obtain cur w1 where g: "cu_ctx_get (counted_cuda cu) w = (cur, w1)" by (cases "cu_ctx_get (counted_cuda cu) w")
  show ?thesis
  proof (cases "cur = Some 0")
    case False
    then show ?thesis
      using assms g counted_log(1) [OF g] by (auto simp: ScopedCudaContext_new_def Let_def split: option.splits if_splits)
  next
    case True
    obtain ok sc1 w2 where r: "cuda_Retain (counted_cuda cu) 0 ?sc0 w1 = (ok, sc1, w2)" by (metis prod_cases3)
    obtain ord w3 where q: "cu_ptr_ordinal (counted_cuda cu) p w2 = (ord, w3)" by (cases "cu_ptr_ordinal (counted_cuda cu) p w2")
    obtain ok' sc2 w4 where r': "cuda_Retain (counted_cuda cu) (the ord) (sc1\<lparr>cs_retained := None\<rparr>) w3 = (ok', sc2, w4)"
      by (metis prod_cases3)
    note steps = counted_log(1) [OF g] counted_Retain(1) [OF r, of n] counted_Retain(2) [OF r]
      counted_log(4) [OF q] counted_Retain(1) [OF r', of n] counted_Retain(2) [OF r']
      counted_Release [of cu 0 w4 n]
    show ?thesis
      using assms True g r q r' steps
      by (cases ok; cases ok'; cases ord) (auto simp: ScopedCudaContext_new_def Let_def split: if_splits)
  qed
qed

lemma scope_gives_back:
  "held (snd (ScopedCudaContext_delete (counted_cuda cu) sc w)) n = held (snd w) n - (if cs_retained sc = Some n then 1 else 0)"
  using counted_log(2) [of cu 0 w] counted_Release [of cu _ "snd (cu_ctx_set (counted_cuda cu) 0 w)" n]
  by (auto simp: ScopedCudaContext_delete_def prod_eq_iff split: option.splits)

subsection \<open>What a buffer loses\<close>

text \<open>Two uploads that differ only in what is to be stored with the object.\<close>

definition same_buffer :: "put_object_args \<Rightarrow> put_object_args \<Rightarrow> bool" where
  "same_buffer a a' \<longleftrightarrow> a_bucket a = a_bucket a' \<and> a_region a = a_region a' \<and> a_object a = a_object a'
     \<and> a_stream a = a_stream a' \<and> a_put_buf a = a_put_buf a' \<and> a_size a = a_size a' \<and> a_object_size a = a_object_size a'
     \<and> a_part_size a = a_part_size a' \<and> a_part_count a = a_part_count a' \<and> a_max_inflight_parts a = a_max_inflight_parts a'"

definition tls_free :: "'b object_write_args_scheme \<Rightarrow> bool \<Rightarrow> bool" where
  "tls_free a tls \<longleftrightarrow> (case a_sse a of None \<Rightarrow> True | Some k \<Rightarrow> sse_tls_required k \<longrightarrow> tls)"

lemma put_buffer_cong:
  assumes "a_bucket a = a_bucket a'" "a_region a = a_region a'" "a_object a = a_object a'"
  shows "put_buffer L cu mem e buf sz a = put_buffer L cu mem e buf sz a'"
proof -
  have "object_ctx a = object_ctx a'" "buffer_api_args a = buffer_api_args a'"
    using assms by (intro ext; simp add: object_ctx_def buffer_api_args_def)+
  then show ?thesis unfolding put_buffer_def in_region_def assms(1,2) by metis
qed

lemma Validate_keeps:
  "PutObjectArgs_Validate a = (err, v) \<Longrightarrow> a_bucket v = a_bucket a \<and> a_region v = a_region a \<and> a_object v = a_object a
    \<and> a_size v = a_size a \<and> a_sse v = a_sse a"
  by (auto simp: PutObjectArgs_Validate_def Let_def plan_parts_def split: if_splits prod.splits)

lemma Validate_same: "same_buffer a a' \<Longrightarrow> fst (PutObjectArgs_Validate a) = fst (PutObjectArgs_Validate a')"
  by (simp add: same_buffer_def PutObjectArgs_Validate_def Let_def plan_parts_def ObjectArgs_Validate_def
      BucketArgs_Validate_def case_prod_beta)

lemma same_buffer_same_call:
  fixes c :: "'w client"
  assumes "same_buffer a a'" "tls_free a (b_https (cl_base_url c))" "tls_free a' (b_https (cl_base_url c))"
  shows "Client_PutObject_buffer L cu mem e buf a' c = Client_PutObject_buffer L cu mem e buf a c"
proof -
  obtain err v where v: "PutObjectArgs_Validate a = (err, v)" by fastforce
  obtain v' where v': "PutObjectArgs_Validate a' = (err, v')" using Validate_same [OF assms(1)] v by (metis fst_conv surj_pair)
  have eq: "a_size v = a_size v'" and "put_buffer L cu mem e buf sz v' = put_buffer L cu mem e buf sz v" for sz
    using Validate_keeps [OF v] Validate_keeps [OF v'] assms(1) by (auto simp: same_buffer_def intro: put_buffer_cong)
  moreover have "check_tls v' m c = m c" "check_tls v m c = m c" for m :: "(put_object_response, 'w) op"
    using Validate_keeps [OF v] Validate_keeps [OF v'] assms(2,3)
    by (auto simp: check_tls_def with_client_def tls_free_def split: option.splits)
  ultimately show ?thesis unfolding Client_PutObject_buffer_def v v' by (cases "a_size v'") (simp_all add: check_def)
qed

text \<open>A download has the same loss: version, key and conditions of the arguments are never sent.\<close>

lemma same_read_same_call:
  fixes c :: "'w client" and a a' :: "'s get_object_args"
  assumes "a_bucket a = a_bucket a'" "a_region a = a_region a'" "a_object a = a_object a'" "a_offset a = a_offset a'"
    "a_buf a = a_buf a'" "a_datafunc a = a_datafunc a'"
  shows "Client_GetObject_buffer L cu mem e buf a c = Client_GetObject_buffer L cu mem e buf a' c"
proof -
  have off: "buffer_offset a = buffer_offset a'" using assms(4) by (simp add: buffer_offset_def)
  have "object_ctx a = object_ctx a'" "fallback_get_args a = fallback_get_args a'"
    using assms(1-3) by (intro ext; simp add: object_ctx_def fallback_get_args_def)+
  then have "get_buffer L cu mem e buf sz off a = get_buffer L cu mem e buf sz off a'" for sz off
    unfolding get_buffer_def in_region_def assms(1,2) by metis
  moreover have "ObjectArgs_Validate a = ObjectArgs_Validate a'"
    using assms(1,3) by (simp add: ObjectArgs_Validate_def BucketArgs_Validate_def)
  then have "GetObjectArgs_Validate a = GetObjectArgs_Validate a'"
    unfolding GetObjectArgs_Validate_def assms(5,6) by simp
  ultimately show ?thesis
    using off assms(5) by (simp add: Client_GetObject_buffer_def split: option.splits)
qed

text \<open>An offset of 2 to the 63 reads the whole object.\<close>

lemma large_offset_reads_all: "buffer_offset (a\<lparr>a_offset := Some 0x8000000000000000\<rparr>) < 0"
  by (simp add: buffer_offset_def)

text \<open>An empty buffer that was stored counts as a failure of its token.\<close>

lemma empty_buffer_unsettled:
  "resp_error h = [] \<Longrightarrow> status_code h = 200 \<Longrightarrow> GetFront ''etag'' (resp_headers h) \<noteq> [] \<Longrightarrow>
     \<not> settled (fst (put_outcome 0 x h))"
  by (simp add: put_outcome_def Let_def settled_def kRDMANotSupported_def kRDMALocalError_def)

end
