(* ===== verification/CApi.thy ===== *)
theory CApi
  imports RdmaClient Providers
begin

section \<open>The C interface (src/c_api.cc, include/miniocpp/c_api.h)\<close>

text \<open>
  A client is a handle with its own base URL, static credentials and client; calls answer with a number of
  bytes or a negative code, and leave the text of an error behind (one per thread: a string that every call
  takes and returns). A pointer that may be null is an option, a C string ends at its first NUL, a buffer is
  its address, 0 when null. A callback that reads is the list of what it will answer, one that writes is a
  function on the caller's state. Running out of memory is not modelled.
\<close>

type_synonym cstring = "string option"

definition MINIOCPP_ERR_GENERIC :: int where
  "MINIOCPP_ERR_GENERIC = - 1"

definition MINIOCPP_ERR_INVALID_ARG :: int where
  "MINIOCPP_ERR_INVALID_ARG = - 3"

subsection \<open>Parts in flight\<close>

text \<open>\<open>strtoul\<close> in base 10 with the text behind the number; without digits nothing is read. A value that
  does not fit is the largest one, a minus negates modulo 2 to the 64.\<close>

definition strtoul :: "string \<Rightarrow> (u64 \<times> string) option" where
  "strtoul str =
     (let s = dropWhile is_space str;
          neg = (s \<noteq> [] \<and> hd s = CHR ''-'');
          s = (if s \<noteq> [] \<and> (hd s = CHR ''-'' \<or> hd s = CHR ''+'') then tl s else s);
          ds = takeWhile is_digit s;
          n = digits_val 0 ds
      in if ds = [] then None
         else Some (if 2 ^ 64 \<le> n then - 1 else if neg then - word_of_nat n else word_of_nat n,
           dropWhile is_digit s))"

definition StreamInflightParts :: "cstring \<Rightarrow> u32" where
  "StreamInflightParts env =
     (case env of
        None \<Rightarrow> 4
      | Some env \<Rightarrow>
          (case strtoul env of
             Some (v, []) \<Rightarrow> if 1 \<le> v \<and> v \<le> 100 then ucast v else 4
           | _ \<Rightarrow> 4))"

subsection \<open>Bytes from a callback\<close>

text \<open>Each answer is a number and what was written to the buffer; the stream ends at the first one that is
  not positive.\<close>

fun read_cb_bytes :: "(int \<times> string) list \<Rightarrow> string" where
  "read_cb_bytes [] = []"
| "read_cb_bytes ((n, b) # rs) = (if n \<le> 0 then [] else take (nat n) b @ read_cb_bytes rs)"

subsection \<open>Clients\<close>

record 'w c_client =
  h_base_url :: base_url
  h_provider :: provider
  h_client :: "'w client"

text \<open>\<open>None\<close>: the process ends, in the constructor of the client when the base URL is not valid. \<open>what\<close> is
  the text of the exception.\<close>

definition miniocpp_client_new :: "(string \<Rightarrow> bool) \<Rightarrow> string \<Rightarrow> string \<Rightarrow> cstring \<Rightarrow> cstring \<Rightarrow> cstring \<Rightarrow> cstring \<Rightarrow> cstring
    \<Rightarrow> int \<Rightarrow> 'w \<Rightarrow> string \<Rightarrow> ('w c_client option \<times> string) option" where
  "miniocpp_client_new inet6 agent what endpoint region ak sk tok use_https w last_error =
     (case (endpoint, ak, sk) of
        (Some h, Some ak, Some sk) \<Rightarrow>
          (if Url_Parse inet6 h = None then Some (None, ''client construction failed: '' @ what)
           else case BaseUrl_new inet6 h (use_https \<noteq> 0) (case region of None \<Rightarrow> [] | Some r \<Rightarrow> r) of
             None \<Rightarrow> None
           | Some b \<Rightarrow>
               (case BaseClient_new agent b w of
                  None \<Rightarrow> None
                | Some c \<Rightarrow>
                    let p = StaticProvider_new ak sk (case tok of None \<Rightarrow> [] | Some t \<Rightarrow> t)
                    in Some (Some \<lparr>h_base_url = b, h_provider = p, h_client = c\<rparr>, last_error)))
      | _ \<Rightarrow> Some (None, ''endpoint, access_key, and secret_key are required''))"

subsection \<open>Storing an object\<close>

text \<open>\<open>strncpy\<close> of 63 characters.\<close>

definition c_text63 :: "string \<Rightarrow> string" where
  "c_text63 s = take 63 (takeWhile (\<lambda>c. c \<noteq> CHR 0x00) s)"

definition c_put_args :: "'w c_client \<Rightarrow> string \<Rightarrow> string \<Rightarrow> u64 \<Rightarrow> put_object_args" where
  "c_put_args h bucket object sz =
     \<lparr>a_extra_headers = mm_empty, a_extra_query_params = mm_empty, a_bucket = bucket,
      a_region = b_region (h_base_url h), a_object = object, a_headers = mm_empty, a_user_metadata = mm_empty,
      a_sse = None, a_tags = [], a_retention = None, a_legal_hold = False, a_object_size = Some sz,
      a_part_size = 16 * 1024 * 1024, a_part_count = None, a_content_type = [], a_stream = None,
      a_put_buf = None, a_size = None, a_checksum_crc64nvme = [], a_max_inflight_parts = None\<rparr>"

definition c_buffer_args :: "'w c_client \<Rightarrow> string \<Rightarrow> string \<Rightarrow> u64 \<Rightarrow> string \<Rightarrow> put_object_args" where
  "c_buffer_args h bucket object sz contents =
     (c_put_args h bucket object sz)\<lparr>a_put_buf := Some contents, a_size := Some sz\<rparr>"

definition c_stream_args :: "'w c_client \<Rightarrow> string \<Rightarrow> string \<Rightarrow> u64 \<Rightarrow> cstring \<Rightarrow> (int \<times> string) list \<Rightarrow> put_object_args" where
  "c_stream_args h bucket object sz env read_cb =
     (c_put_args h bucket object sz)\<lparr>a_stream := Some \<lparr>is_bytes = read_cb_bytes read_cb, is_throws = False\<rparr>,
       a_max_inflight_parts := Some (StreamInflightParts env)\<rparr>"

text \<open>What a call leaves: its number, the text of the last error, the client, and what it wrote to the
  caller's texts if it did. \<open>put_stream\<close> is \<open>Client::PutObject\<close> for a stream.\<close>

record 'w c_result =
  c_ret :: int
  c_last_error :: string
  c_after :: "'w client option"
  c_etag :: cstring
  c_checksum :: cstring

definition c_refused :: "string \<Rightarrow> 'w c_client option \<Rightarrow> 'w c_result" where
  "c_refused msg h = \<lparr>c_ret = MINIOCPP_ERR_INVALID_ARG, c_last_error = msg, c_after = map_option h_client h,
     c_etag = None, c_checksum = None\<rparr>"

definition c_put_result :: "u64 \<Rightarrow> string \<Rightarrow> bool \<Rightarrow> bool \<Rightarrow> (error + put_object_response) \<times> 'w client \<Rightarrow> 'w c_result" where
  "c_put_result sz last_error want_etag want_checksum = (\<lambda>(res, c).
     case res of
       Inl err \<Rightarrow> \<lparr>c_ret = MINIOCPP_ERR_GENERIC, c_last_error = err, c_after = Some c, c_etag = None, c_checksum = None\<rparr>
     | Inr r \<Rightarrow> \<lparr>c_ret = sint sz, c_last_error = last_error, c_after = Some c,
         c_etag = (if want_etag then Some (c_text63 (po_etag r)) else None),
         c_checksum = (if want_checksum then Some (c_text63 (po_checksum_crc64nvme r)) else None)\<rparr>)"

definition miniocpp_put_object :: "'w rdma_lib \<Rightarrow> 'w cuda_lib \<Rightarrow> 'w host_memory \<Rightarrow> 'w client_env
    \<Rightarrow> (put_object_args \<Rightarrow> (put_object_response, 'w) op) \<Rightarrow> cstring \<Rightarrow> 'w c_client option \<Rightarrow> cstring \<Rightarrow> cstring \<Rightarrow> u64
    \<Rightarrow> u64 \<Rightarrow> (int \<times> string) list option \<Rightarrow> bool \<Rightarrow> bool \<Rightarrow> string \<Rightarrow> 'w c_result option" where
  "miniocpp_put_object L cu mem e put_stream env h bucket object buf sz read_cb want_etag want_checksum last_error =
     (case (h, bucket, object) of
        (Some h, Some bucket, Some object) \<Rightarrow>
          (let finish = map_option (c_put_result sz last_error want_etag want_checksum); c = h_client h in
           if buf \<noteq> 0 then
             finish (Client_PutObject_buffer L cu mem e buf
               (c_buffer_args h bucket object sz (hm_load mem buf sz (cl_world c))) c)
           else case read_cb of
             None \<Rightarrow> Some (c_refused ''either buf or read_cb must be provided'' (Some h))
           | Some cb \<Rightarrow> finish (put_stream (c_stream_args h bucket object sz env cb) c))
      | _ \<Rightarrow> Some (c_refused ''client, bucket, object are required'' h))"

subsection \<open>Reading an object\<close>

definition c_get_args :: "'w c_client \<Rightarrow> string \<Rightarrow> string \<Rightarrow> 's data_function option \<Rightarrow> u64 option option
    \<Rightarrow> 's get_object_args" where
  "c_get_args h bucket object f buf =
     \<lparr>a_extra_headers = mm_empty, a_extra_query_params = mm_empty, a_bucket = bucket,
      a_region = b_region (h_base_url h), a_object = object, a_version_id = [], a_ssec = None, a_offset = None,
      a_length = None, a_match_etag = [], a_not_match_etag = [], a_modified_since = utc_default,
      a_unmodified_since = utc_default, a_datafunc = f, a_buf = buf\<rparr>"

text \<open>The callback's state and \<open>bytes_seen\<close>.\<close>

definition write_datafunc :: "('s \<Rightarrow> string \<Rightarrow> int \<times> 's) \<Rightarrow> ('s \<times> int) data_function" where
  "write_datafunc write_cb = (\<lambda>(s, seen) _ chunk.
     case write_cb s chunk of
       (n, s) \<Rightarrow> if n < 0 \<or> n \<noteq> int (length chunk) then (False, (s, seen)) else (True, (s, seen + n)))"

definition c_get_result :: "int \<Rightarrow> string \<Rightarrow> (error + response) \<times> 'w client \<Rightarrow> 'w c_result" where
  "c_get_result n last_error = (\<lambda>(res, c).
     case res of
       Inl err \<Rightarrow> \<lparr>c_ret = MINIOCPP_ERR_GENERIC, c_last_error = err, c_after = Some c, c_etag = None, c_checksum = None\<rparr>
     | Inr r \<Rightarrow> \<lparr>c_ret = n, c_last_error = last_error, c_after = Some c, c_etag = None, c_checksum = None\<rparr>)"

definition miniocpp_get_object :: "'w rdma_lib \<Rightarrow> 'w cuda_lib \<Rightarrow> 'w host_memory \<Rightarrow> 'w client_env \<Rightarrow> 'w c_client option
    \<Rightarrow> cstring \<Rightarrow> cstring \<Rightarrow> u64 \<Rightarrow> u64 \<Rightarrow> ('s \<Rightarrow> string \<Rightarrow> int \<times> 's) option \<Rightarrow> 's \<Rightarrow> string
    \<Rightarrow> ('w c_result \<times> 's) option" where
  "miniocpp_get_object L cu mem e h bucket object buf sz write_cb s last_error =
     (case (h, bucket, object) of
        (Some h, Some bucket, Some object) \<Rightarrow>
          (let c = h_client h in
           if buf \<noteq> 0 then
             map_option (\<lambda>r. (c_get_result (sint sz) last_error r, s))
               (Client_GetObject_buffer L cu mem e buf
                 (c_get_args h bucket object None (Some (Some sz)) :: 's get_object_args) c)
           else case write_cb of
             None \<Rightarrow> Some (c_refused ''either buf or write_cb must be provided'' (Some h), s)
           | Some cb \<Rightarrow>
               map_option (\<lambda>(r, (s, seen), c). (c_get_result seen last_error (r, c), s))
                 (Client_GetObject e (c_get_args h bucket object (Some (write_datafunc cb)) None) (s, 0) c))
      | _ \<Rightarrow> Some (c_refused ''client, bucket, object are required'' h, s))"

subsection \<open>What the host has\<close>

definition miniocpp_rdma_available :: "'w rdma_lib \<Rightarrow> 'w \<Rightarrow> int" where
  "miniocpp_rdma_available L w = (if Ready L w then 1 else 0)"

definition miniocpp_rdma_nic_count :: "'w rdma_lib \<Rightarrow> 'w \<Rightarrow> int" where
  "miniocpp_rdma_nic_count L w = NicCount L w"

definition miniocpp_rdma_healthy_nic_count :: "'w rdma_lib \<Rightarrow> 'w \<Rightarrow> int" where
  "miniocpp_rdma_healthy_nic_count L w = HealthyNicCount L w"

definition miniocpp_last_error :: "string \<Rightarrow> cstring" where
  "miniocpp_last_error last_error = (if last_error = [] then None else Some (takeWhile (\<lambda>c. c \<noteq> CHR 0x00) last_error))"

subsection \<open>The number of parts in flight\<close>

lemma strtoul_printed: "n < 2 ^ 64 \<Longrightarrow> strtoul (to_string n) = Some (word_of_nat n, [])"
proof -
  assume n: "n < 2 ^ 64"
  have all: "\<forall>c \<in> set (to_string n). is_digit c" using to_string_digits by blast
  then have ds: "takeWhile is_digit (to_string n) = to_string n" "dropWhile is_digit (to_string n) = []"
    by (simp_all add: takeWhile_eq_all_conv dropWhile_eq_Nil_conv)
  obtain c cs where s: "to_string n = c # cs" by (cases "to_string n") auto
  then have "is_digit c" using all by simp
  then have c: "\<not> is_space c" "c \<noteq> CHR ''-''" "c \<noteq> CHR ''+''" by (auto simp: is_digit_def is_space_def byte_def)
  have "dropWhile is_space (to_string n) = to_string n" using s c(1) by simp
  then show ?thesis
    using ds n s c to_string_val [of n] by (simp add: strtoul_def Let_def)
qed

lemma inflight_bounds: "1 \<le> StreamInflightParts env \<and> StreamInflightParts env \<le> 100"
proof -
  have "1 \<le> (ucast v :: u32) \<and> (ucast v :: u32) \<le> 100" if "1 \<le> v" "v \<le> 100" for v :: u64
  proof -
    have "1 \<le> unat v" "unat v \<le> 100" using that by (simp_all add: word_le_nat_alt)
    then have "unat (ucast v :: u32) = unat v" by (simp add: unsigned_ucast_eq take_bit_nat_eq_self)
    then show ?thesis using that by (simp add: word_le_nat_alt)
  qed
  then show ?thesis by (auto simp: StreamInflightParts_def split: option.splits list.splits prod.splits)
qed

lemma inflight_printed:
  assumes "1 \<le> n" "n \<le> 100"
  shows "StreamInflightParts (Some (to_string n)) = word_of_nat n"
proof -
  have n: "n < 2 ^ 64" using assms(2) by simp
  have u: "unat (word_of_nat n :: u64) = n" using assms(2) by (simp add: unat_of_nat)
  have "1 \<le> (word_of_nat n :: u64) \<and> (word_of_nat n :: u64) \<le> 100" using assms u by (simp add: word_le_nat_alt)
  moreover have "unat (ucast (word_of_nat n :: u64) :: u32) = n"
    using assms(2) u by (simp add: unsigned_ucast_eq take_bit_nat_eq_self)
  then have "(ucast (word_of_nat n :: u64) :: u32) = word_of_nat n"     using assms(2) by (simp add: word_unat_eq_iff unat_of_nat)
  ultimately show ?thesis using strtoul_printed [OF n] by (simp add: StreamInflightParts_def)
qed

subsection \<open>What a call reports\<close>

text \<open>The bytes a callback has taken are all the bytes of the chunks it took.\<close>

lemma receive_counts:
  "receive True (write_datafunc cb) cs resp (s, seen) = (False, resp', (s', seen')) \<Longrightarrow>
     seen' = seen + int (length (concat cs))"
proof (induction cs arbitrary: s seen)
  case (Cons chunk cs)
  obtain n s1 where cb: "cb s chunk = (n, s1)" by fastforce
  then have f: "write_datafunc cb (s, seen) resp chunk
      = (if n < 0 \<or> n \<noteq> int (length chunk) then (False, (s1, seen)) else (True, (s1, seen + n)))"
    by (simp add: write_datafunc_def)
  with Cons.prems have "n = int (length chunk)"
    "receive True (write_datafunc cb) cs resp (s1, seen + n) = (False, resp', (s', seen'))" by (auto split: if_splits)
  with Cons.IH show ?case by fastforce
qed simp

text \<open>An endpoint that is not valid ends the process instead of giving back a null pointer.\<close>

lemma bad_endpoint_ends:
  assumes "Url_Parse inet6 h \<noteq> None" "BaseUrl_new inet6 h (tls \<noteq> 0) r = Some b" "\<not> base_url_bool b"
  shows "miniocpp_client_new inet6 agent what (Some h) (Some r) (Some ak) (Some sk) tok tls w last_error = None"
  using assms by (simp add: miniocpp_client_new_def BaseClient_new_def)

text \<open>A call with a buffer that succeeds reports its size, whatever the answer had.\<close>

lemma c_get_ret: "c_ret (c_get_result n last_error x) = (case fst x of Inl _ \<Rightarrow> MINIOCPP_ERR_GENERIC | Inr _ \<Rightarrow> n)"
  by (cases x; cases "fst x") (simp_all add: c_get_result_def)

lemma buffer_get_reports_size:
  assumes "miniocpp_get_object L cu mem e h bucket object buf sz write_cb s last_error = Some (r, s')" "buf \<noteq> 0"
    "c_ret r \<noteq> MINIOCPP_ERR_GENERIC" "c_ret r \<noteq> MINIOCPP_ERR_INVALID_ARG"
  shows "c_ret r = sint sz"
  using assms
  by (cases h; cases bucket; cases object)
    (auto simp: miniocpp_get_object_def c_get_ret c_refused_def Let_def split: sum.splits)

end
