(* ===== verification/Program.thy ===== *)
theory Program
  imports Session Listing ParallelUpload Transfers RdmaClient CApi
begin

section \<open>A program on one client\<close>

text \<open>
  The calls of a program on one client, whatever class or language they are made from: those of the
  base client (\<open>api_step\<close>), those of \<open>Client\<close> that are made of several of them (listings and removals
  that fetch as they are read, uploads, copies, downloads), the transfers of buffers and the functions
  of the C API. \<open>program_step\<close> is one of them, with any arguments, any answers, any schedule of its
  threads and any behaviour of the RDMA and CUDA libraries; the theorems are about its reflexive
  transitive closure. The default user agent, a macro of the build, is the argument \<open>agent\<close>.
\<close>

subsection \<open>What every call leaves of its client\<close>

definition stays :: "'w client \<Rightarrow> 'w client \<Rightarrow> bool" where
  "stays c c' \<longleftrightarrow> (client_wf c \<longrightarrow> client_wf c') \<and> cl_base_url c' = cl_base_url c \<and> cl_user_agent c' = cl_user_agent c"

definition steady :: "('a, 'w) op \<Rightarrow> bool" where
  "steady m \<longleftrightarrow> (\<forall>c r c'. m c = Some (r, c') \<longrightarrow> stays c c')"

named_theorems steady_intros \<open>operations that leave the client as \<open>stays\<close> says\<close>

lemma stays_refl [simp, intro]: "stays c c"
  by (simp add: stays_def)

lemma stays_trans [trans]: "stays c c' \<Longrightarrow> stays c' c'' \<Longrightarrow> stays c c''"
  by (simp add: stays_def)

lemma stays_world [simp, intro]: "stays c (c\<lparr>cl_world := w\<rparr>)" "stays c (in_world f c)"
  by (simp_all add: stays_def client_wf_def in_world_def)

lemma op_frame_stays: "op_frame n c c' \<Longrightarrow> stays c c'"
  by (simp add: op_frame_def stays_def)

lemma steadyD: "steady m \<Longrightarrow> m c = Some (r, c') \<Longrightarrow> stays c c'"
  by (simp add: steady_def)

lemma framed_steady: "framed n m \<Longrightarrow> steady m"
  unfolding steady_def by (blast dest: framedD intro: op_frame_stays)

lemma steady_on_result [steady_intros]:
  assumes "steady m" "\<And>err. steady (f err)" "\<And>x. steady (g x)"
  shows "steady (on_result m f g)"
  unfolding steady_def
proof (intro allI impI)
  fix c r c'
  assume run: "on_result m f g c = Some (r, c')"
  then obtain res c1 where m: "m c = Some (res, c1)" by (auto simp: on_result_def split: option.splits)
  have "stays c c1" by (rule steadyD [OF assms(1) m])
  moreover have "stays c1 c'"
    using run m assms(2,3) by (cases res) (auto simp: on_result_def dest: steadyD)
  ultimately show "stays c c'" by (rule stays_trans)
qed

lemma steady_simple [steady_intros]:
  "steady (ret x)" "steady (fail err)" "steady undefined_op" "steady (lift_result res)"
  by (auto simp: steady_def ret_def fail_def undefined_op_def lift_result_def)

lemma steady_and_then [steady_intros]: "steady m \<Longrightarrow> (\<And>x. steady (f x)) \<Longrightarrow> steady (and_then m f)"
  unfolding and_then_def by (intro steady_intros)

lemma steady_or_else [steady_intros]: "steady m \<Longrightarrow> (\<And>err. steady (f err)) \<Longrightarrow> steady (or_else m f)"
  unfolding or_else_def by (intro steady_intros)

lemma steady_with_client [steady_intros]: "(\<And>c. steady (f c)) \<Longrightarrow> steady (with_client f)"
  by (simp add: steady_def with_client_def)

lemma steady_if [steady_intros]: "(b \<Longrightarrow> steady m) \<Longrightarrow> (\<not> b \<Longrightarrow> steady m') \<Longrightarrow> steady (if b then m else m')"
  by simp

lemma steady_check [steady_intros]: "steady m \<Longrightarrow> steady (check err m)"
  by (auto simp: check_def intro: steady_intros)

lemma steady_check_key [steady_intros]: "steady m \<Longrightarrow> steady (check_ssec s m)" "steady m \<Longrightarrow> steady (check_tls a m)"
  unfolding check_ssec_def check_tls_def by (auto intro!: steady_intros)

text \<open>A call is a step that looks at the client, and so is what goes on with its result.\<close>

lemma steady_run:
  assumes "\<And>c r c'. m c = Some (r, c') \<Longrightarrow> stays c c'"
  shows "steady m"
  using assms by (simp add: steady_def)

lemmas base_calls [steady_intros] =
  framed_GetRegion [THEN framed_steady] framed_send [THEN framed_steady]
  framed_ListObjectsV1 [THEN framed_steady] framed_ListObjectsV2 [THEN framed_steady]
  framed_ListObjectVersions [THEN framed_steady] framed_StatObject [THEN framed_steady]
  framed_PutObject [THEN framed_steady] framed_UploadPart [THEN framed_steady]
  framed_UploadPartCopy [THEN framed_steady] framed_AbortMultipartUpload [THEN framed_steady]
  framed_CompleteMultipartUpload [THEN framed_steady] framed_CreateMultipartUpload [THEN framed_steady]
  framed_RemoveObjects [THEN framed_steady]

lemma steady_in_region [steady_intros]: "(\<And>x. steady (k x)) \<Longrightarrow> steady (in_region (logged e) a k)"
  unfolding in_region_def by (intro steady_intros)

subsection \<open>Listings and removals\<close>

lemma steady_fetch_page [steady_intros]: "steady (fetch_page (logged e) a)"
  unfolding fetch_page_def Let_def by (intro steady_intros)

lemma steady_StartPrefetch [steady_intros]: "steady (StartPrefetch (logged e) r)"
  unfolding StartPrefetch_def by (intro steady_intros)

lemma steady_list_Populate [steady_intros]: "steady (list_Populate (logged e) r)"
  unfolding list_Populate_def Let_def by (auto intro!: steady_intros split: option.splits bool.splits)

lemma steady_listing [steady_intros]:
  "steady (ListObjects (logged e) a)" "steady (list_bool (logged e) r)" "steady (list_incr (logged e) r)"
  unfolding ListObjects_def ListObjectsResult_new_def list_bool_def list_incr_def Let_def
  by (auto intro!: steady_intros split: option.splits bool.splits simp del: ret_Some)

lemma remove_Populate_stays:
  "remove_Populate (logged e) enc r c = Some (r', c') \<Longrightarrow> stays c c'"
proof (induction "logged e" enc r c rule: remove_Populate.induct)
  case (1 enc r c)
  show ?case
  proof (cases "rm_done r \<or> ro_errors (rm_resp r) \<noteq> [] \<or> rm_objects r = []")
    case True
    with 1(2) show ?thesis by (subst (asm) remove_Populate.simps) (auto simp: Let_def split: if_splits)
  next
    case False
    with 1(2) obtain res c1 where sent: "RemoveObjects (logged e) enc (batch_args (rm_args r) (take 1000 (rm_objects r))) c
        = Some (res, c1)"
      by (subst (asm) remove_Populate.simps) (auto simp: Let_def split: if_splits option.splits)
    have "stays c c1" using sent by (rule steadyD [rotated]) (intro steady_intros)
    also have "stays c1 c'"
      using 1(1) [OF _ refl _ sent refl] 1(2) remove_Populate_step [OF _ _ _ sent] False by simp
    finally show ?thesis .
  qed
qed

lemma removal_stays:
  "Client_RemoveObjects (logged e) enc a c = Some (r, c') \<Longrightarrow> stays c c'"
  "remove_incr (logged e) enc r c = Some (r', c') \<Longrightarrow> stays c c'"
  by (auto simp: Client_RemoveObjects_def remove_incr_def Let_def intro: remove_Populate_stays split: if_splits)

subsection \<open>Uploads\<close>

lemma steady_upload_steps [steady_intros]:
  "steady (start_upload (logged e) a hs i)" "steady (complete_upload (logged e) a i parts)"
  "steady (abort_upload (logged e) b i err)"
  unfolding start_upload_def complete_upload_def abort_upload_def by (intro steady_intros)+

lemma keep_id_stays: "keep_id i m c = Some (r, j, c') \<Longrightarrow> steady m \<Longrightarrow> stays c c'"
  by (auto simp: keep_id_def dest: steadyD)

lemma put_parts_stays:
  assumes "put_parts (logged e) a hs r parts i c = Some (res, i', c')"
  shows "stays c c'"
proof -
  have "e' = logged e \<longrightarrow> stays c (snd (snd y))" if "put_parts e' a hs r parts i c = Some y" for e' y
    using that
  proof (rule put_parts.raw_induct [rotated], intro impI, hypsubst)
    fix rec a hs r parts i c y
    assume IH: "\<And>e' a hs r parts i c y. rec e' a hs r parts i c = Some y \<Longrightarrow> e' = logged e \<longrightarrow> stays c (snd (snd y))"
      and run: "(if pr_stop r then keep_id i (complete_upload (logged e) a i parts) c
       else case next_part (a_object_size a) r of
        None \<Rightarrow> None
      | Some (err, buf, r) \<Rightarrow>
          if is_err err then Some (Inl err, i, c)
          else if pr_part_count r = Some 1 then
            keep_id i (ObjectApi.PutObject (logged e) (single_put_args a hs (take (unat (pr_part_size r)) buf))) c
          else case start_upload (logged e) a hs i c of
            None \<Rightarrow> None
          | Some (Inl err, c) \<Rightarrow> Some (Inl err, i, c)
          | Some (Inr i, c) \<Rightarrow>
              (case UploadPart (logged e) (part_args a hs i (pr_part_number r) (take (unat (pr_part_size r)) buf)) c of
                 None \<Rightarrow> None
               | Some (Inl err, c) \<Rightarrow> Some (Inl err, i, c)
               | Some (Inr resp, c) \<Rightarrow>
                   rec (logged e) a hs r (parts @ [uploaded_part (pr_part_number r) resp]) i c)) = Some y"
    note step = keep_id_stays [OF _ steady_upload_steps(2)] keep_id_stays [OF _ framed_PutObject [THEN framed_steady]]
      steadyD [OF steady_upload_steps(1)] steadyD [OF framed_UploadPart [THEN framed_steady]] IH [THEN mp]
    from run show "stays c (snd (snd y))"
      by (cases y, auto split: if_splits option.splits prod.splits sum.splits dest!: step) (simp_all add: stays_def)
  qed
  from this [OF assms] show ?thesis by simp
qed

lemma steady_put_sequential [steady_intros]: "steady (put_sequential alloc (logged e) a)"
proof (rule steady_run)
  fix c r c'
  assume "put_sequential alloc (logged e) a c = Some (r, c')"
  then show "stays c c'"
    by (auto simp: put_sequential_def fail_def ret_def split: if_splits option.splits sum.splits
        dest!: put_parts_stays steadyD [OF steady_upload_steps(3)] intro: stays_trans)
qed

lemma run_worker_stays: "run_worker (logged e) i st c = Some (st', c') \<Longrightarrow> stays c c'"
  by (auto simp: run_worker_def Let_def split: if_splits dest: steadyD [rotated] intro: steady_intros)

lemma par_round_stays: "par_round m (logged e) a hs t st c = Some (st', c') \<Longrightarrow> stays c c'"
  by (auto simp: par_round_def Let_def split: if_splits option.splits prod.splits sum.splits
      dest: steadyD [OF steady_upload_steps(1)] steadyD [OF framed_PutObject [THEN framed_steady]])

lemma par_drain_stays: "par_drain (logged e) a st c = Some (st', c') \<Longrightarrow> stays c c'"
  by (auto simp: par_drain_def par_finish_def split: if_splits option.splits
      intro: steadyD [OF steady_upload_steps(3)] steadyD [OF steady_or_else [OF steady_upload_steps(2,3)]])

lemma par_step_stays: "par_step m (logged e) a hs ch st c = Some (st', c') \<Longrightarrow> stays c c'"
  by (auto simp: par_step_def split: choice.splits phase.splits
      dest: run_worker_stays par_round_stays par_drain_stays)

lemma par_run_stays: "par_run m (logged e) a hs chs st c = Some (st', c') \<Longrightarrow> stays c c'"
proof (induction chs arbitrary: st c)
  case (Cons ch chs)
  then show ?case by (auto split: option.splits dest!: par_step_stays intro: stays_trans)
qed simp

lemma steady_put_parallel [steady_intros]: "steady (put_parallel alloc sched (logged e) a)"
  by (rule steady_run) (auto simp: put_parallel_def Let_def fail_def split: if_splits option.splits phase.splits
      dest: par_run_stays)

lemma steady_uploads [steady_intros]:
  "steady (Client_PutObject alloc sched (logged e) a)" "steady (UploadObject alloc fs open_file (logged e) b)"
  unfolding UploadObject_def Client_PutObject_def
  by (auto intro!: steady_intros split: prod.splits sum.splits)

subsection \<open>Copies and downloads\<close>

lemma steady_count_sources [steady_intros]: "steady (count_sources (logged e) n i ss pc os)"
  by (induction ss arbitrary: i pc os) (auto intro!: steady_intros split: prod.splits)

lemma steady_copy_part [steady_intros]: "steady (copy_part (logged e) a i n hs parts)"
  unfolding copy_part_def by (intro steady_intros)

lemma steady_copy_all [steady_intros]: "steady (copy_all (logged e) a i hs spans n parts)"
  by (induction spans arbitrary: n parts) (auto intro!: steady_intros simp del: ret_Some)

lemma steady_copy_source_parts [steady_intros]: "steady (copy_source_parts (logged e) a i s n parts)"
  unfolding copy_source_parts_def copy_loop_spans Let_def
  by (auto intro!: steady_intros split: option.splits simp del: ret_Some)

lemma steady_copy_sources [steady_intros]: "steady (copy_sources (logged e) a i ss n parts)"
  by (induction ss arbitrary: n parts) (auto intro!: steady_intros split: prod.splits simp del: ret_Some)

lemma compose_parts_stays:
  assumes "\<And>b. steady (copy b)" "compose_parts (logged e) copy a c = Some (res, i, c')"
  shows "stays c c'"
proof -
  have count: "steady (CalculatePartCount (logged e) ss)" for ss
    unfolding CalculatePartCount_def by (intro steady_intros)
  have rest: "steady (and_then (copy_sources (logged e) a i ss 0 []) (\<lambda>parts.
      and_then (CompleteMultipartUpload (logged e) (complete_args a i parts)) (\<lambda>resp. ret (put_of_complete resp))))" for i ss
    by (intro steady_intros)
  note step = steadyD [OF count] keep_id_stays [OF _ assms(1)] keep_id_stays [OF _ rest]
    steadyD [OF framed_CreateMultipartUpload [THEN framed_steady]]
  from assms(2) show ?thesis
    by (auto simp: compose_parts_def split: option.splits sum.splits list.splits if_splits
        simp del: copy_sources.simps dest!: step) (simp_all add: stays_def)
qed

lemma steady_compose_with: "(\<And>b. steady (copy b)) \<Longrightarrow> steady (compose_with (logged e) copy a)"
  unfolding compose_with_def
proof (intro steady_intros steady_run)
  fix c r c'
  assume copy: "\<And>b. steady (copy b)"
    and "(case compose_parts (logged e) copy a c of None \<Rightarrow> None
       | Some (Inl err, i, c) \<Rightarrow> abort_upload (logged e) a i err c | Some (Inr resp, i, c) \<Rightarrow> ret resp c) = Some (r, c')"
  then show "stays c c'"
    by (auto split: option.splits sum.splits dest!: compose_parts_stays [OF copy] steadyD [OF steady_upload_steps(3)]
        intro: stays_trans)
qed

lemma steady_copy_with: "(\<And>b. steady (compose b)) \<Longrightarrow> steady (copy_with (logged e) compose a)"
  unfolding copy_with_def by (auto intro!: steady_intros split: option.splits)

lemma steady_CopyObject: "steady (CopyObject n (logged e) a)"
  by (induction n arbitrary: a) (auto intro: steady_intros steady_copy_with steady_compose_with)

lemma steady_copies [steady_intros]: "steady (CopyObject n (logged e) a)" "steady (ComposeObject n (logged e) b)"
  unfolding ComposeObject_def by (rule steady_CopyObject steady_compose_with)+

lemma steady_get_stat [steady_intros]:
  "steady (check err (check_ssec s (StatObject (logged e) a)))"
  by (intro steady_intros)

lemma DownloadObject_stays:
  assumes "DownloadObject fs d (logged e) a files c = Some (r, files', c')"
  shows "stays c c'"
  using assms
  by (auto simp: DownloadObject_def Let_def split: option.splits sum.splits if_splits prod.splits
      dest!: steadyD [OF steady_get_stat] stream_call_frame [OF _ framed_GetRegion] dest: op_frame_stays intro: stays_trans)

lemma Client_GetObject_stays:
  "Client_GetObject (logged e) a s c = Some (r, s', c') \<Longrightarrow> stays c c'"
  by (auto simp: Client_GetObject_def Let_def split: if_splits dest!: GetObject_frame intro: op_frame_stays)

subsection \<open>Buffers\<close>

text \<open>A transfer over RDMA changes nothing of its client but the world.\<close>

lemma rdma_exchange_stays: "rdma_exchange e req c = Some (h, c') \<Longrightarrow> stays c c'"
  by (auto simp: rdma_exchange_def split: option.splits prod.splits)

lemma rdma_transfer_stays:
  "rdmaPut e token sz x c = Some (n, y, c') \<Longrightarrow> stays c c'"
  "rdmaGet e token sz off x c = Some (n, y, c') \<Longrightarrow> stays c c'"
  by (auto simp: rdmaPut_def rdmaGet_def case_prod_beta dest!: rdma_exchange_stays split: option.splits)

lemma rdma_attempts_stays:
  assumes "\<And>token x c n y c'. t token x c = Some (n, y, c') \<Longrightarrow> stays c c'"
  shows "rdma_attempts k L buf sz t res x c = Some (n, y, c') \<Longrightarrow> stays c c'"
proof (induction k arbitrary: res x c)
  case (Suc k)
  from Suc.prems obtain w token where token: "GetToken L buf sz (cl_world c) = (token, w)" by fastforce
  show ?case
  proof (cases token)
    case (Some tok)
    with Suc.prems token obtain res1 x1 c1 where t: "t tok x (c\<lparr>cl_world := w\<rparr>) = Some (res1, x1, c1)"
      by (auto split: option.splits prod.splits)
    have "stays c (c\<lparr>cl_world := w\<rparr>)" by simp
    also have "stays \<dots> c1" by (rule assms [OF t])
    also have "stays c1 c'"
    proof (cases "settled res1")
      case True
      with Suc.prems token Some t show ?thesis by auto
    next
      case False
      with Suc.prems token Some t have "rdma_attempts k L buf sz t res1 x1
          (in_world (rl_free_token L tok) (in_world (ReportTokenFailure L tok) c1)) = Some (n, y, c')" by simp
      from Suc.IH [OF this] show ?thesis by (simp add: stays_def in_world_def client_wf_def)
    qed
    finally show ?thesis .
  qed (use Suc.prems token in auto)
qed simp

lemma registered_stays:
  assumes "\<And>x c n y c'. t x c = Some (n, y, c') \<Longrightarrow> stays c c'" "registered L buf sz t x c = Some (n, y, c')"
  shows "stays c c'"
proof (cases "kRDMAMaxMemoryRegSize < sz")
  case False
  obtain b w where reg: "Register L buf sz (cl_world c) = (b, w)" by fastforce
  show ?thesis
  proof (cases b)
    case True
    with False reg assms(2) obtain c1 where "t x (c\<lparr>cl_world := w\<rparr>) = Some (n, y, c1)"
      "c' = in_world (\<lambda>w. snd (Deregister L buf w)) c1"
      by (auto simp: registered_def)
    from this(1) [THEN assms(1)] this(2) show ?thesis by (simp add: stays_def client_wf_def in_world_def)
  qed (use False reg assms(2) in \<open>auto simp: registered_def\<close>)
qed (use assms(2) in \<open>auto simp: registered_def\<close>)

lemma retry_stays:
  "rdmaPutWithRetry L e buf sz x c = Some (n, y, c') \<Longrightarrow> stays c c'"
  "rdmaGetWithRetry L e buf sz off x c = Some (n, y, c') \<Longrightarrow> stays c c'"
  unfolding rdmaPutWithRetry_def rdmaGetWithRetry_def
  by (erule rdma_attempts_stays [rotated], erule rdma_transfer_stays)+

lemma retried_stays:
  "registered L buf sz (rdmaPutWithRetry L e buf sz) x c = Some (n, y, c') \<Longrightarrow> stays c c'"
  "registered L buf sz (rdmaGetWithRetry L e buf sz off) x c = Some (n, y, c') \<Longrightarrow> stays c c'"
  by (erule registered_stays [rotated], erule retry_stays)+

lemma steady_on_device [steady_intros]: "steady (on_device cu buf err copy)"
  by (rule steady_run) (auto simp: on_device_def split: prod.splits)

lemma steady_stage_out [steady_intros]: "steady (stage_out L cu mem buf sz)"
  unfolding stage_out_def by (auto intro!: steady_intros simp del: ret_Some)

lemma steady_put_buffer [steady_intros]: "steady (put_buffer L cu mem (logged e) buf sz a)"
  unfolding put_buffer_def
proof (intro steady_intros steady_run)
  fix region c r c'
  have "steady (and_then (stage_out L cu mem buf sz)
      (\<lambda>data. ObjectApi.PutObject (logged e) (buffer_api_args a region data)))"
    by (intro steady_intros)
  moreover assume "(case registered L buf sz (rdmaPutWithRetry L (logged e) buf sz) (object_ctx a region) c of
       None \<Rightarrow> None
     | Some (n, x, c) \<Rightarrow>
         if 0 < n then Some (Inr ((put_object_response_of Response_new)\<lparr>po_etag := x_etag x\<rparr>), c)
         else and_then (stage_out L cu mem buf sz)
           (\<lambda>data. ObjectApi.PutObject (logged e) (buffer_api_args a region data)) c) = Some (r, c')"
  ultimately show "stays c c'"
    by (auto split: option.splits if_splits dest!: retried_stays dest: steadyD intro: stays_trans)
qed

lemma steady_http_into_buffer [steady_intros]: "steady (http_into_buffer L cu mem (logged e) buf sz a)"
  by (rule steady_run)
    (auto simp: http_into_buffer_def fail_def Let_def split: if_splits option.splits sum.splits
      dest!: GetObject_frame op_frame_stays steadyD [OF steady_on_device] intro: stays_trans stays_world)

lemma steady_get_buffer [steady_intros]: "steady (get_buffer L cu mem (logged e) buf sz off a)"
  unfolding get_buffer_def
proof (intro steady_intros steady_run)
  fix region c r c'
  assume "(case registered L buf sz (rdmaGetWithRetry L (logged e) buf sz off) (object_ctx a region) c of
       None \<Rightarrow> None
     | Some (n, x, c) \<Rightarrow>
         if 0 < n then Some (Inr Response_new, c)
         else http_into_buffer L cu mem (logged e) buf sz (fallback_get_args a region off sz) c) = Some (r, c')"
  then show "stays c c'"
    by (auto split: option.splits if_splits
        dest!: retried_stays steadyD [OF steady_http_into_buffer] intro: stays_trans)
qed

lemma steady_buffers [steady_intros]:
  "steady (Client_PutObject_buffer L cu mem (logged e) buf a)"
  "steady (Client_GetObject_buffer L cu mem (logged e) buf b)"
  unfolding Client_PutObject_buffer_def Client_GetObject_buffer_def
  by (auto intro!: steady_intros split: prod.splits option.splits)

lemma steady_try_rdma [steady_intros]: "steady http \<Longrightarrow> steady (try_rdma L (logged e) buf sz x http)"
  by (rule steady_run)
    (auto simp: try_rdma_def split: option.splits if_splits dest!: retry_stays(1) steadyD intro: stays_trans)

lemma steady_base_rdma [steady_intros]:
  "steady (PutObject_rdma L (logged e) buf sz a)" "steady (UploadPart_rdma L (logged e) buf sz ck b)"
  unfolding PutObject_rdma_def UploadPart_rdma_def Let_def by (intro steady_intros)+

subsection \<open>The C API\<close>

lemma c_result_after [simp]:
  "c_after (c_put_result sz msg b b' (res, c)) = Some c" "c_after (c_get_result n msg (r, c)) = Some c"
  "c_after (c_refused msg (Some h)) = Some (h_client h)"
  by (simp_all add: c_put_result_def c_get_result_def c_refused_def split: sum.split)

lemma miniocpp_put_object_stays:
  assumes "miniocpp_put_object L cu mem (logged e) (Client_PutObject alloc sched (logged e)) env (Some h) bucket object
      buf sz read_cb want_etag want_checksum msg = Some res" "c_after res = Some c'"
  shows "stays (h_client h) c'"
  using assms
  by (auto simp: miniocpp_put_object_def Let_def dest!: steadyD [OF steady_buffers(1)] steadyD [OF steady_uploads(1)]
      split: option.splits if_splits)

lemma miniocpp_get_object_stays:
  assumes "miniocpp_get_object L cu mem (logged e) (Some h) bucket object buf sz write_cb s msg = Some (res, s')"
    "c_after res = Some c'"
  shows "stays (h_client h) c'"
  using assms
  by (auto simp: miniocpp_get_object_def Let_def dest!: steadyD [OF steady_buffers(2)] Client_GetObject_stays
      split: option.splits if_splits)

subsection \<open>Runs of a program\<close>

text \<open>A client of the C API is a step of its handle.\<close>

inductive program_step :: "string \<Rightarrow> 'w client_env \<Rightarrow> 's select_env \<Rightarrow> 's listener \<Rightarrow> (string \<Rightarrow> string) \<Rightarrow> (json \<Rightarrow> string)
    \<Rightarrow> 'w client \<Rightarrow> 'w client \<Rightarrow> bool"
  for agent e se l enc dump where
  program_api: "api_step e se l enc dump c c' \<Longrightarrow> program_step agent e se l enc dump c c'"
| program_SetAppInfo:
    "SetAppInfo agent name version c = (err, c')
      \<Longrightarrow> program_step agent e se l enc dump c c'"
| program_ListObjects:
    "ListObjects e a c = Some (r, c')
      \<Longrightarrow> program_step agent e se l enc dump c c'"
| program_list_bool:
    "list_bool e lr c = Some (r, c')
      \<Longrightarrow> program_step agent e se l enc dump c c'"
| program_list_incr:
    "list_incr e lr c = Some (r, c')
      \<Longrightarrow> program_step agent e se l enc dump c c'"
| program_remove_all:
    "Client_RemoveObjects e enc a c = Some (r, c')
      \<Longrightarrow> program_step agent e se l enc dump c c'"
| program_remove_incr:
    "remove_incr e enc rr c = Some (r, c')
      \<Longrightarrow> program_step agent e se l enc dump c c'"
| program_Client_PutObject:
    "Client_PutObject alloc sched e a c = Some (r, c')
      \<Longrightarrow> program_step agent e se l enc dump c c'"
| program_UploadObject:
    "UploadObject alloc fs open_file e a c = Some (r, c')
      \<Longrightarrow> program_step agent e se l enc dump c c'"
| program_CopyObject:
    "CopyObject n e a c = Some (r, c')
      \<Longrightarrow> program_step agent e se l enc dump c c'"
| program_ComposeObject:
    "ComposeObject n e a c = Some (r, c')
      \<Longrightarrow> program_step agent e se l enc dump c c'"
| program_DownloadObject:
    "DownloadObject fs d e a files c = Some (r, files', c')
      \<Longrightarrow> program_step agent e se l enc dump c c'"
| program_Client_GetObject:
    "Client_GetObject e (a :: 's get_object_args) s c = Some (r, s', c')
      \<Longrightarrow> program_step agent e se l enc dump c c'"
| program_put_buffer:
    "Client_PutObject_buffer L cu mem e buf a c = Some (r, c')
      \<Longrightarrow> program_step agent e se l enc dump c c'"
| program_get_buffer:
    "Client_GetObject_buffer L cu mem e buf (a :: 's get_object_args) c = Some (r, c')
      \<Longrightarrow> program_step agent e se l enc dump c c'"
| program_PutObject_rdma:
    "PutObject_rdma L e buf sz a c = Some (r, c')
      \<Longrightarrow> program_step agent e se l enc dump c c'"
| program_UploadPart_rdma:
    "UploadPart_rdma L e buf sz ck a c = Some (r, c')
      \<Longrightarrow> program_step agent e se l enc dump c c'"
| program_c_put:
    "miniocpp_put_object L cu mem e (Client_PutObject alloc sched e) env (Some h) bucket object buf sz read_cb
      want_etag want_checksum msg = Some res \<Longrightarrow> h_client h = c \<Longrightarrow> c_after res = Some c'
      \<Longrightarrow> program_step agent e se l enc dump c c'"
| program_c_get:
    "miniocpp_get_object L cu mem e (Some h) bucket object buf sz (write_cb :: ('s \<Rightarrow> string \<Rightarrow> int \<times> 's) option) s msg
      = Some (res, s') \<Longrightarrow> h_client h = c \<Longrightarrow> c_after res = Some c'
      \<Longrightarrow> program_step agent e se l enc dump c c'"

text \<open>Every step leaves the client as \<open>stays\<close> says, but \<open>SetAppInfo\<close>, which appends to the default
  user agent.\<close>

definition app_agent :: "string \<Rightarrow> string \<Rightarrow> bool" where
  "app_agent agent ua \<longleftrightarrow> (\<exists>name version. name \<noteq> [] \<and> version \<noteq> [] \<and> ua = agent @ '' '' @ name @ ''/'' @ version)"

lemma program_step_stays:
  "program_step agent (logged e) se l enc dump c c' \<Longrightarrow>
     stays c c' \<or> (\<exists>ua. app_agent agent ua \<and> c' = c\<lparr>cl_user_agent := ua\<rparr>)"
proof (induction rule: program_step.induct)
  case program_api
  then show ?case by (intro disjI1) (rule api_step_frame [THEN op_frame_stays])
next
  case program_SetAppInfo
  then show ?case by (auto simp: SetAppInfo_def app_agent_def split: if_splits)
next
  case program_c_put
  then show ?case by (auto dest: miniocpp_put_object_stays)
next
  case program_c_get
  then show ?case by (auto dest: miniocpp_get_object_stays)
qed (rule disjI1, blast dest: removal_stays DownloadObject_stays Client_GetObject_stays intro: steadyD steady_intros)+

definition program_run :: "string \<Rightarrow> 'w client_env \<Rightarrow> 's select_env \<Rightarrow> 's listener \<Rightarrow> (string \<Rightarrow> string) \<Rightarrow> (json \<Rightarrow> string)
    \<Rightarrow> 'w client \<Rightarrow> 'w client \<Rightarrow> bool" where
  "program_run agent e se l enc dump = (program_step agent e se l enc dump)\<^sup>*\<^sup>*"

lemma api_run_program: "api_run e se l enc dump c c' \<Longrightarrow> program_run agent e se l enc dump c c'"
  unfolding api_run_def program_run_def by (erule rtranclp_mono [THEN predicate2D, rotated]) (blast intro: program_api)

lemma program_run_stays:
  assumes "program_run agent (logged e) se l enc dump c c'" "client_wf c" "cl_user_agent c = agent"
  shows "client_wf c' \<and> cl_base_url c' = cl_base_url c \<and> (cl_user_agent c' = agent \<or> app_agent agent (cl_user_agent c'))"
  using assms(1) unfolding program_run_def
proof (induction rule: rtranclp_induct)
  case (step c1 c2)
  from program_step_stays [OF step.hyps(2)] step.IH show ?case
    by (auto simp: stays_def client_wf_def)
qed (use assms(2,3) in simp)

end
