(* ===== verification/Spec2Isabelle.thy ===== *)
theory Spec2Isabelle
  imports Prelude Regex Utils BucketName Multimap Crc64 PartInfo UtcTime Http Signer Credentials
    BaseUrl Documents Types Responses Args PostPolicy Providers Select Notification BaseClient
    BucketApi ObjectApi Session Settings Listing Uploads ParallelUpload UploadHistory Transfers Rdma RdmaClient CApi Program
begin

text \<open>
  A model of the MinIO C++ client (\<open>minio-cpp\<close>), a client library for S3 object storage, with the
  theorems that make it correct.

  The program. A \<open>Client\<close> (\<open>src/client.cc\<close>) offers uploads, copies, downloads, listings and removals; it
  is built on \<open>BaseClient\<close> (\<open>src/baseclient.cc\<close>), which has one method per S3 request. A method validates
  its arguments (\<open>src/args.cc\<close>), finds the region of the bucket in its region map or asks for it, builds a
  \<open>Request\<close> (\<open>src/request.cc\<close>), has it signed (\<open>src/signer.cc\<close>) with the credentials of a provider
  (\<open>src/providers.cc\<close>), sends it with \<open>httplib\<close> (\<open>src/http.cc\<close>), and reads the answer (\<open>src/response.cc\<close>,
  \<open>src/types.cc\<close>, \<open>src/select.cc\<close>) or turns it into an error, after one retry in one case.

  The theories, in the order of their imports.
  \<^item> Prelude: errors and results (an \<open>error\<close> is its text, empty for success; \<open>Result<T>\<close> is a sum), strings
    and numbers as the standard library has them, ordered maps as sorted lists (\<open>std::map\<close>), the locales
    \<open>ordered_map\<close> and \<open>codec\<close>. Documents: XML and JSON trees, their printers and queries, and a reader of
    plain XML. Regex: \<open>std::regex\<close> as far as the code uses it, with its backtracking.
  \<^item> Utils, BucketName, Multimap, Crc64, PartInfo, UtcTime: \<open>src/utils.cc\<close>. A \<open>Multimap\<close> is both of its
    internal maps; a time is seconds and microseconds; \<open>CalcPartInfo\<close> works on 64-bit words and rounds as
    \<open>double\<close> does.
  \<^item> Http: URLs, and what \<open>Request::execute\<close> hands to \<open>httplib\<close> (\<open>http_call\<close>) and takes from it
    (\<open>http_exchange\<close>: status, headers, the chunks of the body, a failure). Signer, Credentials, BaseUrl:
    Signature Version 4 for headers, URLs and forms; validity of credentials; the analysis of the host name,
    the URL and the headers of a request.
  \<^item> Types, Responses, Args, PostPolicy: enumerations and configurations with their XML, every \<open>ParseXML\<close>,
    every structure of arguments with its \<open>Validate\<close>, form uploads.
  \<^item> Providers: static, environment, file, STS, EC2 and chained credentials.
  \<^item> Select, Notification: the two parsers of streamed bodies, with the state between chunks.
  \<^item> BaseClient, BucketApi, ObjectApi: \<open>execute\<close>, \<open>Execute\<close> and \<open>GetRegion\<close>, then one definition per method.
    A call is an \<open>op\<close>: a function from the \<open>client\<close> (base URL, user agent, region map, world) to an error
    or a value and the client after it. Session: any sequence of such calls on one client.
  \<^item> Settings: what is read back from the documents the client sends.
  \<^item> Listing: \<open>ListObjectsResult\<close> and \<open>RemoveObjectsResult\<close>, iterators over the answers of the server.
    Uploads: the part reader and the sequential \<open>PutObject\<close>. ParallelUpload: the pool of buffers, the main
    loop and its worker threads as a machine whose steps are chosen by a schedule, the public \<open>PutObject\<close>,
    \<open>UploadObject\<close>. UploadHistory: what the runs of this machine have done on the server. Transfers: \<open>ComposeObject\<close>, \<open>CopyObject\<close>, \<open>DownloadObject\<close>, \<open>GetObject\<close>.
  \<^item> Rdma, RdmaClient, CApi: what is built with \<open>MINIO_CPP_RDMA\<close>. Rdma has the client of the library
    (\<open>rdma_client.h\<close>) and one transfer with its attempts (\<open>rdma.h\<close>), RdmaClient the calls with a buffer of the
    caller and the borrowed CUDA contexts (\<open>src/client.cc\<close>, \<open>src/baseclient.cc\<close>), CApi \<open>src/c_api.cc\<close>.
  \<^item> Program: any sequence of all of these calls on one client.

  Parameters. Code that is not in the repository is an argument: the hashes, base64 and the time zone
  (\<open>crypto\<close>), the HTTP library, the clock, the provider and the XML reader of a client (\<open>client_env\<close>), the
  clock, JSON, tokens and resolver of a provider (\<open>penv\<close>), the process environment and its files
  (\<open>os_env\<close>, \<open>file_system\<close>), CRC-32 and the caller's function of a Select call (\<open>select_env\<close>), the allocator
  of buffers, what a file system does with the file of a download (\<open>disk\<close>), the order in which threads run, \<open>libs3rdma\<close> (\<open>rdma_lib\<close>), the CUDA driver (\<open>cuda_lib\<close>) and the
  memory that a buffer is in (\<open>host_memory\<close>). What a theorem needs of one is its hypothesis: a reader gives
  back plain documents (\<open>reads_plain\<close>), failures of the HTTP library have texts (\<open>plain_failures\<close>,
  \<open>named_failures\<close>). Witnesses use concrete ones, such as a server that follows a script.

  \<open>None\<close> as the result of an operation stands for what the code does not return from: \<open>std::terminate\<close>, an
  exception, reading outside a container, or a loop without end. The theorems about operations that
  return say \<open>Some\<close>.

  Loops and fuel. Loops over data are structural recursion or carry a measure. \<open>put_parts\<close> may run
  for ever on a stream of unknown size and is a partial function; for a stream that fits its announcement it
  is shown to return what the specification returns. A listing may go on for ever with its server: the
  loop of a caller takes fuel, and more than the number of items is enough. \<open>CopyObject\<close> and \<open>ComposeObject\<close>
  call each other; fuel counts the nesting, and more fuel never changes a result (\<open>CopyObject_mono\<close>). For a
  parallel upload \<open>fair_rounds n\<close> gives every thread a turn in each of \<open>n\<close> rounds; the number of
  pieces and of buffers and two more are enough.

  What the groups of lemmas show.
  \<^item> Functions are equal to readable specifications: bucket names, host names, CRC-64, the canonical query,
    the part plan, \<open>Multimap\<close> as a case-insensitive map.
  \<^item> Round trips: URLs, paths, dates, tags and settings.
  \<^item> Signatures verify at a server that recomputes them from what it receives; where the code signs what such a
    server does not compute (header names out of order, which every session token causes), it refuses them.
  \<^item> Streams: however the body is cut, the Select handler and the notification parser deliver the same;
    the exception, messages that stall the handler, is part of the specification (\<open>message_outcome\<close>).
  \<^item> The client: its invariant over any program (\<open>program_run\<close>), at most one retry, the region map as a cache.
  \<^item> Uploads: reading a stream gives the pieces of its object (\<open>delivers\<close>), so \<open>PutObject\<close> refines the
    sending of pieces; the machine of a parallel upload keeps \<open>par_inv\<close> in every schedule: no buffer is in use
    twice, no part is lost; and it returns. Success means that every piece was sent and the upload completed
    with the answers (\<open>completed_with\<close>); a stream that is too short leaves nothing stored (\<open>uncommitted\<close>).
  \<^item> Listings, removals, copies and downloads: every item and batch, in order; ranges that tile the source;
    a file that has what the disk keeps of the body of one answer.
  \<^item> Buffers: every trace of a call is a run of the protocol \<open>rail_step\<close>; requests with a token verify; contexts
    are given back; what a download leaves in a buffer, and what an upload forgets.
  \<^item> Behaviour that is surprising is stated as it is: limits that wrap at 32 bits, errors that end a listing
    silently, ranges that are never copied, retention modes that are never accepted, and others.

  Locales. \<open>ordered_map\<close>, \<open>codec\<close>, \<open>header_map\<close>, \<open>stream_consumer\<close>, \<open>credential_source\<close>, \<open>api_call\<close> and
  \<open>world_frame\<close> are the contracts between the components; each is interpreted where the component that provides
  it is modelled, \<open>api_call\<close> for the methods of the base client, \<open>world_frame\<close> for what ordinary requests add to
  a trace.

  Not modelled: the asynchronous overloads (\<open>std::async\<close> around a call), the extra headers and the registration
  of part buffers when a stream is uploaded with \<open>MINIO_CPP_RDMA\<close> (streams are modelled as built without it; the
  C API takes the upload of a stream as a parameter), the bytes that an RDMA transfer moves, progress functions,
  debug output, timeouts and TLS settings, the mutex of the region map (a call is one step), the
  vendored \<open>tl::expected\<close> and the macros of the configuration. A thread of the parallel upload runs its
  \<open>UploadPart\<close> in one step; the prefetch of a listing runs when it is started.
\<close>

section \<open>Concrete values for the witnesses\<close>

text \<open>Stand-ins for the cryptographic library; every hash is non-empty.\<close>

definition demo_crypto :: crypto where
  "demo_crypto = \<lparr>sha256 = (\<lambda>s. ''h'' @ s), hmac = (\<lambda>k d. k @ d), md5_base64 = (\<lambda>s. ''m''),
     base64 = (\<lambda>s. ''b'' @ s),
     timezone = 0\<rparr>"

definition demo_now :: utc_time where
  "demo_now = \<lparr>secs = 1700000000, usecs = 2500\<rparr>"

definition demo_creds :: credentials where
  "demo_creds = creds_empty\<lparr>access_key := ''AK'', secret_key := ''SK'', session_token := ''TOK''\<rparr>"

definition demo_url :: base_url where
  "demo_url = base_url_empty\<lparr>b_https := False, b_host := ''localhost'', b_port := 9000\<rparr>"

definition demo_request :: "unit s3_request" where
  "demo_request = \<lparr>q_method = kPut, q_region = ''us-east-1'', q_user_agent = ''MinIO'',
     q_headers = Add ''x-amz-meta-a'' ''1'' mm_empty, q_query_params = mm_empty,
     q_bucket_name = ''my-bucket'', q_object_name = ''a b/c'', q_body = ''hello'', q_datafunc = None,
     q_sha256 = [], q_date = utc_default\<rparr>"

lemma demo_year: "year_ok 0 demo_now"
  by code_simp

lemma demo_crypto_simps [simp]: "timezone demo_crypto = 0" "sha256 demo_crypto s \<noteq> []"
  by (simp_all add: demo_crypto_def)

lemma mm_wf_demo: "mm_wf (Add k v mm_empty)"
  by (simp add: wf_intros)

lemma demo_request_ok: "request_ok demo_request"
proof -
  have low: "ToLower ''x-amz-meta-a'' = ''x-amz-meta-a''" by code_simp
  have "signable mm_empty"
    by (simp add: signable_def one_spelling_def) (simp add: mm_empty_def)
  then have "signable (Add ''x-amz-meta-a'' ''1'' mm_empty)"
    by (intro signable_Add) (simp_all add: header_word_def low)
  then show ?thesis
    by (simp add: request_ok_def demo_request_def own_headers_def mm_vals_Add low)
qed

lemma demo_request_sent: "\<exists>r q. ToHttpRequest demo_crypto demo_now demo_url (Some creds) demo_request = Some (r, q)"
  by (simp add: ToHttpRequest_def BuildUrl_def demo_url_def base_url_empty_def demo_request_def Let_def
      enforce_path_def)

section \<open>The properties\<close>

text \<open>C1: the HTTP request that \<open>ToHttpRequest\<close> builds, at a server which parses the \<open>Authorization\<close> header,
  sorts the names it lists, rebuilds the canonical request from the request line and these headers, and
  recomputes the signature with the secret key of the access key it finds. With credentials without a session
  token the server accepts the request, when the header names are in the same order as they are spelled and
  in lower case (the builder's own are). With a session token, whatever the headers, it refuses it: the
  client lists the names unsorted, and hashes that tell texts apart tell the two canonical requests
  apart. The caller's own headers must not clash with those the builder sets.\<close>

theorem request_signature_verifies:
  assumes "ToHttpRequest cr now b (Some c) q = Some (r, q')" "request_ok q" "\<forall>s. sha256 cr s \<noteq> []"
    "year_ok (timezone cr) now" "credential_word (access_key c)" "credential_word (q_region q)"
    "secret_of (access_key c) = secret_key c"
  shows "(session_token c = [] \<and> spelled_in_order (signed_keys q) \<longrightarrow>
      verify_headers cr secret_of (MethodToString (rq_method r)) (path (rq_url r))
        (query_string (rq_url r)) (rq_headers r) (GetFront ''x-amz-content-sha256'' (rq_headers r)))
    \<and> (session_token c \<noteq> [] \<and> collision_free cr \<longrightarrow>
      \<not> verify_headers cr secret_of (MethodToString (rq_method r)) (path (rq_url r))
        (query_string (rq_url r)) (rq_headers r) (GetFront ''x-amz-content-sha256'' (rq_headers r)))"
proof -
  have sha: "sha256 cr s \<noteq> []" for s using assms(3) by blast
  from ToHttpRequest_accepted [where secret_of = secret_of, OF assms(1,2) sha assms(4-7)]
    ToHttpRequest_refused [where secret_of = secret_of, OF assms(1,2) sha assms(4-7)]
  show ?thesis by blast
qed

text \<open>The same request with the static credentials of a user and with temporary ones.\<close>

definition demo_user :: credentials where
  "demo_user = demo_creds\<lparr>session_token := []\<rparr>"

lemma demo_crypto_injective: "collision_free demo_crypto"
  by (simp add: collision_free_def demo_crypto_def inj_def)

lemma demo_keys_in_order: "spelled_in_order (signed_keys demo_request)"
proof -
  let ?ks = "[''Content-Length'', ''Content-Type'', ''Host'', ''x-amz-content-sha256'', ''x-amz-date'', ''x-amz-meta-a'']"
  have keys: "signed_keys demo_request = set ?ks"
    by (simp add: signed_keys_def demo_request_def Add_keys) (simp add: mm_empty_def)
  have "list_all (\<lambda>k. list_all (\<lambda>k'. k < k' \<longrightarrow> ToLower k \<le> ToLower k') ?ks) ?ks" by code_simp
  then show ?thesis unfolding keys by (simp only: spelled_in_order_def list_all_iff)
qed

theorem request_signature_verifies_witness:
  "\<exists>r q r' q'. ToHttpRequest demo_crypto demo_now demo_url (Some demo_user) demo_request = Some (r, q)
     \<and> verify_headers demo_crypto (\<lambda>_. ''SK'') (MethodToString (rq_method r)) (path (rq_url r))
         (query_string (rq_url r)) (rq_headers r) (GetFront ''x-amz-content-sha256'' (rq_headers r))
     \<and> ToHttpRequest demo_crypto demo_now demo_url (Some demo_creds) demo_request = Some (r', q')
     \<and> \<not> verify_headers demo_crypto (\<lambda>_. ''SK'') (MethodToString (rq_method r')) (path (rq_url r'))
         (query_string (rq_url r')) (rq_headers r') (GetFront ''x-amz-content-sha256'' (rq_headers r'))"
proof -
  obtain r q r' q' where sent: "ToHttpRequest demo_crypto demo_now demo_url (Some demo_user) demo_request = Some (r, q)"
    "ToHttpRequest demo_crypto demo_now demo_url (Some demo_creds) demo_request = Some (r', q')"
    using demo_request_sent by blast
  have words: "credential_word (access_key demo_user)" "credential_word (access_key demo_creds)"
    "credential_word (q_region demo_request)" "''SK'' = secret_key demo_user" "''SK'' = secret_key demo_creds"
    "session_token demo_user = []" "session_token demo_creds \<noteq> []"
    by (simp_all add: credential_word_def demo_creds_def demo_user_def demo_request_def)
  have year: "year_ok (timezone demo_crypto) demo_now" and sha: "\<forall>s. sha256 demo_crypto s \<noteq> []"
    by (simp_all add: demo_year)
  note ok = request_signature_verifies [OF sent(1) demo_request_ok sha year words(1,3), of "\<lambda>_. ''SK''", OF words(4)]
    request_signature_verifies [OF sent(2) demo_request_ok sha year words(2,3), of "\<lambda>_. ''SK''", OF words(5)]
  show ?thesis using sent ok words(6,7) demo_keys_in_order demo_crypto_injective by blast
qed

text \<open>C4: however the HTTP client cuts the body of a Select response into chunks, and whatever well-formed
  messages it has (records, statistics, progress, errors, continuation or unknown ones, a caller that declines):
  the caller gets the results of a prefix of the messages, in order and each once, up to the end of the stream,
  an error or a result it declines, which ends the response, or a number that \<open>std::stoll\<close> throws at. When no message
  stalls the loop (no continuation message and no empty payload) it gets all of them.\<close>

theorem select_chunking:
  assumes "stream_ok ms" "concat chunks = encode_stream (se_crc32 e) ms"
  shows "\<exists>k. caller_view (feed e handler_new s chunks) = deliver e s (take k ms)
    \<and> (list_ex (stalls e) ms \<or> length ms \<le> k)"
  using feed_whole_stream [OF assms, of s] by blast

text \<open>A stream with records, statistics and an end; nothing behind the end is looked at.\<close>

definition demo_env :: "select_result list select_env" where
  "demo_env = \<lparr>se_crc32 = (\<lambda>s. word_of_nat (length s)), se_xml = (\<lambda>_. Some (\<lambda>_. ''17'')),
     se_result = (\<lambda>l r. (True, l @ [r]))\<rparr>"

definition demo_stream :: "message list" where
  "demo_stream = [([('':event-type'', ''Records'')], ''ab''), ([('':event-type'', ''Stats'')], ''<Stats/>''),
     ([('':event-type'', ''Records'')], ''c''), ([('':event-type'', ''End'')], [])]"

lemma demo_stream_ok: "stream_ok demo_stream" "\<not> list_ex (stalls demo_env) demo_stream"
proof -
  show "stream_ok demo_stream"
    by (simp add: stream_ok_def demo_stream_def message_ok_def enc_headers_def enc_header_def header_ok_def)
  show "\<not> list_ex (stalls demo_env) demo_stream" by code_simp
qed

theorem select_chunking_witness:
  "caller_view (feed demo_env handler_new [] (map (\<lambda>c. [c]) (encode_stream (se_crc32 demo_env) demo_stream)))
     = Inr (False, [sr_recs ''ab'', sr_default\<lparr>sr_bytes_scanned := Some 17, sr_bytes_processed := Some 17,
         sr_bytes_returned := Some 17\<rparr>, sr_recs ''c'', sr_end])"
proof -
  have "deliver demo_env [] demo_stream = Inr (False, [sr_recs ''ab'', sr_default\<lparr>sr_bytes_scanned := Some 17,
      sr_bytes_processed := Some 17, sr_bytes_returned := Some 17\<rparr>, sr_recs ''c'', sr_end])" by code_simp
  moreover from select_chunking [OF demo_stream_ok(1), of "map (\<lambda>c. [c]) (encode_stream (se_crc32 demo_env) demo_stream)" demo_env "[]"]
  obtain k where "caller_view (feed demo_env handler_new [] (map (\<lambda>c. [c]) (encode_stream (se_crc32 demo_env) demo_stream)))
      = deliver demo_env [] (take k demo_stream)" "length demo_stream \<le> k" using demo_stream_ok(2) by auto
  ultimately show ?thesis by simp
qed

text \<open>C10: when \<open>CalcPartInfo\<close> accepts an object of known size, the parts it plans are between 1
  and 10000, together they cover the object, and without the last one they do not.\<close>

theorem part_plan_sound:
  assumes "CalcPartInfo (Some n) ps pc = (SUCCESS, psz, Some cnt)"
  shows "1 \<le> unat cnt \<and> unat cnt \<le> 10000 \<and> unat n \<le> unat cnt * unat psz
    \<and> (n = 0 \<or> (unat cnt - 1) * unat psz < unat n)"
  using assms by (rule CalcPartInfo_sound)

theorem part_plan_sound_witness:
  "CalcPartInfo (Some 12582912) 5242880 None = (SUCCESS, 5242880, Some 3)
     \<and> unat (12582912 :: u64) \<le> unat (3 :: u64) * unat (5242880 :: u64)"
proof -
  have "CalcPartInfo (Some 12582912) 5242880 None = (SUCCESS, 5242880, Some 3)" by code_simp
  with part_plan_sound [OF this] show ?thesis by blast
qed

text \<open>C7: a URL presigned by \<open>PresignV4\<close> verifies: a server that decodes the query string, sets the
  signature aside, encodes the rest again and recomputes the signature accepts it.\<close>

theorem presigned_url_verifies:
  assumes "presignable query_params" "year_ok (timezone cr) date" "credential_word ak"
    "credential_word region" "secret_of ak = sk"
  shows "verify_query cr secret_of (MethodToString m) uri h (GetCanonicalQueryString
    (PresignV4 cr m h uri region query_params ak sk date expires))"
  using assms by (rule PresignV4_accepted)

theorem presigned_url_verifies_witness:
  "verify_query demo_crypto (\<lambda>_. ''SK'') ''GET'' ''/b/o'' ''localhost:9000'' (GetCanonicalQueryString
    (PresignV4 demo_crypto kGet ''localhost:9000'' ''/b/o'' ''us-east-1'' (Add ''versionId'' ''v 1'' mm_empty)
      ''AK'' ''SK'' demo_now 604800))"
proof -
  have low: "ToLower ''versionId'' = ''versionid''" "ToLower ''X-Amz-Algorithm'' = ''x-amz-algorithm''"
    "ToLower ''X-Amz-Credential'' = ''x-amz-credential''" "ToLower ''X-Amz-Date'' = ''x-amz-date''"
    "ToLower ''X-Amz-Expires'' = ''x-amz-expires''" "ToLower ''X-Amz-SignedHeaders'' = ''x-amz-signedheaders''"
    "ToLower ''X-Amz-Signature'' = ''x-amz-signature''" by code_simp+
  have "presignable (Add ''versionId'' ''v 1'' mm_empty)"
    by (simp add: presignable_def mm_wf_demo mm_vals_Add low)
  then show ?thesis
    using presigned_url_verifies [of "Add ''versionId'' ''v 1'' mm_empty" demo_crypto demo_now "''AK''"
        "''us-east-1''" "\<lambda>_. ''SK''" "''SK''" kGet] demo_year
    by (simp add: credential_word_def MethodToString_def)
qed

text \<open>C12: for a name without NUL bytes, \<open>CheckBucketName\<close> succeeds exactly for the names of 3 to
  63 characters that begin and end with a letter or digit, hold only the characters of their
  mode, have no \<open>..\<close>, \<open>.-\<close>, \<open>-.\<close> and are not an IPv4 address.\<close>

theorem bucket_name_rules:
  assumes "CHR 0x00 \<notin> set s"
  shows "CheckBucketName s strict = SUCCESS \<longleftrightarrow> bucket_name_ok strict s"
  using assms by (rule CheckBucketName_iff)

theorem bucket_name_rules_witness:
  "CheckBucketName ''my-bucket'' True = SUCCESS \<and> bucket_name_ok True ''my-bucket''"
proof -
  have ok: "CheckBucketName ''my-bucket'' True = SUCCESS" by code_simp
  with bucket_name_rules [of "''my-bucket''" True] show ?thesis by simp
qed

text \<open>C16: parsing the text of a URL gives the URL back, with its host, port, path and query; only
  the slash that starts the path is dropped. Hosts are names, addresses or bracketed IPv6
  addresses; \<open>inet6\<close> is the platform's \<open>inet_pton\<close>.\<close>

theorem url_round_trip:
  assumes "inet6_text inet6" "url_ok u"
  shows "Url_Parse inet6 (Url_String u) =
    Some (u\<lparr>path := (if path u \<noteq> [] \<and> hd (path u) = CHR ''/'' then tl (path u) else path u)\<rparr>)"
  using assms by (rule Url_Parse_String_eq)

theorem url_round_trip_witness:
  "Url_Parse (\<lambda>s. s = ''::1'') (Url_String \<lparr>https = False, host = ''[::1]'', port = 9000, path = ''/b/o'',
      query_string = ''x=a/b''\<rparr>)
    = Some \<lparr>https = False, host = ''[::1]'', port = 9000, path = ''b/o'', query_string = ''x=a/b''\<rparr>"
proof -
  have "inet6_text (\<lambda>s. s = ''::1'')" by (simp add: inet6_text_def)
  moreover have "url_ok \<lparr>https = False, host = ''[::1]'', port = 9000, path = ''/b/o'', query_string = ''x=a/b''\<rparr>"
    by (simp add: url_ok_def host_ok_def default_port_def)
  ultimately show ?thesis using url_round_trip by fastforce
qed

text \<open>C24: scanning a chain of providers finds the first whose credentials are valid; it is asked
  first from then on and gives the same credentials again.\<close>

theorem chain_takes_first_valid:
  assumes "chain_scan (Fetch e) (creds_bool (pe_now e)) ch = Some (c, ch')" "creds_bool (pe_now e) c"
  shows "\<exists>j p'. j < length (ch_providers ch) \<and> Fetch e (ch_providers ch ! j) = Some (c, p')
    \<and> (\<forall>k < j. \<exists>d q. Fetch e (ch_providers ch ! k) = Some (d, q) \<and> \<not> creds_bool (pe_now e) d)
    \<and> ch_provider ch' = Some j \<and> Fetch e (ch_providers ch' ! j) = Some (c, p')"
  using sts.chain_first [OF assms] by metis

definition demo_penv :: penv where
  "demo_penv = \<lparr>pe_crypto = demo_crypto, pe_now = demo_now,
     pe_send = (\<lambda>_. \<lparr>x_valid = True, x_status = 500, x_chunks = [], x_headers = [], x_failure = None\<rparr>),
     pe_xml = (\<lambda>_. None), pe_json = (\<lambda>_. None), pe_token = (\<lambda>_. None),
     pe_inet6 = (\<lambda>_. False), pe_resolve = (\<lambda>_. Inr [])\<rparr>"

definition demo_chain :: "provider chain" where
  "demo_chain = \<lparr>ch_creds = creds_empty, ch_provider = None,
     ch_providers = [StaticProvider_new [] [] [], StaticProvider_new ''AK'' ''SK'' []]\<rparr>"

theorem chain_takes_first_valid_witness:
  "\<exists>c ch'. chain_scan (Fetch demo_penv) (creds_bool demo_now) demo_chain = Some (c, ch')
     \<and> access_key c = ''AK'' \<and> ch_provider ch' = Some 1
     \<and> (\<exists>j. j < 2 \<and> ch_provider ch' = Some j)"
proof -
  have valid: "creds_bool demo_now (p_creds (StaticProvider_new ''AK'' ''SK'' []))"
    "\<not> creds_bool demo_now (p_creds (StaticProvider_new [] [] []))"
    by (simp_all add: StaticProvider_new_def creds_bool_def expired_def utc_bool_def utc_default_def)
  have static: "Fetch demo_penv (StaticProvider_new a b t) = Some (p_creds (StaticProvider_new a b t), StaticProvider_new a b t)" for a b t
    by (simp add: Fetch_def StaticProvider_new_def provider_of_def)
  obtain c ch' where S: "chain_scan (Fetch demo_penv) (creds_bool demo_now) demo_chain = Some (c, ch')"
    and c: "c = p_creds (StaticProvider_new ''AK'' ''SK'' [])" "ch_provider ch' = Some 1"
    by (simp add: chain_scan_def demo_chain_def static valid)
  have "pe_now demo_penv = demo_now" by (simp add: demo_penv_def)
  then have "\<exists>j. j < length (ch_providers demo_chain) \<and> ch_provider ch' = Some j"
    using chain_takes_first_valid [of demo_penv demo_chain c ch'] S valid(1) c by auto
  then show ?thesis using S c by (simp add: demo_chain_def StaticProvider_new_def numeral_2_eq_2)
qed

text \<open>C25: the path-style URL of an object at an endpoint that is not Amazon's decodes to the bucket
  and the object name, runs of slashes in the name written as one; host, port and query are
  those of the endpoint and the parameters.\<close>

theorem path_style_url:
  assumes "\<not> is_err (b_err b)" "b_suffix b = []" "\<not> b_virtual_style b" "bucket \<noteq> []"
    "CHR ''%'' \<notin> set bucket" "last bucket \<noteq> CHR ''/''"
  shows "\<exists>u. BuildUrl b u0 m region qp bucket object_name = (SUCCESS, u)
    \<and> https u = b_https b \<and> host u = b_host b \<and> port u = b_port b \<and> query_string u = ToQueryString qp
    \<and> UriDecode (path u) = ''/'' @ bucket @ (if object_name = [] then [] else ''/'' @ squeeze_slashes object_name)"
  using BuildUrl_path_style [OF assms] by metis

theorem path_style_url_witness:
  "\<exists>u. BuildUrl demo_url url_empty kGet ''us-east-1'' mm_empty ''my-bucket'' ''a b//c'' = (SUCCESS, u)
    \<and> UriDecode (path u) = ''/my-bucket/a b/c''"
  using path_style_url [of demo_url "''my-bucket''" url_empty kGet "''us-east-1''" mm_empty "''a b//c''"]
  by (auto simp: demo_url_def base_url_empty_def)

text \<open>C27: the table-driven CRC-64/NVME loop computes the checksum that bit-by-bit division with the
  reflected polynomial computes.\<close>

theorem crc64_equals_bitwise: "Crc64Nvme bytes = crc_serial bytes"
  by (simp add: Crc64Nvme_def crc_serial_def crc_table_is_serial)

text \<open>\<open>FromHttpHeaderValue\<close> reads back the second that \<open>ToHttpHeaderValue\<close> printed, for the
  years 1000 to 9999 and any time zone offset.\<close>

theorem http_date_round_trip:
  assumes "year_ok tz t"
  shows "FromHttpHeaderValue tz (ToHttpHeaderValue tz t) = \<lparr>secs = secs t, usecs = 0\<rparr>"
  using assms by (rule FromHttp_ToHttp)

theorem http_date_round_trip_witness:
  "ToHttpHeaderValue 0 demo_now = ''Tue, 14 Nov 2023 22:13:20 GMT''
     \<and> FromHttpHeaderValue 0 ''Tue, 14 Nov 2023 22:13:20 GMT'' = \<lparr>secs = 1700000000, usecs = 0\<rparr>"
proof -
  have "ToHttpHeaderValue 0 demo_now = ''Tue, 14 Nov 2023 22:13:20 GMT''" by code_simp
  with http_date_round_trip [OF demo_year] show ?thesis by (simp add: demo_now_def)
qed

text \<open>C29: \<open>FromISO8601UTC\<close> reads back what \<open>ToISO8601UTC\<close> printed exactly when the time has less
  than a thousand microseconds: the printer writes the first three digits of the count, the
  parser takes them for the count.\<close>

theorem iso_date_round_trip:
  assumes "year_ok tz t" "0 \<le> usecs t"
  shows "FromISO8601UTC tz (ToISO8601UTC tz t) = Some t \<longleftrightarrow> usecs t < 1000"
proof -
  have "digits_val 0 (take 3 (pad3 (usecs t))) < 10 ^ length (take 3 (pad3 (usecs t)))"
    using pad3_props(1) [OF assms(2)] by (rule digits_val_bound)
  also have "\<dots> \<le> 10 ^ 3" by (intro power_increasing) simp_all
  finally have small: "int (digits_val 0 (take 3 (pad3 (usecs t)))) < 1000" by simp
  have eq: "Some \<lparr>secs = secs t, usecs = u\<rparr> = Some t \<longleftrightarrow> usecs t = u" for u by (cases t) auto
  show ?thesis
    unfolding FromISO_ToISO [OF assms] eq using small pad3_props(3) [OF assms(2)] assms(2) by auto
qed

theorem iso_date_round_trip_witness:
  "ToISO8601UTC 0 demo_now = ''2023-11-14T22:13:20.250Z''
     \<and> FromISO8601UTC 0 ''2023-11-14T22:13:20.250Z'' \<noteq> Some demo_now"
proof -
  have "ToISO8601UTC 0 demo_now = ''2023-11-14T22:13:20.250Z''" by code_simp
  moreover have "0 \<le> usecs demo_now" "\<not> usecs demo_now < 1000" by (simp_all add: demo_now_def)
  ultimately show ?thesis using iso_date_round_trip [OF demo_year] by simp
qed

text \<open>C30: the host name pattern with the check of each piece's last character accepts exactly the
  dot-separated sequences of labels of 1 to 63 letters, digits, dashes and underscores that
  neither begin nor end with a dash or underscore.\<close>

theorem hostname_is_labels:
  assumes "CHR 0x00 \<notin> set h"
  shows "awsRegexMatch (rx_prefix True HOSTNAME_REGEX) h \<longleftrightarrow>
    (\<exists>ws w. h = concat (map (\<lambda>w. w @ ''.'') ws) @ w \<and> (\<forall>l \<in> set (ws @ [w]). dns_label l))"
  using assms by (rule hostname_iff)

theorem hostname_is_labels_witness:
  "awsRegexMatch (rx_prefix True HOSTNAME_REGEX) ''s3.min_io''"
proof -
  have "dns_label ''s3''" "dns_label ''min_io''" by code_simp+
  then show ?thesis
    using hostname_is_labels [of "''s3.min_io''"]
    by (auto intro!: exI [of _ "[''s3'']"] exI [of _ "''min_io''"])
qed

text \<open>\<open>getAwsInfo\<close> never reads \<open>tokens[0]\<close> of an empty vector: what follows the matched prefix of
  an Amazon S3 host has a first piece, and another one behind \<open>dualstack\<close>.\<close>

theorem aws_info_in_bounds:
  assumes "CHR 0x00 \<notin> set h"
  shows "getAwsInfo h tls info \<noteq> None"
  using assms by (rule getAwsInfo_total)

theorem aws_info_in_bounds_witness:
  "getAwsInfo ''s3.dualstack.us-west-2.amazonaws.com'' True
     \<lparr>ai_region = [], ai_prefix = [], ai_suffix = [], ai_dualstack = False\<rparr> \<noteq> None"
  by (rule aws_info_in_bounds) simp

text \<open>C31: without a part size, every object of at most \<open>kMaxObjectSize\<close> bytes (2^40, by the 32-bit
  product in the header) gets a plan, with a part size that is a multiple of 5 MiB or the
  whole object.\<close>

theorem part_plan_exists:
  assumes "unat n \<le> 2 ^ 40"
  shows "\<exists>psz cnt. CalcPartInfo (Some n) 0 pc = (SUCCESS, psz, Some cnt)
    \<and> (5242880 dvd unat psz \<or> psz = n)"
  using assms by (rule CalcPartInfo_auto)

theorem part_plan_exists_witness:
  "\<exists>psz cnt. CalcPartInfo (Some 1099511627776) 0 None = (SUCCESS, psz, Some cnt)
    \<and> (5242880 dvd unat psz \<or> psz = 1099511627776)"
  by (rule part_plan_exists) simp

text \<open>C32: on the abstract value of a multimap, a case-insensitive map from keys to sets of values,
  \<open>Add\<close> adds one value and \<open>AddAll\<close> takes the union; both keep the two internal maps
  consistent.\<close>

theorem multimap_refines:
  assumes "mm_wf m" "mm_wf h"
  shows "mm_wf (Add k v m) \<and> mm_wf (AddAll h m)
    \<and> mm_vals (Add k v m) k' = (if ToLower k' = ToLower k then {v} else {}) \<union> mm_vals m k'
    \<and> mm_vals (AddAll h m) k' = mm_vals h k' \<union> mm_vals m k' \<and> set (Get k' m) = mm_vals m k'
    \<and> (mm_Contains k' m \<longleftrightarrow> mm_vals m k' \<noteq> {})"
  using assms mm.wf_add mm.wf_add_all mm.vals_add mm.vals_add_all set_Get mm_Contains_iff by auto

theorem multimap_refines_witness:
  "mm_vals (AddAll (Add ''host'' ''h'' mm_empty) (Add ''Host'' ''g'' mm_empty)) ''HOST'' = {''g'', ''h''}"
proof -
  have low: "ToLower ''HOST'' = ''host''" "ToLower ''Host'' = ''host''" "ToLower ''host'' = ''host''"
    by code_simp+
  show ?thesis
    using multimap_refines [of "Add ''Host'' ''g'' mm_empty" "Add ''host'' ''h'' mm_empty" "''a''" "''b''" "''HOST''"]
    by (auto simp: mm_wf_demo mm_vals_Add low)
qed

text \<open>C33: the canonical query string, split at \<open>&\<close> and \<open>=\<close> and decoded, is the list of the map's
  parameters, whatever bytes they contain.\<close>

theorem query_string_round_trip: "parse_query (GetCanonicalQueryString m) = mm_pairs m"
  by (rule parse_query_canonical)

text \<open>The names \<open>GetCanonicalHeaders\<close> lists are those of the map without \<open>Authorization\<close> and
  \<open>User-Agent\<close>, lower-cased; they are strictly sorted, as Signature Version 4 asks, when the
  map's spellings are lower case.\<close>

theorem signed_headers_sorted:
  assumes "mm_wf m" "[] \<notin> fst ` set (map_m m)" "\<forall>k \<in> fst ` set (map_m m). ToLower k = k"
  shows "fst (GetCanonicalHeaders m) = Join (map header_name (signed_entries m)) '';''
    \<and> sorted_wrt (<) (map header_name (signed_entries m))"
proof
  show "fst (GetCanonicalHeaders m) = Join (map header_name (signed_entries m)) '';''"
    using assms(2) by (simp add: GetCanonicalHeaders_eq)
  show "sorted_wrt (<) (map header_name (signed_entries m))"
    using assms(1,3) by (blast intro: signed_names_sorted)
qed

theorem signed_headers_sorted_witness:
  "fst (GetCanonicalHeaders (Add ''x-amz-date'' ''d'' (Add ''host'' ''h'' mm_empty))) = ''host;x-amz-date''"
proof -
  let ?m = "Add ''x-amz-date'' ''d'' (Add ''host'' ''h'' mm_empty)"
  have keys: "fst ` set (map_m ?m) = {''x-amz-date'', ''host''}"
    by (auto simp: Add_def smap_upd_fst mm_empty_def)
  have low: "ToLower ''x-amz-date'' = ''x-amz-date''" "ToLower ''host'' = ''host''" by code_simp+
  have "Join (map header_name (signed_entries ?m)) '';'' = ''host;x-amz-date''" by code_simp
  then show ?thesis
    using signed_headers_sorted [of ?m] low by (simp add: keys wf_intros)
qed

text \<open>A request object that is turned into an HTTP request a second time, as \<open>Execute\<close> does
  after a region error, keeps the headers of the first time: both dates are sent.\<close>

theorem second_request_keeps_headers:
  assumes "mm_wf (q_headers q)" "ToHttpRequest cr now b creds q = Some (r, q')"
    "ToHttpRequest cr later b creds' q' = Some (r', q'')"
  shows "{ToAmzDate (timezone cr) now, ToAmzDate (timezone cr) later} \<subseteq> mm_vals (rq_headers r') ''x-amz-date''"
  using assms by (rule ToHttpRequest_twice)

theorem second_request_keeps_headers_witness:
  "\<exists>r q r' q'. ToHttpRequest demo_crypto demo_now demo_url (Some demo_creds) demo_request = Some (r, q)
     \<and> ToHttpRequest demo_crypto (utc_add 1 demo_now) demo_url (Some demo_creds) q = Some (r', q')
     \<and> {ToAmzDate 0 demo_now, ToAmzDate 0 (utc_add 1 demo_now)} \<subseteq> mm_vals (rq_headers r') ''x-amz-date''"
proof -
  obtain r q where 1: "ToHttpRequest demo_crypto demo_now demo_url (Some demo_creds) demo_request = Some (r, q)"
    using demo_request_sent by blast
  then have "q_method q = kPut" "q_query_params q = mm_empty" "q_bucket_name q = ''my-bucket''"
    "q_object_name q = ''a b/c''" "q_region q = ''us-east-1''"
    by (auto simp: ToHttpRequest_def Let_def BuildHeaders_def demo_request_def split: prod.splits if_splits)
  then obtain r' q' where 2: "ToHttpRequest demo_crypto (utc_add 1 demo_now) demo_url (Some demo_creds) q = Some (r', q')"
    by (simp add: ToHttpRequest_def BuildUrl_def demo_url_def base_url_empty_def Let_def enforce_path_def)
  have "mm_wf (q_headers demo_request)" by (simp add: demo_request_def mm_wf_demo)
  from second_request_keeps_headers [OF this 1 2] 1 2 show ?thesis by auto
qed

text \<open>A continuation message ends the handler's loop over its buffer: messages behind it in
  the same chunk stay there, undelivered, until another chunk arrives.\<close>

theorem continuation_stalls:
  assumes "message_ok hs pl" "event_headers ''Cont'' hs"
  shows "data_loop e (at0 n (encode_message (se_crc32 e) hs pl @ rest)) s
    = Inr (True, at0 (msg_total hs pl) rest, s)"
  using assms by (rule data_loop_cont)

theorem continuation_stalls_witness:
  "feed demo_env handler_new []
     [encode_message (se_crc32 demo_env) [('':event-type'', ''Cont'')] [] @ encode_stream (se_crc32 demo_env) demo_stream]
   = Inr (True, at0 35 (encode_stream (se_crc32 demo_env) demo_stream), [])"
proof -
  have "message_ok [('':event-type'', ''Cont'')] []" "event_headers ''Cont'' [('':event-type'', ''Cont'')]"
    by (simp_all add: message_ok_def enc_headers_def enc_header_def header_ok_def event_headers_def decoded_def
        smap_put_def header_get_def)
  from continuation_stalls [OF this, of demo_env 0 "encode_stream (se_crc32 demo_env) demo_stream" "[]"]
  show ?thesis
    by (simp add: DataFunction_def at0_def handler_new_def msg_total_def enc_headers_def enc_header_def)
qed

text \<open>When a GET with a data function is answered with an error status, the data function is
  never called: the body is put together for the caller, however it was chunked.\<close>

theorem error_body_is_kept:
  assumes "x_valid (send (call_of r))" "rq_method r = kGet" "rq_datafunc r = Some f"
    "x_failure (send (call_of r)) = None"
    "x_status (send (call_of r)) < 200 \<or> 299 < x_status (send (call_of r))"
  shows "http_execute send r s =
    (\<lparr>resp_error = [], status_code = x_status (send (call_of r)),
      resp_headers = add_headers (x_headers (send (call_of r))) mm_empty,
      resp_body = concat (x_chunks (send (call_of r)))\<rparr>, s)"
  using assms by (rule http_execute_error_status)

theorem error_body_is_kept_witness:
  "http_execute (\<lambda>_. \<lparr>x_valid = True, x_status = 404, x_chunks = [''<Err'', ''or/>''], x_headers = [], x_failure = None\<rparr>)
     \<lparr>rq_method = kGet, rq_url = url_empty, rq_headers = mm_empty, rq_body = [],
      rq_datafunc = Some (\<lambda>l _ c. (True, l @ [c]))\<rparr> []
   = (\<lparr>resp_error = [], status_code = 404, resp_headers = mm_empty, resp_body = ''<Error/>''\<rparr>, [])"
  by (subst error_body_is_kept) (simp_all add: add_headers_def)

text \<open>The duration a web identity provider asks for is absent when neither the caller nor the
  token gives one, and otherwise between 15 minutes and 7 days.\<close>

theorem duration_bounds:
  "getDurationSeconds d e = 0 \<and> d = 0 \<and> e = 0
   \<or> 900 \<le> unat (getDurationSeconds d e) \<and> unat (getDurationSeconds d e) \<le> 604800"
  by (rule getDurationSeconds_bounds)

text \<open>Credentials whose expiration is a whole second never expire: the time converts to false.\<close>

theorem whole_second_never_expires: "usecs e = 0 \<Longrightarrow> \<not> expired now e"
  by (simp add: expired_iff)

theorem whole_second_never_expires_witness:
  "\<not> expired \<lparr>secs = 2000000000, usecs = 1\<rparr> \<lparr>secs = 1, usecs = 0\<rparr>"
  by (rule whole_second_never_expires) simp

text \<open>Every chunk leaves the Select handler consistent: what it marks as read has its full
  length, so that the four-byte integers it decodes are always there.\<close>

theorem select_handler_invariant:
  assumes "handler_wf h" "DataFunction e h s chunk = Inr (r, h', s')"
  shows "handler_wf h'"
  using assms by (rule DataFunction_wf)

theorem select_handler_invariant_witness:
  "\<exists>h. DataFunction demo_env handler_new [] ''abc'' = Inr (True, h, []) \<and> handler_wf h"
proof -
  have "DataFunction demo_env handler_new [] ''abc'' = Inr (True, at0 0 ''abc'', [])"
    by (simp add: DataFunction_def data_loop.simps process_def read_prelude_def ReadPrelude_def handler_new_def at0_def)
  with select_handler_invariant [OF handler_wf_new this] show ?thesis by blast
qed

text \<open>\<open>EncodePath\<close> keeps the slashes of a path, a run of them as one, and percent-encodes
  everything else, so decoding gives the path with its runs squeezed.\<close>

theorem path_encoding:
  assumes "name \<noteq> []"
  shows "\<exists>p. EncodePath name = Some p \<and> p = encode_segments (squeeze_slashes name)
    \<and> UriDecode p = squeeze_slashes name"
  using EncodePath_spec [OF assms] UriDecode_segments by simp

theorem path_encoding_witness: "EncodePath ''/a b//c/'' = Some ''/a%20b/c/''"
proof -
  have "encode_segments (squeeze_slashes ''/a b//c/'') = ''/a%20b/c/''" by code_simp
  with path_encoding [of "''/a b//c/''"] show ?thesis by simp
qed

section \<open>The client\<close>

definition demo_env_of :: "http_exchange list client_env" where
  "demo_env_of = scripted demo_crypto demo_now (Some demo_creds) read_xml"

definition demo_client :: "'w \<Rightarrow> 'w client" where
  "demo_client w = \<lparr>cl_base_url = demo_url, cl_user_agent = ''MinIO'', cl_region_map = [], cl_world = w\<rparr>"

definition demo_make_bucket :: make_bucket_args where
  "demo_make_bucket = \<lparr>a_extra_headers = mm_empty, a_extra_query_params = mm_empty, a_bucket = ''my-bucket'',
     a_region = ''eu-west-1'', a_object_lock = False\<rparr>"

definition demo_bucket :: bucket_args where
  "demo_bucket = \<lparr>a_extra_headers = mm_empty, a_extra_query_params = mm_empty, a_bucket = ''my-bucket'', a_region = []\<rparr>"

lemma demo_client_simps [simp]:
  "cl_base_url (demo_client w) = demo_url" "cl_region_map (demo_client w) = []" "cl_world (demo_client w) = w"
  "plain_endpoint demo_url" "b_region demo_url = []" "client_wf (demo_client w)" "b_suffix demo_url = []"
  by (simp_all add: demo_client_def demo_url_def base_url_empty_def plain_endpoint_def client_wf_def)

text \<open>A server that always answers the same.\<close>

definition demo_server :: "int \<Rightarrow> unit client_env" where
  "demo_server status = \<lparr>ce_crypto = demo_crypto, ce_now = (\<lambda>_. demo_now), ce_fetch = Some (\<lambda>w. (demo_creds, w)),
     ce_send = (\<lambda>w call. (answer status [], w)), ce_xml = read_xml\<rparr>"

lemma demo_env_simps [simp]: "ce_fetch demo_env_of \<noteq> None" "ce_xml demo_env_of = read_xml"
    "plain_failures (demo_server status)"
  by (auto simp: demo_env_of_def plain_failures_def demo_server_def answer_def)

definition demo_listener :: "'s listener" where
  "demo_listener = \<lparr>li_parse = (\<lambda>_. None), li_func = (\<lambda>s rs. (True, s))\<rparr>"

text \<open>C8: a client made by its constructor stays well-formed in any program that uses it, by the S3
  calls of either class or by the C API, whatever their arguments, the server's answers and the order of the threads:
  its region map is a map without empty regions, its base URL is the one it was made with, and its user agent is
  the default one, or that followed by the name and the version of an application, both not empty.\<close>

theorem client_stays_well_formed:
  assumes "BaseClient_new agent b w = Some c" "program_run agent (logged e) se l enc dump c c'"
  shows "client_wf c' \<and> cl_base_url c' = b
    \<and> (cl_user_agent c' = agent \<or> (\<exists>name version. name \<noteq> [] \<and> version \<noteq> []
          \<and> cl_user_agent c' = agent @ '' '' @ name @ ''/'' @ version))"
proof -
  have "cl_user_agent c = agent" using assms(1) by (auto simp: BaseClient_new_def split: if_splits)
  with program_run_stays [OF assms(2)] BaseClient_new_wf [OF assms(1)] show ?thesis by (auto simp: app_agent_def)
qed

lemma demo_MakeBucket:
  assumes "plain_endpoint (cl_base_url c)" "b_region (cl_base_url c) = []"
  shows "\<exists>r c'. MakeBucket e demo_make_bucket c = Some (r, c')"
proof -
  have valid: "MakeBucketArgs_Validate demo_make_bucket = SUCCESS" by code_simp
  let ?q = "(bucket_request kPut ''eu-west-1'' demo_make_bucket)\<lparr>q_body := make_bucket_body ''eu-west-1''\<rparr> :: unit s3_request"
  have "q_bucket_name ?q \<noteq> []" by (simp add: bucket_request_def demo_make_bucket_def)
  then obtain r c' where "send_request e ?q c = Some (r, c')" using send_total [OF assms(1)] by blast
  then show ?thesis
    using assms(2)
    by (cases r) (simp_all add: MakeBucket_def check_def valid with_client_def demo_make_bucket_def [THEN arg_cong, of a_region]
        demo_make_bucket_def [THEN arg_cong, of a_object_lock] and_then_def on_result_def fail_def modify_def Let_def)
qed

theorem client_stays_well_formed_witness:
  "\<exists>c c'. BaseClient_new ''MinIO'' demo_url ((), []) = Some c
     \<and> program_run ''MinIO'' (logged (demo_server 200)) demo_env demo_listener (\<lambda>s. s) (\<lambda>_. []) c c'
     \<and> client_wf c' \<and> cl_user_agent c' = ''MinIO app/1''"
proof -
  obtain c :: "(unit \<times> http_call list) client" where c: "BaseClient_new ''MinIO'' demo_url ((), []) = Some c"
    by (simp add: BaseClient_new_def base_url_bool_def demo_url_def base_url_empty_def)
  have url: "cl_base_url c = demo_url" using BaseClient_new_wf [OF c] by simp
  let ?c = "c\<lparr>cl_user_agent := ''MinIO app/1''\<rparr>"
  have "SetAppInfo ''MinIO'' ''app'' ''1'' c = (SUCCESS, ?c)" by (simp add: SetAppInfo_def)
  then have named: "program_step ''MinIO'' (logged (demo_server 200)) demo_env demo_listener (\<lambda>s. s) (\<lambda>_. []) c ?c"
    by (rule program_SetAppInfo)
  obtain r c' where made: "MakeBucket (logged (demo_server 200)) demo_make_bucket ?c = Some (r, c')"
    using demo_MakeBucket [of ?c "logged (demo_server 200)"] url by auto
  then have "program_step ''MinIO'' (logged (demo_server 200)) demo_env demo_listener (\<lambda>s. s) (\<lambda>_. []) ?c c'"
    by (intro program_api step_MakeBucket)
  with named have run: "program_run ''MinIO'' (logged (demo_server 200)) demo_env demo_listener (\<lambda>s. s) (\<lambda>_. []) c c'"
    unfolding program_run_def by (meson r_into_rtranclp rtranclp_trans)
  have "cl_user_agent c' = ''MinIO app/1''"
    using api_step_frame [OF step_MakeBucket [OF made]] by (simp add: op_frame_def)
  with c run client_stays_well_formed [OF c run] show ?thesis by blast
qed

text \<open>C13: no method of the base client repeats itself for long, whatever the server answers. \<open>Execute\<close> hands
  its request to the HTTP library at most twice and never gives the caller its own retry marker: when the
  first exchange asks for a retry, the region of the bucket has been forgotten, so the second cannot.
  \<open>GetRegion\<close> sends at most two requests, and a whole call of a method at most four.\<close>

definition hands_over :: "nat \<Rightarrow> ('w \<times> http_call list) client \<Rightarrow> ('w \<times> http_call list) client \<Rightarrow> bool" where
  "hands_over n c c' \<longleftrightarrow> (\<exists>calls. length calls \<le> n \<and> snd (cl_world c') = snd (cl_world c) @ calls)"

theorem retry_once:
  assumes "plain_failures e"
  shows "(Execute (logged e) q s c = Some (r, q', s', c') \<longrightarrow> r \<noteq> Inl ''RetryHead'' \<and> hands_over 2 c c')
    \<and> (GetRegion (logged e) bucket region c = Some (v, c1) \<longrightarrow> hands_over 2 c c1)
    \<and> (api_step (logged e) se l enc dump c c2 \<longrightarrow> hands_over 4 c c2)"
proof (intro conjI impI)
  assume run: "Execute (logged e) q s c = Some (r, q', s', c')"
  show "r \<noteq> Inl ''RetryHead''" using Execute_not_RetryHead [OF _ run] assms by simp
  show "hands_over 2 c c'" using Execute_frame(1) [OF run] by (simp add: op_frame_def hands_over_def)
next
  assume "GetRegion (logged e) bucket region c = Some (v, c1)"
  from framedD [OF framed_GetRegion this] show "hands_over 2 c c1" by (simp add: op_frame_def hands_over_def)
next
  assume "api_step (logged e) se l enc dump c c2"
  from api_step_frame [OF this] show "hands_over 4 c c2" by (simp add: op_frame_def hands_over_def)
qed

theorem retry_once_witness:
  "\<exists>r q' s' c' c1 c2. Execute (logged (demo_server 400)) (bucket_request kHead ''us-east-1'' demo_bucket) ()
      (demo_client ((), [])) = Some (r, q', s', c') \<and> r \<noteq> Inl ''RetryHead'' \<and> hands_over 2 (demo_client ((), [])) c'
    \<and> GetRegion (logged (demo_server 400)) ''my-bucket'' ''us-east-1'' (demo_client ((), [])) = Some (Inr ''us-east-1'', c1)
    \<and> hands_over 2 (demo_client ((), [])) c1
    \<and> api_step (logged (demo_server 400)) demo_env demo_listener (\<lambda>s. s) (\<lambda>_. []) (demo_client ((), [])) c2
    \<and> hands_over 4 (demo_client ((), [])) c2"
proof -
  have "q_bucket_name (bucket_request kHead ''us-east-1'' demo_bucket :: unit s3_request) \<noteq> []"
    by (simp add: bucket_request_def demo_bucket_def)
  then obtain r c' where "send_request (logged (demo_server 400)) (bucket_request kHead ''us-east-1'' demo_bucket)
      (demo_client ((), [])) = Some (r, c')"
    using send_total [of "demo_client ((), [])"] by fastforce
  then obtain q' s' where run: "Execute (logged (demo_server 400)) (bucket_request kHead ''us-east-1'' demo_bucket) ()
      (demo_client ((), [])) = Some (r, q', s', c')"
    by (auto simp: send_request_def)
  have region: "GetRegion (logged (demo_server 400)) ''my-bucket'' ''us-east-1'' (demo_client ((), []))
      = Some (Inr ''us-east-1'', demo_client ((), []))"
    by (simp add: GetRegion_def with_client_def ret_def)
  obtain r2 c2 where "MakeBucket (logged (demo_server 400)) demo_make_bucket (demo_client ((), [])) = Some (r2, c2)"
    using demo_MakeBucket [of "demo_client ((), [])" "logged (demo_server 400)"] by auto
  then have step: "api_step (logged (demo_server 400)) demo_env demo_listener (\<lambda>s. s) (\<lambda>_. []) (demo_client ((), [])) c2"
    by (rule step_MakeBucket)
  have plain: "plain_failures (demo_server 400)" by simp
  have "r \<noteq> Inl ''RetryHead'' \<and> hands_over 2 (demo_client ((), [])) c'"
    by (rule retry_once [OF plain, THEN conjunct1, THEN mp, OF run])
  moreover have "hands_over 2 (demo_client ((), [])) (demo_client ((), []))"
    by (rule retry_once [OF plain, THEN conjunct2, THEN conjunct1, THEN mp, OF region])
  moreover have "hands_over 4 (demo_client ((), [])) c2"
    by (rule retry_once [OF plain, THEN conjunct2, THEN conjunct2, THEN mp, OF step])
  ultimately show ?thesis using run region step by blast
qed

text \<open>C17: a region that \<open>GetRegion\<close> has found is never empty, and the next lookup gives it again from
  the client's map: no request is sent and nothing changes.\<close>

theorem region_is_cached:
  assumes "client_wf c" "GetRegion e bucket region c = Some (Inr v, c')"
  shows "v \<noteq> [] \<and> GetRegion e bucket region c' = Some (Inr v, c')"
  using assms by (rule GetRegion_cached)

definition demo_location :: xnode where
  "demo_location = XElem ''LocationConstraint'' [XText ''eu-west-1'']"

lemma demo_GetRegion:
  "GetRegion demo_env_of ''my-bucket'' [] (demo_client [answer 200 (xml_text demo_location)])
     = Some (Inr ''eu-west-1'', set_region ''my-bucket'' ''eu-west-1'' (demo_client []))"
proof -
  have "xok [demo_location]" by (simp add: demo_location_def name_ok_def xplain_def)
  then have read: "load_string read_xml (xml_text demo_location) = Some [demo_location]"
    using load_string_plain [OF reads_plain_read_xml] by (simp add: demo_location_def del: xml_text.simps)
  have "send_request demo_env_of (location_request ''my-bucket'') (demo_client [answer 200 (xml_text demo_location)])
    = Some (Inr (response_of (answered 200 (xml_text demo_location))), demo_client [])"
    unfolding demo_env_of_def
    by (subst send_ok) (simp_all add: location_request_def with_param_def Request_new_def demo_client_def)
  moreover have "xtext [''LocationConstraint''] [demo_location] = ''eu-west-1''" by (simp add: demo_location_def xtext_def)
  ultimately show ?thesis
    by (simp add: GetRegion_def with_client_def known_region_def fetch_region_def and_then_def on_result_def read
        location_value_def modify_def Let_def)
qed

theorem region_is_cached_witness:
  "GetRegion demo_env_of ''my-bucket'' [] (set_region ''my-bucket'' ''eu-west-1'' (demo_client []))
     = Some (Inr ''eu-west-1'', set_region ''my-bucket'' ''eu-west-1'' (demo_client []))"
  using region_is_cached [OF _ demo_GetRegion] by simp

text \<open>A bucket made by the client is looked up in the region it was made in: the region asked for,
  or the client's, or \<open>us-east-1\<close>.\<close>

theorem made_bucket_has_region:
  assumes "client_wf c" "MakeBucket e a c = Some (Inr r, c')" "ce_fetch e \<noteq> None"
  shows "GetRegion e (a_bucket a) [] c' = Some (Inr (made_region c a), c')"
  using assms by (rule MakeBucket_GetRegion)

lemma demo_made:
  "\<exists>r. MakeBucket demo_env_of demo_make_bucket (demo_client [answer 200 []])
     = Some (Inr r, set_region ''my-bucket'' ''eu-west-1'' (demo_client []))"
proof -
  have valid: "MakeBucketArgs_Validate demo_make_bucket = SUCCESS" by code_simp
  have "send_request demo_env_of ((bucket_request kPut ''eu-west-1'' demo_make_bucket)\<lparr>q_body := make_bucket_body ''eu-west-1''\<rparr>)
      (demo_client [answer 200 []]) = Some (Inr (response_of (answered 200 [])), demo_client [])"
    unfolding demo_env_of_def
    by (subst send_ok) (simp_all add: bucket_request_def Request_new_def demo_make_bucket_def demo_client_def)
  then show ?thesis
    by (simp add: MakeBucket_def check_def valid with_client_def and_then_def on_result_def modify_def Let_def)
      (simp add: demo_make_bucket_def modify_def)
qed

theorem made_bucket_has_region_witness:
  "GetRegion demo_env_of ''my-bucket'' [] (set_region ''my-bucket'' ''eu-west-1'' (demo_client []))
     = Some (Inr ''eu-west-1'', set_region ''my-bucket'' ''eu-west-1'' (demo_client []))"
proof -
  obtain r where "MakeBucket demo_env_of demo_make_bucket (demo_client [answer 200 []])
     = Some (Inr r, set_region ''my-bucket'' ''eu-west-1'' (demo_client []))" using demo_made by blast
  from made_bucket_has_region [OF _ this] show ?thesis
    by (simp add: made_region_def demo_make_bucket_def)
qed

text \<open>An answer that says the bucket does not exist makes the client forget the region it had for
  the bucket, for every request.\<close>

theorem missing_bucket_is_forgotten:
  assumes "Execute e q s c = Some (Inl err, q', s', c')" "Contains err ''NoSuchBucket''"
  shows "known_region c' (q_bucket_name q) = None"
  using assms by (rule Execute_NoSuchBucket)

definition demo_error :: xnode where
  "demo_error = XElem ''Error'' [xleaf ''Code'' ''NoSuchBucket'', xleaf ''Message'' ''gone'']"

lemma demo_error_read: "read_xml (xml_text demo_error) = Some [demo_error]"
proof -
  have "xok [demo_error]" by (simp add: demo_error_def name_ok_def xvalue_def xplain_def)
  then show ?thesis using reads_plainD [OF reads_plain_read_xml] by (simp add: demo_error_def del: xml_text.simps)
qed

lemma demo_error_response:
  "exchange_error demo_env_of q (answered 404 (xml_text demo_error)) c = ''NoSuchBucket: gone''"
proof -
  have low: "ToLower ''Content-Type'' = ''content-type''" by code_simp
  have "Get ''Content-Type'' (resp_headers (answered 404 (xml_text demo_error))) = [''application/xml'']"
    by (simp add: answered_def add_headers_def) code_simp
  moreover have "is_xml ''application/xml''" by code_simp
  moreover have "resp_body (answered 404 (xml_text demo_error)) \<noteq> []"
    by (simp add: answered_def demo_error_def xtag_def xopen_def)
  ultimately show ?thesis
    unfolding exchange_error_def GetErrorResponse_def
    by (simp add: answered_def demo_env_of_def Response_ParseXML_def demo_error_read Let_def)
      (simp add: demo_error_def xtext_first)
qed

theorem missing_bucket_is_forgotten_witness:
  "\<exists>err q' c'. Execute demo_env_of (bucket_request kDelete ''eu-west-1'' demo_bucket) ()
      (set_region ''my-bucket'' ''eu-west-1'' (demo_client [answer 404 (xml_text demo_error)])) = Some (Inl err, q', (), c')
    \<and> known_region c' ''my-bucket'' = None"
proof -
  let ?q = "bucket_request kDelete ''eu-west-1'' demo_bucket :: unit s3_request"
  let ?c = "set_region ''my-bucket'' ''eu-west-1'' (demo_client [answer 404 (xml_text demo_error)])"
  have q: "q_bucket_name ?q = ''my-bucket''" "q_datafunc ?q = None"
    by (simp_all add: bucket_request_def demo_bucket_def Request_new_def)
  have "send_request demo_env_of ?q ?c = Some (Inl ''NoSuchBucket: gone'', forget ?q ''NoSuchBucket: gone'' (?c\<lparr>cl_world := []\<rparr>))"
    unfolding demo_env_of_def
    by (rule send_fails [where status = 404 and body = "xml_text demo_error" and xs = "[]"])
      (simp_all add: q demo_error_response [unfolded demo_env_of_def])
  then obtain q' c' where run: "Execute demo_env_of ?q () ?c = Some (Inl ''NoSuchBucket: gone'', q', (), c')"
    by (auto simp: send_request_def)
  have "Contains ''NoSuchBucket: gone'' ''NoSuchBucket''" by code_simp
  from missing_bucket_is_forgotten [OF run this] run show ?thesis by (auto simp: q)
qed

text \<open>Once the region of a bucket is known, \<open>BucketExists\<close> never answers that there is none: a
  \<open>HEAD\<close> the server answers with 404 is reported as an error.\<close>

theorem bucket_exists_never_denies:
  assumes "BucketExists e a c = Some (Inr b, c')" "GetRegion e (a_bucket a) (a_region a) c = Some (Inr region, c1)"
  shows "b"
  using assms by (rule BucketExists_True)

lemma demo_region_known: "GetRegion e ''my-bucket'' ''eu-west-1'' (demo_client w) = Some (Inr ''eu-west-1'', demo_client w)"
  by (simp add: GetRegion_def with_client_def ret_def)

theorem bucket_exists_never_denies_witness:
  "\<exists>c'. BucketExists demo_env_of (demo_bucket\<lparr>a_region := ''eu-west-1''\<rparr>) (demo_client [answer 200 []])
      = Some (Inr True, c')
   \<and> (\<exists>err c'. BucketExists demo_env_of (demo_bucket\<lparr>a_region := ''eu-west-1''\<rparr>) (demo_client [answer 404 []])
      = Some (Inl err, c'))"
proof -
  let ?a = "demo_bucket\<lparr>a_region := ''eu-west-1''\<rparr>"
  let ?q = "bucket_request kHead ''eu-west-1'' ?a :: unit s3_request"
  have q: "q_bucket_name ?q \<noteq> []" "q_datafunc ?q = None" "a_bucket ?a = ''my-bucket''" "a_region ?a = ''eu-west-1''"
    by (simp_all add: bucket_request_def demo_bucket_def Request_new_def)
  have "BucketArgs_Validate demo_bucket = SUCCESS" by code_simp
  then have valid: "BucketArgs_Validate ?a = SUCCESS" by (simp add: BucketArgs_Validate_def)
  have yes: "send_request demo_env_of ?q (demo_client [answer 200 []])
      = Some (Inr (response_of (answered 200 [])), demo_client [])"
    unfolding demo_env_of_def by (subst send_ok) (use q in \<open>simp_all add: demo_client_def\<close>)
  have err: "exchange_error demo_env_of ?q (answered 404 []) c = ''ResourceNotFound: Request resource not found''" for c
    by (simp add: exchange_error_def GetErrorResponse_def answered_def bucket_request_def Request_new_def demo_bucket_def)
  have "send_request demo_env_of ?q (demo_client [answer 404 []])
      = Some (Inl ''ResourceNotFound: Request resource not found'',
          forget ?q ''ResourceNotFound: Request resource not found'' (demo_client [answer 404 []]\<lparr>cl_world := []\<rparr>))"
    unfolding demo_env_of_def
    by (intro send_fails [where status = 404 and body = "[]" and xs = "[]"])
      (use q err [unfolded demo_env_of_def] in simp_all)
  then have err404: "\<exists>err c'. BucketExists demo_env_of ?a (demo_client [answer 404 []]) = Some (Inl err, c')"
    by (simp add: BucketExists_def check_def valid on_result_def q demo_region_known and_then_def fail_def)
  obtain b c' where run: "BucketExists demo_env_of ?a (demo_client [answer 200 []]) = Some (Inr b, c')"
    using yes by (simp add: BucketExists_def check_def valid on_result_def q demo_region_known and_then_def ret_def)
  have g: "GetRegion demo_env_of (a_bucket ?a) (a_region ?a) (demo_client [answer 200 []])
      = Some (Inr ''eu-west-1'', demo_client [answer 200 []])"
    unfolding q by (rule demo_region_known)
  have "b" by (rule bucket_exists_never_denies [OF run g])
  with run have "\<exists>c'. BucketExists demo_env_of ?a (demo_client [answer 200 []]) = Some (Inr True, c')" by simp
  with err404 show ?thesis by blast
qed

text \<open>C34: the tags that \<open>SetBucketTags\<close> and \<open>SetObjectTags\<close> send are those that \<open>GetBucketTags\<close> and
  \<open>GetObjectTags\<close> read back from the same document, when no key and no value has a character of XML markup or
  is made of blanks only. The condition is needed: \<open>Validate\<close> accepts other tags, which are not escaped
  (\<open>tag_values_can_add_tags\<close>).\<close>

theorem tags_survive:
  assumes "reads_plain xml" "smap_wf tags" "\<forall>(k, v) \<in> set tags. xvalue k \<and> xvalue v"
  shows "GetBucketTagsResponse_ParseXML xml (tagging_body tags) = Inr tags
    \<and> GetObjectTagsResponse_ParseXML xml (tagging_body tags) = Inr tags"
  using tags_round_trip [OF assms] by blast

theorem tags_survive_witness:
  "GetBucketTagsResponse_ParseXML read_xml (tagging_body [(''env'', ''test''), (''team'', [])])
     = Inr [(''env'', ''test''), (''team'', [])]"
  using tags_survive [OF reads_plain_read_xml, of "[(''env'', ''test''), (''team'', [])]"]
  by (simp add: smap_wf_def xvalue_def xplain_def)

text \<open>The values of tags are not escaped: a value that the client accepts and that closes its own
  elements is read by the server as one more tag.\<close>

theorem tag_values_can_add_tags:
  assumes "reads_plain xml" "smap_wf [(k, v), (k', v')]" "xvalue k" "xvalue v" "xvalue k'" "xvalue v'"
  shows "GetBucketTagsResponse_ParseXML xml (tagging_body [(k, smuggled v k' v')]) = Inr [(k, v), (k', v')]"
  using tags_round_trip(1) [OF assms(1,2)] assms(3-6) by (simp add: tagging_smuggled)

theorem tag_values_can_add_tags_witness:
  "validate_tags [(''env'', smuggled ''test'' ''owner'' ''me'')] = SUCCESS
   \<and> GetBucketTagsResponse_ParseXML read_xml (tagging_body [(''env'', smuggled ''test'' ''owner'' ''me'')])
       = Inr [(''env'', ''test''), (''owner'', ''me'')]"
proof -
  have "validate_tags [(''env'', smuggled ''test'' ''owner'' ''me'')] = SUCCESS" by code_simp
  then show ?thesis
    using tag_values_can_add_tags [OF reads_plain_read_xml, of "''env''" "''test''" "''owner''" "''me''"]
    by (simp add: smap_wf_def xvalue_def xplain_def)
qed

text \<open>C35: versioning, object lock, encryption and legal hold documents that the client sends are read
  back by the client's own parsers as what was set, for every configuration that validates and
  needs no escape.\<close>

theorem settings_survive:
  assumes "reads_plain xml"
    "duration_ok (olc_retention_duration_days lock)" "duration_ok (olc_retention_duration_years lock)"
    "ObjectLockConfig_Validate lock = SUCCESS" "xvalue (sse_algorithm sse)" "xvalue (kms_master_key_id sse)"
  shows "parse_versioning xml (versioning_body status mfa) = Inr (status, mfa)
    \<and> parse_object_lock xml (object_lock_body lock) = Some (Inr lock)
    \<and> GetBucketEncryptionResponse_ParseXML xml (encryption_body sse) = Inr sse
    \<and> parse_legal_hold xml (legal_hold_body (if on then ''ON'' else ''OFF'')) = Inr on"
  using versioning_round_trip [OF assms(1)] lock_round_trip [OF assms(1-4)]
    encryption_round_trip [OF assms(1,5,6)] legal_hold_round_trip [OF assms(1)] by blast

definition demo_lock :: object_lock_config where
  "demo_lock = \<lparr>olc_retention_mode = kCompliance, olc_retention_duration_days = Some 30,
     olc_retention_duration_years = None\<rparr>"

theorem settings_survive_witness:
  "parse_object_lock read_xml (object_lock_body demo_lock) = Some (Inr demo_lock)
   \<and> parse_versioning read_xml (versioning_body (Some False) None) = Inr (Some False, None)"
  using settings_survive [OF reads_plain_read_xml, of demo_lock "SseConfig_Kms ''key''" "Some False" None True]
  by (simp add: demo_lock_def duration_ok_def ObjectLockConfig_Validate_def SseConfig_Kms_def xvalue_def xplain_def)

text \<open>A replication configuration is read back as it was set when no rule has a replication time
  or a metric without minutes, tags under \<open>And\<close>, a filter that is set in an even number of ways, or
  a negative priority.\<close>

theorem replication_survives:
  assumes "reads_plain xml" "xok (replication_nodes cfg)" "\<forall>r \<in> set (rc_rules cfg). rule_ok r"
  shows "GetBucketReplicationResponse_ParseXML xml (ReplicationConfig_ToXML cfg) = Some (Inr cfg)"
  using assms by (rule replication_round_trip)

definition demo_rule :: replication_rule where
  "demo_rule = \<lparr>rr_destination = \<lparr>d_bucket_arn = ''arn:aws:s3:::b'', d_access_control_translation = None,
       d_account = [], d_encryption_config = None, d_metrics = Some (15, True), d_replication_time = None,
       d_storage_class = ''STANDARD''\<rparr>,
     rr_delete_marker_replication_status = Some False, rr_existing_object_replication_status = None,
     rr_filter = \<lparr>f_and = \<lparr>and_prefix = None, and_tags = []\<rparr>, f_prefix = Some ''logs'', f_tag = ([], [])\<rparr>,
     rr_id = ''r1'', rr_prefix = None, rr_priority = Some 1, rr_source_selection_criteria = None,
     rr_delete_replication_status = None, rr_status = True\<rparr>"

lemma demo_rule_xok: "xok (replication_nodes \<lparr>rc_role = ''role'', rc_rules = [demo_rule]\<rparr>)"
  by code_simp

theorem replication_survives_witness:
  "GetBucketReplicationResponse_ParseXML read_xml (ReplicationConfig_ToXML \<lparr>rc_role = ''role'', rc_rules = [demo_rule]\<rparr>)
     = Some (Inr \<lparr>rc_role = ''role'', rc_rules = [demo_rule]\<rparr>)"
  using replication_survives [OF reads_plain_read_xml demo_rule_xok]
  by (simp add: rule_ok_def demo_rule_def destination_ok_def filter_ok_def duration_ok_def rule_filter_bool_def
      and_operator_bool_def)

text \<open>A rule with a replication time cannot be read: the printer puts the minutes in a child of
  \<open>Time\<close>, the parser looks for them in \<open>Time\<close> itself, and \<open>std::stoul\<close> throws on the empty text.\<close>

theorem replication_time_is_unreadable:
  assumes "reads_plain xml" "xok (replication_nodes cfg)" "r \<in> set (rc_rules cfg)"
    "d_replication_time (rr_destination r) \<noteq> None"
  shows "GetBucketReplicationResponse_ParseXML xml (ReplicationConfig_ToXML cfg) = None"
  using assms by (rule replication_time_throws)

definition demo_rule_time :: replication_rule where
  "demo_rule_time = demo_rule\<lparr>rr_destination := rr_destination demo_rule\<lparr>d_replication_time := Some (15, True)\<rparr>\<rparr>"

theorem replication_time_is_unreadable_witness:
  "GetBucketReplicationResponse_ParseXML read_xml
     (ReplicationConfig_ToXML \<lparr>rc_role = ''role'', rc_rules = [demo_rule_time]\<rparr>) = None"
proof -
  have "xok (replication_nodes \<lparr>rc_role = ''role'', rc_rules = [demo_rule_time]\<rparr>)"
    by code_simp
  then show ?thesis
    by (intro replication_time_is_unreadable [OF reads_plain_read_xml, where r = demo_rule_time])
      (simp_all add: demo_rule_time_def)
qed

text \<open>C37: whatever the chunks in which a notification stream arrives, the caller is given the records
  of its complete lines, line by line and in order, until it declines or a line does not parse.\<close>

theorem notifications_in_lines:
  assumes "\<forall>x \<in> set ls. CHR 0x0A \<notin> set x" "CHR 0x0A \<notin> set tail"
    "concat cs = concat (map line_feed ls) @ tail"
  shows "listen_feed l [] s cs = deliver_lines l ls s"
  using assms by (rule listen_feed_lines)

definition demo_event :: json where
  "demo_event = JObject [(''Records'', JArray [JObject [(''eventName'', JString ''s3:ObjectCreated:Put'')]])]"

definition demo_reader :: "string list listener" where
  "demo_reader = \<lparr>li_parse = (\<lambda>s. if s = ''{}'' then Some demo_event else None),
     li_func = (\<lambda>s rs. (True, s @ map nr_event_name rs))\<rparr>"

theorem notifications_in_lines_witness:
  "listen_feed demo_reader [] [] [''{'', [CHR ''}'', CHR 0x0A, CHR 0x0A], ''{}'' @ [CHR 0x0A] @ ''{'']
     = Some (True, [''s3:ObjectCreated:Put'', ''s3:ObjectCreated:Put''])"
proof -
  have "listen_line demo_reader ''{}'' s = Some (True, s @ [''s3:ObjectCreated:Put''])" for s
    by (simp add: listen_line_def demo_reader_def demo_event_def Trim_def json_sub_def NotificationRecord_ParseJSON_def)
  moreover have "listen_line demo_reader [] s = Some (True, s)" for s
    by (simp add: listen_line_def Trim_def)
  ultimately have "deliver_lines demo_reader [''{}'', [], ''{}''] [] = Some (True, [''s3:ObjectCreated:Put'', ''s3:ObjectCreated:Put''])"
    by simp
  then show ?thesis
    using notifications_in_lines [of "[''{}'', [], ''{}'']" "''{''"
        "[''{'', [CHR ''}'', CHR 0x0A, CHR 0x0A], ''{}'' @ [CHR 0x0A] @ ''{'']" demo_reader "[]"]
    by (simp add: line_feed_def)
qed

text \<open>\<open>SetObjectRetention\<close> cannot set a retention mode: its validation rejects the two modes there
  are, and sends nothing.\<close>

theorem retention_modes_are_rejected:
  assumes "IsRetentionModeValid (a_retention_mode a)"
  shows "\<exists>err. SetObjectRetention e a c = Some (Inl err, c) \<and> err \<noteq> SUCCESS"
proof -
  have "SetObjectRetentionArgs_Validate a \<noteq> SUCCESS"
    using assms by (auto simp: SetObjectRetentionArgs_SUCCESS)
  moreover from this have "SetObjectRetention e a c = Some (Inl (SetObjectRetentionArgs_Validate a), c)"
    by (simp add: SetObjectRetention_def check_rejects is_err_def SUCCESS_def)
  ultimately show ?thesis by blast
qed

definition demo_retention :: set_object_retention_args where
  "demo_retention = \<lparr>a_extra_headers = mm_empty, a_extra_query_params = mm_empty, a_bucket = ''my-bucket'',
     a_region = [], a_object = ''o'', a_version_id = [], a_retention_mode = kGovernance, a_retain_until_date = demo_now\<rparr>"

theorem retention_modes_are_rejected_witness:
  "\<exists>err. SetObjectRetention demo_env_of demo_retention (demo_client []) = Some (Inl err, demo_client []) \<and> err \<noteq> SUCCESS"
  by (rule retention_modes_are_rejected) (simp add: demo_retention_def)

text \<open>C38: the headers of a read ask the server for the bytes that the caller asks for by offset and length
  (all from the offset on without a length, the whole object without both), when the end of the range is below
  2^64 and the customer key adds no \<open>Range\<close>, in every case but one: a length of 0 is printed as a
  range whose last byte is before its first, which a server ignores, or as the range up to 2^64 - 1.\<close>

theorem range_header_is_exact:
  assumes "\<forall>s. a_ssec a = Some s \<longrightarrow> mm_wf (sse_headers s) \<and> mm_vals (sse_headers s) ''Range'' = {}"
    "(case a_offset a of None \<Rightarrow> 0 | Some off \<Rightarrow> unat off) + (case a_length a of None \<Rightarrow> 0 | Some len \<Rightarrow> unat len) \<le> 2 ^ 64 - 1"
  shows "header_reads (ObjectConditionalReadArgs_Headers tz a) = asked_bytes a \<longleftrightarrow> a_length a \<noteq> Some 0"
proof -
  have "mm_wf (sse_headers s) \<and> mm_vals (sse_headers s) ''Range'' = {}" if "a_ssec a = Some s" for s
    using assms(1) that by blast
  from header_reads_asked [OF this assms(2)] show ?thesis .
qed

definition demo_range :: "u64 option \<Rightarrow> u64 option \<Rightarrow> object_conditional_read_args" where
  "demo_range off len = \<lparr>a_extra_headers = mm_empty, a_extra_query_params = mm_empty, a_bucket = ''my-bucket'',
     a_region = [], a_object = ''o'', a_version_id = [], a_ssec = None, a_offset = off, a_length = len,
     a_match_etag = [], a_not_match_etag = [], a_modified_since = utc_default, a_unmodified_since = utc_default\<rparr>"

theorem range_header_is_exact_witness:
  "header_reads (ObjectConditionalReadArgs_Headers 0 (demo_range (Some 10) (Some 5))) = {10..<15}
   \<and> header_reads (ObjectConditionalReadArgs_Headers 0 (demo_range (Some 7) None)) = {7..}
   \<and> header_reads (ObjectConditionalReadArgs_Headers 0 (demo_range (Some 5) (Some 0))) \<noteq> {}"
  using range_header_is_exact [of "demo_range (Some 10) (Some 5)" 0] range_header_is_exact [of "demo_range (Some 7) None" 0]
    range_header_is_exact [of "demo_range (Some 5) (Some 0)" 0]
  by (simp add: demo_range_def asked_bytes_def)

text \<open>C39: \<open>BuildHeaders\<close> accepts a source of a composition, of an object of \<open>n < 2^63\<close> bytes, exactly when
  the source lies inside the object: its offset, if it has one, is that of a byte of the object, and its length,
  if it has one, ends inside. It then remembers the size.\<close>

theorem compose_source_in_object:
  assumes "unat n < 2 ^ 63"
  shows "(fst (ComposeSource_BuildHeaders tz a n etag) = SUCCESS \<longleftrightarrow>
      (a_offset a = None \<or> unat (the (a_offset a)) < unat n)
      \<and> (a_length a = None
         \<or> (case a_offset a of None \<Rightarrow> 0 | Some off \<Rightarrow> unat off) + unat (the (a_length a)) \<le> unat n))
    \<and> (fst (ComposeSource_BuildHeaders tz a n etag) \<noteq> SUCCESS
       \<or> cs_object_size (snd (ComposeSource_BuildHeaders tz a n etag)) = Some n)"
proof
  have off: "unat (case a_offset a of None \<Rightarrow> 0 | Some off \<Rightarrow> off) = (case a_offset a of None \<Rightarrow> 0 | Some off \<Rightarrow> unat off)"
    by (simp split: option.split)
  show "fst (ComposeSource_BuildHeaders tz a n etag) = SUCCESS \<longleftrightarrow>
      (a_offset a = None \<or> unat (the (a_offset a)) < unat n)
      \<and> (a_length a = None
         \<or> (case a_offset a of None \<Rightarrow> 0 | Some off \<Rightarrow> unat off) + unat (the (a_length a)) \<le> unat n)"
    unfolding ComposeSource_accepts [OF assms] off by (cases "a_offset a"; cases "a_length a") simp_all
  show "fst (ComposeSource_BuildHeaders tz a n etag) \<noteq> SUCCESS
       \<or> cs_object_size (snd (ComposeSource_BuildHeaders tz a n etag)) = Some n"
    using ComposeSource_in_object(1) [OF _ assms, of tz a etag "snd (ComposeSource_BuildHeaders tz a n etag)"]
    by (cases "ComposeSource_BuildHeaders tz a n etag") auto
qed

definition demo_source :: "u64 option \<Rightarrow> u64 option \<Rightarrow> compose_source" where
  "demo_source off len = \<lparr>a_extra_headers = mm_empty, a_extra_query_params = mm_empty, a_bucket = ''my-bucket'',
     a_region = [], a_object = ''o'', a_version_id = [], a_ssec = None, a_offset = off, a_length = len,
     a_match_etag = [], a_not_match_etag = [], a_modified_since = utc_default, a_unmodified_since = utc_default,
     cs_object_size = None, cs_headers = mm_empty\<rparr>"

theorem compose_source_in_object_witness:
  "fst (ComposeSource_BuildHeaders 0 (demo_source (Some 5) (Some 10)) 15 ''e'') = SUCCESS
   \<and> fst (ComposeSource_BuildHeaders 0 (demo_source (Some 15) None) 15 ''e'') \<noteq> SUCCESS
   \<and> fst (ComposeSource_BuildHeaders 0 (demo_source (Some 14) None) 15 ''e'') = SUCCESS"
  using compose_source_in_object [of 15 0 "demo_source (Some 5) (Some 10)" "''e''"]
    compose_source_in_object [of 15 0 "demo_source (Some 15) None" "''e''"]
    compose_source_in_object [of 15 0 "demo_source (Some 14) None" "''e''"]
  by (simp add: demo_source_def)

text \<open>C40: a browser form that carries the fields \<open>FormData\<close> returns and meets the conditions of the
  policy is accepted by a server that decodes the policy, checks its conditions on the form and
  recomputes the signature.\<close>

theorem form_data_is_accepted:
  assumes "FormData cr dump date ak sk token region p = (Inr data, p')"
    "doc = policy_json cr date p' (getCredentialString cr ak date region) token"
    "policy_of (base64 cr (dump doc)) = Some doc"
    "year_ok (timezone cr) date" "credential_word ak" "credential_word region" "secret_of ak = sk"
    "\<forall>k v. map_of data k = Some v \<longrightarrow> form k = v" "meets_conditions form n p'"
  shows "server_post_ok cr secret_of policy_of form n"
  using assms by (intro FormData_accepted [OF assms(1)]) auto

definition demo_policy :: post_policy where
  "demo_policy = snd (AddEqualsCondition ''key'' ''photos/a'' (PostPolicy_new ''my-bucket'' demo_now))"

text \<open>The fields of \<open>FormData\<close> and, beside them, those of the caller.\<close>

definition demo_form :: "(string \<times> string) list \<Rightarrow> string \<Rightarrow> string" where
  "demo_form data k = (case map_of data k of
     Some v \<Rightarrow> v
   | None \<Rightarrow> if k = ''bucket'' then ''my-bucket'' else if k = ''key'' then ''photos/a'' else [])"

lemma demo_policy_keyed: "has_key_condition demo_policy = (True, demo_policy)"
  by code_simp

theorem form_data_is_accepted_witness:
  "\<exists>data doc. FormData demo_crypto (\<lambda>_. ''policy'') demo_now ''AK'' ''SK'' [] ''eu-west-1'' demo_policy = (Inr data, demo_policy)
    \<and> server_post_ok demo_crypto (\<lambda>_. ''SK'') (\<lambda>s. if s = ''bpolicy'' then Some doc else None) (demo_form data) 0"
proof -
  define doc where "doc = policy_json demo_crypto demo_now demo_policy
      (getCredentialString demo_crypto ''AK'' demo_now ''eu-west-1'') []"
  obtain data where run: "FormData demo_crypto (\<lambda>_. ''policy'') demo_now ''AK'' ''SK'' [] ''eu-west-1'' demo_policy
      = (Inr data, demo_policy)"
    and none: "map_of data ''bucket'' = None" "map_of data ''key'' = None"
    by (simp add: FormData_def demo_policy_keyed Let_def smap_put_def)
  have "meets_conditions (demo_form data) 0 demo_policy"
    using none by (simp add: meets_conditions_def demo_policy_def AddEqualsCondition_def PostPolicy_new_def
        set_condition_def trimDollar_def isReservedElement_def smap_put_def or_default_def demo_form_def)
  then have "server_post_ok demo_crypto (\<lambda>_. ''SK'') (\<lambda>s. if s = ''bpolicy'' then Some doc else None) (demo_form data) 0"
    by (intro form_data_is_accepted [OF run doc_def])
      (simp_all add: demo_year credential_word_def demo_form_def demo_crypto_def)
  with run show ?thesis by blast
qed

subsection \<open>Uploads\<close>

text \<open>C6: an upload without parallel parts stores its object: a \<open>PutObject\<close> whose stream has the bytes that
  were announced (or an unknown number of them) does what the specification says for the pieces of the
  object, which is one \<open>PutObject\<close> request or a multipart upload that is completed, or aborted after an
  error; put together, the pieces are the object.\<close>

theorem upload_stores_pieces:
  assumes "PutObjectArgs_Validate a0 = (SUCCESS, a)" "a_stream a = Some s" "stream_fits a s"
    "\<not> 1 < inflight_wanted a" "alloc 1 (unat (buffer_size a))"
    "upload_headers (timezone (ce_crypto e)) a = Some hs"
  shows "Client_PutObject alloc sched e a0 c = check_tls a (put_pieces e a hs (object_pieces a s)) c
    \<and> concat (object_pieces a s) = object_bytes a s"
proof -
  have "put_sequential alloc e a = put_pieces e a hs (object_pieces a s)"
    by (rule ext) (rule validated_upload [of a0 a s alloc e hs, OF assms(1-3,5,6)])
  then show ?thesis using assms(1,4) by (simp add: Client_PutObject_def check_def object_pieces_concat)
qed

definition demo_put :: "u64 option \<Rightarrow> u64 \<Rightarrow> u32 option \<Rightarrow> string \<Rightarrow> put_object_args" where
  "demo_put osize psize inflight bytes =
     \<lparr>a_extra_headers = mm_empty, a_extra_query_params = mm_empty, a_bucket = ''my-bucket'', a_region = ''us-east-1'',
      a_object = ''o'', a_headers = mm_empty, a_user_metadata = mm_empty, a_sse = None, a_tags = [],
      a_retention = None, a_legal_hold = False, a_object_size = osize, a_part_size = psize, a_part_count = None,
      a_content_type = [], a_stream = Some \<lparr>is_bytes = bytes, is_throws = False\<rparr>, a_put_buf = None, a_size = None,
      a_checksum_crc64nvme = [], a_max_inflight_parts = inflight\<rparr>"

definition demo_hello :: put_object_args where
  "demo_hello = (demo_put (Some 5) 5242880 None ''hello'')\<lparr>a_part_size := 5, a_part_count := Some 1\<rparr>"

lemma demo_names:
  "a_bucket b = ''my-bucket'' \<Longrightarrow> BucketArgs_Validate b = SUCCESS" "CheckNonEmptyString ''o''"
proof -
  have "CheckBucketName ''my-bucket'' True = SUCCESS" by code_simp
  then have "bucket_name_ok False ''my-bucket''"
    by (auto simp: CheckBucketName_iff bucket_name_ok_def BucketName.end_ok_def mid_ok_def)
  then show "a_bucket b = ''my-bucket'' \<Longrightarrow> BucketArgs_Validate b = SUCCESS"
    by (simp add: BucketArgs_Validate_def CheckBucketName_iff)
  show "CheckNonEmptyString ''o''" by code_simp
qed

lemma demo_object_valid: "a_bucket b = ''my-bucket'' \<Longrightarrow> a_object b = ''o'' \<Longrightarrow> ObjectArgs_Validate b = SUCCESS"
  by (simp add: ObjectArgs_SUCCESS demo_names)

lemma demo_put_names [simp]: "a_bucket (demo_put osize psize inflight bytes) = ''my-bucket''"
  "a_object (demo_put osize psize inflight bytes) = ''o''"
  by (simp_all add: demo_put_def)

lemma demo_hello_valid: "PutObjectArgs_Validate (demo_put (Some 5) 5242880 None ''hello'') = (SUCCESS, demo_hello)"
proof -
  have "CalcPartInfo (Some 5) 5242880 None = (SUCCESS, 5, Some 1)" by code_simp
  then show ?thesis
    by (simp add: PutObjectArgs_Validate_def demo_object_valid Let_def plan_parts_def)
      (simp add: demo_put_def demo_hello_def)
qed


theorem upload_stores_pieces_witness:
  "\<exists>resp. Client_PutObject (\<lambda>_ _. True) [] demo_env_of (demo_put (Some 5) 5242880 None ''hello'') (demo_client [answer 200 []])
     = Some (Inr resp, demo_client []) \<and> object_pieces demo_hello \<lparr>is_bytes = ''hello'', is_throws = False\<rparr> = [''hello'']"
proof -
  let ?s = "\<lparr>is_bytes = ''hello'', is_throws = False\<rparr>" and ?c = "demo_client [answer 200 []]"
  have hello: "a_stream demo_hello = Some ?s" "stream_fits demo_hello ?s" "\<not> 1 < inflight_wanted demo_hello"
    "object_pieces demo_hello ?s = [''hello'']" "a_sse demo_hello = None" "a_bucket demo_hello = ''my-bucket''"
    "a_region demo_hello = ''us-east-1''"
    by (simp_all add: demo_hello_def demo_put_def stream_fits_def inflight_wanted_def object_pieces_def object_bytes_def
        split_every.simps)
  obtain hs where hs: "upload_headers 0 demo_hello = Some hs"
    by (simp add: upload_headers_def ObjectWriteArgs_Headers_def demo_hello_def demo_put_def Let_def)
  have valid: "ObjectArgs_Validate (single_put_args demo_hello hs data) = SUCCESS" for data
    by (rule demo_object_valid) (simp_all add: single_put_args_def demo_hello_def)
  have "send_request demo_env_of (put_object_request (single_put_args demo_hello hs ''hello'') ''us-east-1'') ?c
      = Some (Inr (response_of (answered 200 [])), demo_client [])"
    unfolding demo_env_of_def
    by (subst send_ok) (simp_all add: put_object_request_def single_put_args_def with_headers_def with_params_def
        object_request_def bucket_request_def Request_new_def hello demo_client_def)
  then have "\<exists>resp. put_pieces demo_env_of demo_hello hs [''hello''] ?c = Some (Inr resp, demo_client [])"
    by (simp add: put_pieces_def ObjectApi.PutObject_def check_def valid)
      (simp add: in_region_def GetRegion_def with_client_def single_put_args_def hello)
  then show ?thesis
    using upload_stores_pieces [OF demo_hello_valid hello(1-3), of "\<lambda>_ _. True" demo_env_of hs "[]" ?c] hs
    by (simp add: check_tls_def with_client_def hello demo_env_of_def)
qed

text \<open>C15: a stream that ends before the announced size is never stored, by a sequential or a parallel upload,
  with any schedule: the call ends in an error, and all that it does to the server is to start multipart
  uploads, to send parts of them and to abort them. No upload is completed and no object is put.\<close>

theorem short_stream_is_not_stored:
  assumes "PutObjectArgs_Validate a0 = (SUCCESS, a)" "a_stream a = Some s" "a_object_size a = Some n"
    "length (is_bytes s) < unat n" "Client_PutObject alloc sched e a0 c = Some (r, c')"
  shows "(\<exists>err. r = Inl err) \<and> uncommitted e c c'"
  using assms by (rule short_call)

definition demo_short :: put_object_args where
  "demo_short = (demo_put (Some 5) 5242880 None ''hell'')\<lparr>a_part_size := 5, a_part_count := Some 1\<rparr>"

theorem short_stream_is_not_stored_witness:
  "\<exists>err. Client_PutObject (\<lambda>_ _. True) [] demo_env_of (demo_put (Some 5) 5242880 None ''hell'') (demo_client [])
     = Some (Inl err, demo_client []) \<and> uncommitted demo_env_of (demo_client []) (demo_client [])"
proof -
  have plan: "CalcPartInfo (Some 5) 5242880 None = (SUCCESS, 5, Some 1)" by code_simp
  have valid: "PutObjectArgs_Validate (demo_put (Some 5) 5242880 None ''hell'') = (SUCCESS, demo_short)"
    by (simp add: PutObjectArgs_Validate_def demo_object_valid Let_def plan_parts_def)
      (simp add: demo_put_def demo_short_def plan)
  let ?s = "\<lparr>is_bytes = ''hell'', is_throws = False\<rparr>"
  have short: "a_stream demo_short = Some ?s" "a_object_size demo_short = Some 5" "\<not> 1 < inflight_wanted demo_short"
    "a_sse demo_short = None"
    by (simp_all add: demo_short_def demo_put_def inflight_wanted_def)
  obtain hs where hs: "upload_headers 0 demo_short = Some hs"
    by (simp add: upload_headers_def ObjectWriteArgs_Headers_def demo_short_def demo_put_def Let_def)
  obtain err data r where "next_part (Some 5) (reader_new demo_short ?s) = Some (err, data, r)" "is_err err"
    by (simp add: next_part_def read_part_data_def read_exactly_def ReadPart_def reader_new_def demo_short_def is_err_def
        Let_def)
  moreover have "\<not> pr_stop (reader_new demo_short ?s)" by (simp add: reader_new_def)
  ultimately have "put_parts demo_env_of demo_short hs (reader_new demo_short ?s) [] [] c = Some (Inl err, [], c)" for c
    by (subst put_parts.simps) (simp add: short)
  then have run: "Client_PutObject (\<lambda>_ _. True) [] demo_env_of (demo_put (Some 5) 5242880 None ''hell'') (demo_client [])
      = Some (Inl err, demo_client [])"
    using valid hs short
    by (simp add: Client_PutObject_def check_def check_tls_def with_client_def put_sequential_def abort_upload_def
        fail_def demo_env_of_def)
  have "uncommitted demo_env_of (demo_client []) (demo_client [])"
    using short_stream_is_not_stored [OF valid short(1,2) _ run] by simp
  with run show ?thesis by blast
qed

text \<open>C2: while parts are uploaded at the same time, whatever the order in which the threads run: no more
  than the limit and no more than 100 are in flight, no two of them use the same buffer, and every
  thread sends the bytes of its own piece, although the buffers are used again and again.\<close>

theorem parallel_parts_keep_their_bytes:
  assumes "par_call a0 a s" "par_reaches e a s c st c'"
  shows "length (ps_inflight st) \<le> unat (inflight_limit a) \<and> unat (inflight_limit a) \<le> 100
    \<and> distinct (map j_slot (ps_inflight st))
    \<and> (\<forall>j \<in> set (ps_inflight st). 1 \<le> unat (j_number j) \<and> unat (j_number j) \<le> length (object_pieces a s)
        \<and> job_view (ps_pool st) j = object_pieces a s ! (unat (j_number j) - 1))"
proof -
  obtain k where inv: "par_inv (unat (buffer_size a)) (unat (inflight_limit a)) (a_object_size a) (object_pieces a s) k st"
    using par_reaches_inv [OF assms] by blast
  have "length (object_pieces a s) < 2 ^ 32"
    using assms(1) validated_delivers(2) by (auto simp: par_call_def)
  with inv show ?thesis
    using par_inv_views par_inv_slots inflight_limit_bounds(2) by blast
qed

text \<open>An upload of six mebibytes in two parts.\<close>

definition demo_bytes :: string where
  "demo_bytes = replicate 6291456 (CHR ''x'')"

definition demo_istream :: istream where
  "demo_istream = \<lparr>is_bytes = demo_bytes, is_throws = False\<rparr>"

definition demo_big :: put_object_args where
  "demo_big = (demo_put (Some 6291456) 5242880 (Some 2) demo_bytes)\<lparr>a_part_count := Some 2\<rparr>"

lemma demo_bytes_length [simp]: "length demo_bytes = 6291456"
  by (simp add: demo_bytes_def)

lemma demo_big_simps [simp]:
  "a_stream demo_big = Some demo_istream" "a_object_size demo_big = Some 6291456" "a_part_size demo_big = 5242880"
  "a_part_count demo_big = Some 2" "a_sse demo_big = None" "a_bucket demo_big = ''my-bucket''"
  "a_region demo_big = ''us-east-1''" "a_object demo_big = ''o''" "is_bytes demo_istream = demo_bytes" "is_throws demo_istream = False"
  by (simp_all add: demo_big_def demo_put_def demo_istream_def)

lemma demo_big_limit [simp]: "inflight_wanted demo_big = 2" "inflight_limit demo_big = 2"
proof -
  show w: "inflight_wanted demo_big = 2" by (simp add: inflight_wanted_def) (simp add: demo_big_def demo_put_def)
  show "inflight_limit demo_big = 2" by (simp add: inflight_limit_def w min_def)
qed

lemma demo_big_pieces:
  "object_pieces demo_big demo_istream = [take 5242880 demo_bytes, drop 5242880 demo_bytes]"
  by (simp add: object_pieces_def object_bytes_def split_every_more split_every_last)

lemma demo_big_valid: "PutObjectArgs_Validate (demo_put (Some 6291456) 5242880 (Some 2) demo_bytes) = (SUCCESS, demo_big)"
proof -
  have "CalcPartInfo (Some 6291456) 5242880 None = (SUCCESS, 5242880, Some 2)" by code_simp
  then show ?thesis
    by (simp add: PutObjectArgs_Validate_def demo_object_valid Let_def plan_parts_def)
      (simp add: demo_put_def demo_big_def)
qed

lemma demo_big_call: "par_call (demo_put (Some 6291456) 5242880 (Some 2) demo_bytes) demo_big demo_istream"
  by (simp add: par_call_def demo_big_valid stream_fits_def demo_big_pieces)

definition demo_upload_headers :: multimap where
  "demo_upload_headers = Add ''Content-Type'' ''application/octet-stream'' mm_empty"

lemma demo_big_headers: "upload_headers 0 demo_big = Some demo_upload_headers"
proof -
  have "AddAll mm_empty (AddAll mm_empty (AddAll mm_empty mm_empty)) = mm_empty" by code_simp
  then have "ObjectWriteArgs_Headers 0 demo_big = Some mm_empty"
    by (simp add: ObjectWriteArgs_Headers_def Let_def) (simp add: demo_big_def demo_put_def)
  moreover have "\<not> mm_Contains ''Content-Type'' mm_empty" by code_simp
  ultimately show ?thesis
    by (simp add: upload_headers_def demo_upload_headers_def) (simp add: demo_big_def demo_put_def)
qed

lemma demo_no_sha [simp]: "\<not> mm_Contains ''x-amz-content-sha256'' demo_upload_headers"
  unfolding demo_upload_headers_def by code_simp

text \<open>The answers of a server that never fails.\<close>

definition demo_upload_id :: xnode where
  "demo_upload_id = XElem ''InitiateMultipartUploadResult'' [XElem ''UploadId'' [XText ''U'']]"

definition demo_put_ok :: put_object_response where
  "demo_put_ok = put_response (response_of (answered 200 []))"

lemma demo_region: "a_region a = ''us-east-1'' \<Longrightarrow> in_region e a k (demo_client w) = k ''us-east-1'' (demo_client w)"
  by (simp add: in_region_def and_then_def on_result_def GetRegion_def with_client_def ret_def)

lemma demo_send:
  "q_bucket_name q \<noteq> [] \<Longrightarrow> q_datafunc q = None
    \<Longrightarrow> send_request demo_env_of q (demo_client (answer 200 body # xs))
      = Some (Inr (response_of (answered 200 body)), demo_client xs)"
  unfolding demo_env_of_def by (subst send_ok) (simp_all add: demo_client_def)

lemma demo_UploadPart:
  assumes "1 \<le> unat n" "unat n \<le> 10000"
  shows "UploadPart demo_env_of ((part_args demo_big demo_upload_headers ''U'' n d)\<lparr>a_part_data := data\<rparr>)
      (demo_client (answer 200 [] # xs)) = Some (Inr demo_put_ok, demo_client xs)"
proof -
  have "CheckNonEmptyString ''U''" by code_simp
  then have valid: "UploadPartArgs_Validate ((part_args demo_big demo_upload_headers ''U'' n d)\<lparr>a_part_data := data\<rparr>) = SUCCESS"
    using assms by (simp add: err_simps demo_names part_args_def Let_def)
  let ?a = "upload_part_api_args ((part_args demo_big demo_upload_headers ''U'' n d)\<lparr>a_part_data := data\<rparr>)"
  have a: "a_bucket ?a = ''my-bucket''" "a_region ?a = ''us-east-1''" "a_object ?a = ''o''"
    by (simp_all add: upload_part_api_args_def part_args_def Let_def)
  have "send_request demo_env_of (put_object_request ?a ''us-east-1'') (demo_client (answer 200 [] # xs))
      = Some (Inr (response_of (answered 200 [])), demo_client xs)"
    by (rule demo_send) (simp_all add: put_object_request_def a(1) object_request_def bucket_request_def
        with_headers_def with_params_def Request_new_def)
  then show ?thesis
    using demo_object_valid [OF a(1,3)]
    by (simp add: UploadPart_def valid check_def ObjectApi.PutObject_def demo_region [OF a(2)] demo_put_ok_def)
qed

lemma demo_Create:
  "CreateMultipartUpload demo_env_of (create_upload_args demo_big hs) (demo_client (answer 200 (xml_text demo_upload_id) # xs))
    = Some (Inr ''U'', demo_client xs)"
proof -
  let ?a = "create_upload_args demo_big hs"
  have a: "a_bucket ?a = ''my-bucket''" "a_region ?a = ''us-east-1''" "a_object ?a = ''o''"
    by (simp_all add: create_upload_args_def)
  have "xok [demo_upload_id]" by (simp add: demo_upload_id_def name_ok_def xplain_def)
  then have "load_string read_xml (xml_text demo_upload_id) = Some [demo_upload_id]"
    using load_string_plain [OF reads_plain_read_xml] by (simp add: demo_upload_id_def del: xml_text.simps)
  moreover have "xtext [''InitiateMultipartUploadResult'', ''UploadId''] [demo_upload_id] = ''U''"
    by (simp add: demo_upload_id_def xtext_def)
  ultimately have "parse_upload_id read_xml (xml_text demo_upload_id) = Inr ''U''" by (simp add: parse_upload_id_def)
  moreover have "send_request demo_env_of (with_headers h (with_param ''uploads'' [] (object_request kPost ''us-east-1'' ?a)))
      (demo_client (answer 200 (xml_text demo_upload_id) # xs))
    = Some (Inr (response_of (answered 200 (xml_text demo_upload_id))), demo_client xs)" for h
    by (rule demo_send) (simp_all add: a(1) object_request_def bucket_request_def with_param_def with_headers_def Request_new_def)
  ultimately show ?thesis
    using demo_object_valid [OF a(1,3)]
    by (simp add: CreateMultipartUpload_def check_def demo_region [OF a(2)] lift_result_def)
qed

definition demo_completed :: xnode where
  "demo_completed = XElem ''CompleteMultipartUploadResult'' [XElem ''ETag'' [XText ''e'']]"

lemma demo_Complete:
  "\<exists>resp. CompleteMultipartUpload demo_env_of (complete_args demo_big ''U'' parts)
    (demo_client (answer 200 (xml_text demo_completed) # xs)) = Some (Inr resp, demo_client xs)"
proof -
  let ?a = "complete_args demo_big ''U'' parts"
  have a: "a_bucket ?a = ''my-bucket''" "a_region ?a = ''us-east-1''" "a_object ?a = ''o''"
    by (simp_all add: complete_args_def)
  have "xok [demo_completed]" by (simp add: demo_completed_def name_ok_def xplain_def)
  then have "read_xml (xml_text demo_completed) = Some [demo_completed]"
    using reads_plainD [OF reads_plain_read_xml] by (simp add: demo_completed_def del: xml_text.simps)
  moreover have "CheckNonEmptyString ''U''" by code_simp
  then have "CompleteMultipartUploadArgs_Validate ?a = SUCCESS"
    using demo_object_valid [OF a(1,3)] by (simp add: CompleteMultipartUploadArgs_Validate_def err_simps complete_args_def)
  moreover have "send_request demo_env_of ((with_param ''uploadId'' ''U'' (object_request kPost ''us-east-1'' ?a))\<lparr>q_body := b, q_headers := h\<rparr>)
      (demo_client (answer 200 (xml_text demo_completed) # xs))
    = Some (Inr (response_of (answered 200 (xml_text demo_completed))), demo_client xs)" for b h
    by (rule demo_send) (simp_all add: a(1) object_request_def bucket_request_def with_param_def Request_new_def)
  moreover have "a_upload_id ?a = ''U''" by (simp add: complete_args_def)
  ultimately show ?thesis
    by (simp add: CompleteMultipartUpload_def check_def demo_region [OF a(2)] lift_result_def
        CompleteMultipartUploadResponse_ParseXML_def Let_def)
qed


text \<open>Two parts in flight: the state after two rounds of the main thread.\<close>

definition demo_job :: "nat \<Rightarrow> u64 \<Rightarrow> (error + put_object_response) option \<Rightarrow> job" where
  "demo_job i n res = \<lparr>j_number = word_of_nat (Suc i), j_slot = i, j_size = n,
     j_args = part_args demo_big demo_upload_headers ''U'' (word_of_nat (Suc i)) [], j_result = res\<rparr>"

definition demo_flight :: "part_reader \<Rightarrow> (error + put_object_response) option \<Rightarrow> (error + put_object_response) option
    \<Rightarrow> par_state" where
  "demo_flight r res1 res2 = \<lparr>ps_reader = r, ps_pool = [take 5242880 demo_bytes, drop 5242880 demo_bytes], ps_buf_idx = 0,
     ps_inflight = [demo_job 0 5242880 res1, demo_job 1 1048576 res2], ps_parts = [], ps_upload_id = ''U'',
     ps_first_err = SUCCESS, ps_phase = Reading\<rparr>"

lemma demo_rounds:
  "\<exists>r. pr_stop r \<and> par_run 2 demo_env_of demo_big demo_upload_headers [Main None, Main None] (par_new demo_big demo_istream 2)
      (demo_client (answer 200 (xml_text demo_upload_id) # xs)) = Some (demo_flight r None None, demo_client xs)"
proof -
  let ?r = "known_reader False demo_bytes 5242880 2"
  have start: "reader_new demo_big demo_istream = ?r 0" by (simp add: reader_new_def known_reader_def)
  have first: "next_part (Some 6291456) (?r 0) = Some (SUCCESS, take 5242880 demo_bytes, ?r 1)"
    using next_known [of 0 2 5242880 demo_bytes 6291456 False] by simp
  obtain r where last: "next_part (Some 6291456) (?r 1) = Some (SUCCESS, drop 5242880 demo_bytes, r)"
    "unat (pr_part_size r) = 1048576" "pr_part_count r = Some 2" "pr_part_number r = 2" "pr_stop r"
    using next_known_last [of 1 2 5242880 6291456 demo_bytes False] by auto
  have "pr_part_size r = 1048576" using last(2) by (simp add: word_unat_eq_iff)
  have "par_step 2 demo_env_of demo_big demo_upload_headers (Main None) (par_new demo_big demo_istream 2)
      (demo_client (answer 200 (xml_text demo_upload_id) # xs))
    = Some (\<lparr>ps_reader = ?r 1, ps_pool = [take 5242880 demo_bytes, []], ps_buf_idx = 1,
        ps_inflight = [demo_job 0 5242880 None], ps_parts = [], ps_upload_id = ''U'', ps_first_err = SUCCESS,
        ps_phase = Reading\<rparr>, demo_client xs)"
    by (simp add: par_step_def par_round_def par_new_def start first known_reader_number await_slot_def
        start_upload_def demo_Create dispatch_def overwrite_def demo_job_def Let_def numeral_2_eq_2)
  moreover have "par_step 2 demo_env_of demo_big demo_upload_headers (Main None)
      \<lparr>ps_reader = ?r 1, ps_pool = [take 5242880 demo_bytes, []], ps_buf_idx = 1,
        ps_inflight = [demo_job 0 5242880 None], ps_parts = [], ps_upload_id = ''U'', ps_first_err = SUCCESS,
        ps_phase = Reading\<rparr> (demo_client xs) = Some (demo_flight r None None, demo_client xs)"
    using last by (simp add: par_step_def par_round_def known_reader_number await_slot_def \<open>pr_part_size r = 1048576\<close>
        start_upload_def ret_def dispatch_def overwrite_def demo_job_def demo_flight_def Let_def)
  ultimately show ?thesis using last(5) by auto
qed

lemma demo_view:
  "job_view (ps_pool (demo_flight r x y)) (demo_job 0 5242880 z) = take 5242880 demo_bytes"
  "job_view (ps_pool (demo_flight r x y)) (demo_job 1 1048576 z) = drop 5242880 demo_bytes"
  by (simp_all add: job_view_def demo_flight_def demo_job_def)

theorem parallel_parts_keep_their_bytes_witness:
  "\<exists>st c'. par_reaches demo_env_of demo_big demo_istream (demo_client [answer 200 (xml_text demo_upload_id)]) st c'
     \<and> map j_slot (ps_inflight st) = [0, 1]
     \<and> (\<forall>j \<in> set (ps_inflight st). job_view (ps_pool st) j = object_pieces demo_big demo_istream ! (unat (j_number j) - 1))"
proof -
  obtain r where run: "par_run 2 demo_env_of demo_big demo_upload_headers [Main None, Main None] (par_new demo_big demo_istream 2)
      (demo_client [answer 200 (xml_text demo_upload_id)]) = Some (demo_flight r None None, demo_client [])"
    using demo_rounds by blast
  have "timezone (ce_crypto demo_env_of) = 0" by (simp add: demo_env_of_def)
  then have "par_reaches demo_env_of demo_big demo_istream (demo_client [answer 200 (xml_text demo_upload_id)])
      (demo_flight r None None) (demo_client [])"
    unfolding par_reaches_def
    by (intro exI [of _ demo_upload_headers] exI [of _ "[Main None, Main None]"] conjI)
      (simp_all add: demo_big_headers run del: par_run.simps)
  note reach = this
  have "map j_slot (ps_inflight (demo_flight r None None)) = [0, 1]" by (simp add: demo_flight_def demo_job_def)
  with reach parallel_parts_keep_their_bytes [OF demo_big_call reach] show ?thesis
    by (intro exI [of _ "demo_flight r None None"] exI [of _ "demo_client []"]) simp
qed

text \<open>C5: a parallel upload that reports success, whatever its schedule, has stored the object: a thread has sent
  each piece of the object with an \<open>UploadPart\<close> under its number and under one upload ID, and after that
  \<open>CompleteMultipartUpload\<close> was called for this ID with exactly the answers to them, one part for every piece and
  in ascending order (\<open>completed_with\<close>). Its answer is what the call returns.\<close>

theorem parallel_success_is_complete:
  assumes "par_call a0 a s" "Client_PutObject alloc sched e a0 c = Some (Inr resp, c')"
  shows "\<exists>hs. upload_headers (timezone (ce_crypto e)) a = Some hs
    \<and> completed_with e a hs (unat (inflight_limit a)) s c sched resp c'"
proof -
  from assms obtain hs st where hs: "upload_headers (timezone (ce_crypto e)) a = Some hs"
    and run: "par_run (unat (inflight_limit a)) e a hs sched (par_new a s (unat (inflight_limit a))) c = Some (st, c')"
    "ps_phase st = Returned (Inr resp)"
    using parallel_runs by blast
  from run_completed [OF assms(1) refl run] hs show ?thesis by blast
qed

text \<open>The second part is uploaded before the first.\<close>

lemma demo_finish:
  assumes "pr_stop r"
  shows "\<exists>st resp. par_run 2 demo_env_of demo_big demo_upload_headers
      [Worker 1, Worker 0, Main None, Main None, Main None, Main None] (demo_flight r None None)
      (demo_client [answer 200 [], answer 200 [], answer 200 (xml_text demo_completed)]) = Some (st, demo_client [])
    \<and> ps_phase st = Returned (Inr resp) \<and> length (ps_parts st) = 2"
proof -
  have w1: "run_worker demo_env_of (Suc 0) (demo_flight r None None) (demo_client (answer 200 [] # xs))
      = Some (demo_flight r None (Some (Inr demo_put_ok)), demo_client xs)" for xs
    by (simp add: run_worker_def Let_def) (simp add: demo_flight_def demo_job_def demo_UploadPart)
  have w0: "run_worker demo_env_of 0 (demo_flight r None (Some x)) (demo_client (answer 200 [] # xs))
      = Some (demo_flight r (Some (Inr demo_put_ok)) (Some x), demo_client xs)" for x xs
    by (simp add: run_worker_def Let_def) (simp add: demo_flight_def demo_job_def demo_UploadPart)
  obtain resp where finish: "CompleteMultipartUpload demo_env_of (complete_args demo_big ''U''
      [uploaded_part 1 demo_put_ok, uploaded_part 2 demo_put_ok]) (demo_client [answer 200 (xml_text demo_completed)])
    = Some (Inr resp, demo_client [])" using demo_Complete by blast
  show ?thesis
    using assms
    by (simp add: par_step_def w1 w0) (simp add: par_step_def par_round_def demo_flight_def par_drain_def take_part_def demo_job_def
        par_finish_def complete_upload_def or_else_def and_then_def on_result_def ret_def finish)
qed

theorem parallel_success_is_complete_witness:
  "\<exists>resp cresp. CompleteMultipartUpload demo_env_of (complete_args demo_big ''U''
        [uploaded_part 1 demo_put_ok, uploaded_part 2 demo_put_ok]) (demo_client [answer 200 (xml_text demo_completed)])
      = Some (Inr cresp, demo_client [])
    \<and> Client_PutObject (\<lambda>_ _. True) ([Main None, Main None] @ [Worker 1, Worker 0, Main None, Main None, Main None, Main None])
       demo_env_of (demo_put (Some 6291456) 5242880 (Some 2) demo_bytes) (demo_client [answer 200 (xml_text demo_upload_id),
       answer 200 [], answer 200 [], answer 200 (xml_text demo_completed)]) = Some (Inr resp, demo_client [])
    \<and> (\<exists>hs. completed_with demo_env_of demo_big hs 2 demo_istream (demo_client [answer 200 (xml_text demo_upload_id),
       answer 200 [], answer 200 [], answer 200 (xml_text demo_completed)])
         ([Main None, Main None] @ [Worker 1, Worker 0, Main None, Main None, Main None, Main None]) resp (demo_client []))"
proof -
  let ?c = "demo_client [answer 200 (xml_text demo_upload_id), answer 200 [], answer 200 [], answer 200 (xml_text demo_completed)]"
  let ?sched = "[Main None, Main None] @ [Worker 1, Worker 0, Main None, Main None, Main None, Main None]"
  obtain r where r: "pr_stop r" "par_run 2 demo_env_of demo_big demo_upload_headers [Main None, Main None]
      (par_new demo_big demo_istream 2) ?c
    = Some (demo_flight r None None, demo_client [answer 200 [], answer 200 [], answer 200 (xml_text demo_completed)])"
    using demo_rounds by blast
  obtain st resp where st: "par_run 2 demo_env_of demo_big demo_upload_headers
      [Worker 1, Worker 0, Main None, Main None, Main None, Main None] (demo_flight r None None)
      (demo_client [answer 200 [], answer 200 [], answer 200 (xml_text demo_completed)]) = Some (st, demo_client [])"
    "ps_phase st = Returned (Inr resp)" using demo_finish [OF r(1)] by blast
  have "par_run 2 demo_env_of demo_big demo_upload_headers ?sched (par_new demo_big demo_istream 2) ?c
    = Some (st, demo_client [])"
    unfolding par_run_append r(2) option.case prod.case by (rule st(1))
  moreover have "upload_headers (timezone (ce_crypto demo_env_of)) demo_big = Some demo_upload_headers"
    using demo_big_headers by (simp add: demo_env_of_def)
  ultimately have run: "Client_PutObject (\<lambda>_ _. True) ?sched demo_env_of (demo_put (Some 6291456) 5242880 (Some 2) demo_bytes) ?c
      = Some (Inr resp, demo_client [])"
    using st(2) by (simp add: Client_PutObject_def demo_big_valid check_def check_tls_def with_client_def put_parallel_def
        Let_def del: par_run.simps append.simps)
  from parallel_success_is_complete [OF demo_big_call run] demo_Complete [of "[uploaded_part 1 demo_put_ok, uploaded_part 2 demo_put_ok]" "[]"] run
  show ?thesis by (simp only: demo_big_limit) auto
qed



subsection \<open>Copies and downloads\<close>

text \<open>C18: a source above the part limit is copied in ranges that tile it: the loop copies, in order, byte
  ranges which together are the bytes from the offset on, each once and in order, none of them longer
  than a gibibyte.\<close>

theorem copy_ranges_tile:
  assumes "unat offset + unat sz < 2 ^ 64"
  shows "\<exists>spans. (\<forall>n parts c. copy_loop e a i hs offset sz n parts c = copy_all e a i hs spans n parts c)
    \<and> concat (map (\<lambda>(lo, hi). [unat lo..<Suc (unat hi)]) spans) = [unat offset..<unat offset + unat sz]
    \<and> (\<forall>(lo, hi) \<in> set spans. unat hi - unat lo < 2 ^ 30)"
  using copy_spans_tile [OF assms] by (intro exI [of _ "copy_spans offset sz"]) (simp add: copy_loop_spans)

theorem copy_ranges_tile_witness:
  "\<forall>a. \<exists>spans. (\<forall>n parts c. copy_loop demo_env_of a ''U'' mm_empty 7 3000000000 n parts c = copy_all demo_env_of a ''U'' mm_empty spans n parts c)
    \<and> concat (map (\<lambda>(lo, hi). [unat lo..<Suc (unat hi)]) spans) = [7..<3000000007]"
proof -
  have "unat (7 :: u64) + unat (3000000000 :: u64) = 3000000007" by simp
  with copy_ranges_tile [of 7 3000000000 demo_env_of _ "''U''" mm_empty] show ?thesis by (simp del: upt_rec_numeral) blast
qed

text \<open>C21: a copy that succeeds is one of a whole object: with an offset or a length \<open>CopyObject\<close> never
  succeeds, however deep it calls itself, because what counting the parts finds out about the sources
  is lost.\<close>

theorem ranges_are_never_copied:
  assumes "CopyObject n e a c = Some (Inr resp, c')"
  shows "a_offset (a_source a) = None \<and> a_length (a_source a) = None"
  using assms by (rule copy_of_range_never_succeeds)

definition demo_read :: object_conditional_read_args where
  "demo_read = \<lparr>a_extra_headers = mm_empty, a_extra_query_params = mm_empty, a_bucket = ''my-bucket'',
     a_region = ''us-east-1'', a_object = ''o'', a_version_id = [], a_ssec = None, a_offset = None, a_length = None,
     a_match_etag = [], a_not_match_etag = [], a_modified_since = utc_default, a_unmodified_since = utc_default\<rparr>"

definition demo_copy :: copy_object_args where
  "demo_copy = \<lparr>a_extra_headers = mm_empty, a_extra_query_params = mm_empty, a_bucket = ''my-bucket'',
     a_region = ''us-east-1'', a_object = ''o'', a_headers = mm_empty, a_user_metadata = mm_empty, a_sse = None,
     a_tags = [], a_retention = None, a_legal_hold = False, a_source = demo_read, a_metadata_directive = None,
     a_tagging_directive = None\<rparr>"

lemma demo_stat:
  assumes "a_bucket a = ''my-bucket''" "a_object a = ''o''" "a_region a = ''us-east-1''" "a_ssec a = None"
    "\<And>q. q_bucket_name q = ''my-bucket'' \<Longrightarrow> q_datafunc q = None \<Longrightarrow> send_request e q (demo_client w)
      = Some (Inr (response_of (answered 200 [])), demo_client w')"
  shows "\<exists>stat. StatObject e a (demo_client w) = Some (Inr stat, demo_client w') \<and> so_size stat = 0"
proof -
  have "send_request e (with_headers h (version_request kHead ''us-east-1'' a)) (demo_client w)
      = Some (Inr (response_of (answered 200 [])), demo_client w')" for h
    by (rule assms(5)) (simp_all add: assms(1) version_request_def with_param_def object_request_def bucket_request_def
        with_headers_def Request_new_def)
  moreover have "rs_headers (response_of (answered 200 [])) = Add ''Content-Type'' ''application/xml'' mm_empty"
    by (simp add: response_of_def answered_def add_headers_def Response_new_def)
  moreover have "GetFront k (Add ''Content-Type'' ''application/xml'' mm_empty) = []"
    if "k \<in> {''content-length'', ''x-amz-object-lock-mode'', ''x-amz-object-lock-retain-until-date'',
      ''x-amz-object-lock-legal-hold'', ''x-amz-delete-marker''}" for k
    using that by (elim insertE emptyE) (simp; code_simp)+
  ultimately show ?thesis
    using demo_object_valid [OF assms(1,2)]
    by (simp add: StatObject_def check_def check_ssec_def assms(1-4) demo_region with_client_def stat_response_def set_from_def
        lift_outcome_def Let_def)
qed

theorem ranges_are_never_copied_witness:
  "\<exists>resp. CopyObject 1 demo_env_of demo_copy (demo_client [answer 200 [], answer 200 []]) = Some (Inr resp, demo_client [])
     \<and> a_offset (a_source demo_copy) = None \<and> a_length (a_source demo_copy) = None"
proof -
  have src: "a_bucket demo_read = ''my-bucket''" "a_object demo_read = ''o''" "a_region demo_read = ''us-east-1''" "a_ssec demo_read = None"
    "a_offset demo_read = None" "a_length demo_read = None"
    by (simp_all add: demo_read_def)
  have dst: "a_bucket demo_copy = ''my-bucket''" "a_object demo_copy = ''o''" "a_region demo_copy = ''us-east-1''"
    "a_source demo_copy = demo_read" "a_sse demo_copy = None"
    by (simp_all add: demo_copy_def)
  obtain stat where stat: "StatObject demo_env_of demo_read (demo_client [answer 200 [], answer 200 []])
      = Some (Inr stat, demo_client [answer 200 []])" "so_size stat = 0"
    using demo_stat [OF src(1-4) demo_send] by auto
  obtain hs where hs: "ObjectWriteArgs_Headers 0 demo_copy = Some hs"
    by (simp add: ObjectWriteArgs_Headers_def demo_copy_def Let_def)
  have "send_request demo_env_of (copy_request 0 demo_copy hs ''us-east-1'') (demo_client [answer 200 []])
      = Some (Inr (response_of (answered 200 [])), demo_client [])"
    by (rule demo_send) (simp_all add: copy_request_def Let_def dst object_request_def bucket_request_def
        with_headers_def Request_new_def)
  moreover have "CopyObjectArgs_Validate demo_copy = SUCCESS"
    using demo_object_valid [OF dst(1,2)] demo_object_valid [OF src(1,2)]
    by (simp only: CopyObjectArgs_Validate_def dst src err_then_def) simp
  moreover have "timezone (ce_crypto demo_env_of) = 0" by (simp add: demo_env_of_def)
  ultimately have "\<exists>resp. copy_with demo_env_of compose demo_copy (demo_client [answer 200 [], answer 200 []]) = Some (Inr resp, demo_client [])"
    for compose
    using stat hs
    by (simp add: copy_with_def check_def check_tls_def check_ssec_def with_client_def
        dst src demo_region)
  then obtain resp where run: "CopyObject 1 demo_env_of demo_copy (demo_client [answer 200 [], answer 200 []])
      = Some (Inr resp, demo_client [])" by auto
  from ranges_are_never_copied [OF run] run show ?thesis by blast
qed

text \<open>C14: a download that succeeds has put in the place of its file what the file system kept of one text that was
  written: the body of one answer with status 2xx, whole. So the file has that body when every write succeeds;
  the code does not look (\<open>full_disk_reports_success\<close>). A download that fails leaves the file as it was.\<close>

theorem download_is_one_answer:
  assumes "named_failures e" "DownloadObject fs d e a files c = Some (res, files', c')"
  shows "case res of
      Inl err \<Rightarrow> files' (a_filename a) = files (a_filename a)
    | Inr r \<Rightarrow> \<exists>w call etag. let x = fst (ce_send e w call); temp = part_filename (a_filename a) etag in
        x_failure x = None \<and> 200 \<le> x_status x \<and> x_status x \<le> 299
        \<and> files' = files(temp := None, a_filename a \<mapsto> dk_keeps d temp (concat (x_chunks x)))"
proof (cases res)
  case (Inl err)
  with download_failed [of fs d e a files c err files' c'] assms(2) show ?thesis by simp
next
  case (Inr r)
  with assms(2) obtain etag region q written c1 where
    run: "Execute e (download_request a region) [] c1 = Some (Inr r, q, written, c')"
    and files': "files' = files(part_filename (a_filename a) etag := None,
      a_filename a \<mapsto> dk_keeps d (part_filename (a_filename a) etag) written)"
    using download_succeeded by blast
  from Execute_writes [OF assms(1) run] Inr files' show ?thesis by (auto simp: Let_def)
qed

definition demo_download :: download_object_args where
  "demo_download = \<lparr>a_extra_headers = mm_empty, a_extra_query_params = mm_empty, a_bucket = ''my-bucket'',
     a_region = ''us-east-1'', a_object = ''o'', a_version_id = [], a_ssec = None, a_filename = ''f'', a_overwrite = True\<rparr>"

text \<open>A server that answers each request with the next of a list of bodies.\<close>

definition demo_bodies :: "string list client_env" where
  "demo_bodies = \<lparr>ce_crypto = demo_crypto, ce_now = (\<lambda>_. demo_now), ce_fetch = Some (\<lambda>w. (demo_creds, w)),
     ce_send = (\<lambda>w call. case w of [] \<Rightarrow> (no_answer, []) | b # bs \<Rightarrow> (answer 200 b, bs)), ce_xml = read_xml\<rparr>"

lemma demo_named: "named_failures demo_bodies"
  by (auto simp: named_failures_def plain_failures_def demo_bodies_def no_answer_def answer_def split: list.splits)

lemma demo_get:
  assumes "q_bucket_name q = ''my-bucket''" "q_method q = kGet"
    "q_datafunc q = Some (\<lambda>written _ chunk. (True, written @ chunk))"
  shows "\<exists>r q'. Execute demo_bodies q [] (demo_client (body # xs)) = Some (Inr r, q', body, demo_client xs)"
proof -
  obtain r q' where t: "ToHttpRequest demo_crypto demo_now demo_url (Some demo_creds) (q\<lparr>q_user_agent := ''MinIO''\<rparr>)
      = Some (r, q')" and r: "rq_method r = kGet" "rq_datafunc r = q_datafunc q"
    using ToHttpRequest_plain [of demo_url "q\<lparr>q_user_agent := ''MinIO''\<rparr>" demo_crypto demo_now "Some demo_creds"] assms(1,2)
    by auto
  have "\<exists>h. http_execute (\<lambda>_. answer 200 body) r [] = (h, body) \<and> resp_bool h"
    using r assms(3) by (simp add: http_execute_def answer_def response_empty_def resp_bool_def Let_def)
  with t show ?thesis
    by (auto simp: Execute_def execute_def demo_bodies_def fetch_creds_def demo_client_def Let_def)
qed

lemma demo_head:
  assumes "q_bucket_name q = ''my-bucket''" "q_datafunc q = None"
  shows "send_request demo_bodies q (demo_client (body # xs)) = Some (Inr (response_of (answered 200 body)), demo_client xs)"
proof -
  obtain r q' where t: "ToHttpRequest demo_crypto demo_now demo_url (Some demo_creds) (q\<lparr>q_user_agent := ''MinIO''\<rparr>)
      = Some (r, q')" and r: "rq_datafunc r = None"
    using ToHttpRequest_plain [of demo_url "q\<lparr>q_user_agent := ''MinIO''\<rparr>" demo_crypto demo_now "Some demo_creds"] assms
    by auto
  have "http_execute (\<lambda>_. answer 200 body) r () = (answered 200 body, ())"
    using r by (simp add: http_execute_def answer_def answered_def response_empty_def)
  with t show ?thesis
    by (auto simp: send_request_def Execute_def execute_def demo_bodies_def fetch_creds_def demo_client_def Let_def answered_bool)
qed

definition demo_files :: file_system where
  "demo_files = \<lparr>fs_exists = (\<lambda>_. Inr True), fs_size = (\<lambda>_. None)\<rparr>"

text \<open>A file system where every call succeeds, and one that has place for two bytes.\<close>

definition demo_disk :: disk where
  "demo_disk = \<lparr>dk_opens = (\<lambda>_. True), dk_keeps = (\<lambda>_ s. s), dk_renames = (\<lambda>_ _. True)\<rparr>"

definition full_disk :: disk where
  "full_disk = demo_disk\<lparr>dk_keeps := (\<lambda>_. take 2)\<rparr>"

lemma demo_DownloadObject:
  assumes "\<And>f. dk_opens d f" "\<And>f g. dk_renames d f g"
  shows "\<exists>r temp. DownloadObject demo_files d demo_bodies demo_download (\<lambda>_. Some ''old'')
       (demo_client [[], ''new'']) = Some (Inr r, (\<lambda>_. Some ''old'')(temp := None, ''f'' \<mapsto> dk_keeps d temp ''new''), demo_client [])"
proof -
  have a: "a_bucket demo_download = ''my-bucket''" "a_object demo_download = ''o''" "a_region demo_download = ''us-east-1''"
    "a_ssec demo_download = None" "a_filename demo_download = ''f''" "a_overwrite demo_download"
    by (simp_all add: demo_download_def)
  have s: "a_bucket (download_stat_args demo_download) = ''my-bucket''" "a_object (download_stat_args demo_download) = ''o''"
    "a_region (download_stat_args demo_download) = ''us-east-1''" "a_ssec (download_stat_args demo_download) = None"
    by (simp_all add: download_stat_args_def a)
  obtain stat where stat: "StatObject demo_bodies (download_stat_args demo_download) (demo_client [[], ''new''])
      = Some (Inr stat, demo_client [''new''])"
    using demo_stat [OF s demo_head] by auto
  have "q_bucket_name (download_request demo_download ''us-east-1'') = ''my-bucket''"
    by (simp add: download_request_def version_request_def with_param_def object_request_def bucket_request_def
        Request_new_def a)
  then obtain r q where get: "Execute demo_bodies (download_request demo_download ''us-east-1'') [] (demo_client [''new''])
      = Some (Inr r, q, ''new'', demo_client [])" using demo_get by fastforce
  have "CheckNonEmptyString ''f''" by code_simp
  then have "DownloadObjectArgs_Validate demo_files demo_download = SUCCESS"
    using demo_object_valid [OF a(1,2)] by (simp only: DownloadObjectArgs_Validate_def a err_then_def) simp
  moreover have "GetRegion demo_bodies ''my-bucket'' ''us-east-1'' (demo_client w) = Some (Inr ''us-east-1'', demo_client w)" for w
    by (simp add: GetRegion_def with_client_def ret_def)
  ultimately show ?thesis
    using stat get assms
    by (auto simp: DownloadObject_def check_def check_ssec_def with_client_def a Let_def stream_call_def)
qed

theorem download_is_one_answer_witness:
  "\<exists>r files'. DownloadObject demo_files demo_disk demo_bodies demo_download (\<lambda>_. Some ''old'')
       (demo_client [[], ''new'']) = Some (Inr r, files', demo_client []) \<and> files' ''f'' = Some ''new''
     \<and> (\<exists>w call. files' ''f'' = Some (concat (x_chunks (fst (ce_send demo_bodies w call)))))"
proof -
  obtain r temp where run: "DownloadObject demo_files demo_disk demo_bodies demo_download (\<lambda>_. Some ''old'')
       (demo_client [[], ''new'']) = Some (Inr r, (\<lambda>_. Some ''old'')(temp := None, ''f'' \<mapsto> ''new''), demo_client [])"
    using demo_DownloadObject [of demo_disk] by (auto simp: demo_disk_def)
  have "a_filename demo_download = ''f''" "dk_keeps demo_disk temp s = s" for temp s
    by (simp_all add: demo_download_def demo_disk_def)
  with download_is_one_answer [OF demo_named run] have
    "\<exists>w call etag. (\<lambda>_. Some ''old'')(temp := None, ''f'' \<mapsto> ''new'') = (\<lambda>_. Some ''old'')(part_filename ''f'' etag := None,
      ''f'' \<mapsto> concat (x_chunks (fst (ce_send demo_bodies w call))))" by (auto simp: Let_def)
  then have "\<exists>w call. ''new'' = concat (x_chunks (fst (ce_send demo_bodies w call)))"
    by (metis fun_upd_same option.inject)
  with run show ?thesis by (auto intro!: exI [of _ r])
qed

text \<open>A disk that takes only the start of the body: the call succeeds, and the file that was there is gone.\<close>

theorem full_disk_reports_success:
  "\<exists>r files'. DownloadObject demo_files full_disk demo_bodies demo_download (\<lambda>_. Some ''old'')
       (demo_client [[], ''new'']) = Some (Inr r, files', demo_client []) \<and> files' ''f'' = Some ''ne''"
proof -
  obtain r temp where run: "DownloadObject demo_files full_disk demo_bodies demo_download (\<lambda>_. Some ''old'')
       (demo_client [[], ''new'']) = Some (Inr r, (\<lambda>_. Some ''old'')(temp := None, ''f'' \<mapsto> ''ne''), demo_client [])"
    using demo_DownloadObject [of full_disk] by (auto simp: full_disk_def demo_disk_def)
  then show ?thesis by (intro exI conjI) (assumption, simp)
qed

subsection \<open>Listings and removals\<close>

text \<open>C11: a loop over a listing gives every item of every page, once and in the order of the pages, each page
  being asked for with the marker of the one before, and ends after the last page.\<close>

theorem listing_yields_all_items:
  assumes "BucketArgs_Validate a = SUCCESS" "pages e a c ps c'" "length (concat (map lo_contents ps)) < n"
  shows "and_then (ListObjects e a) (list_items n e) c = Some (Inr (concat (map lo_contents ps)), c')"
  using assms by (rule ListObjects_items)

definition demo_list :: list_objects_args where
  "demo_list = \<lparr>a_extra_headers = mm_empty, a_extra_query_params = mm_empty, a_bucket = ''my-bucket'',
     a_region = ''us-east-1'', l_delimiter = [], l_use_url_encoding_type = False, l_marker = [], l_start_after = [],
     l_key_marker = [], l_max_keys = 1, l_prefix = [], l_continuation_token = [], l_fetch_owner = False,
     l_version_id_marker = [], l_include_user_metadata = False, l_recursive = False, l_use_api_v1 = False,
     l_include_versions = False\<rparr>"

text \<open>A page with one common prefix.\<close>

definition demo_page :: "bool \<Rightarrow> string \<Rightarrow> xnode" where
  "demo_page trunc p = XElem ''ListBucketResult'' [XElem ''IsTruncated'' [XText (if trunc then ''true'' else ''false'')],
     XElem ''CommonPrefixes'' [XElem ''Prefix'' [XText p]]]"

lemma demo_page_read:
  assumes "xplain p"
  shows "\<exists>pg. ListObjectsResponse_ParseXML 0 read_xml (xml_text (demo_page trunc p)) False = Some (Inr pg)
    \<and> lo_is_truncated pg = Some trunc \<and> map it_name (lo_contents pg) = [p]"
proof -
  have "xok [demo_page trunc p]" using assms by (simp add: demo_page_def name_ok_def xplain_def)
  then have "read_xml (xml_text (demo_page trunc p)) = Some [demo_page trunc p]"
    using reads_plainD [OF reads_plain_read_xml] by (simp add: demo_page_def del: xml_text.simps)
  moreover have "StringToBool ''true'' = Some True" "StringToBool ''false'' = Some False" by code_simp+
  ultimately show ?thesis
    by (simp add: ListObjectsResponse_ParseXML_def parse_list_header_def Let_def del: xml_text.simps)
      (simp add: demo_page_def xtext_def set_from_def unescaped_def prefix_item_def item_new_def)
qed

lemma demo_fetch:
  assumes "a_bucket a = ''my-bucket''" "a_region a = ''us-east-1''" "\<not> l_include_versions a" "l_version_id_marker a = []"
    "\<not> l_use_api_v1 a" "ListObjectsResponse_ParseXML 0 read_xml body False = Some (Inr pg)"
  shows "fetch_page demo_env_of a (demo_client (answer 200 body # xs)) = Some (Inr pg, demo_client xs)"
proof -
  define b where "b = ListObjectsV2Args_of (page_args ''us-east-1'' a)"
  have b: "a_bucket b = ''my-bucket''" "a_region b = ''us-east-1''"
    by (simp_all add: b_def ListObjectsV2Args_of_def page_args_def assms(1))
  have "timezone (ce_crypto demo_env_of) = 0" by (simp add: demo_env_of_def)
  then have listed: "list_objects demo_env_of False q (demo_client (answer 200 body # xs)) = Some (Inr pg, demo_client xs)"
    if "q_bucket_name q = ''my-bucket''" "q_datafunc q = None" for q
    using demo_send [of q body xs] that assms(6)
    by (simp add: list_objects_def and_then_def on_result_def lift_outcome_def)
  have q: "q_bucket_name (with_nonempty k v q) = q_bucket_name q" "q_datafunc (with_nonempty k v q) = q_datafunc q"
    "q_bucket_name (common_params b q) = q_bucket_name q" "q_datafunc (common_params b q) = q_datafunc q"
    "q_bucket_name (with_param k v q) = q_bucket_name q" "q_datafunc (with_param k v q) = q_datafunc q"
    for q :: "unit s3_request" and k v
    by (simp_all add: common_params_def with_params_def with_nonempty_def with_param_def)
  have "check (BucketArgs_Validate b) m = m" for m :: "(list_objects_response, http_exchange list) op"
    using demo_names(1) [OF b(1)] by (intro ext) (simp add: check_def)
  then have "ListObjectsV2 demo_env_of b (demo_client (answer 200 body # xs)) = Some (Inr pg, demo_client xs)"
    unfolding ListObjectsV2_def Let_def
    by (simp only: demo_region [OF b(2)], intro listed)
      (simp_all add: q bucket_request_def Request_new_def b(1))
  then show ?thesis
    unfolding fetch_page_def or_else_def on_result_def demo_region [OF assms(2)] Let_def b_def
    using assms(3-5) by (simp add: page_args_def)
qed

theorem listing_yields_all_items_witness:
  "\<exists>items. and_then (ListObjects demo_env_of demo_list) (list_items 3 demo_env_of)
      (demo_client [answer 200 (xml_text (demo_page True ''a/'')), answer 200 (xml_text (demo_page False ''b/''))])
    = Some (Inr items, demo_client []) \<and> map it_name items = [''a/'', ''b/'']"
proof -
  let ?c = "demo_client [answer 200 (xml_text (demo_page True ''a/'')), answer 200 (xml_text (demo_page False ''b/''))]"
  have a: "a_bucket demo_list = ''my-bucket''" "a_region demo_list = ''us-east-1''" "\<not> l_include_versions demo_list"
    "l_version_id_marker demo_list = []" "\<not> l_use_api_v1 demo_list"
    by (simp_all add: demo_list_def)
  have plain: "xplain ''a/''" "xplain ''b/''" by (simp_all add: xplain_def)
  obtain p where p: "ListObjectsResponse_ParseXML 0 read_xml (xml_text (demo_page True ''a/'')) False = Some (Inr p)"
    "lo_is_truncated p = Some True" "map it_name (lo_contents p) = [''a/'']"
    using demo_page_read [OF plain(1), of True] by auto
  obtain q where q: "ListObjectsResponse_ParseXML 0 read_xml (xml_text (demo_page False ''b/'')) False = Some (Inr q)"
    "lo_is_truncated q = Some False" "map it_name (lo_contents q) = [''b/'']"
    using demo_page_read [OF plain(2), of False] by auto
  have a': "a_bucket (UpdatePaginationArgs p demo_list) = ''my-bucket''" "a_region (UpdatePaginationArgs p demo_list) = ''us-east-1''"
    "\<not> l_include_versions (UpdatePaginationArgs p demo_list)" "l_version_id_marker (UpdatePaginationArgs p demo_list) = []"
    "\<not> l_use_api_v1 (UpdatePaginationArgs p demo_list)"
    by (simp_all add: UpdatePaginationArgs_def a)
  have "pages demo_env_of (UpdatePaginationArgs p demo_list) (demo_client [answer 200 (xml_text (demo_page False ''b/''))])
      [q] (demo_client [])"
    using q(2) by (intro last_page demo_fetch [OF a' q(1)]) simp_all
  then have pages: "pages demo_env_of demo_list ?c [p, q] (demo_client [])"
    using p(2,3) by (intro next_page [OF demo_fetch [OF a p(1)]]) auto
  have "length (concat (map lo_contents [p, q])) < 3"
    using arg_cong [OF p(3), of length] arg_cong [OF q(3), of length] by simp
  from listing_yields_all_items [OF demo_names(1) [OF a(1)] pages this] p(3) q(3) show ?thesis by auto
qed

text \<open>C19: a removal sends every object it is given, in order, in batches of at most a thousand, and ends without
  errors, when no answer has errors.\<close>

theorem removal_sends_all_batches:
  assumes "RemoveObjectsArgs_Validate a = SUCCESS" "a_delete_objects a = Some os"
    "send_batches e enc a (batches os) c = Some (rs, c')" "list_all no_errors rs"
  shows "(\<exists>r. Client_RemoveObjects e enc a c = Some (r, c') \<and> rm_done r \<and> rm_objects r = [] \<and> \<not> remove_bool r)
    \<and> concat (batches os) = os \<and> (\<forall>b \<in> set (batches os). b \<noteq> [] \<and> length b \<le> 1000)"
proof -
  let ?r = "\<lparr>rm_args = a, rm_objects = os, rm_done = False, rm_resp = remove_resp_empty, rm_pos = 0\<rparr>"
  have "\<exists>r. remove_Populate e enc ?r c = Some (r, c') \<and> rm_done r \<and> rm_objects r = [] \<and> \<not> remove_bool r"
    using assms(3,4) by (intro remove_Populate_all [where rs = rs]) (simp_all add: remove_resp_empty_def)
  then have "\<exists>r. Client_RemoveObjects e enc a c = Some (r, c') \<and> rm_done r \<and> rm_objects r = [] \<and> \<not> remove_bool r"
    using assms(1,2) by (simp add: Client_RemoveObjects_def is_err_def SUCCESS_def)
  then show ?thesis using concat_batches batches_sizes by blast
qed

definition demo_object :: delete_object where
  "demo_object = \<lparr>do_name = ''o'', do_version_id = []\<rparr>"

definition demo_remove :: "nat \<Rightarrow> remove_objects_args" where
  "demo_remove n = \<lparr>a_extra_headers = mm_empty, a_extra_query_params = mm_empty, a_bucket = ''my-bucket'',
     a_region = ''us-east-1'', a_bypass = False, a_delete_objects = Some (replicate n demo_object)\<rparr>"

lemma demo_remove_simps [simp]:
  "a_bucket (demo_remove n) = ''my-bucket''" "a_region (demo_remove n) = ''us-east-1''"
  "a_delete_objects (demo_remove n) = Some (replicate n demo_object)" "RemoveObjectsArgs_Validate (demo_remove n) = SUCCESS"
  using demo_names(1) [of "demo_remove n"] by (simp_all add: demo_remove_def RemoveObjectsArgs_Validate_def err_then_def)

definition demo_deleted :: "xnode list \<Rightarrow> xnode" where
  "demo_deleted errors = XElem ''DeleteResult'' errors"

lemma demo_RemoveObjects:
  assumes "xok [demo_deleted es]" "xselect [''Deleted''] es = []"
  shows "RemoveObjects demo_env_of enc (batch_args (demo_remove n) os) (demo_client (answer 200 (xml_text (demo_deleted es)) # xs))
    = Some (Inr \<lparr>ro_objects = [], ro_errors = map parse_delete_error (xselect [''Error''] es)\<rparr>, demo_client xs)"
proof -
  let ?a = "batch_args (demo_remove n) os"
  have a: "a_bucket ?a = ''my-bucket''" "a_region ?a = ''us-east-1''" by (simp_all add: batch_args_def)
  have "read_xml (xml_text (demo_deleted es)) = Some [demo_deleted es]"
    using assms(1) reads_plainD [OF reads_plain_read_xml] by (simp add: demo_deleted_def del: xml_text.simps)
  then have "RemoveObjectsResponse_ParseXML read_xml (xml_text (demo_deleted es))
      = Some (Inr \<lparr>ro_objects = [], ro_errors = map parse_delete_error (xselect [''Error''] es)\<rparr>)"
    using assms(2) by (simp add: RemoveObjectsResponse_ParseXML_def del: xml_text.simps) (simp add: demo_deleted_def)
  moreover have "send_request demo_env_of q (demo_client (answer 200 (xml_text (demo_deleted es)) # xs))
      = Some (Inr (response_of (answered 200 (xml_text (demo_deleted es)))), demo_client xs)"
    if "q_bucket_name q = ''my-bucket''" "q_datafunc q = None" for q
    using that by (intro demo_send) simp_all
  ultimately show ?thesis
    using demo_names(1) [OF a(1)]
    by (simp add: RemoveObjects_def check_def demo_region [OF a(2)] Let_def with_param_def with_header_def
        bucket_request_def Request_new_def a(1) and_then_def on_result_def lift_outcome_def del: xml_text.simps)
qed

theorem removal_sends_all_batches_witness:
  "\<exists>r. Client_RemoveObjects demo_env_of (\<lambda>s. s) (demo_remove 1500)
       (demo_client [answer 200 (xml_text (demo_deleted [])), answer 200 (xml_text (demo_deleted []))]) = Some (r, demo_client [])
     \<and> \<not> remove_bool r \<and> concat (batches (replicate 1500 demo_object)) = replicate 1500 demo_object"
proof -
  have "xok [demo_deleted []]" by (simp add: demo_deleted_def name_ok_def)
  then have step: "RemoveObjects demo_env_of (\<lambda>s. s) (batch_args (demo_remove 1500) os) (demo_client (answer 200 (xml_text (demo_deleted [])) # xs))
      = Some (Inr remove_resp_empty, demo_client xs)" for os xs
    using demo_RemoveObjects [of "[]"] by (simp add: remove_resp_empty_def del: xml_text.simps)
  have "batches (replicate 1500 demo_object) = [replicate 1000 demo_object, replicate 500 demo_object]"
    by (subst batches.simps, subst batches.simps, subst batches.simps) simp
  then have "send_batches demo_env_of (\<lambda>s. s) (demo_remove 1500) (batches (replicate 1500 demo_object))
      (demo_client [answer 200 (xml_text (demo_deleted [])), answer 200 (xml_text (demo_deleted []))])
    = Some ([Inr remove_resp_empty, Inr remove_resp_empty], demo_client [])"
    by (simp add: step del: xml_text.simps)
  from removal_sends_all_batches [OF _ _ this] show ?thesis by (auto simp: no_errors_def remove_resp_empty_def)
qed

text \<open>C36: the first answer with errors ends a removal. However many batches were sent before it without an error
  in their answers: the loop gives the errors of this answer and ends, the client is as the sending of the
  batches up to this one leaves it, and the objects of the later batches are never sent.\<close>

theorem errors_end_removal:
  assumes "RemoveObjectsArgs_Validate a = SUCCESS" "a_delete_objects a = Some os" "batches os = bs @ b # rest"
    "send_batches e enc a (bs @ [b]) c = Some (rs @ [Inr resp], c1)" "list_all no_errors rs" "ro_errors resp \<noteq> []"
    "length (ro_errors resp) < n"
  shows "\<exists>r r'. Client_RemoveObjects e enc a c = Some (r, c1)
    \<and> remove_errors n e enc r c1 = Some (ro_errors resp, r', c1)
    \<and> rm_objects r' = concat rest \<and> \<not> remove_bool r'"
  using assms by (rule first_errors_end_removal)

text \<open>The second of three batches has an error.\<close>

theorem errors_end_removal_witness:
  "\<exists>r r' err. Client_RemoveObjects demo_env_of (\<lambda>s. s) (demo_remove 2001)
       (demo_client [answer 200 (xml_text (demo_deleted [])), answer 200 (xml_text (demo_deleted [XElem ''Error'' []]))])
         = Some (r, demo_client [])
     \<and> remove_errors 2 demo_env_of (\<lambda>s. s) r (demo_client []) = Some ([err], r', demo_client [])
     \<and> rm_objects r' = [demo_object] \<and> \<not> remove_bool r'"
proof -
  let ?es = "[XElem ''Error'' []]" and ?b = "replicate 1000 demo_object"
  let ?bad = "\<lparr>ro_objects = [], ro_errors = [parse_delete_error (XElem ''Error'' [])]\<rparr>"
  have "xok [demo_deleted []]" "xok [demo_deleted ?es]" by (simp_all add: demo_deleted_def name_ok_def)
  then have step: "RemoveObjects demo_env_of (\<lambda>s. s) (batch_args (demo_remove 2001) os)
      (demo_client (answer 200 (xml_text (demo_deleted [])) # xs)) = Some (Inr remove_resp_empty, demo_client xs)"
    "RemoveObjects demo_env_of (\<lambda>s. s) (batch_args (demo_remove 2001) os)
      (demo_client (answer 200 (xml_text (demo_deleted ?es)) # xs)) = Some (Inr ?bad, demo_client xs)" for os xs
    using demo_RemoveObjects [of "[]"] demo_RemoveObjects [of ?es] by (simp_all add: remove_resp_empty_def del: xml_text.simps)
  have split: "batches (replicate 2001 demo_object) = [?b] @ ?b # [[demo_object]]"
    by (subst batches.simps, subst batches.simps, subst batches.simps, subst batches.simps) simp
  have sent: "send_batches demo_env_of (\<lambda>s. s) (demo_remove 2001) ([?b] @ [?b])
      (demo_client [answer 200 (xml_text (demo_deleted [])), answer 200 (xml_text (demo_deleted ?es))])
    = Some ([Inr remove_resp_empty] @ [Inr ?bad], demo_client [])"
    by (simp add: step del: xml_text.simps)
  have "list_all no_errors [Inr remove_resp_empty]" by (simp add: no_errors_def remove_resp_empty_def)
  from errors_end_removal [OF _ _ split sent this, of 2] show ?thesis by simp blast
qed

section \<open>Buffers over RDMA\<close>

definition demo_rdma :: "'w rdma_lib" where
  "demo_rdma = \<lparr>rl_handle = True, rl_init_error = [], rl_ready = (\<lambda>_. True), rl_register = (\<lambda>_ _ w. (True, w)),
     rl_deregister = (\<lambda>_ w. (True, w)), rl_get_token = (\<lambda>_ _ w. (Some ''T'', w)), rl_free_token = (\<lambda>_ w. w),
     rl_report = (\<lambda>_ w. w), rl_nic_count = (\<lambda>_. 1), rl_healthy_nic_count = (\<lambda>_. 1), rl_system_memory = (\<lambda>_. True)\<rparr>"

definition demo_no_cuda :: "'w cuda_lib" where
  "demo_no_cuda = \<lparr>cu_loaded = False, cu_ctx_get = (\<lambda>w. (None, w)), cu_ctx_set = (\<lambda>_ w. (False, w)),
     cu_ctx_retain = (\<lambda>_ w. (None, w)), cu_ctx_release = (\<lambda>_ w. (False, w)), cu_ptr_ordinal = (\<lambda>_ w. (None, w)),
     cu_dtoh = (\<lambda>_ _ w. (None, w)), cu_htod = (\<lambda>_ _ w. (False, w))\<rparr>"

definition demo_memory :: "'w host_memory" where
  "demo_memory = \<lparr>hm_load = (\<lambda>_ n _. replicate (unat n) (CHR ''x'')), hm_store = (\<lambda>_ _ w. w)\<rparr>"

text \<open>The answer of a server that knows nothing of tokens to a \<open>PUT\<close> without a body.\<close>

definition demo_stored :: http_exchange where
  "demo_stored = \<lparr>x_valid = True, x_status = 200, x_chunks = [], x_headers = [(''ETag'', ''e'')], x_failure = None\<rparr>"

definition demo_buffer :: "u64 \<Rightarrow> put_object_args" where
  "demo_buffer sz = (demo_put (Some sz) 5242880 None [])\<lparr>a_stream := None, a_put_buf := Some [], a_size := Some sz\<rparr>"

lemma demo_buffer_valid: "\<exists>v. PutObjectArgs_Validate (demo_buffer 5) = (SUCCESS, v) \<and> a_bucket v = ''my-bucket''
    \<and> a_object v = ''o'' \<and> a_region v = ''us-east-1'' \<and> a_size v = Some 5 \<and> a_sse v = None"
proof -
  have "CalcPartInfo (Some 5) 5242880 None = (SUCCESS, 5, Some 1)" by code_simp
  moreover have "ObjectArgs_Validate (demo_buffer 5) = SUCCESS"
    by (rule demo_object_valid) (simp_all add: demo_buffer_def demo_put_def)
  ultimately show ?thesis
    by (simp add: PutObjectArgs_Validate_def Let_def plan_parts_def) (simp add: demo_buffer_def demo_put_def)
qed

lemma demo_put_request:
  assumes "x_bucket x = ''my-bucket''" "x_object x = ''o''" "x_upload_id x = []"
  shows "\<exists>r. rdma_put_request demo_crypto demo_now demo_url creds x token = Some r \<and> rq_datafunc r = None \<and> rq_body r = []"
  by (simp add: assms rdma_put_request_def put_params_def BuildUrl_def demo_url_def base_url_empty_def enforce_path_def
      rdma_sign_def Let_def)

lemma demo_exchange:
  assumes "x_bucket x = ''my-bucket''" "x_object x = ''o''" "x_upload_id x = []"
  shows "\<exists>call. rdmaPut (traced_env demo_env_of) token 5 x (demo_client (demo_stored # xs, l))
      = Some (5, x\<lparr>x_etag := ''e''\<rparr>, demo_client (xs, l @ [Sent call])) \<and> c_body call = []"
proof -
  obtain r where r: "rdma_put_request demo_crypto demo_now demo_url demo_creds x token = Some r" "rq_datafunc r = None" "rq_body r = []"
    using demo_put_request [OF assms] by blast
  let ?h = "fst (http_execute (\<lambda>_. demo_stored) r ())"
  have h: "?h = \<lparr>resp_error = [], status_code = 200, resp_headers = add_headers [(''ETag'', ''e'')] mm_empty, resp_body = []\<rparr>"
    using r(2) by (simp add: http_execute_def demo_stored_def response_empty_def)
  have "GetFront ''etag'' (add_headers [(''ETag'', ''e'')] mm_empty) = ''e''" by (simp add: add_headers_def) code_simp
  then have out: "put_outcome 5 x ?h = (5, x\<lparr>x_etag := ''e''\<rparr>)"
    unfolding h put_outcome_def Let_def by (simp add: Trim_def) 
  have env: "ce_crypto demo_env_of = demo_crypto" "ce_now demo_env_of w = demo_now"
    "ce_fetch demo_env_of = Some (\<lambda>w. (demo_creds, w))" "ce_send demo_env_of (y # ys) call = (y, ys)" for w y ys call
    by (simp_all add: demo_env_of_def scripted_def)
  show ?thesis
    using r out by (auto simp: rdmaPut_def rdma_exchange_def traced_env_def env demo_client_def call_of_def)
qed

lemma demo_client_world: "demo_client w\<lparr>cl_world := w'\<rparr> = demo_client w'" "cl_world (demo_client w) = w"
    "in_world f (demo_client w) = demo_client (f w)"
  by (simp_all add: demo_client_def in_world_def)

lemma demo_buffer_put:
  "\<exists>r call. Client_PutObject_buffer (traced_lib demo_rdma) (traced_cuda demo_no_cuda) (traced_memory demo_memory)
      (traced_env demo_env_of) 4096 (demo_buffer 5) (demo_client ([demo_stored], []))
    = Some (Inr r, demo_client ([], [Pinned 4096, Minted ''T'', Sent call, Freed ''T'', Unpinned 4096]))
    \<and> c_body call = [] \<and> po_etag r = ''e''"
proof -
  obtain v where v: "PutObjectArgs_Validate (demo_buffer 5) = (SUCCESS, v)" "a_bucket v = ''my-bucket''" "a_object v = ''o''"
    "a_region v = ''us-east-1''" "a_size v = Some 5" "a_sse v = None" using demo_buffer_valid by blast
  let ?x = "object_ctx v ''us-east-1''"
  have x: "x_bucket ?x = ''my-bucket''" "x_object ?x = ''o''" "x_upload_id ?x = []" by (simp_all add: object_ctx_def v)
  from demo_exchange [OF x, of "''T''" "[]" "[Pinned 4096, Minted ''T'']"] obtain call where
    put: "rdmaPut (traced_env demo_env_of) ''T'' 5 ?x (demo_client ([demo_stored], [Pinned 4096, Minted ''T'']))
      = Some (5, ?x\<lparr>x_etag := ''e''\<rparr>, demo_client ([], [Pinned 4096, Minted ''T'', Sent call]))" "c_body call = []" by auto
  have lib: "Register (traced_lib demo_rdma) 4096 5 (w, l) = (True, (w, l @ [Pinned 4096]))"
    "GetToken (traced_lib demo_rdma) 4096 5 (w, l) = (Some ''T'', (w, l @ [Minted ''T'']))"
    "rl_free_token (traced_lib demo_rdma) ''T'' (w, l) = (w, l @ [Freed ''T''])"
    "Deregister (traced_lib demo_rdma) 4096 (w, l) = (True, (w, l @ [Unpinned 4096]))" for w l
    by (simp_all add: Register_def GetToken_def Deregister_def traced_lib_def demo_rdma_def)
  have "\<not> kRDMAMaxMemoryRegSize < (5 :: u64)" by (simp add: kRDMAMaxMemoryRegSize_def)
  then have "registered (traced_lib demo_rdma) 4096 5 (rdmaPutWithRetry (traced_lib demo_rdma) (traced_env demo_env_of) 4096 5)
      ?x (demo_client ([demo_stored], []))
    = Some (5, ?x\<lparr>x_etag := ''e''\<rparr>, demo_client ([], [Pinned 4096, Minted ''T'', Sent call, Freed ''T'', Unpinned 4096]))"
    using put(1) by (simp add: demo_client_world registered_def lib rdmaPutWithRetry_def kRDMAMaxAttempts_def numeral_2_eq_2 settled_def)
  then show ?thesis
    using put(2)
    by (simp add: demo_region Client_PutObject_buffer_def v check_def check_tls_def with_client_def put_buffer_def
        put_object_response_of_def) blast
qed

text \<open>C9: whatever the RDMA library, the server and the driver do, a \<open>PutObject\<close> or \<open>GetObject\<close> with a buffer
  follows the protocol of tokens: the buffer is pinned before the first token and released before an
  ordinary request, a token goes out in at most one request, a failure is charged only to a token that was
  sent and is still alive, every token is freed before the next one, and there are at most two.\<close>

theorem buffers_follow_the_protocol:
  assumes "Client_PutObject_buffer (traced_lib L) (traced_cuda cu) (traced_memory mem) (traced_env e) buf a c = Some (r, c')
    \<or> Client_GetObject_buffer (traced_lib L) (traced_cuda cu) (traced_memory mem) (traced_env e) buf g c = Some (r', c')"
  shows "\<exists>evs. snd (cl_world c') = snd (cl_world c) @ evs \<and> rail_run Idle evs Idle \<and> mints evs \<le> 2"
  using assms PutObject_buffer_lawful GetObject_buffer_lawful unfolding lawful_def by blast

theorem buffers_follow_the_protocol_witness:
  "\<exists>r call. Client_PutObject_buffer (traced_lib demo_rdma) (traced_cuda demo_no_cuda) (traced_memory demo_memory)
      (traced_env demo_env_of) 4096 (demo_buffer 5) (demo_client ([demo_stored], []))
    = Some (Inr r, demo_client ([], [Pinned 4096, Minted ''T'', Sent call, Freed ''T'', Unpinned 4096]))
    \<and> rail_run Idle [Pinned 4096, Minted ''T'', Sent call, Freed ''T'', Unpinned 4096] Idle"
proof -
  obtain r call where run: "Client_PutObject_buffer (traced_lib demo_rdma) (traced_cuda demo_no_cuda)
      (traced_memory demo_memory) (traced_env demo_env_of) 4096 (demo_buffer 5) (demo_client ([demo_stored], []))
    = Some (Inr r, demo_client ([], [Pinned 4096, Minted ''T'', Sent call, Freed ''T'', Unpinned 4096]))"
    using demo_buffer_put by blast
  from buffers_follow_the_protocol [OF disjI1 [OF run]] run show ?thesis by (auto simp: demo_client_def)
qed

text \<open>C20: the request that carries a token, at a server that sorts the signed names and recomputes the signature
  (as in C1): with credentials without a session token it is accepted, with a session token it is refused,
  since its names are not in order. The header with the token is always among the signed ones.\<close>

theorem rdma_request_verifies:
  assumes "rdma_put_request cr date b creds x token = Some r \<or> rdma_get_request cr date b creds x token sz off = Some r"
    "year_ok (timezone cr) date" "credential_word (access_key creds)" "credential_word (x_region x)"
    "secret_of (access_key creds) = secret_key creds"
  shows "(session_token creds = [] \<longrightarrow>
      verify_headers cr secret_of (MethodToString (rq_method r)) (path (rq_url r)) (query_string (rq_url r))
        (rq_headers r) (GetFront ''x-amz-content-sha256'' (rq_headers r)))
    \<and> (session_token creds \<noteq> [] \<and> collision_free cr \<longrightarrow>
      \<not> verify_headers cr secret_of (MethodToString (rq_method r)) (path (rq_url r)) (query_string (rq_url r))
        (rq_headers r) (GetFront ''x-amz-content-sha256'' (rq_headers r)))
    \<and> (\<exists>scope names signature. Get ''Authorization'' (rq_headers r)
          = [GetAuthorization (access_key creds) scope names signature]
        \<and> ''x-amz-rdma-token'' \<in> set (tokens (CHR '';'') names))"
proof -
  have r: "rdma_signed cr date creds (x_region x) token r" using assms(1) rdma_put_signed rdma_get_signed by blast
  show ?thesis
    using rdma_signed_verified [OF r assms(2-4), of secret_of, OF assms(5)] rdma_signed_covers [OF r] by blast
qed

definition demo_ctx :: client_ctx where
  "demo_ctx = \<lparr>x_bucket = ''my-bucket'', x_object = ''o'', x_upload_id = [], x_part_number = None, x_etag = [],
     x_region = ''us-east-1'', x_checksum = []\<rparr>"

theorem rdma_request_verifies_witness:
  "\<exists>r r'. rdma_put_request demo_crypto demo_now demo_url demo_user demo_ctx ''T'' = Some r
     \<and> verify_headers demo_crypto (\<lambda>_. ''SK'') (MethodToString (rq_method r)) (path (rq_url r)) (query_string (rq_url r))
         (rq_headers r) (GetFront ''x-amz-content-sha256'' (rq_headers r))
     \<and> rdma_put_request demo_crypto demo_now demo_url demo_creds demo_ctx ''T'' = Some r'
     \<and> \<not> verify_headers demo_crypto (\<lambda>_. ''SK'') (MethodToString (rq_method r')) (path (rq_url r')) (query_string (rq_url r'))
         (rq_headers r') (GetFront ''x-amz-content-sha256'' (rq_headers r'))"
proof -
  have x: "x_bucket demo_ctx = ''my-bucket''" "x_object demo_ctx = ''o''" "x_upload_id demo_ctx = []"
    by (simp_all add: demo_ctx_def)
  obtain r r' where r: "rdma_put_request demo_crypto demo_now demo_url demo_user demo_ctx ''T'' = Some r"
    "rdma_put_request demo_crypto demo_now demo_url demo_creds demo_ctx ''T'' = Some r'"
    using demo_put_request [OF x] by blast
  have words: "credential_word (access_key demo_user)" "credential_word (access_key demo_creds)"
    "credential_word (x_region demo_ctx)" "''SK'' = secret_key demo_user" "''SK'' = secret_key demo_creds"
    "session_token demo_user = []" "session_token demo_creds \<noteq> []"
    by (simp_all add: credential_word_def demo_creds_def demo_user_def demo_ctx_def)
  have year: "year_ok (timezone demo_crypto) demo_now" by (simp add: demo_year)
  note ok = rdma_request_verifies [OF disjI1 [OF r(1)] year words(1,3), of "\<lambda>_. ''SK''", OF words(4)]
    rdma_request_verifies [OF disjI1 [OF r(2)] year words(2,3), of "\<lambda>_. ''SK''", OF words(5)]
  show ?thesis using r ok words(6,7) demo_crypto_injective by blast
qed

text \<open>C28: the address to which the socket is bound is the IPv4 address in the GID at the end of the token,
  printed with dots; a GID that is not such an address gives none.\<close>

theorem client_nic_is_the_address:
  assumes "length gid = 16"
  shows "parseClientNICFromToken (pre @ hex_encode gid) = (if ipv4_mapped gid then dotted (drop 12 gid) else [])"
  using assms by (rule client_nic)

theorem client_nic_is_the_address_witness:
  "parseClientNICFromToken (''token:'' @ ''00000000000000000000ffff'' @ ''c0a80114'') = ''192.168.1.20''"
proof -
  let ?gid = "replicate 10 (CHR 0x00) @ [CHR 0xFF, CHR 0xFF, CHR 0xC0, CHR 0xA8, CHR 0x01, CHR 0x14]"
  have "hex_encode ?gid = ''00000000000000000000ffff'' @ ''c0a80114''" "ipv4_mapped ?gid"
    "dotted (drop 12 ?gid) = ''192.168.1.20''" by code_simp+
  then show ?thesis using client_nic_is_the_address [of ?gid "''token:''"] by simp
qed

text \<open>C22: an upload from a buffer never looks at what is to be stored with the object: two calls that differ
  in headers, metadata, encryption, tags, retention, legal hold and content type only do the same.\<close>

theorem buffer_upload_forgets_settings:
  assumes "same_buffer a a'" "tls_free a (b_https (cl_base_url c))" "tls_free a' (b_https (cl_base_url c))"
  shows "Client_PutObject_buffer L cu mem e buf a' c = Client_PutObject_buffer L cu mem e buf a c"
  using assms by (rule same_buffer_same_call)

theorem buffer_upload_forgets_settings_witness:
  "\<exists>r call. Client_PutObject_buffer (traced_lib demo_rdma) (traced_cuda demo_no_cuda) (traced_memory demo_memory)
      (traced_env demo_env_of) 4096 ((demo_buffer 5)\<lparr>a_user_metadata := Add ''owner'' ''me'' mm_empty, a_sse := Some SseS3_new,
        a_legal_hold := True, a_content_type := ''text/html''\<rparr>) (demo_client ([demo_stored], []))
    = Some (Inr r, demo_client ([], [Pinned 4096, Minted ''T'', Sent call, Freed ''T'', Unpinned 4096]))"
proof -
  let ?a = "(demo_buffer 5)\<lparr>a_user_metadata := Add ''owner'' ''me'' mm_empty, a_sse := Some SseS3_new,
        a_legal_hold := True, a_content_type := ''text/html''\<rparr>"
  have same: "same_buffer (demo_buffer 5) ?a" "tls_free (demo_buffer 5) s" "tls_free ?a s" for s
    by (simp_all add: same_buffer_def tls_free_def demo_buffer_def demo_put_def SseS3_new_def)
  show ?thesis
    unfolding buffer_upload_forgets_settings [OF same] using demo_buffer_put by blast
qed

text \<open>C23: a \<open>GetObject\<close> into a host buffer that succeeds has the word of the server that it moved the bytes,
  or leaves in the buffer the start of the body of one answer with status 2xx, and no more than fits.\<close>

theorem buffer_download_has_one_source:
  assumes "named_failures e" "\<not> IsDeviceBuffer L buf" "a_buf a = Some (Some sz)"
    "Client_GetObject_buffer L cu mem e buf a c = Some (Inr r, c')"
  shows "(\<exists>w q. moved (fst (http_execute (\<lambda>_. fst (ce_send e w (call_of q))) q ())))
    \<or> (\<exists>w call w0. let x = fst (ce_send e w call) in
        x_failure x = None \<and> 200 \<le> x_status x \<and> x_status x \<le> 299
        \<and> cl_world c' = hm_store mem buf (take (unat sz) (concat (x_chunks x))) w0)"
proof -
  from assms(3,4) obtain region c1 where
    "(case registered L buf sz (rdmaGetWithRetry L e buf sz (buffer_offset a)) (object_ctx a region) c1 of
       None \<Rightarrow> None
     | Some (n, x, c) \<Rightarrow> if 0 < n then Some (Inr Response_new, c)
         else http_into_buffer L cu mem e buf sz (fallback_get_args a region (buffer_offset a) sz) c) = Some (Inr r, c')"
    by (auto simp: Client_GetObject_buffer_def get_buffer_def in_region_def check_Inr and_then_Inr)
  then obtain n x c2 where reg: "registered L buf sz (rdmaGetWithRetry L e buf sz (buffer_offset a)) (object_ctx a region) c1
      = Some (n, x, c2)"
    and rest: "if 0 < n then c' = c2
      else http_into_buffer L cu mem e buf sz (fallback_get_args a region (buffer_offset a) sz) c2 = Some (Inr r, c')"
    by (auto split: option.splits if_splits)
  show ?thesis
  proof (cases "0 < n")
    case True
    then show ?thesis using registered_moved [OF reg] by blast
  next
    case False
    with rest have "http_into_buffer L cu mem e buf sz (fallback_get_args a region (buffer_offset a) sz) c2 = Some (Inr r, c')"
      by simp
    from http_into_buffer_stores [OF assms(1,2) this] show ?thesis by blast
  qed
qed

text \<open>Memory for one buffer behind the answers to come.\<close>

definition demo_sink :: "string list host_memory" where
  "demo_sink = \<lparr>hm_load = (\<lambda>_ _ _. []), hm_store = (\<lambda>_ s w. w @ [s])\<rparr>"

definition demo_get_buffer :: "unit get_object_args" where
  "demo_get_buffer = \<lparr>a_extra_headers = mm_empty, a_extra_query_params = mm_empty, a_bucket = ''my-bucket'',
     a_region = ''us-east-1'', a_object = ''o'', a_version_id = [], a_ssec = None, a_offset = Some 2, a_length = None,
     a_match_etag = [], a_not_match_etag = [], a_modified_since = utc_default, a_unmodified_since = utc_default,
     a_datafunc = None, a_buf = Some (Some 3)\<rparr>"

theorem buffer_download_has_one_source_witness:
  "\<exists>r. Client_GetObject_buffer (demo_rdma\<lparr>rl_handle := False\<rparr>) demo_no_cuda demo_sink demo_bodies 4096 demo_get_buffer
       (demo_client [''hello'']) = Some (Inr r, demo_client [''hel''])
     \<and> ((\<exists>w q. moved (fst (http_execute (\<lambda>_. fst (ce_send demo_bodies w (call_of q))) q ())))
        \<or> (\<exists>w call w0. [''hel''] = hm_store demo_sink 4096
              (take (unat (3 :: u64)) (concat (x_chunks (fst (ce_send demo_bodies w call))))) w0))"
proof -
  let ?L = "demo_rdma\<lparr>rl_handle := False\<rparr> :: string list rdma_lib"
  let ?t = "fallback_get_args demo_get_buffer ''us-east-1'' 2 3"
  have a: "a_bucket demo_get_buffer = ''my-bucket''" "a_object demo_get_buffer = ''o''" "a_region demo_get_buffer = ''us-east-1''"
    "a_buf demo_get_buffer = Some (Some 3)" "a_datafunc demo_get_buffer = None" "a_offset demo_get_buffer = Some 2"
    by (simp_all add: demo_get_buffer_def)
  have valid: "GetObjectArgs_Validate demo_get_buffer = SUCCESS"
    using demo_object_valid [OF a(1,2)] by (simp only: GetObjectArgs_Validate_def a err_then_def) simp
  have t: "a_bucket ?t = ''my-bucket''" "a_object ?t = ''o''" "a_region ?t = ''us-east-1''" "a_ssec ?t = None"
    "a_datafunc ?t \<noteq> None" "a_buf ?t = None"
    by (simp_all add: fallback_get_args_def a)
  have tvalid: "GetObjectArgs_Validate ?t = SUCCESS"
    using demo_object_valid [OF t(1,2)] t(5,6) by (simp only: GetObjectArgs_Validate_def err_then_def) simp
  let ?q = "get_object_request 0 ?t ''us-east-1''"
  have "q_bucket_name ?q = ''my-bucket''"
    by (simp add: get_object_request_def version_request_def fallback_get_args_def with_headers_def object_request_def
        bucket_request_def Request_new_def a)
  then obtain r q where get: "Execute demo_bodies ?q [] (demo_client [''hello'']) = Some (Inr r, q, ''hello'', demo_client [])"
    using demo_get [of ?q "''hello''" "[]"] by auto
  have tz: "timezone (ce_crypto demo_bodies) = 0" by (simp add: demo_bodies_def)
  have "GetObject demo_bodies ?t [] (demo_client [''hello'']) = Some (Inr r, ''hello'', demo_client [])"
    using get by (simp add: GetObject_def stream_call_def tvalid check_def check_ssec_def with_client_def t tz GetRegion_def ret_def)
  moreover have host: "\<not> IsDeviceBuffer ?L 4096" by (simp add: IsDeviceBuffer_def demo_rdma_def)
  moreover have "buffer_offset demo_get_buffer = 2" by (simp add: buffer_offset_def a)
  ultimately have run: "Client_GetObject_buffer ?L demo_no_cuda demo_sink demo_bodies 4096 demo_get_buffer
      (demo_client [''hello'']) = Some (Inr r, demo_client [''hel''])"
    by (simp add: Client_GetObject_buffer_def check_def valid a get_buffer_def demo_region registered_def Register_def
        demo_client_world http_into_buffer_def demo_sink_def)
  from buffer_download_has_one_source [OF demo_named host a(4) run] show ?thesis
    using run unfolding Let_def demo_client_world by blast
qed

text \<open>C26: whichever calls of the CUDA driver fail, every context that is borrowed for a copy is released as
  often as it was retained.\<close>

theorem contexts_are_given_back:
  assumes "on_device (counted_cuda cu) buf err copy c = Some (r, c')" "\<forall>w. snd (snd (copy w)) = snd w"
  shows "held (snd (cl_world c')) n = held (snd (cl_world c)) n"
proof -
  obtain sc w where new: "ScopedCudaContext_new (counted_cuda cu) buf (cl_world c) = (sc, w)"
    by (cases "ScopedCudaContext_new (counted_cuda cu) buf (cl_world c)")
  define w1 where "w1 = snd (if cs_ok sc then copy w else (Inl err, w))"
  have "c' = c\<lparr>cl_world := ScopedCudaContext_delete (counted_cuda cu) sc w1\<rparr>"
    using assms(1) by (simp add: on_device_def new w1_def case_prod_beta)
  moreover have "snd w1 = snd w" using assms(2) by (simp add: w1_def del: split_paired_All)
  ultimately show ?thesis
    using scope_holds [OF new, of n] scope_gives_back [of cu sc w1 n] by simp
qed

text \<open>A driver with two devices, whose world is the current context of the thread; the buffer is on the second.
  The context of device \<open>n\<close> is \<open>n + 1\<close>; that of a device in \<open>broken\<close> cannot be retained.\<close>

definition demo_driver :: "int set \<Rightarrow> u64 cuda_lib" where
  "demo_driver broken = \<lparr>cu_loaded = True, cu_ctx_get = (\<lambda>w. (Some w, w)), cu_ctx_set = (\<lambda>ctx w. (True, ctx)),
     cu_ctx_retain = (\<lambda>n w. (if n \<in> broken then None else Some (word_of_int (n + 1)), w)),
     cu_ctx_release = (\<lambda>_ w. (True, w)), cu_ptr_ordinal = (\<lambda>_ w. (Some 1, w)),
     cu_dtoh = (\<lambda>_ n w. (Some (replicate (unat n) (CHR ''x'')), w)), cu_htod = (\<lambda>_ _ w. (True, w))\<rparr>"

theorem contexts_are_given_back_witness:
  "\<exists>evs. on_device (counted_cuda (demo_driver {})) 4096 ''none'' (\<lambda>w. (Inr (), w)) (demo_client (0, []))
      = Some (Inr (), demo_client (0, evs)) \<and> evs = [Retained 0, Retained 1, Released 0, Released 1]
    \<and> held evs 0 = 0 \<and> held evs 1 = 0"
proof -
  let ?evs = "[Retained 0, Retained 1, Released 0, Released 1]"
  have run: "on_device (counted_cuda (demo_driver {})) 4096 ''none'' (\<lambda>w. (Inr (), w)) (demo_client (0, []))
      = Some (Inr (), demo_client (0, ?evs))"
    by (simp add: on_device_def demo_client_world ScopedCudaContext_new_def ScopedCudaContext_delete_def cuda_Retain_def
        cuda_Release_def counted_cuda_def traced_cuda_def demo_driver_def Let_def)
  from contexts_are_given_back [OF run, of 0] contexts_are_given_back [OF run, of 1] run show ?thesis
    by (simp add: demo_client_world)
qed

text \<open>The thread is not put back the way it was found: when the context of the buffer's device cannot be
  retained, that of device 0 stays the current one, and it is released.\<close>

lemma context_left_behind:
  "on_device (counted_cuda (demo_driver {1})) 4096 ''none'' copy (demo_client (0, []))
     = Some (Inl ''none'', demo_client (1, [Retained 0, Released 0]))"
  by (simp add: on_device_def demo_client_world ScopedCudaContext_new_def ScopedCudaContext_delete_def cuda_Retain_def
      cuda_Release_def counted_cuda_def traced_cuda_def demo_driver_def Let_def)

end
